(* ===== verification/Prelude.thy ===== *)
theory Prelude
  imports Complex_Main "HOL-Library.AList" "HOL-Library.Product_Lexorder" "HOL-Library.Multiset"
begin

text \<open>
  Shared vocabulary of the development.

  \<^item> \<^bold>\<open>Go integers.\<close> An \<open>int64\<close> (and Go's 64-bit \<open>int\<close>) is an \<open>int\<close>; \<open>i64\<close> writes the
    two's-complement wrap-around out where a computation could leave the range, and
    \<open>go_div\<close>/\<open>go_mod\<close> are Go's division truncating towards zero.
  \<^item> \<^bold>\<open>Go time.\<close> A \<open>time.Time\<close> is its instant in nanoseconds since the zero \<open>Time\<close>
    (January 1, year 1, UTC), so \<open>IsZero\<close> is \<open>t = 0\<close>; a \<open>time.Duration\<close> is an \<open>int64\<close> of
    nanoseconds and \<open>Time.Sub\<close> saturates exactly as the standard library does.
  \<^item> \<^bold>\<open>Go maps.\<close> A map is an association list with distinct keys (\<open>gm_wf\<close>): \<open>map_of\<close> looks up,
    \<open>AList.update\<close> stores, \<open>AList.delete\<close> deletes, \<open>length\<close> is \<open>len\<close>. The order in which a
    \<open>range\<close> loop visits a map is not determined in Go; a loop whose result can depend on it
    takes a key sequence \<open>ord\<close> as an argument and visits the keys in the order \<open>range_keys ord m\<close>;
    every permutation of the keys is such an order, and the theorems hold for every \<open>ord\<close>.
\<close>

section \<open>Collections of the development\<close>

named_theorems go_num \<open>arithmetic of Go integers, durations and times\<close>
named_theorems gmap \<open>Go maps as association lists\<close>
named_theorems limiter_defs \<open>definitions unfolded by the limiter proofs\<close>

section \<open>Integers\<close>

type_synonym int64 = int
type_synonym duration = int
type_synonym gotime = int

definition max_int64 :: int where
  "max_int64 = 9223372036854775807"

definition min_int64 :: int where
  "min_int64 = - 9223372036854775808"

definition in_i64 :: "int \<Rightarrow> bool" where
  "in_i64 x \<longleftrightarrow> min_int64 \<le> x \<and> x \<le> max_int64"

definition i64 :: "int \<Rightarrow> int" where
  "i64 x = (x + 9223372036854775808) mod 18446744073709551616 - 9223372036854775808"

lemma i64_id [simp, go_num]: "in_i64 x \<Longrightarrow> i64 x = x"
  by (simp add: i64_def in_i64_def min_int64_def max_int64_def)

lemma in_i64_i64 [simp]: "in_i64 (i64 x)"
proof -
  have "0 \<le> (x + 9223372036854775808) mod 18446744073709551616"
    and "(x + 9223372036854775808) mod 18446744073709551616 < (18446744073709551616::int)"
    by simp_all
  then show ?thesis
    by (simp add: i64_def in_i64_def min_int64_def max_int64_def)
qed

lemma in_i64_between: "in_i64 a \<Longrightarrow> in_i64 b \<Longrightarrow> a \<le> x \<Longrightarrow> x \<le> b \<Longrightarrow> in_i64 x"
  by (simp add: in_i64_def)

definition go_div :: "int \<Rightarrow> int \<Rightarrow> int" where
  "go_div a b = sgn a * sgn b * (\<bar>a\<bar> div \<bar>b\<bar>)"

definition go_mod :: "int \<Rightarrow> int \<Rightarrow> int" where
  "go_mod a b = a - go_div a b * b"

lemma go_div_nonneg [simp, go_num]: "0 \<le> a \<Longrightarrow> 0 < b \<Longrightarrow> go_div a b = a div b"
  by (cases "a = 0") (simp_all add: go_div_def)

lemma go_mod_nonneg [simp, go_num]: "0 \<le> a \<Longrightarrow> 0 < b \<Longrightarrow> go_mod a b = a mod b"
  by (simp add: go_mod_def minus_div_mult_eq_mod)

section \<open>Time\<close>

definition sat64 :: "int \<Rightarrow> int" where
  "sat64 x = max min_int64 (min max_int64 x)"

lemma sat64_id [simp, go_num]: "in_i64 x \<Longrightarrow> sat64 x = x"
  by (simp add: sat64_def in_i64_def)

lemma sat64_mono: "x \<le> y \<Longrightarrow> sat64 x \<le> sat64 y"
  by (auto simp: sat64_def)

definition time_is_zero :: "gotime \<Rightarrow> bool" where
  "time_is_zero t \<longleftrightarrow> t = 0"

definition time_sub :: "gotime \<Rightarrow> gotime \<Rightarrow> duration" where
  "time_sub a b = sat64 (a - b)"

definition unix_epoch :: gotime where
  "unix_epoch = 62135596800000000000"

definition unix_milli :: "gotime \<Rightarrow> int" where
  "unix_milli t = (t - unix_epoch) div 1000000"

abbreviation second :: duration where "second \<equiv> 1000000000"
abbreviation minute :: duration where "minute \<equiv> 60000000000"
abbreviation millisecond :: duration where "millisecond \<equiv> 1000000"

lemma time_sub_gt_iff:
  "min_int64 \<le> d \<Longrightarrow> d < max_int64 \<Longrightarrow> d < time_sub a b \<longleftrightarrow> d < a - b"
  by (auto simp: time_sub_def sat64_def min_int64_def max_int64_def)

lemma time_sub_le_iff:
  "min_int64 \<le> d \<Longrightarrow> d < max_int64 \<Longrightarrow> time_sub a b \<le> d \<longleftrightarrow> a - b \<le> d"
  by (auto simp: time_sub_def sat64_def min_int64_def max_int64_def)

lemma unix_milli_mono: "s \<le> t \<Longrightarrow> unix_milli s \<le> unix_milli t"
  by (simp add: unix_milli_def zdiv_mono1)

section \<open>Go maps\<close>

type_synonym ('k, 'v) gomap = "('k \<times> 'v) list"

definition gm_wf :: "('k, 'v) gomap \<Rightarrow> bool" where
  "gm_wf m \<longleftrightarrow> distinct (map fst m)"

abbreviation gm_keys :: "('k, 'v) gomap \<Rightarrow> 'k set" where
  "gm_keys m \<equiv> fst ` set m"

definition gm_val :: "('k, int) gomap \<Rightarrow> 'k \<Rightarrow> int" where
  \<comment> \<open>reading a missing key of a \<open>map[K]int64\<close> gives the zero value\<close>
  "gm_val m k = (case map_of m k of None \<Rightarrow> 0 | Some v \<Rightarrow> v)"

lemma gm_wf_Nil [simp, gmap]: "gm_wf []"
  by (simp add: gm_wf_def)

lemma gm_wf_update [simp, gmap]: "gm_wf m \<Longrightarrow> gm_wf (AList.update k v m)"
  by (simp add: gm_wf_def distinct_update)

lemma gm_wf_delete [simp, gmap]: "gm_wf m \<Longrightarrow> gm_wf (AList.delete k m)"
  by (simp add: gm_wf_def distinct_delete)

lemma gm_wf_filter [simp, gmap]: "gm_wf m \<Longrightarrow> gm_wf (filter P m)"
  by (simp add: gm_wf_def distinct_map_filter)

lemma map_of_update [simp, gmap]: "map_of (AList.update k v m) = (map_of m)(k \<mapsto> v)"
  by (rule update_conv')

lemma map_of_delete [simp, gmap]: "map_of (AList.delete k m) = (map_of m)(k := None)"
  by (rule delete_conv')

lemma map_of_eq_None_keys [gmap]: "map_of m k = None \<longleftrightarrow> k \<notin> gm_keys m"
  by (rule map_of_eq_None_iff)

lemma map_of_Some_key: "map_of m k = Some v \<Longrightarrow> k \<in> gm_keys m"
  by (metis map_of_eq_None_keys option.distinct(1))

lemma gm_keys_update [simp, gmap]: "gm_keys (AList.update k v m) = insert k (gm_keys m)"
  by (simp add: dom_update)

lemma set_gm_delete: "set (AList.delete k m) = {p \<in> set m. fst p \<noteq> k}"
  by (auto simp: AList.delete_eq)

lemma gm_keys_delete [simp, gmap]: "gm_keys (AList.delete k m) = gm_keys m - {k}"
  by (auto simp: set_gm_delete)

lemma length_gm: "gm_wf m \<Longrightarrow> length m = card (gm_keys m)"
  by (metis gm_wf_def distinct_card length_map set_map)

lemma length_update [gmap]:
  "length (AList.update k v m) = (if k \<in> gm_keys m then length m else Suc (length m))"
  by (induction m) auto

declare length_delete_le [simp]

lemma length_delete_key [gmap]:
  "gm_wf m \<Longrightarrow> k \<in> gm_keys m \<Longrightarrow> length (AList.delete k m) = length m - 1"
  by (simp add: length_gm)

lemma map_of_filter [gmap]:
  assumes "gm_wf m"
  shows "map_of (filter P m) k =
    (case map_of m k of None \<Rightarrow> None | Some v \<Rightarrow> if P (k, v) then Some v else None)"
  using assms
proof (induction m)
  case Nil
  then show ?case by simp
next
  case (Cons a m)
  obtain k' v' where a: "a = (k', v')" by (cases a)
  have "k' = k \<Longrightarrow> map_of m k = None"
    using Cons.prems a by (auto simp: gm_wf_def map_of_eq_None_iff)
  with Cons a show ?case by (auto simp: gm_wf_def)
qed

lemma map_of_set: "gm_wf m \<Longrightarrow> map_of m k = Some v \<longleftrightarrow> (k, v) \<in> set m"
  by (simp add: gm_wf_def)

lemma set_update_wf:
  "gm_wf m \<Longrightarrow> set (AList.update k v m) = insert (k, v) {p \<in> set m. fst p \<noteq> k}"
  by (induction m) (auto simp: gm_wf_def image_iff)

lemma gm_val_update [simp, gmap]: "gm_val (AList.update k v m) k' = (if k' = k then v else gm_val m k')"
  by (simp add: gm_val_def)

definition range_keys :: "'k list \<Rightarrow> ('k, 'v) gomap \<Rightarrow> 'k list" where
  \<comment> \<open>the visiting order of a \<open>range\<close> loop: the preference \<open>ord\<close> first, so that every permutation of the
    keys arises for some \<open>ord\<close>\<close>
  "range_keys ord m = filter (\<lambda>k. map_of m k \<noteq> None) (remdups ord) @ filter (\<lambda>k. k \<notin> set ord) (map fst m)"

lemma set_range_keys [simp]: "set (range_keys ord m) = gm_keys m"
  by (auto simp: range_keys_def map_of_eq_None_iff)

lemma distinct_range_keys [simp]: "gm_wf m \<Longrightarrow> distinct (range_keys ord m)"
  by (auto simp: range_keys_def gm_wf_def)

section \<open>Errors as values\<close>

text \<open>A Go result \<open>(T, error)\<close> is \<open>Inr v\<close> when the error is nil and \<open>Inl e\<close> otherwise. The errors of
  the RPC layer carry the code and the message the source gives them.\<close>

datatype connect_error =
    InvalidArgument string
  | FailedPrecondition string
  | ResourceExhausted string
  | Internal string

type_synonym 'a result = "connect_error + 'a"

fun ebind :: "'e + 'a \<Rightarrow> ('a \<Rightarrow> 'e + 'b) \<Rightarrow> 'e + 'b" where
  "ebind (Inl e) f = Inl e"
| "ebind (Inr a) f = f a"

definition reject_if :: "bool \<Rightarrow> 'e \<Rightarrow> 'e + 'b \<Rightarrow> 'e + 'b" where
  \<comment> \<open>the guard \<open>if c { return err }\<close> in front of the rest of a function\<close>
  "reject_if c e rest = (if c then Inl e else rest)"

lemma ebind_Inr [simp]: "ebind x f = Inr y \<longleftrightarrow> (\<exists>a. x = Inr a \<and> f a = Inr y)"
  by (cases x) auto

lemma ebind_Inl: "ebind x f = Inl e \<longleftrightarrow> x = Inl e \<or> (\<exists>a. x = Inr a \<and> f a = Inl e)"
  by (cases x) auto

lemma reject_if_Inr [simp]: "reject_if c e rest = Inr y \<longleftrightarrow> \<not> c \<and> rest = Inr y"
  by (simp add: reject_if_def)

section \<open>Stable sorting by a key\<close>

text \<open>\<open>sort.SliceStable\<close> and \<open>slices.SortStableFunc\<close> on a total order are the stable sort of the
  library; these are the facts the users need.\<close>

lemma sort_key_Nil_iff [simp]: "sort_key f xs = [] \<longleftrightarrow> xs = []"
  by (metis set_empty set_sort)

end
