(* ===== verification/LoadBalancer.thy ===== *)
theory LoadBalancer
  imports Prelude "HOL-Library.Word"
begin

text \<open>
  The load balancer (\<open>internal/server/load_balancer.go\<close>): the registry of selector states per
  route, target and target agent, and the six selection policies. The source writes each policy
  twice, for agent candidates and for route-target candidates; here each is one function over a
  \<^emph>\<open>view\<close> (the four numbers a policy reads of a candidate) and the two source functions are
  its instances. Random draws are arguments: \<open>rng n\<close> is the value the next call of
  \<open>rand.Intn\<close> or \<open>rand.Int63n\<close> returns for the bound \<open>n\<close>.
\<close>

section \<open>Data\<close>

record AgentConn =
  conn_id :: int
  conn_ActiveRequests :: int

record backendAgentCandidate =
  ba_Conn :: AgentConn
  ba_AgentID :: int
  ba_Position :: int
  ba_Weight :: int

record 't routeTargetCandidate =
  rt_Target :: 't
  rt_TargetID :: int
  rt_Position :: int
  rt_Weight :: int
  rt_ActiveRequests :: int

record backendSelectorState =
  roundRobin :: "64 word"
  smooth :: "(int, int) gomap"

record loadBalancerRegistry =
  states :: "(int, backendSelectorState) gomap"
  targetAgentStates :: "(int, backendSelectorState) gomap"
  routeStates :: "(int, backendSelectorState) gomap"

text \<open>What the load balancer reads of the public snapshot: the ids of its route targets and the
  route ids of every listener.\<close>

record lb_snapshot =
  snap_RouteTargets :: "int list"
  snap_RoutesByListener :: "(int, int list) gomap"

record 'c candidate_view =
  cv_id :: "'c \<Rightarrow> int"
  cv_position :: "'c \<Rightarrow> int"
  cv_weight :: "'c \<Rightarrow> int"
  cv_active :: "'c \<Rightarrow> int"

definition agent_view :: "backendAgentCandidate candidate_view" where
  "agent_view = \<lparr>cv_id = ba_AgentID, cv_position = ba_Position, cv_weight = ba_Weight,
     cv_active = (\<lambda>c. conn_ActiveRequests (ba_Conn c))\<rparr>"

definition target_view :: "'t routeTargetCandidate candidate_view" where
  "target_view = \<lparr>cv_id = rt_TargetID, cv_position = rt_Position, cv_weight = rt_Weight,
     cv_active = rt_ActiveRequests\<rparr>"

section \<open>Policies\<close>

definition newLoadBalancerRegistry :: loadBalancerRegistry where
  "newLoadBalancerRegistry = \<lparr>states = [], targetAgentStates = [], routeStates = []\<rparr>"

definition newSelectorState :: backendSelectorState where
  "newSelectorState = \<lparr>roundRobin = 0, smooth = []\<rparr>"

definition normalizedWeight :: "int \<Rightarrow> int" where
  "normalizedWeight weight =
     (if weight < 1 then 1 else if weight > 1000 then 1000 else weight)"

definition rr_pick :: "backendSelectorState \<Rightarrow> 'c list \<Rightarrow> 'c \<times> backendSelectorState" where
  "rr_pick s candidates =
     (candidates ! (unat (roundRobin s) mod length candidates),
      s\<lparr>roundRobin := roundRobin s + 1\<rparr>)"

fun wrr_scan :: "'c candidate_view \<Rightarrow> 'c list \<Rightarrow> (int, int) gomap \<Rightarrow> int \<Rightarrow> 'c option
    \<Rightarrow> (int, int) gomap \<times> int \<times> 'c option" where
  "wrr_scan V [] sm tot best = (sm, tot, best)"
| "wrr_scan V (c # cs) sm tot best =
     (let weight = normalizedWeight (cv_weight V c);
          tot' = i64 (tot + weight);
          current = i64 (gm_val sm (cv_id V c) + weight);
          sm' = AList.update (cv_id V c) current sm;
          better = (case best of
              None \<Rightarrow> True
            | Some b \<Rightarrow> current > gm_val sm' (cv_id V b) \<or>
                (current = gm_val sm' (cv_id V b) \<and> cv_position V c < cv_position V b))
      in wrr_scan V cs sm' tot' (if better then Some c else best))"

definition wrr_pick :: "'c candidate_view \<Rightarrow> backendSelectorState \<Rightarrow> 'c list
    \<Rightarrow> 'c option \<times> backendSelectorState" where
  "wrr_pick V s candidates =
     (case wrr_scan V candidates (smooth s) 0 None of
        (sm, tot, best) \<Rightarrow>
          let active = map (cv_id V) candidates;
              kept = filter (\<lambda>p. List.member active (fst p)) sm
          in (case best of
                None \<Rightarrow> (None, s\<lparr>smooth := kept\<rparr>)
              | Some b \<Rightarrow> (Some b, s\<lparr>smooth :=
                  AList.update (cv_id V b) (i64 (gm_val kept (cv_id V b) - tot)) kept\<rparr>)))"

definition compare_active :: "'c candidate_view \<Rightarrow> 'c \<Rightarrow> 'c \<Rightarrow> bool \<Rightarrow> int" where
  "compare_active V a b weighted =
     (let left = (if weighted then i64 (cv_active V a * normalizedWeight (cv_weight V b))
                  else cv_active V a);
          right = (if weighted then i64 (cv_active V b * normalizedWeight (cv_weight V a))
                   else cv_active V b)
      in if left < right then - 1 else if left > right then 1 else 0)"

fun tied_scan :: "'c candidate_view \<Rightarrow> bool \<Rightarrow> 'c list \<Rightarrow> 'c \<Rightarrow> 'c list \<Rightarrow> 'c \<times> 'c list" where
  "tied_scan V weighted [] best tied = (best, tied)"
| "tied_scan V weighted (c # cs) best tied =
     (let cmp = compare_active V c best weighted
      in if cmp < 0 then tied_scan V weighted cs c [c]
         else if cmp = 0 then tied_scan V weighted cs best (tied @ [c])
         else tied_scan V weighted cs best tied)"

definition least_active :: "'c candidate_view \<Rightarrow> backendSelectorState \<Rightarrow> 'c list \<Rightarrow> bool
    \<Rightarrow> 'c option \<times> backendSelectorState" where
  "least_active V s candidates weighted =
     (case candidates of
        [] \<Rightarrow> (None, s)
      | c # _ \<Rightarrow>
          (case tied_scan V weighted candidates c [] of
             (best, tied) \<Rightarrow>
               if tied = [] then (Some best, s)
               else if weighted then wrr_pick V s tied
               else apfst Some (rr_pick s tied)))"

fun total_weight :: "'c candidate_view \<Rightarrow> 'c list \<Rightarrow> int \<Rightarrow> int" where
  "total_weight V [] tot = tot"
| "total_weight V (c # cs) tot = total_weight V cs (i64 (tot + normalizedWeight (cv_weight V c)))"

fun draw_scan :: "'c candidate_view \<Rightarrow> 'c list \<Rightarrow> int \<Rightarrow> 'c option" where
  "draw_scan V [] pick = None"
| "draw_scan V (c # cs) pick =
     (let pick' = i64 (pick - normalizedWeight (cv_weight V c))
      in if pick' < 0 then Some c else draw_scan V cs pick')"

definition weighted_random :: "'c candidate_view \<Rightarrow> (int \<Rightarrow> int) \<Rightarrow> 'c list \<Rightarrow> 'c" where
  "weighted_random V rng candidates =
     (let tot = total_weight V candidates 0
      in if tot \<le> 0 then candidates ! nat (rng (int (length candidates)))
         else (case draw_scan V candidates (rng tot) of
                 Some c \<Rightarrow> c
               | None \<Rightarrow> candidates ! (length candidates - 1)))"

section \<open>The source's functions\<close>

definition roundRobinPick :: "backendSelectorState \<Rightarrow> backendAgentCandidate list
    \<Rightarrow> backendAgentCandidate \<times> backendSelectorState" where
  "roundRobinPick = rr_pick"

definition roundRobinTargetPick :: "backendSelectorState \<Rightarrow> 't routeTargetCandidate list
    \<Rightarrow> 't routeTargetCandidate \<times> backendSelectorState" where
  "roundRobinTargetPick = rr_pick"

definition weightedRoundRobin :: "backendSelectorState \<Rightarrow> backendAgentCandidate list
    \<Rightarrow> backendAgentCandidate option \<times> backendSelectorState" where
  "weightedRoundRobin = wrr_pick agent_view"

definition weightedTargetRoundRobin :: "backendSelectorState \<Rightarrow> 't routeTargetCandidate list
    \<Rightarrow> 't routeTargetCandidate option \<times> backendSelectorState" where
  "weightedTargetRoundRobin = wrr_pick target_view"

definition compareActive :: "backendAgentCandidate \<Rightarrow> backendAgentCandidate \<Rightarrow> bool \<Rightarrow> int" where
  "compareActive = compare_active agent_view"

definition compareTargetActive ::
    "'t routeTargetCandidate \<Rightarrow> 't routeTargetCandidate \<Rightarrow> bool \<Rightarrow> int" where
  "compareTargetActive = compare_active target_view"

definition leastActive :: "backendSelectorState \<Rightarrow> backendAgentCandidate list \<Rightarrow> bool
    \<Rightarrow> backendAgentCandidate option \<times> backendSelectorState" where
  "leastActive = least_active agent_view"

definition leastActiveTarget :: "backendSelectorState \<Rightarrow> 't routeTargetCandidate list \<Rightarrow> bool
    \<Rightarrow> 't routeTargetCandidate option \<times> backendSelectorState" where
  "leastActiveTarget = least_active target_view"

definition weightedRandom :: "(int \<Rightarrow> int) \<Rightarrow> backendAgentCandidate list \<Rightarrow> backendAgentCandidate" where
  "weightedRandom = weighted_random agent_view"

definition weightedRandomTarget ::
    "(int \<Rightarrow> int) \<Rightarrow> 't routeTargetCandidate list \<Rightarrow> 't routeTargetCandidate" where
  "weightedRandomTarget = weighted_random target_view"

text \<open>The switch shared by the three selection functions: the policy string picks the routine;
  unknown strings and \<open>round_robin\<close> fall to the default branch.\<close>

definition select_policy :: "'c candidate_view \<Rightarrow> (int \<Rightarrow> int) \<Rightarrow> string \<Rightarrow> backendSelectorState
    \<Rightarrow> 'c list \<Rightarrow> 'c option \<times> backendSelectorState" where
  "select_policy V rng policy s candidates =
     (if policy = ''random'' then (Some (candidates ! nat (rng (int (length candidates)))), s)
      else if policy = ''weighted_random'' then (Some (weighted_random V rng candidates), s)
      else if policy = ''least_active_requests'' then least_active V s candidates False
      else if policy = ''weighted_least_active_requests'' then least_active V s candidates True
      else if policy = ''weighted_round_robin'' then wrr_pick V s candidates
      else apfst Some (rr_pick s candidates))"

definition selector_state :: "(int, backendSelectorState) gomap \<Rightarrow> int \<Rightarrow> backendSelectorState" where
  "selector_state m k = (case map_of m k of None \<Rightarrow> newSelectorState | Some s \<Rightarrow> s)"

definition selectTargetAgent :: "(int \<Rightarrow> int) \<Rightarrow> loadBalancerRegistry \<Rightarrow> int \<Rightarrow> string
    \<Rightarrow> backendAgentCandidate list \<Rightarrow> AgentConn option \<times> loadBalancerRegistry" where
  "selectTargetAgent rng r target_ID agentLoadBalancing candidates =
     (if candidates = [] then (None, r)
      else
        let sorted = sort_key (\<lambda>c. (ba_Position c, ba_AgentID c)) candidates;
            s = selector_state (targetAgentStates r) target_ID
        in (case select_policy agent_view rng agentLoadBalancing s sorted of
              (pick, s') \<Rightarrow> (map_option ba_Conn pick,
                 r\<lparr>targetAgentStates := AList.update target_ID s' (targetAgentStates r)\<rparr>)))"

definition selectAgent :: "(int \<Rightarrow> int) \<Rightarrow> loadBalancerRegistry \<Rightarrow> int \<Rightarrow> string
    \<Rightarrow> backendAgentCandidate list \<Rightarrow> AgentConn option \<times> loadBalancerRegistry" where
  "selectAgent rng r backend_ID loadBalancing candidates =
     (if candidates = [] then (None, r)
      else
        let sorted = sort_key (\<lambda>c. (ba_Position c, ba_AgentID c)) candidates;
            s = selector_state (states r) backend_ID
        in (case select_policy agent_view rng loadBalancing s sorted of
              (pick, s') \<Rightarrow> (map_option ba_Conn pick,
                 r\<lparr>states := AList.update backend_ID s' (states r)\<rparr>)))"

definition selectRouteTarget :: "(int \<Rightarrow> int) \<Rightarrow> loadBalancerRegistry \<Rightarrow> int \<Rightarrow> string
    \<Rightarrow> 't routeTargetCandidate list \<Rightarrow> 't routeTargetCandidate option \<times> loadBalancerRegistry" where
  "selectRouteTarget rng r route_ID targetLoadBalancing candidates =
     (if candidates = [] then (None, r)
      else
        let sorted = sort_key (\<lambda>c. (rt_Position c, rt_TargetID c)) candidates;
            s = selector_state (routeStates r) route_ID
        in (case select_policy target_view rng targetLoadBalancing s sorted of
              (pick, s') \<Rightarrow> (pick,
                 r\<lparr>routeStates := AList.update route_ID s' (routeStates r)\<rparr>)))"

definition reconcile :: "loadBalancerRegistry \<Rightarrow> lb_snapshot option \<Rightarrow> loadBalancerRegistry" where
  "reconcile r snap =
     (case snap of
        None \<Rightarrow> \<lparr>states = [], targetAgentStates = [], routeStates = []\<rparr>
      | Some sn \<Rightarrow>
          let activeRoutes = concat (map snd (snap_RoutesByListener sn))
          in r\<lparr>states := filter (\<lambda>p. List.member (snap_RouteTargets sn) (fst p)) (states r),
               targetAgentStates :=
                 filter (\<lambda>p. List.member (snap_RouteTargets sn) (fst p)) (targetAgentStates r),
               routeStates := filter (\<lambda>p. List.member activeRoutes (fst p)) (routeStates r)\<rparr>)"


section \<open>Arithmetic of weights\<close>

lemma normalizedWeight_bounds [simp]:
  "1 \<le> normalizedWeight w" "0 < normalizedWeight w" "0 \<le> normalizedWeight w"
  "normalizedWeight w \<le> 1000"
  by (simp_all add: normalizedWeight_def)

abbreviation cv_w :: "'c candidate_view \<Rightarrow> 'c \<Rightarrow> int" where
  "cv_w V c \<equiv> normalizedWeight (cv_weight V c)"

definition pool_weight :: "'c candidate_view \<Rightarrow> 'c list \<Rightarrow> int" where
  "pool_weight V cs = (\<Sum>c\<leftarrow>cs. cv_w V c)"

lemma pool_weight_simps [simp]:
  "pool_weight V [] = 0" "pool_weight V (c # cs) = cv_w V c + pool_weight V cs"
  by (simp_all add: pool_weight_def)

lemma pool_weight_ge: "int (length cs) \<le> pool_weight V cs"
  by (induction cs) (simp_all add: add_mono)

lemma pool_weight_nonneg [simp]: "0 \<le> pool_weight V cs"
  using pool_weight_ge [of cs V] by linarith

lemma pool_weight_pos: "cs \<noteq> [] \<Longrightarrow> 0 < pool_weight V cs"
  by (cases cs) (simp_all add: add_pos_nonneg)

lemma pool_weight_le: "pool_weight V cs \<le> 1000 * int (length cs)"
proof (induction cs)
  case (Cons c cs)
  have "cv_w V c \<le> 1000" by simp
  with Cons.IH have "cv_w V c + pool_weight V cs \<le> 1000 + 1000 * int (length cs)" by linarith
  then show ?case by simp
qed simp

lemma cv_w_le_pool: "c \<in> set cs \<Longrightarrow> cv_w V c \<le> pool_weight V cs"
proof (induction cs)
  case (Cons a cs)
  then show ?case by (auto intro: add_increasing add_increasing2)
qed simp

definition small :: int where
  \<comment> \<open>half the \<open>int64\<close> range: sums of two numbers below it cannot wrap\<close>
  "small = 4611686018427387904"

lemma small_add [go_num]: "\<bar>x\<bar> \<le> small \<Longrightarrow> \<bar>y\<bar> < small \<Longrightarrow> i64 (x + y) = x + y"
  by (rule i64_id) (simp add: small_def in_i64_def min_int64_def max_int64_def; linarith)

lemma small_weight [simp]: "normalizedWeight w < small"
  by (rule le_less_trans [OF normalizedWeight_bounds(4)]) (simp add: small_def)

section \<open>Smooth weighted round robin\<close>

definition id_weight :: "'c candidate_view \<Rightarrow> 'c list \<Rightarrow> int \<Rightarrow> int" where
  "id_weight V cs k = (\<Sum>c\<leftarrow>cs. if cv_id V c = k then cv_w V c else 0)"

lemma id_weight_simps [simp]:
  "id_weight V [] k = 0"
  "id_weight V (c # cs) k = (if cv_id V c = k then cv_w V c else 0) + id_weight V cs k"
  by (simp_all add: id_weight_def)

lemma id_weight_notin: "k \<notin> cv_id V ` set cs \<Longrightarrow> id_weight V cs k = 0"
  by (induction cs) auto

lemma id_weight_in:
  "distinct (map (cv_id V) cs) \<Longrightarrow> c \<in> set cs \<Longrightarrow> id_weight V cs (cv_id V c) = cv_w V c"
  by (induction cs) (auto simp: id_weight_notin image_iff)

lemma gm_wf_wrr_scan: "gm_wf sm \<Longrightarrow> gm_wf (fst (wrr_scan V cs sm tot best))"
  by (induction V cs sm tot best rule: wrr_scan.induct) (simp_all add: Let_def)

definition scan_best :: "'c candidate_view \<Rightarrow> (int, int) gomap \<Rightarrow> 'c \<Rightarrow> 'c option \<Rightarrow> 'c" where
  "scan_best V sm c best = (case best of None \<Rightarrow> c
     | Some b \<Rightarrow> if gm_val sm (cv_id V c) > gm_val sm (cv_id V b) \<or>
         (gm_val sm (cv_id V c) = gm_val sm (cv_id V b) \<and> cv_position V c < cv_position V b)
       then c else b)"

lemma scan_best_cases: "scan_best V sm c best = c \<or> best = Some (scan_best V sm c best)"
  by (auto simp: scan_best_def split: option.splits)

lemma scan_best_max:
  "x \<in> insert c (set_option best) \<Longrightarrow>
     gm_val sm (cv_id V x) \<le> gm_val sm (cv_id V (scan_best V sm c best))"
  by (auto simp: scan_best_def split: option.splits)

lemma wrr_scan_Cons:
  assumes "\<bar>gm_val sm (cv_id V c)\<bar> \<le> small" "\<bar>tot\<bar> \<le> small"
  shows "wrr_scan V (c # cs) sm tot best =
    (let sm' = AList.update (cv_id V c) (gm_val sm (cv_id V c) + cv_w V c) sm
     in wrr_scan V cs sm' (tot + cv_w V c) (Some (scan_best V sm' c best)))"
  using assms by (simp add: Let_def small_add scan_best_def split: option.split)

lemma wrr_scan_spec:
  assumes "distinct (map (cv_id V) cs)"
    and "\<forall>c\<in>set cs. \<bar>gm_val sm (cv_id V c)\<bar> \<le> small"
    and "0 \<le> tot" "tot + pool_weight V cs < small"
    and "\<forall>b. best = Some b \<longrightarrow> cv_id V b \<notin> cv_id V ` set cs"
    and "cs \<noteq> [] \<or> best \<noteq> None"
  shows "\<exists>sm' b. wrr_scan V cs sm tot best = (sm', tot + pool_weight V cs, Some b) \<and>
    (\<forall>k. gm_val sm' k = gm_val sm k + id_weight V cs k) \<and>
    (b \<in> set cs \<or> best = Some b) \<and>
    (\<forall>c\<in>set cs \<union> set_option best. gm_val sm' (cv_id V c) \<le> gm_val sm' (cv_id V b))"
  using assms
proof (induction cs arbitrary: sm tot best)
  case Nil
  then show ?case by auto
next
  case (Cons c cs)
  define sm1 where "sm1 = AList.update (cv_id V c) (gm_val sm (cv_id V c) + cv_w V c) sm"
  define b1 where "b1 = scan_best V sm1 c best"
  have val1: "gm_val sm1 k = gm_val sm k + (if cv_id V c = k then cv_w V c else 0)" for k
    by (simp add: sm1_def)
  have scan: "wrr_scan V (c # cs) sm tot best = wrr_scan V cs sm1 (tot + cv_w V c) (Some b1)"
  proof -
    have "\<bar>tot\<bar> \<le> small"
      using Cons.prems(3,4) pool_weight_nonneg [of V "c # cs"] by linarith
    then show ?thesis
      using Cons.prems(2) unfolding sm1_def b1_def by (subst wrr_scan_Cons) (simp_all add: Let_def)
  qed
  have b1_id: "cv_id V b1 \<notin> cv_id V ` set cs"
    using scan_best_cases [of V sm1 c best] Cons.prems(1,5) by (auto simp: b1_def)
  have "\<exists>sm' b. wrr_scan V cs sm1 (tot + cv_w V c) (Some b1) =
        (sm', tot + cv_w V c + pool_weight V cs, Some b) \<and>
      (\<forall>k. gm_val sm' k = gm_val sm1 k + id_weight V cs k) \<and>
      (b \<in> set cs \<or> Some b1 = Some b) \<and>
      (\<forall>c\<in>set cs \<union> set_option (Some b1). gm_val sm' (cv_id V c) \<le> gm_val sm' (cv_id V b))"
    by (rule Cons.IH) (use Cons.prems b1_id in \<open>auto simp: val1 add_nonneg_nonneg\<close>)
  then obtain sm' b where r: "wrr_scan V cs sm1 (tot + cv_w V c) (Some b1) =
        (sm', tot + pool_weight V (c # cs), Some b)"
      and v: "\<forall>k. gm_val sm' k = gm_val sm1 k + id_weight V cs k"
      and m: "b \<in> set cs \<or> b1 = b"
      and mx: "\<forall>x\<in>insert b1 (set cs). gm_val sm' (cv_id V x) \<le> gm_val sm' (cv_id V b)"
    by (auto simp: add.assoc)
  have old: "gm_val sm' (cv_id V x) \<le> gm_val sm' (cv_id V b)" if "x \<in> insert c (set_option best)" for x
  proof -
    have "cv_id V x \<notin> cv_id V ` set cs"
      using that Cons.prems(1,5) by auto
    then have "gm_val sm' (cv_id V x) \<le> gm_val sm' (cv_id V b1)"
      using scan_best_max [OF that, of sm1 V] b1_id by (simp add: v b1_def id_weight_notin)
    also have "\<dots> \<le> gm_val sm' (cv_id V b)" using mx by blast
    finally show ?thesis .
  qed
  show ?case
  proof (intro exI conjI)
    show "wrr_scan V (c # cs) sm tot best = (sm', tot + pool_weight V (c # cs), Some b)"
      by (simp only: scan r)
    show "\<forall>k. gm_val sm' k = gm_val sm k + id_weight V (c # cs) k"
      using v by (simp add: val1)
    show "b \<in> set (c # cs) \<or> best = Some b"
      using m scan_best_cases [of V sm1 c best] by (auto simp: b1_def)
    show "\<forall>x\<in>set (c # cs) \<union> set_option best. gm_val sm' (cv_id V x) \<le> gm_val sm' (cv_id V b)"
      using old mx by auto
  qed
qed

text \<open>The state between two picks over one candidate list: the smoothed values sum to zero and
  none has fallen to minus the total weight.\<close>

definition wrr_balanced :: "'c candidate_view \<Rightarrow> 'c list \<Rightarrow> backendSelectorState \<Rightarrow> bool" where
  "wrr_balanced V cs s \<longleftrightarrow> gm_wf (smooth s) \<and>
     (\<Sum>c\<leftarrow>cs. gm_val (smooth s) (cv_id V c)) = 0 \<and>
     (\<forall>c\<in>set cs. - pool_weight V cs < gm_val (smooth s) (cv_id V c))"

definition wrr_pool :: "'c candidate_view \<Rightarrow> 'c list \<Rightarrow> bool" where
  "wrr_pool V cs \<longleftrightarrow> cs \<noteq> [] \<and> distinct (map (cv_id V) cs) \<and> length cs \<le> 33554432"

lemma sum_list_upper:
  fixes f :: "'a \<Rightarrow> int"
  assumes "\<forall>x\<in>set xs. - B \<le> f x" "x \<in> set xs" "0 \<le> B"
  shows "f x \<le> sum_list (map f xs) + B * int (length xs)"
  using assms
proof (induction xs)
  case (Cons a xs)
  have low: "- (B * int (length xs)) \<le> sum_list (map f xs)" if "\<forall>x\<in>set xs. - B \<le> f x" for xs
    using that by (induction xs) (auto simp: algebra_simps)
  show ?case
  proof (cases "x = a")
    case True
    then show ?thesis using low [of xs] Cons.prems by (simp add: algebra_simps)
  next
    case False
    then show ?thesis using Cons by (auto simp: algebra_simps)
  qed
qed simp

lemma wrr_balanced_bound:
  assumes "wrr_balanced V cs s" "wrr_pool V cs" "c \<in> set cs"
  shows "\<bar>gm_val (smooth s) (cv_id V c)\<bar> \<le> small"
proof -
  let ?W = "pool_weight V cs" and ?n = "int (length cs)"
  have n: "0 \<le> ?n" "?n \<le> 33554432"
    using assms(2) by (simp_all add: wrr_pool_def)
  have W: "0 \<le> ?W" "?W \<le> 1000 * 33554432"
    using pool_weight_le [of V cs] n by simp_all
  have "?W * ?n \<le> (1000 * 33554432) * 33554432"
    using W n by (intro mult_mono) auto
  then have Wn: "?W * ?n \<le> small" by (simp add: small_def)
  have "gm_val (smooth s) (cv_id V c) \<le>
      (\<Sum>c\<leftarrow>cs. gm_val (smooth s) (cv_id V c)) + ?W * ?n"
    using assms by (intro sum_list_upper) (auto simp: wrr_balanced_def intro: less_imp_le)
  moreover have "- ?W < gm_val (smooth s) (cv_id V c)"
    using assms by (simp add: wrr_balanced_def)
  ultimately show ?thesis
    using assms(1) W Wn by (simp add: wrr_balanced_def small_def)
qed

lemma pool_small: "wrr_pool V cs \<Longrightarrow> pool_weight V cs < small"
  using pool_weight_le [of V cs] by (simp add: wrr_pool_def small_def)

lemma sum_list_pick:
  assumes "distinct (map (cv_id V) cs)" "b \<in> set cs"
  shows "(\<Sum>c\<leftarrow>cs. f c - (if cv_id V c = cv_id V b then W else 0)) = (\<Sum>c\<leftarrow>cs. f c) - (W::int)"
  using assms
proof (induction cs)
  case (Cons a cs)
  show ?case
  proof (cases "a = b")
    case True
    with Cons.prems(1) have "(\<Sum>c\<leftarrow>cs. f c - (if cv_id V c = cv_id V b then W else 0)) = (\<Sum>c\<leftarrow>cs. f c)"
      by (intro arg_cong [where f = sum_list] map_cong) (auto simp: image_iff)
    with True show ?thesis by simp
  next
    case False
    with Cons show ?thesis by (auto simp: image_iff)
  qed
qed simp

text \<open>The scan of a balanced state finds a candidate of positive, maximal value.\<close>

lemma wrr_scan_balanced:
  assumes pool: "wrr_pool V cs" and bal: "wrr_balanced V cs s"
  obtains sm b where "wrr_scan V cs (smooth s) 0 None = (sm, pool_weight V cs, Some b)"
    "gm_wf sm" "b \<in> set cs" "0 < gm_val sm (cv_id V b)" "gm_val sm (cv_id V b) \<le> small + 1000"
    "\<forall>c\<in>set cs. gm_val sm (cv_id V c) = gm_val (smooth s) (cv_id V c) + cv_w V c"
    "(\<Sum>c\<leftarrow>cs. gm_val sm (cv_id V c)) = pool_weight V cs"
proof -
  let ?W = "pool_weight V cs"
  have dist: "distinct (map (cv_id V) cs)" and ne: "cs \<noteq> []"
    using pool by (simp_all add: wrr_pool_def)
  obtain sm b where scan: "wrr_scan V cs (smooth s) 0 None = (sm, 0 + ?W, Some b)"
      and val: "\<forall>k. gm_val sm k = gm_val (smooth s) k + id_weight V cs k"
      and b: "b \<in> set cs"
      and mx: "\<forall>c\<in>set cs. gm_val sm (cv_id V c) \<le> gm_val sm (cv_id V b)"
    using wrr_scan_spec [of V cs "smooth s" 0 None] dist ne pool_small [OF pool]
      wrr_balanced_bound [OF bal pool] by auto
  have new: "\<forall>c\<in>set cs. gm_val sm (cv_id V c) = gm_val (smooth s) (cv_id V c) + cv_w V c"
    using dist by (simp add: val id_weight_in)
  have "(\<Sum>c\<leftarrow>cs. gm_val sm (cv_id V c)) = (\<Sum>c\<leftarrow>cs. gm_val (smooth s) (cv_id V c) + cv_w V c)"
    using new by (intro arg_cong [where f = sum_list] map_cong) auto
  then have sum_new: "(\<Sum>c\<leftarrow>cs. gm_val sm (cv_id V c)) = ?W"
    using bal by (simp add: wrr_balanced_def sum_list_addf pool_weight_def)
  have "0 < gm_val sm (cv_id V b)"
  proof (rule ccontr)
    assume "\<not> ?thesis"
    then have "\<forall>c\<in>set cs. gm_val sm (cv_id V c) \<le> 0" using mx by fastforce
    then have "(\<Sum>c\<leftarrow>cs. gm_val sm (cv_id V c)) \<le> 0" by (intro sum_list_nonpos) auto
    then show False using sum_new pool_weight_pos [OF ne, of V] by simp
  qed
  moreover have "gm_val sm (cv_id V b) \<le> small + 1000"
    using wrr_balanced_bound [OF bal pool b] bspec [OF new b]
      normalizedWeight_bounds(4) [of "cv_weight V b"] by linarith
  moreover have "gm_wf sm"
    using gm_wf_wrr_scan [of "smooth s" V cs 0 None] bal scan by (simp add: wrr_balanced_def)
  ultimately show ?thesis using that scan b new sum_new by auto
qed

lemma wrr_pick_values:
  assumes pool: "wrr_pool V cs" and bal: "wrr_balanced V cs s"
  obtains b s' where "wrr_pick V s cs = (Some b, s')" "b \<in> set cs" "gm_wf (smooth s')"
    "0 < gm_val (smooth s) (cv_id V b) + cv_w V b"
    "\<forall>c\<in>set cs. gm_val (smooth s') (cv_id V c) = gm_val (smooth s) (cv_id V c) + cv_w V c
       - (if cv_id V c = cv_id V b then pool_weight V cs else 0)"
proof -
  let ?W = "pool_weight V cs"
  obtain sm b where scan: "wrr_scan V cs (smooth s) 0 None = (sm, ?W, Some b)"
      and wf: "gm_wf sm" and b: "b \<in> set cs"
      and pos: "0 < gm_val sm (cv_id V b)" and up: "gm_val sm (cv_id V b) \<le> small + 1000"
      and new: "\<forall>c\<in>set cs. gm_val sm (cv_id V c) = gm_val (smooth s) (cv_id V c) + cv_w V c"
    using wrr_scan_balanced [OF pool bal] by metis
  define kept where "kept = filter (\<lambda>p. fst p \<in> cv_id V ` set cs) sm"
  define sub where "sub = gm_val sm (cv_id V b) - ?W"
  have kept_val: "gm_val kept (cv_id V c) = gm_val sm (cv_id V c)" if "c \<in> set cs" for c
    using that wf by (simp add: kept_def gm_val_def map_of_filter split: option.splits)
  have "0 \<le> ?W" "?W < small" using pool_small [OF pool] by simp_all
  then have "in_i64 sub"
    using pos up unfolding sub_def in_i64_def small_def min_int64_def max_int64_def by linarith
  then have pick: "wrr_pick V s cs = (Some b, s\<lparr>smooth := AList.update (cv_id V b) sub kept\<rparr>)"
    using kept_val [OF b]
    by (simp add: wrr_pick_def scan Let_def kept_def [symmetric] sub_def)
  have "\<forall>c\<in>set cs. gm_val (AList.update (cv_id V b) sub kept) (cv_id V c) =
      gm_val (smooth s) (cv_id V c) + cv_w V c - (if cv_id V c = cv_id V b then ?W else 0)"
    using new kept_val by (auto simp: sub_def)
  moreover have "gm_wf kept" using wf by (simp add: kept_def)
  ultimately show ?thesis
    using that [OF pick b] pos bspec [OF new b] by simp
qed

lemma wrr_pick_spec:
  assumes pool: "wrr_pool V cs" and bal: "wrr_balanced V cs s"
  shows "\<exists>b s'. wrr_pick V s cs = (Some b, s') \<and> b \<in> set cs \<and> wrr_balanced V cs s' \<and>
    (\<forall>c\<in>set cs. gm_val (smooth s') (cv_id V c) = gm_val (smooth s) (cv_id V c) + cv_w V c
       - (if cv_id V c = cv_id V b then pool_weight V cs else 0))"
proof -
  let ?W = "pool_weight V cs"
  obtain b s' where p: "wrr_pick V s cs = (Some b, s')" "b \<in> set cs" "gm_wf (smooth s')"
      and pos: "0 < gm_val (smooth s) (cv_id V b) + cv_w V b"
      and vals: "\<forall>c\<in>set cs. gm_val (smooth s') (cv_id V c) = gm_val (smooth s) (cv_id V c) + cv_w V c
         - (if cv_id V c = cv_id V b then ?W else 0)"
    using wrr_pick_values [OF pool bal] .
  have dist: "distinct (map (cv_id V) cs)" using pool by (simp add: wrr_pool_def)
  have "(\<Sum>c\<leftarrow>cs. gm_val (smooth s') (cv_id V c)) = (\<Sum>c\<leftarrow>cs. (gm_val (smooth s) (cv_id V c) + cv_w V c)
      - (if cv_id V c = cv_id V b then ?W else 0))"
    using vals by (intro arg_cong [where f = sum_list] map_cong) auto
  also have "\<dots> = 0"
    using bal by (simp only: sum_list_pick [OF dist p(2)])
      (simp add: wrr_balanced_def sum_list_addf pool_weight_def)
  finally have sum0: "(\<Sum>c\<leftarrow>cs. gm_val (smooth s') (cv_id V c)) = 0" .
  have "- ?W < gm_val (smooth s') (cv_id V c)" if c: "c \<in> set cs" for c
  proof (cases "cv_id V c = cv_id V b")
    case True
    then show ?thesis using bspec [OF vals p(2)] pos by simp
  next
    case False
    have "- ?W < gm_val (smooth s) (cv_id V c)" "0 < cv_w V c"
      using bal c by (simp_all add: wrr_balanced_def)
    moreover have "gm_val (smooth s') (cv_id V c) = gm_val (smooth s) (cv_id V c) + cv_w V c"
      using bspec [OF vals c] False by simp
    ultimately show ?thesis by linarith
  qed
  then show ?thesis using p sum0 vals by (auto simp: wrr_balanced_def)
qed

fun run_picks :: "('s \<Rightarrow> 'c option \<times> 's) \<Rightarrow> nat \<Rightarrow> 's \<Rightarrow> 'c option list \<times> 's" where
  \<comment> \<open>\<open>n\<close> consecutive picks\<close>
  "run_picks f 0 s = ([], s)"
| "run_picks f (Suc n) s =
     (case f s of (p, s1) \<Rightarrow> (case run_picks f n s1 of (ps, s2) \<Rightarrow> (p # ps, s2)))"

abbreviation wrr_picks :: "'c candidate_view \<Rightarrow> 'c list \<Rightarrow> nat \<Rightarrow> backendSelectorState
    \<Rightarrow> 'c option list \<times> backendSelectorState" where
  "wrr_picks V cs \<equiv> run_picks (\<lambda>s. wrr_pick V s cs)"

lemma wrr_picks_spec:
  assumes pool: "wrr_pool V cs" and bal: "wrr_balanced V cs s"
  shows "\<exists>bs s'. wrr_picks V cs n s = (map Some bs, s') \<and> length bs = n \<and> set bs \<subseteq> set cs \<and>
    wrr_balanced V cs s' \<and>
    (\<forall>c\<in>set cs. gm_val (smooth s') (cv_id V c) = gm_val (smooth s) (cv_id V c) + int n * cv_w V c
       - pool_weight V cs * int (count_list bs c))"
  using bal
proof (induction n arbitrary: s)
  case 0
  then show ?case by simp
next
  case (Suc n)
  have inj: "cv_id V c = cv_id V b \<longleftrightarrow> c = b" if "c \<in> set cs" "b \<in> set cs" for c b
    using pool that by (auto simp: wrr_pool_def distinct_map inj_on_def)
  obtain b s1 where p: "wrr_pick V s cs = (Some b, s1)" "b \<in> set cs" "wrr_balanced V cs s1"
      and v1: "\<forall>c\<in>set cs. gm_val (smooth s1) (cv_id V c) = gm_val (smooth s) (cv_id V c) + cv_w V c
       - (if cv_id V c = cv_id V b then pool_weight V cs else 0)"
    using wrr_pick_spec [OF pool Suc.prems] by blast
  obtain bs s' where r: "wrr_picks V cs n s1 = (map Some bs, s')" "length bs = n" "set bs \<subseteq> set cs"
      "wrr_balanced V cs s'"
      and v2: "\<forall>c\<in>set cs. gm_val (smooth s') (cv_id V c) = gm_val (smooth s1) (cv_id V c)
       + int n * cv_w V c - pool_weight V cs * int (count_list bs c)"
    using Suc.IH [OF p(3)] by blast
  show ?case
  proof (intro exI conjI ballI)
    show "wrr_picks V cs (Suc n) s = (map Some (b # bs), s')" using p r by simp
    fix c assume c: "c \<in> set cs"
    then show "gm_val (smooth s') (cv_id V c) = gm_val (smooth s) (cv_id V c) + int (Suc n) * cv_w V c
       - pool_weight V cs * int (count_list (b # bs) c)"
      using bspec [OF v1 c] bspec [OF v2 c] inj [OF c p(2)]
      by (cases "c = b") (simp_all add: algebra_simps)
  qed (use p r in auto)
qed

lemma wrr_balanced_new: "cs \<noteq> [] \<Longrightarrow> wrr_balanced V cs newSelectorState"
  by (simp add: wrr_balanced_def newSelectorState_def gm_val_def pool_weight_pos)

lemma sum_count_list:
  assumes "distinct cs" "set bs \<subseteq> set cs"
  shows "(\<Sum>c\<leftarrow>cs. int (count_list bs c)) = int (length bs)"
  using assms(2)
proof (induction bs)
  case (Cons b bs)
  have "(\<Sum>c\<leftarrow>cs. int (count_list (b # bs) c)) =
      (\<Sum>c\<leftarrow>cs. int (count_list bs c) + (if c = b then 1 else 0))"
    by (intro arg_cong [where f = sum_list] map_cong) auto
  also have "\<dots> = int (length bs) + (\<Sum>c\<leftarrow>cs. if c = b then 1 else 0)"
    using Cons by (simp add: sum_list_addf)
  also have "(\<Sum>c\<leftarrow>cs. if c = b then 1 else 0) = (1::int)"
    using assms(1) Cons.prems by (simp add: sum_list_distinct_conv_sum_set)
  finally show ?case by simp
qed simp

lemma sum_list_le_eq:
  fixes f g :: "'a \<Rightarrow> int"
  assumes "\<forall>x\<in>set xs. f x \<le> g x" "sum_list (map f xs) = sum_list (map g xs)" "x \<in> set xs"
  shows "f x = g x"
  using assms
proof (induction xs)
  case (Cons a xs)
  have "sum_list (map f xs) \<le> sum_list (map g xs)"
    using Cons.prems(1) by (intro sum_list_mono) auto
  with Cons show ?case by force
qed simp

text \<open>One full period, as many picks as the total weight, selects every candidate exactly
  weight-many times and returns the smoothed values to zero.\<close>

lemma wrr_period:
  assumes pool: "wrr_pool V cs"
  shows "\<exists>bs s'. wrr_picks V cs (nat (pool_weight V cs)) newSelectorState = (map Some bs, s') \<and>
    (\<forall>c\<in>set cs. int (count_list bs c) = cv_w V c \<and> gm_val (smooth s') (cv_id V c) = 0)"
proof -
  let ?W = "pool_weight V cs"
  have ne: "cs \<noteq> []" and dist: "distinct cs"
    using pool by (auto simp: wrr_pool_def distinct_map)
  have W: "0 < ?W" using pool_weight_pos [OF ne] .
  obtain bs s' where r: "wrr_picks V cs (nat ?W) newSelectorState = (map Some bs, s')"
      "length bs = nat ?W" "set bs \<subseteq> set cs" "wrr_balanced V cs s'"
      and v: "\<forall>c\<in>set cs. gm_val (smooth s') (cv_id V c) = gm_val (smooth newSelectorState) (cv_id V c)
        + int (nat ?W) * cv_w V c - ?W * int (count_list bs c)"
    using wrr_picks_spec [OF pool wrr_balanced_new [OF ne]] by blast
  have v': "gm_val (smooth s') (cv_id V c) = ?W * (cv_w V c - int (count_list bs c))"
    if "c \<in> set cs" for c
    using v that W by (simp add: newSelectorState_def gm_val_def algebra_simps)
  have le: "\<forall>c\<in>set cs. int (count_list bs c) \<le> cv_w V c"
  proof
    fix c assume c: "c \<in> set cs"
    have "- ?W < ?W * (cv_w V c - int (count_list bs c))"
      using r(4) c unfolding v' [OF c, symmetric] wrr_balanced_def by blast
    then have "?W * (int (count_list bs c) - cv_w V c) < ?W * 1" by (simp add: algebra_simps)
    then have "int (count_list bs c) - cv_w V c < 1" using W by (simp only: mult_less_cancel_left_pos)
    then show "int (count_list bs c) \<le> cv_w V c" by simp
  qed
  have sums: "(\<Sum>c\<leftarrow>cs. int (count_list bs c)) = (\<Sum>c\<leftarrow>cs. cv_w V c)"
    using sum_count_list [OF dist r(3)] r(2) W by (simp add: pool_weight_def)
  then have "\<forall>c\<in>set cs. int (count_list bs c) = cv_w V c"
    using sum_list_le_eq [OF le sums] by blast
  then show ?thesis using r(1) v' by auto
qed

section \<open>Every policy returns one of the candidates\<close>

text \<open>The contract the registry relies on: a policy, given a non-empty candidate list, returns
  one of the candidates, whatever its state.\<close>

locale selector =
  fixes pick :: "'s \<Rightarrow> 'c list \<Rightarrow> 'c option \<times> 's"
  assumes pick_member: "cs \<noteq> [] \<Longrightarrow> \<exists>c s'. pick s cs = (Some c, s') \<and> c \<in> set cs"
begin

fun picks :: "'s \<Rightarrow> 'c list list \<Rightarrow> 'c option list" where
  "picks s [] = []"
| "picks s (cs # css) = fst (pick s cs) # picks (snd (pick s cs)) css"

lemma pick_in: "pick s cs = (Some c, s') \<Longrightarrow> cs \<noteq> [] \<Longrightarrow> c \<in> set cs"
  using pick_member [of cs s] by auto

lemma picks_member:
  "\<forall>cs\<in>set css. cs \<noteq> [] \<Longrightarrow> i < length css \<Longrightarrow>
     \<exists>c. picks s css ! i = Some c \<and> c \<in> set (css ! i)"
proof (induction css arbitrary: s i)
  case (Cons cs css)
  obtain c s' where "pick s cs = (Some c, s')" "c \<in> set cs"
    using Cons.prems(1) pick_member [of cs s] by auto
  with Cons show ?case by (cases i) auto
qed simp

end

lemma rr_pick_member: "cs \<noteq> [] \<Longrightarrow> fst (rr_pick s cs) \<in> set cs"
  by (simp add: rr_pick_def)

interpretation rr: selector "\<lambda>s cs. apfst Some (rr_pick s cs)"
  by unfold_locales (auto simp: rr_pick_def)

lemma wrr_scan_member:
  "wrr_scan V cs sm tot best = (sm', tot', best') \<Longrightarrow> cs \<noteq> [] \<or> best \<noteq> None \<Longrightarrow>
     \<exists>b. best' = Some b \<and> (b \<in> set cs \<or> best = Some b)"
proof (induction V cs sm tot best rule: wrr_scan.induct)
  case (2 V c cs sm tot best)
  then show ?case
    by (fastforce simp: Let_def split: if_splits)
qed auto

interpretation wrr: selector "wrr_pick V"
proof
  fix cs :: "'a list" and s :: backendSelectorState
  assume "cs \<noteq> []"
  obtain sm tot best where scan: "wrr_scan V cs (smooth s) 0 None = (sm, tot, best)"
    by (cases "wrr_scan V cs (smooth s) 0 None") auto
  then obtain b where "best = Some b" "b \<in> set cs"
    using wrr_scan_member [OF scan] \<open>cs \<noteq> []\<close> by auto
  with scan show "\<exists>c s'. wrr_pick V s cs = (Some c, s') \<and> c \<in> set cs"
    by (auto simp: wrr_pick_def Let_def)
qed

lemma compare_active_refl [simp]: "compare_active V c c weighted = 0"
  by (simp add: compare_active_def)

lemma tied_scan_spec:
  assumes "tied_scan V w cs best tied = (b, ts)"
    and "\<forall>x\<in>set tied. x \<in> D \<and> compare_active V x best w = 0" "set cs \<subseteq> D" "best \<in> D"
  shows "set ts \<subseteq> D \<and> b \<in> D \<and> (\<forall>x\<in>set ts. compare_active V x b w = 0) \<and>
    (best \<in> set tied \<or> best \<in> set cs \<longrightarrow> b \<in> set ts)"
  using assms
proof (induction V w cs best tied rule: tied_scan.induct)
  case (2 V w c cs best tied)
  consider "compare_active V c best w < 0" | "compare_active V c best w = 0" | "compare_active V c best w > 0"
    by linarith
  then show ?case
  proof cases
    case 1
    with 2 show ?thesis by (auto simp: Let_def)
  next
    case 2
    with "2.IH"(2) "2.prems" show ?thesis by (auto simp: Let_def)
  next
    case 3
    with 2 show ?thesis by (auto simp: Let_def)
  qed
qed auto

lemma least_active_tied:
  assumes "cs \<noteq> []"
  obtains b ts where "tied_scan V w cs (hd cs) [] = (b, ts)" "b \<in> set ts" "set ts \<subseteq> set cs"
    "\<forall>x\<in>set ts. compare_active V x b w = 0"
    "least_active V s cs w = (if w then wrr_pick V s ts else apfst Some (rr_pick s ts))"
proof -
  obtain b ts where t: "tied_scan V w cs (hd cs) [] = (b, ts)" by (cases "tied_scan V w cs (hd cs) []")
  have s: "set ts \<subseteq> set cs \<and> b \<in> set cs \<and> (\<forall>x\<in>set ts. compare_active V x b w = 0) \<and>
    (hd cs \<in> set [] \<or> hd cs \<in> set cs \<longrightarrow> b \<in> set ts)"
    by (rule tied_scan_spec [OF t]) (use assms in auto)
  then have b: "b \<in> set ts" using assms by simp
  moreover have "least_active V s cs w = (if w then wrr_pick V s ts else apfst Some (rr_pick s ts))"
    using assms t b by (cases cs) (auto simp: least_active_def)
  ultimately show ?thesis using that t s by blast
qed

interpretation lact: selector "\<lambda>s cs. least_active V s cs w"
proof
  fix s :: backendSelectorState and cs :: "'a list"
  assume "cs \<noteq> []"
  then obtain b ts where ts: "b \<in> set ts" "set ts \<subseteq> set cs"
      "least_active V s cs w = (if w then wrr_pick V s ts else apfst Some (rr_pick s ts))"
    by (rule least_active_tied)
  then have "ts \<noteq> []" by auto
  then show "\<exists>c s'. least_active V s cs w = (Some c, s') \<and> c \<in> set cs"
    using wrr.pick_member [of ts V s] rr.pick_member [of ts s] ts by (cases w) fastforce+
qed

section \<open>Least active requests\<close>

text \<open>Without overflow in the cross products, the comparison is the order on the load per unit
  of weight, a total preorder.\<close>

definition load_le :: "'c candidate_view \<Rightarrow> bool \<Rightarrow> 'c \<Rightarrow> 'c \<Rightarrow> bool" where
  "load_le V w a b \<longleftrightarrow>
     (if w then cv_active V a * cv_w V b \<le> cv_active V b * cv_w V a
      else cv_active V a \<le> cv_active V b)"

definition active_small :: "'c candidate_view \<Rightarrow> 'c \<Rightarrow> bool" where
  "active_small V c \<longleftrightarrow> 0 \<le> cv_active V c \<and> cv_active V c \<le> 4611686018427387"

lemma active_small_prod: "active_small V a \<Longrightarrow> i64 (cv_active V a * normalizedWeight w) =
    cv_active V a * normalizedWeight w"
proof (rule i64_id)
  assume a: "active_small V a"
  then have "cv_active V a * normalizedWeight w \<le> 4611686018427387 * 1000"
    by (intro mult_mono) (auto simp: active_small_def)
  moreover have "0 \<le> cv_active V a * normalizedWeight w"
    using a by (simp add: active_small_def)
  ultimately show "in_i64 (cv_active V a * normalizedWeight w)"
    by (simp add: in_i64_def min_int64_def max_int64_def)
qed

lemma compare_active_le:
  assumes "active_small V a" "active_small V b"
  shows "compare_active V a b w \<le> 0 \<longleftrightarrow> load_le V w a b"
    and "compare_active V a b w < 0 \<longleftrightarrow> \<not> load_le V w b a"
  using assms by (auto simp: compare_active_def load_le_def active_small_prod Let_def)

lemma load_le_trans:
  assumes "load_le V w a b" "load_le V w b c"
  shows "load_le V w a c"
proof (cases w)
  case True
  let ?a = "cv_active V a" and ?b = "cv_active V b" and ?c = "cv_active V c"
  have "(?a * cv_w V c) * cv_w V b \<le> (?b * cv_w V a) * cv_w V c"
    using mult_right_mono [of "?a * cv_w V b" "?b * cv_w V a" "cv_w V c"] assms(1) True
    by (simp add: load_le_def algebra_simps)
  also have "\<dots> \<le> (?c * cv_w V b) * cv_w V a"
    using mult_right_mono [of "?b * cv_w V c" "?c * cv_w V b" "cv_w V a"] assms(2) True
    by (simp add: load_le_def algebra_simps)
  finally have "cv_w V b * (?a * cv_w V c) \<le> cv_w V b * (?c * cv_w V a)"
    by (simp add: algebra_simps)
  then show ?thesis
    using True by (simp only: load_le_def if_True mult_le_cancel_left_pos normalizedWeight_bounds)
next
  case False
  then show ?thesis using assms by (simp add: load_le_def)
qed

lemma load_le_total: "load_le V w a b \<or> load_le V w b a"
  by (auto simp: load_le_def)

lemma tied_scan_min:
  assumes "tied_scan V w cs best tied = (b, ts)" "\<forall>c\<in>insert best (set cs). active_small V c"
  shows "load_le V w b best \<and> (\<forall>c\<in>set cs. load_le V w b c)"
  using assms
proof (induction V w cs best tied rule: tied_scan.induct)
  case (1 V w best tied)
  then show ?case by (auto simp: load_le_def)
next
  case (2 V w c cs best tied)
  have small: "active_small V c" "active_small V best" using "2.prems"(2) by auto
  show ?case
  proof (cases "compare_active V c best w < 0")
    case True
    with "2.IH"(1) "2.prems" have "load_le V w b c" "\<forall>x\<in>set cs. load_le V w b x"
      by (auto simp: Let_def)
    moreover have "load_le V w c best"
      using True compare_active_le [OF small, of w] load_le_total [of V w c best] by blast
    ultimately show ?thesis by (auto intro: load_le_trans)
  next
    case False
    then have le: "load_le V w best c" using compare_active_le(2) [OF small, of w] by blast
    have "load_le V w b best \<and> (\<forall>x\<in>set cs. load_le V w b x)"
      using False "2.IH"(2,3) "2.prems" by (cases "compare_active V c best w = 0") (auto simp: Let_def)
    with le show ?thesis by (auto intro: load_le_trans)
  qed
qed

lemma least_active_min:
  assumes "cs \<noteq> []" "\<forall>c\<in>set cs. active_small V c" "least_active V s cs w = (Some c, s')"
  shows "c \<in> set cs \<and> (\<forall>d\<in>set cs. load_le V w c d)"
proof -
  obtain b ts where t: "tied_scan V w cs (hd cs) [] = (b, ts)" "b \<in> set ts" "set ts \<subseteq> set cs"
      "\<forall>x\<in>set ts. compare_active V x b w = 0"
      "least_active V s cs w = (if w then wrr_pick V s ts else apfst Some (rr_pick s ts))"
    using assms(1) by (rule least_active_tied)
  have "ts \<noteq> []" using t(2) by auto
  then have c: "c \<in> set ts"
    using assms(3) t(5) wrr.pick_in [of V s ts c s'] rr.pick_in [of s ts c s']
    by (auto split: if_splits)
  have "load_le V w b d" if "d \<in> set cs" for d
    using tied_scan_min [OF t(1)] assms(1,2) that by auto
  moreover have "load_le V w c b"
    using c t(2,3,4) assms(2) compare_active_le(1) [of V c b w] by fastforce
  ultimately show ?thesis using c t(3) by (auto intro: load_le_trans)
qed

section \<open>Round robin\<close>

lemma rr_run:
  assumes "unat (roundRobin s) + n < 2 ^ 64"
  shows "run_picks (\<lambda>s. apfst Some (rr_pick s cs)) n s =
    (map (\<lambda>i. Some (cs ! ((unat (roundRobin s) + i) mod length cs))) [0..<n],
     s\<lparr>roundRobin := roundRobin s + of_nat n\<rparr>)"
  using assms
proof (induction n arbitrary: s)
  case (Suc n)
  have "unat (roundRobin s + 1) = Suc (unat (roundRobin s))"
    using Suc.prems by (simp add: unat_word_ariths)
  then have "run_picks (\<lambda>s. apfst Some (rr_pick s cs)) n (s\<lparr>roundRobin := roundRobin s + 1\<rparr>) =
    (map (\<lambda>i. Some (cs ! ((Suc (unat (roundRobin s)) + i) mod length cs))) [0..<n],
     s\<lparr>roundRobin := roundRobin s + 1 + of_nat n\<rparr>)"
    using Suc.IH [of "s\<lparr>roundRobin := roundRobin s + 1\<rparr>"] Suc.prems by simp
  moreover have "[0..<Suc n] = 0 # map Suc [0..<n]"
    by (simp add: upt_conv_Cons map_Suc_upt)
  ultimately show ?case
    by (simp add: rr_pick_def comp_def add.assoc del: upt_Suc)
qed simp

lemma rotation_mset:
  assumes "cs \<noteq> []"
  shows "mset (map (\<lambda>i. cs ! ((k + i) mod length cs)) [0..<length cs]) = mset cs"
proof -
  have "map (\<lambda>i. cs ! ((k + i) mod length cs)) [0..<length cs] = rotate k cs"
    using assms by (intro nth_equalityI) (simp_all add: nth_rotate)
  moreover have "mset (rotate k cs) = mset cs"
    by (metis append_take_drop_id mset_append rotate_drop_take union_commute)
  ultimately show ?thesis by simp
qed

section \<open>Weighted random choice\<close>

fun draw_spec :: "'c candidate_view \<Rightarrow> 'c list \<Rightarrow> int \<Rightarrow> 'c option" where
  \<comment> \<open>the choice without machine arithmetic\<close>
  "draw_spec V [] x = None"
| "draw_spec V (c # cs) x = (if x < cv_w V c then Some c else draw_spec V cs (x - cv_w V c))"

lemma total_weight_eq:
  "0 \<le> t \<Longrightarrow> t + pool_weight V cs < small \<Longrightarrow> total_weight V cs t = t + pool_weight V cs"
proof (induction cs arbitrary: t)
  case (Cons c cs)
  have "\<bar>t\<bar> \<le> small" using Cons.prems pool_weight_nonneg [of V "c # cs"] by linarith
  then have "i64 (t + cv_w V c) = t + cv_w V c" by (intro small_add) simp_all
  then show ?case using Cons by (simp add: add.assoc)
qed simp

lemma draw_scan_eq: "0 \<le> x \<Longrightarrow> x < small \<Longrightarrow> draw_scan V cs x = draw_spec V cs x"
proof (induction cs arbitrary: x)
  case (Cons c cs)
  have "i64 (x + - cv_w V c) = x + - cv_w V c"
    using Cons.prems by (intro small_add) simp_all
  moreover have "0 \<le> x - cv_w V c \<Longrightarrow> draw_scan V cs (x - cv_w V c) = draw_spec V cs (x - cv_w V c)"
    using Cons.prems by (intro Cons.IH) (auto intro: le_less_trans [OF _ Cons.prems(2)])
  ultimately show ?case by (simp add: Let_def)
qed simp

lemma draw_spec_total: "0 \<le> x \<Longrightarrow> x < pool_weight V cs \<Longrightarrow> \<exists>c\<in>set cs. draw_spec V cs x = Some c"
  by (induction cs arbitrary: x) auto

lemma draw_spec_image:
  "draw_spec V (c # cs) x = Some d \<longleftrightarrow>
     x < cv_w V c \<and> d = c \<or> cv_w V c \<le> x \<and> draw_spec V cs (x - cv_w V c) = Some d"
  by auto

lemma draw_spec_mem: "draw_spec V cs x = Some d \<Longrightarrow> d \<in> set cs"
  by (induction cs arbitrary: x) (auto split: if_splits)

lemma draw_spec_card:
  assumes "distinct cs" "d \<in> set cs"
  shows "card {x. 0 \<le> x \<and> x < pool_weight V cs \<and> draw_spec V cs x = Some d} = nat (cv_w V d)"
  using assms
proof (induction cs)
  case (Cons c cs)
  let ?A = "\<lambda>cs. {x. 0 \<le> x \<and> x < pool_weight V cs \<and> draw_spec V cs x = Some d}"
  show ?case
  proof (cases "d = c")
    case True
    then have "draw_spec V cs y \<noteq> Some d" for y
      using Cons.prems(1) draw_spec_mem by fastforce
    then have "?A (c # cs) = {0..<cv_w V c}"
      using True by (auto simp: draw_spec_image intro: less_le_trans)
    then show ?thesis using True by simp
  next
    case False
    have "?A (c # cs) = (\<lambda>x. x + cv_w V c) ` ?A cs"
    proof (intro equalityI subsetI)
      fix x assume "x \<in> ?A (c # cs)"
      with False have "x - cv_w V c \<in> ?A cs" by (auto split: if_splits)
      then show "x \<in> (\<lambda>x. x + cv_w V c) ` ?A cs" by (auto intro!: image_eqI [of _ _ "x - cv_w V c"])
    qed auto
    then have "card (?A (c # cs)) = card (?A cs)"
      by (simp add: card_image inj_on_def)
    with Cons False show ?thesis by simp
  qed
qed simp

lemma weighted_random_eq:
  assumes "wrr_pool V cs" "0 \<le> x" "x < pool_weight V cs"
  shows "draw_spec V cs x = Some (weighted_random V (\<lambda>_. x) cs)"
proof -
  have "total_weight V cs 0 = pool_weight V cs"
    using total_weight_eq [of 0 V cs] pool_small [OF assms(1)] by simp
  moreover obtain c where "draw_spec V cs x = Some c" using draw_spec_total [OF assms(2,3)] by blast
  moreover have "draw_scan V cs x = draw_spec V cs x"
    using draw_scan_eq assms pool_small [OF assms(1)] by (meson less_trans)
  ultimately show ?thesis using assms by (simp add: weighted_random_def)
qed

section \<open>Selection over the registry\<close>

definition rng_ok :: "(int \<Rightarrow> int) \<Rightarrow> bool" where
  \<comment> \<open>the documented range of \<open>rand.Intn\<close> and \<open>rand.Int63n\<close>\<close>
  "rng_ok rng \<longleftrightarrow> (\<forall>n>0. 0 \<le> rng n \<and> rng n < n)"

lemma rng_nth_member: "rng_ok rng \<Longrightarrow> cs \<noteq> [] \<Longrightarrow> cs ! nat (rng (int (length cs))) \<in> set cs"
  by (rule nth_mem) (auto simp: rng_ok_def nat_less_iff)

lemma draw_scan_mem: "draw_scan V cs x = Some d \<Longrightarrow> d \<in> set cs"
  by (induction cs arbitrary: x) (auto simp: Let_def split: if_splits)

lemma weighted_random_member: "rng_ok rng \<Longrightarrow> cs \<noteq> [] \<Longrightarrow> weighted_random V rng cs \<in> set cs"
  by (auto simp: weighted_random_def Let_def rng_nth_member draw_scan_mem split: option.split)

lemma select_policy_selector: "rng_ok rng \<Longrightarrow> selector (select_policy V rng policy)"
proof
  fix cs :: "'a list" and s
  assume "rng_ok rng" "cs \<noteq> []"
  then show "\<exists>c s'. select_policy V rng policy s cs = (Some c, s') \<and> c \<in> set cs"
    using wrr.pick_member [of cs V s] rr.pick_member [of cs s] lact.pick_member [of cs V s False]
      lact.pick_member [of cs V s True] rng_nth_member [of rng cs] weighted_random_member [of rng cs V]
    by (simp add: select_policy_def)
qed


section \<open>Properties\<close>

lemma agent_view_simps [simp]:
  "cv_id agent_view = ba_AgentID" "cv_position agent_view = ba_Position"
  "cv_weight agent_view = ba_Weight" "cv_active agent_view c = conn_ActiveRequests (ba_Conn c)"
  by (simp_all add: agent_view_def)

lemma target_view_simps [simp]:
  "cv_id target_view = rt_TargetID" "cv_position target_view = rt_Position"
  "cv_weight target_view = rt_Weight" "cv_active target_view = rt_ActiveRequests"
  by (simp_all add: target_view_def)

text \<open>C1: smooth weighted round robin is exactly fair. From a fresh selector, one period of picks
  (as many as the sum of the normalised weights) over a fixed list of agents with distinct ids
  selects every agent exactly its weight many times and returns every smoothed counter to zero, so
  the next period is fair again; no counter wraps for up to \<open>2 ^ 25\<close> agents.\<close>
theorem weightedRoundRobin_fair:
  assumes "cs \<noteq> []" "distinct (map ba_AgentID cs)" "length cs \<le> 33554432"
  shows "\<exists>bs s'. run_picks (\<lambda>s. weightedRoundRobin s cs)
      (nat (\<Sum>c\<leftarrow>cs. normalizedWeight (ba_Weight c))) newSelectorState = (map Some bs, s') \<and>
    (\<forall>c\<in>set cs. int (count_list bs c) = normalizedWeight (ba_Weight c) \<and>
      gm_val (smooth s') (ba_AgentID c) = 0)"
  using wrr_period [of agent_view cs] assms
  by (simp add: wrr_pool_def pool_weight_def weightedRoundRobin_def)

definition example_agents :: "backendAgentCandidate list" where
  "example_agents =
     [\<lparr>ba_Conn = \<lparr>conn_id = 1, conn_ActiveRequests = 4\<rparr>, ba_AgentID = 7, ba_Position = 0, ba_Weight = 2\<rparr>,
      \<lparr>ba_Conn = \<lparr>conn_id = 2, conn_ActiveRequests = 1\<rparr>, ba_AgentID = 9, ba_Position = 1, ba_Weight = 1\<rparr>]"

theorem weightedRoundRobin_fair_witness:
  "\<exists>bs s'. run_picks (\<lambda>s. weightedRoundRobin s example_agents) 3 newSelectorState = (map Some bs, s') \<and>
    count_list bs (example_agents ! 0) = 2 \<and> count_list bs (example_agents ! 1) = 1"
proof -
  have n: "nat (\<Sum>c\<leftarrow>example_agents. normalizedWeight (ba_Weight c)) = 3"
    and m: "example_agents ! 0 \<in> set example_agents" "example_agents ! 1 \<in> set example_agents"
    and w: "normalizedWeight (ba_Weight (example_agents ! 0)) = 2"
       "normalizedWeight (ba_Weight (example_agents ! 1)) = 1"
    by (simp_all add: example_agents_def normalizedWeight_def)
  have "example_agents \<noteq> []" "distinct (map ba_AgentID example_agents)"
    "length example_agents \<le> 33554432"
    by (simp_all add: example_agents_def)
  from weightedRoundRobin_fair [OF this] obtain bs s' where
    "run_picks (\<lambda>s. weightedRoundRobin s example_agents) 3 newSelectorState = (map Some bs, s')"
    and c: "\<forall>c\<in>set example_agents. int (count_list bs c) = normalizedWeight (ba_Weight c)"
    unfolding n by blast
  moreover have "count_list bs (example_agents ! 0) = 2" "count_list bs (example_agents ! 1) = 1"
    using bspec [OF c m(1)] bspec [OF c m(2)] w by simp_all
  ultimately show ?thesis by blast
qed

text \<open>Selection is total and sound. For every policy string and registry state, a non-empty
  candidate list yields the connection of one of its candidates, an empty one yields none and
  leaves the registry alone, and only the selector of the given target can change.\<close>
theorem selectTargetAgent_sound:
  assumes "rng_ok rng"
  shows "(cs \<noteq> [] \<longrightarrow> (\<exists>c\<in>set cs. fst (selectTargetAgent rng r tid pol cs) = Some (ba_Conn c))) \<and>
    (cs = [] \<longrightarrow> selectTargetAgent rng r tid pol cs = (None, r)) \<and>
    states (snd (selectTargetAgent rng r tid pol cs)) = states r \<and>
    routeStates (snd (selectTargetAgent rng r tid pol cs)) = routeStates r \<and>
    (\<forall>k. k \<noteq> tid \<longrightarrow> map_of (targetAgentStates (snd (selectTargetAgent rng r tid pol cs))) k =
       map_of (targetAgentStates r) k)"
proof (cases "cs = []")
  case False
  define s where "s = selector_state (targetAgentStates r) tid"
  define sorted where "sorted = sort_key (\<lambda>c. (ba_Position c, ba_AgentID c)) cs"
  obtain c s' where "select_policy agent_view rng pol s sorted = (Some c, s')" "c \<in> set sorted"
    using selector.pick_member [OF select_policy_selector [OF assms, of agent_view pol], of sorted s] False
    by (auto simp: sorted_def)
  then show ?thesis
    using False by (auto simp: selectTargetAgent_def Let_def s_def sorted_def)
qed (simp add: selectTargetAgent_def)

theorem selectTargetAgent_sound_witness:
  "rng_ok (\<lambda>_. 0) \<and>
   (\<exists>c\<in>set example_agents.
      fst (selectTargetAgent (\<lambda>_. 0) newLoadBalancerRegistry 5 ''random'' example_agents) = Some (ba_Conn c))"
proof -
  have ok: "rng_ok (\<lambda>_. 0)" by (simp add: rng_ok_def)
  show ?thesis
    using ok selectTargetAgent_sound [OF ok, of example_agents newLoadBalancerRegistry 5 "''random''"]
    by (simp add: example_agents_def)
qed

text \<open>C20: the weighted least-active policy picks a route target whose load per unit of weight is
  minimal among all candidates, whatever their order, as long as no request counter exceeds
  \<open>2 ^ 62 / 1000\<close> (so the cross products do not wrap).\<close>
theorem selectRouteTarget_least_loaded:
  assumes "selectRouteTarget rng r rid ''weighted_least_active_requests'' cs = (Some c, r')"
    and "\<forall>d\<in>set cs. 0 \<le> rt_ActiveRequests d \<and> rt_ActiveRequests d \<le> 4611686018427387"
  shows "c \<in> set cs \<and> (\<forall>d\<in>set cs. rt_ActiveRequests c * normalizedWeight (rt_Weight d)
      \<le> rt_ActiveRequests d * normalizedWeight (rt_Weight c))"
proof -
  let ?sorted = "sort_key (\<lambda>c. (rt_Position c, rt_TargetID c)) cs"
  have ne: "cs \<noteq> []" using assms(1) by (auto simp: selectRouteTarget_def)
  then obtain s' where "least_active target_view (selector_state (routeStates r) rid) ?sorted True = (Some c, s')"
    using assms(1) by (auto simp: selectRouteTarget_def select_policy_def Let_def split: prod.splits)
  then show ?thesis
    using least_active_min [of ?sorted target_view _ True c s'] ne assms(2)
    by (auto simp: active_small_def load_le_def)
qed

definition example_targets :: "unit routeTargetCandidate list" where
  "example_targets =
     [\<lparr>rt_Target = (), rt_TargetID = 1, rt_Position = 0, rt_Weight = 1, rt_ActiveRequests = 3\<rparr>,
      \<lparr>rt_Target = (), rt_TargetID = 2, rt_Position = 1, rt_Weight = 4, rt_ActiveRequests = 8\<rparr>]"

theorem selectRouteTarget_least_loaded_witness:
  "fst (selectRouteTarget (\<lambda>_. 0) newLoadBalancerRegistry 5 ''weighted_least_active_requests'' example_targets)
     = Some (example_targets ! 1) \<and>
   rt_ActiveRequests (example_targets ! 1) * normalizedWeight (rt_Weight (example_targets ! 0))
      \<le> rt_ActiveRequests (example_targets ! 0) * normalizedWeight (rt_Weight (example_targets ! 1))"
proof -
  let ?r = "selectRouteTarget (\<lambda>_. 0) newLoadBalancerRegistry 5 ''weighted_least_active_requests'' example_targets"
  have f: "fst ?r = Some (example_targets ! 1)" by code_simp
  then have p: "?r = (Some (example_targets ! 1), snd ?r)" by (metis prod.collapse)
  have "\<forall>d\<in>set example_targets. 0 \<le> rt_ActiveRequests d \<and> rt_ActiveRequests d \<le> 4611686018427387"
    by (simp add: example_targets_def)
  from selectRouteTarget_least_loaded [OF p this] f show ?thesis
    by (auto simp: example_targets_def)
qed

text \<open>C23: weighted random choice is exactly proportional. Of the \<open>total\<close> values the random source
  can return, exactly as many as a target's normalised weight select that target.\<close>
theorem weightedRandomTarget_proportional:
  assumes "distinct (map rt_TargetID cs)" "length cs \<le> 33554432" "d \<in> set cs"
  shows "card {x. 0 \<le> x \<and> x < (\<Sum>c\<leftarrow>cs. normalizedWeight (rt_Weight c)) \<and>
      weightedRandomTarget (\<lambda>_. x) cs = d} = nat (normalizedWeight (rt_Weight d))"
proof -
  have pool: "wrr_pool target_view cs" and dist: "distinct cs"
    using assms by (auto simp: wrr_pool_def distinct_map)
  have "{x. 0 \<le> x \<and> x < pool_weight target_view cs \<and> weighted_random target_view (\<lambda>_. x) cs = d} =
      {x. 0 \<le> x \<and> x < pool_weight target_view cs \<and> draw_spec target_view cs x = Some d}"
    using weighted_random_eq [OF pool] by auto
  then show ?thesis
    using draw_spec_card [OF dist assms(3), of target_view]
    by (simp add: pool_weight_def weightedRandomTarget_def)
qed

theorem weightedRandomTarget_proportional_witness:
  "card {x. 0 \<le> x \<and> x < 5 \<and> weightedRandomTarget (\<lambda>_. x) example_targets = example_targets ! 1} = 4"
  using weightedRandomTarget_proportional [of example_targets "example_targets ! 1"]
  by (simp add: example_targets_def normalizedWeight_def)

text \<open>Round robin is a cycle. As long as the 64-bit counter does not pass its maximum, any
  \<open>length cs\<close> consecutive picks return every candidate exactly as often as it is listed.\<close>
theorem roundRobinPick_cycle:
  assumes "cs \<noteq> []" "unat (roundRobin s) + length cs < 2 ^ 64"
  shows "\<exists>bs. fst (run_picks (\<lambda>s. apfst Some (roundRobinPick s cs)) (length cs) s) = map Some bs \<and>
    mset bs = mset cs"
proof -
  let ?bs = "map (\<lambda>i. cs ! ((unat (roundRobin s) + i) mod length cs)) [0..<length cs]"
  have "fst (run_picks (\<lambda>s. apfst Some (roundRobinPick s cs)) (length cs) s) = map Some ?bs"
    using rr_run [OF assms(2), of cs] by (simp add: roundRobinPick_def)
  then show ?thesis using rotation_mset [OF assms(1)] by blast
qed

theorem roundRobinPick_cycle_witness:
  "\<exists>bs. fst (run_picks (\<lambda>s. apfst Some (roundRobinPick s example_agents)) 2
      \<lparr>roundRobin = 5, smooth = []\<rparr>) = map Some bs \<and> mset bs = mset example_agents"
proof -
  have len: "length example_agents = 2" by (simp add: example_agents_def)
  then have "example_agents \<noteq> []" by auto
  then show ?thesis
    using roundRobinPick_cycle [of example_agents "\<lparr>roundRobin = 5, smooth = []\<rparr>"]
    unfolding len by simp
qed

text \<open>Reconciling with a new configuration drops exactly the selectors of removed targets and
  routes and keeps every other selector with its state; an absent snapshot clears everything.\<close>
theorem reconcile_exact:
  assumes "gm_wf (states r)" "gm_wf (targetAgentStates r)" "gm_wf (routeStates r)"
  shows "map_of (states (reconcile r (Some sn))) k =
      (if k \<in> set (snap_RouteTargets sn) then map_of (states r) k else None) \<and>
    map_of (targetAgentStates (reconcile r (Some sn))) k =
      (if k \<in> set (snap_RouteTargets sn) then map_of (targetAgentStates r) k else None) \<and>
    map_of (routeStates (reconcile r (Some sn))) k =
      (if \<exists>p\<in>set (snap_RoutesByListener sn). k \<in> set (snd p)
       then map_of (routeStates r) k else None) \<and>
    reconcile r None = newLoadBalancerRegistry"
  using assms
  by (auto simp: reconcile_def map_of_filter Let_def newLoadBalancerRegistry_def split: option.split)

theorem reconcile_exact_witness:
  "gm_wf (routeStates (newLoadBalancerRegistry\<lparr>routeStates := [(3, newSelectorState), (4, newSelectorState)]\<rparr>)) \<and>
   map_of (routeStates (reconcile (newLoadBalancerRegistry\<lparr>routeStates := [(3, newSelectorState), (4, newSelectorState)]\<rparr>)
     (Some \<lparr>snap_RouteTargets = [], snap_RoutesByListener = [(1, [4])]\<rparr>))) 3 = None"
  using reconcile_exact [of "newLoadBalancerRegistry\<lparr>routeStates := [(3, newSelectorState), (4, newSelectorState)]\<rparr>"
      "\<lparr>snap_RouteTargets = [], snap_RoutesByListener = [(1, [4])]\<rparr>" 3]
  by (simp add: newLoadBalancerRegistry_def gm_wf_def)

end
