(* ===== verification/GoStrings.thy ===== *)
theory GoStrings
  imports Prelude "HOL-Library.Char_ord"
begin

text \<open>
  The part of Go's \<open>strings\<close>, \<open>strconv\<close> and \<open>net\<close> packages the modelled code uses, on byte
  strings. \<open>TrimSpace\<close>, \<open>ToLower\<close>, \<open>ToUpper\<close> and \<open>EqualFold\<close> are exact on ASCII strings, the
  values these functions are applied to (header values, methods, hosts, keys); Unicode case and
  space tables are not reproduced. \<open>strconv\<close> conversions are base 10 and keep their range checks.
\<close>

section \<open>Characters and trimming\<close>

definition is_space :: "char \<Rightarrow> bool" where
  "is_space c \<longleftrightarrow> List.member [CHR 0x20, CHR 0x09, CHR 0x0A, CHR 0x0B, CHR 0x0C, CHR 0x0D] c"

definition trim_left :: "string \<Rightarrow> string" where
  "trim_left s = dropWhile is_space s"

definition trim_space :: "string \<Rightarrow> string" where
  "trim_space s = rev (trim_left (rev (trim_left s)))"

definition lower_char :: "char \<Rightarrow> char" where
  "lower_char c = (if 65 \<le> (of_char c :: nat) \<and> (of_char c :: nat) \<le> 90
     then char_of ((of_char c :: nat) + 32) else c)"

definition upper_char :: "char \<Rightarrow> char" where
  "upper_char c = (if 97 \<le> (of_char c :: nat) \<and> (of_char c :: nat) \<le> 122
     then char_of ((of_char c :: nat) - 32) else c)"

definition to_lower :: "string \<Rightarrow> string" where
  "to_lower s = map lower_char s"

definition to_upper :: "string \<Rightarrow> string" where
  "to_upper s = map upper_char s"

definition equal_fold :: "string \<Rightarrow> string \<Rightarrow> bool" where
  "equal_fold s t \<longleftrightarrow> to_lower s = to_lower t"

lemma trim_left_id: "s = [] \<or> \<not> is_space (hd s) \<Longrightarrow> trim_left s = s"
  by (cases s) (auto simp: trim_left_def)

lemma trim_space_id:
  assumes "s = [] \<or> (\<not> is_space (hd s) \<and> \<not> is_space (last s))"
  shows "trim_space s = s"
  using assms by (auto simp: trim_space_def trim_left_id hd_rev)

lemma dropWhile_hd: "dropWhile P s = [] \<or> \<not> P (hd (dropWhile P s))"
  using hd_dropWhile by blast

lemma trim_space_ends: "trim_space s = [] \<or>
    (\<not> is_space (hd (trim_space s)) \<and> \<not> is_space (last (trim_space s)))"
proof (cases "trim_space s = []")
  case False
  let ?l = "trim_left s" and ?r = "trim_left (rev (trim_left s))"
  have r: "?r \<noteq> []" using False by (simp add: trim_space_def)
  then have last: "\<not> is_space (last (trim_space s))"
    using dropWhile_hd [of is_space "rev ?l"] by (auto simp: trim_space_def last_rev trim_left_def)
  have "\<exists>pre. rev ?l = pre @ ?r"
    by (metis takeWhile_dropWhile_id trim_left_def)
  then obtain pre where "?l = rev ?r @ rev pre" by (metis rev_append rev_rev_ident)
  then have "hd ?l = hd (rev ?r)" "?l \<noteq> []"
    using r by (metis hd_append2 rev_is_Nil_conv, metis Nil_is_append_conv rev_is_Nil_conv)
  then have "\<not> is_space (hd (trim_space s))"
    using dropWhile_hd [of is_space s] by (auto simp: trim_space_def trim_left_def)
  with last show ?thesis by simp
qed simp

lemma trim_space_idem [simp]: "trim_space (trim_space s) = trim_space s"
  by (rule trim_space_id [OF trim_space_ends])

lemma lower_char_idem [simp]: "lower_char (lower_char c) = lower_char c"
  by (auto simp: lower_char_def of_char_of)

lemma to_lower_idem [simp]: "to_lower (to_lower s) = to_lower s"
  by (simp add: to_lower_def comp_def)

lemma length_to_lower [simp]: "length (to_lower s) = length s"
  by (simp add: to_lower_def)

lemma equal_fold_refl [simp]: "equal_fold s s"
  by (simp add: equal_fold_def)

section \<open>Decimal conversion\<close>

definition digit_char :: "nat \<Rightarrow> char" where
  "digit_char d = char_of (48 + d)"

definition is_digit :: "char \<Rightarrow> bool" where
  "is_digit c \<longleftrightarrow> 48 \<le> (of_char c :: nat) \<and> (of_char c :: nat) \<le> 57"

definition digit_val :: "char \<Rightarrow> nat" where
  "digit_val c = (of_char c :: nat) - 48"

fun format_uint :: "nat \<Rightarrow> string" where
  \<comment> \<open>\<open>strconv.FormatUint(n, 10)\<close>\<close>
  "format_uint n = (if n < 10 then [digit_char n] else format_uint (n div 10) @ [digit_char (n mod 10)])"

declare format_uint.simps [simp del]

definition format_int :: "int \<Rightarrow> string" where
  \<comment> \<open>\<open>strconv.FormatInt(n, 10)\<close>\<close>
  "format_int n = (if n < 0 then ''-'' @ format_uint (nat (- n)) else format_uint (nat n))"

definition digits_val :: "string \<Rightarrow> nat" where
  "digits_val s = foldl (\<lambda>acc c. 10 * acc + digit_val c) 0 s"

definition parse_uint :: "nat \<Rightarrow> string \<Rightarrow> nat option" where
  \<comment> \<open>\<open>strconv.ParseUint(s, 10, bits)\<close>: no sign, no separators, range checked\<close>
  "parse_uint bits s =
     (if s \<noteq> [] \<and> list_all is_digit s \<and> digits_val s < 2 ^ bits then Some (digits_val s) else None)"

definition parse_int :: "string \<Rightarrow> int option" where
  \<comment> \<open>\<open>strconv.ParseInt(s, 10, 64)\<close> and \<open>strconv.Atoi\<close> on a 64-bit platform: one optional sign\<close>
  "parse_int s =
     (case s of
        [] \<Rightarrow> None
      | c # cs \<Rightarrow>
          let neg = (c = CHR ''-'');
              body = (if c = CHR ''-'' \<or> c = CHR ''+'' then cs else s);
              v = int (digits_val body)
          in if body = [] \<or> \<not> list_all is_digit body then None
             else if neg then (if v \<le> 9223372036854775808 then Some (- v) else None)
             else (if v \<le> max_int64 then Some v else None))"

lemma digit_char_props [simp]: "d < 10 \<Longrightarrow> is_digit (digit_char d)" "d < 10 \<Longrightarrow> digit_val (digit_char d) = d"
  by (simp_all add: digit_char_def is_digit_def digit_val_def of_char_of)

lemma digits_val_snoc: "digits_val (s @ [c]) = 10 * digits_val s + digit_val c"
  by (simp add: digits_val_def)

lemma format_uint_digits: "list_all is_digit (format_uint n) \<and> format_uint n \<noteq> [] \<and> digits_val (format_uint n) = n"
proof (induction n rule: format_uint.induct)
  case (1 n)
  show ?case
  proof (cases "n < 10")
    case True
    then show ?thesis by (simp add: format_uint.simps [of n] digits_val_def)
  next
    case False
    with "1.IH" have "list_all is_digit (format_uint (n div 10))"
      "format_uint (n div 10) \<noteq> []" "digits_val (format_uint (n div 10)) = n div 10" by auto
    with False show ?thesis by (simp add: format_uint.simps [of n] digits_val_snoc)
  qed
qed

lemma parse_format_uint [simp]: "parse_uint bits (format_uint n) = (if n < 2 ^ bits then Some n else None)"
  by (simp add: parse_uint_def format_uint_digits)

lemma parse_uint_bound: "parse_uint bits s = Some v \<Longrightarrow> v < 2 ^ bits"
  by (auto simp: parse_uint_def split: if_splits)

lemma parse_int_range: "parse_int s = Some v \<Longrightarrow> in_i64 v"
  by (auto simp: parse_int_def in_i64_def min_int64_def max_int64_def Let_def split: list.splits if_splits)

lemma digit_not_space: "is_digit c \<Longrightarrow> \<not> is_space c"
  by (auto simp: is_digit_def is_space_def)

lemma trim_format_uint [simp]: "trim_space (format_uint n) = format_uint n"
  by (rule trim_space_id)
    (metis digit_not_space format_uint_digits hd_in_set last_in_set list_all_iff)

section \<open>Splitting\<close>

fun split_char :: "char \<Rightarrow> string \<Rightarrow> string list" where
  \<comment> \<open>\<open>strings.Split(s, sep)\<close> for a one-byte separator: always at least one piece\<close>
  "split_char d [] = [[]]"
| "split_char d (c # cs) =
     (if c = d then [] # split_char d cs
      else (case split_char d cs of [] \<Rightarrow> [[c]] | w # ws \<Rightarrow> (c # w) # ws))"

definition index_char :: "char \<Rightarrow> string \<Rightarrow> nat option" where
  \<comment> \<open>\<open>strings.IndexByte\<close>\<close>
  "index_char d s = (let n = length (takeWhile (\<lambda>c. c \<noteq> d) s) in if n < length s then Some n else None)"

definition last_index_char :: "char \<Rightarrow> string \<Rightarrow> nat option" where
  \<comment> \<open>\<open>strings.LastIndexByte\<close>\<close>
  "last_index_char d s = map_option (\<lambda>n. length s - 1 - n) (index_char d (rev s))"

definition cut_char :: "char \<Rightarrow> string \<Rightarrow> (string \<times> string) option" where
  \<comment> \<open>\<open>strings.Cut\<close> at the first occurrence\<close>
  "cut_char d s = map_option (\<lambda>n. (take n s, drop (Suc n) s)) (index_char d s)"

definition split_host_port :: "string \<Rightarrow> (string \<times> string) option" where
  \<comment> \<open>\<open>net.SplitHostPort\<close>; every address error is \<open>None\<close>\<close>
  "split_host_port hostport =
     (case last_index_char CHR '':'' hostport of
        None \<Rightarrow> None
      | Some i \<Rightarrow>
          if hostport ! 0 = CHR ''['' then
            (case index_char CHR '']'' hostport of
               None \<Rightarrow> None
             | Some e \<Rightarrow>
                 if e + 1 = length hostport \<or> e + 1 \<noteq> i then None
                 else if index_char CHR ''['' (drop 1 hostport) \<noteq> None
                   \<or> index_char CHR '']'' (drop (e + 1) hostport) \<noteq> None then None
                 else Some (take (e - 1) (drop 1 hostport), drop (i + 1) hostport))
          else
            (let host = take i hostport
             in if index_char CHR '':'' host \<noteq> None then None
                else if index_char CHR ''['' hostport \<noteq> None \<or> index_char CHR '']'' hostport \<noteq> None
                then None
                else Some (host, drop (i + 1) hostport)))"

section \<open>HTTP names and hosts\<close>

definition token_char :: "char \<Rightarrow> bool" where
  "token_char c \<longleftrightarrow>
     (let n = (of_char c :: nat)
      in (97 \<le> n \<and> n \<le> 122) \<or> (65 \<le> n \<and> n \<le> 90) \<or> (48 \<le> n \<and> n \<le> 57) \<or>
         List.member [33, 35, 36, 37, 38, 39, 42, 43, 45, 46, 94, 95, 96, 124, 126] n)"

fun canonical_from :: "bool \<Rightarrow> string \<Rightarrow> string" where
  "canonical_from up [] = []"
| "canonical_from up (c # cs) =
     (if up then upper_char c else lower_char c) # canonical_from (c = CHR ''-'') cs"

definition canonical_header :: "string \<Rightarrow> string" where
  \<comment> \<open>\<open>textproto.CanonicalMIMEHeaderKey\<close>: names with a byte outside the token set are kept as they are\<close>
  "canonical_header s = (if list_all token_char s then canonical_from True s else s)"

definition trim_chars :: "string \<Rightarrow> string \<Rightarrow> string" where
  \<comment> \<open>\<open>strings.Trim(s, cutset)\<close>\<close>
  "trim_chars cs s = rev (dropWhile (List.member cs) (rev (dropWhile (List.member cs) s)))"

definition trim_suffix_char :: "char \<Rightarrow> string \<Rightarrow> string" where
  \<comment> \<open>\<open>strings.TrimSuffix(s, c)\<close> for a one-byte suffix\<close>
  "trim_suffix_char d s = (if s \<noteq> [] \<and> last s = d then butlast s else s)"

lemma token_char_letter: "65 \<le> n \<Longrightarrow> n \<le> 90 \<or> 97 \<le> n \<Longrightarrow> n \<le> (122 :: nat) \<Longrightarrow> token_char (char_of n)"
  unfolding token_char_def Let_def by (subst (1 2 3 4) of_char_of) (simp, linarith)

lemma token_char_upper: "token_char c \<Longrightarrow> token_char (upper_char c)"
  unfolding upper_char_def by (split if_split) (auto intro!: token_char_letter)

lemma token_char_lower: "token_char c \<Longrightarrow> token_char (lower_char c)"
  unfolding lower_char_def by (split if_split) (auto intro!: token_char_letter)

lemma lower_upper_char [simp]: "lower_char (upper_char c) = lower_char c"
  by (auto simp: lower_char_def upper_char_def of_char_of)

lemma lower_canonical_from: "to_lower (canonical_from up s) = to_lower s"
  by (induction up s rule: canonical_from.induct) (simp_all add: to_lower_def)

lemma lower_canonical [simp]: "to_lower (canonical_header s) = to_lower s"
  by (simp add: canonical_header_def lower_canonical_from)

lemma token_canonical_from: "list_all token_char s \<Longrightarrow> list_all token_char (canonical_from up s)"
  by (induction up s rule: canonical_from.induct) (simp_all add: token_char_upper token_char_lower)

lemma token_canonical [simp]: "list_all token_char (canonical_header s) = list_all token_char s"
  by (simp add: canonical_header_def token_canonical_from)

end
