(* ===== verification/BoundedStore.thy ===== *)
theory BoundedStore
  imports Prelude
begin

text \<open>
  The contract shared by the bounded tables of the server (login throttle, rate limit keys, WAF
  buckets): before a new key is inserted the table makes room, and making room never removes a
  protected entry, never invents one, and, when it succeeds, leaves a free place. What a client of
  such a table relies on is proved once here.
\<close>

locale bounded_store =
  fixes lookup :: "'t \<Rightarrow> 'k \<Rightarrow> 'v option"
    and size_of :: "'t \<Rightarrow> nat"
    and cap :: "'t \<Rightarrow> int"
    and wf :: "'t \<Rightarrow> bool"
    and guarded :: "gotime \<Rightarrow> 'v \<Rightarrow> bool"
    and room :: "'t \<Rightarrow> 'k list \<Rightarrow> gotime \<Rightarrow> bool \<times> 't"
    and put :: "'t \<Rightarrow> 'k \<Rightarrow> 'v \<Rightarrow> 't"
    and keyok :: "'k \<Rightarrow> bool"
  assumes room_wf: "wf t \<Longrightarrow> room t ord now = (ok, t') \<Longrightarrow> wf t' \<and> cap t' = cap t"
    and room_free: "wf t \<Longrightarrow> int (size_of t) \<le> cap t \<Longrightarrow> room t ord now = (True, t') \<Longrightarrow> int (size_of t') < cap t"
    and room_shrinks: "wf t \<Longrightarrow> room t ord now = (ok, t') \<Longrightarrow> size_of t' \<le> size_of t"
    and room_sub: "wf t \<Longrightarrow> room t ord now = (ok, t') \<Longrightarrow> lookup t' k = None \<or> lookup t' k = lookup t k"
    and room_keeps: "wf t \<Longrightarrow> room t ord now = (ok, t') \<Longrightarrow> lookup t k = Some v \<Longrightarrow> guarded now v
      \<Longrightarrow> lookup t' k = Some v"
    and put_wf: "wf t \<Longrightarrow> keyok k \<Longrightarrow> wf (put t k v) \<and> cap (put t k v) = cap t"
    and put_lookup: "wf t \<Longrightarrow> keyok k \<Longrightarrow> lookup (put t k v) k' = (if k' = k then Some v else lookup t k')"
    and put_size: "wf t \<Longrightarrow> keyok k \<Longrightarrow> size_of (put t k v) = (if lookup t k = None then Suc (size_of t) else size_of t)"
begin

definition bounded :: "'t \<Rightarrow> bool" where
  "bounded t \<longleftrightarrow> wf t \<and> int (size_of t) \<le> cap t"

lemma bounded_put_known: "bounded t \<Longrightarrow> keyok k \<Longrightarrow> lookup t k = Some v' \<Longrightarrow> bounded (put t k v)"
  by (simp add: bounded_def put_wf put_size)

lemma bounded_room: "bounded t \<Longrightarrow> room t ord now = (ok, t') \<Longrightarrow> bounded t'"
  using room_wf room_shrinks unfolding bounded_def by fastforce

lemma bounded_insert:
  assumes "bounded t" "room t ord now = (True, t')" "keyok k"
  shows "bounded (put t' k v)"
proof -
  have t': "wf t'" "cap t' = cap t" "int (size_of t') < cap t"
    using assms room_wf room_free unfolding bounded_def by blast+
  then have "int (size_of (put t' k v)) \<le> cap t" using assms(3) by (simp add: put_size)
  with t' assms(3) show ?thesis by (simp add: bounded_def put_wf)
qed

lemma guarded_survives_insert:
  assumes "wf t" "room t ord now = (ok, t')" "lookup t k = Some v" "guarded now v" "k' \<noteq> k" "keyok k'"
  shows "lookup t' k = Some v" "lookup (put t' k' v') k = Some v"
  using assms room_keeps room_wf put_lookup by auto

end

end
