(* ===== verification/LoginThrottle.thy ===== *)
theory LoginThrottle
  imports Prelude GoStrings BoundedStore
begin

text \<open>
  The login throttle (\<open>internal/server/login_throttle.go\<close>): bounded tables of failure counters per
  user name and per client address, with reservations that count an attempt before the password is
  checked. The methods are functions on a table; the reservation pair works on an explicit store of
  tables addressed by pointers, since the two pointers may be nil or equal. Eviction walks a Go map,
  so every operation that may evict takes an order \<open>ord\<close> of keys. Map values are pointers to
  entries that are never nil: every store into the map is a fresh entry.
\<close>

section \<open>Data\<close>

definition loginThrottleMaxFailures :: int where "loginThrottleMaxFailures = 5"
definition loginThrottleClientMaxFailures :: int where "loginThrottleClientMaxFailures = 25"
definition loginThrottleWindow :: duration where "loginThrottleWindow = 15 * minute"
definition loginThrottleBlock :: duration where "loginThrottleBlock = 5 * minute"
definition defaultLoginThrottleMaxKeys :: int where "defaultLoginThrottleMaxKeys = 50000"

record loginThrottlePolicy =
  UsernameMaxFailures :: int
  ClientMaxFailures :: int
  lp_Window :: duration
  lp_Block :: duration

definition defaultLoginThrottlePolicy :: loginThrottlePolicy where
  "defaultLoginThrottlePolicy =
     \<lparr>UsernameMaxFailures = loginThrottleMaxFailures, ClientMaxFailures = loginThrottleClientMaxFailures,
      lp_Window = loginThrottleWindow, lp_Block = loginThrottleBlock\<rparr>"

record loginThrottleEntry =
  failures :: int
  inFlight :: int
  windowStart :: gotime
  window :: duration
  blockedUntil :: gotime

record loginThrottle =
  entries :: "(string, loginThrottleEntry) gomap"
  maxEntries :: int

type_synonym throttle_ptr = "nat option"
type_synonym throttle_store = "nat \<Rightarrow> loginThrottle"

record loginThrottleReservation =
  usernameThrottle :: throttle_ptr
  clientThrottle :: throttle_ptr
  usernameKey :: string
  clientKey :: string
  res_policy :: loginThrottlePolicy
  settled :: bool

section \<open>Operations on one table\<close>

definition normalizedLoginThrottlePolicy :: "loginThrottlePolicy \<Rightarrow> loginThrottlePolicy" where
  "normalizedLoginThrottlePolicy policy =
     \<lparr>UsernameMaxFailures = (if UsernameMaxFailures policy \<le> 0 then loginThrottleMaxFailures
        else UsernameMaxFailures policy),
      ClientMaxFailures = (if ClientMaxFailures policy \<le> 0 then loginThrottleClientMaxFailures
        else ClientMaxFailures policy),
      lp_Window = (if lp_Window policy \<le> 0 then loginThrottleWindow else lp_Window policy),
      lp_Block = (if lp_Block policy \<le> 0 then loginThrottleBlock else lp_Block policy)\<rparr>"

definition newLoginThrottle :: "int \<Rightarrow> loginThrottle" where
  "newLoginThrottle n =
     \<lparr>entries = [], maxEntries = (if n \<le> 0 then defaultLoginThrottleMaxKeys else n)\<rparr>"

definition newLoginThrottleBuckets :: "int \<Rightarrow> loginThrottle \<times> loginThrottle" where
  "newLoginThrottleBuckets n =
     (let m = (if n \<le> 0 then defaultLoginThrottleMaxKeys else n);
          perBucket = max 1 (go_div m 2)
      in (newLoginThrottle perBucket, newLoginThrottle perBucket))"

definition loginThrottleEntryBlocked :: "loginThrottleEntry \<Rightarrow> gotime \<Rightarrow> bool" where
  "loginThrottleEntryBlocked e now \<longleftrightarrow> \<not> time_is_zero (blockedUntil e) \<and> now < blockedUntil e"

definition loginThrottleEntryExpired :: "loginThrottleEntry \<Rightarrow> gotime \<Rightarrow> bool" where
  "loginThrottleEntryExpired e now \<longleftrightarrow>
     (let w = (if window e \<le> 0 then loginThrottleWindow else window e)
      in time_sub now (windowStart e) > w)"

definition prunable :: "gotime \<Rightarrow> loginThrottleEntry \<Rightarrow> bool" where
  "prunable now e \<longleftrightarrow> inFlight e = 0 \<and> \<not> loginThrottleEntryBlocked e now \<and> loginThrottleEntryExpired e now"

definition pruneLocked :: "loginThrottle \<Rightarrow> gotime \<Rightarrow> loginThrottle" where
  "pruneLocked t now = t\<lparr>entries := filter (\<lambda>p. \<not> prunable now (snd p)) (entries t)\<rparr>"

fun evict_scan :: "(string, loginThrottleEntry) gomap \<Rightarrow> gotime \<Rightarrow> string list \<Rightarrow> string \<Rightarrow> gotime
    \<Rightarrow> bool \<times> (string, loginThrottleEntry) gomap" where
  "evict_scan m now [] oldestKey oldestStart =
     (if oldestKey \<noteq> '''' then (True, AList.delete oldestKey m) else (False, m))"
| "evict_scan m now (key # keys) oldestKey oldestStart =
     (case map_of m key of
        None \<Rightarrow> evict_scan m now keys oldestKey oldestStart
      | Some entry \<Rightarrow>
          if prunable now entry then (True, AList.delete key m)
          else if loginThrottleEntryBlocked entry now \<or> inFlight entry > 0
          then evict_scan m now keys oldestKey oldestStart
          else if oldestKey = '''' \<or> windowStart entry < oldestStart
          then evict_scan m now keys key (windowStart entry)
          else evict_scan m now keys oldestKey oldestStart)"

definition evictOldestUnlockedEntryLocked :: "loginThrottle \<Rightarrow> string list \<Rightarrow> gotime \<Rightarrow> bool \<times> loginThrottle" where
  "evictOldestUnlockedEntryLocked t ord now =
     (case evict_scan (entries t) now (range_keys ord (entries t)) '''' 0 of (ok, m) \<Rightarrow> (ok, t\<lparr>entries := m\<rparr>))"

definition make_room :: "loginThrottle \<Rightarrow> string list \<Rightarrow> gotime \<Rightarrow> bool \<times> loginThrottle" where
  \<comment> \<open>prune, then evict when the table is still full; \<open>False\<close> is the early return of the callers\<close>
  "make_room t ord now =
     (let t1 = pruneLocked t now
      in if int (length (entries t1)) \<ge> maxEntries t1 then evictOldestUnlockedEntryLocked t1 ord now
         else (True, t1))"

definition put_entry :: "loginThrottle \<Rightarrow> string \<Rightarrow> loginThrottleEntry \<Rightarrow> loginThrottle" where
  "put_entry t key e = t\<lparr>entries := AList.update key e (entries t)\<rparr>"

definition del_entry :: "loginThrottle \<Rightarrow> string \<Rightarrow> loginThrottle" where
  "del_entry t key = t\<lparr>entries := AList.delete key (entries t)\<rparr>"

definition newEntry :: "gotime \<Rightarrow> duration \<Rightarrow> loginThrottleEntry" where
  "newEntry now w = \<lparr>failures = 0, inFlight = 0, windowStart = now, window = w, blockedUntil = 0\<rparr>"

definition retryAfter :: "loginThrottle \<Rightarrow> string \<Rightarrow> gotime \<Rightarrow> duration \<times> loginThrottle" where
  "retryAfter t key now =
     (if key = '''' then (0, t)
      else (case map_of (entries t) key of
              None \<Rightarrow> (0, t)
            | Some e \<Rightarrow>
                if \<not> time_is_zero (blockedUntil e) \<and> now < blockedUntil e
                then (time_sub (blockedUntil e) now, t)
                else if loginThrottleEntryExpired e now then (0, del_entry t key)
                else (0, t)))"

definition unblock_entry :: "loginThrottleEntry \<Rightarrow> gotime \<Rightarrow> duration \<Rightarrow> loginThrottleEntry" where
  "unblock_entry e now w =
     (let e1 = (if time_is_zero (blockedUntil e) then e
                else e\<lparr>failures := 0, blockedUntil := 0, windowStart := now\<rparr>)
      in e1\<lparr>window := w\<rparr>)"

definition take_slot :: "loginThrottle \<Rightarrow> string \<Rightarrow> loginThrottleEntry \<Rightarrow> int \<Rightarrow> bool \<times> loginThrottle" where
  "take_slot t key e maxFailures =
     (if failures e + inFlight e \<ge> maxFailures then (False, put_entry t key e)
      else (True, put_entry t key (e\<lparr>inFlight := inFlight e + 1\<rparr>)))"

definition tryReserveWithPolicy :: "loginThrottle \<Rightarrow> string list \<Rightarrow> string \<Rightarrow> gotime \<Rightarrow> int \<Rightarrow> duration
    \<Rightarrow> bool \<times> loginThrottle" where
  "tryReserveWithPolicy t ord key now maxFailures0 window0 =
     (if key = '''' then (True, t)
      else
        let maxFailures = (if maxFailures0 \<le> 0 then loginThrottleMaxFailures else maxFailures0);
            w = (if window0 \<le> 0 then loginThrottleWindow else window0)
        in (case map_of (entries t) key of
              Some e0 \<Rightarrow>
                if loginThrottleEntryBlocked e0 now then (False, t)
                else
                  (let e = unblock_entry e0 now w
                   in if inFlight e = 0 \<and> loginThrottleEntryExpired e now
                      then (case make_room (del_entry t key) ord now of
                              (False, t1) \<Rightarrow> (False, t1)
                            | (True, t1) \<Rightarrow> take_slot t1 key (newEntry now w) maxFailures)
                      else take_slot t key e maxFailures)
            | None \<Rightarrow>
                (case make_room t ord now of
                   (False, t1) \<Rightarrow> (False, t1)
                 | (True, t1) \<Rightarrow> take_slot t1 key (newEntry now w) maxFailures)))"

definition drop_slot :: "loginThrottleEntry \<Rightarrow> loginThrottleEntry" where
  "drop_slot e = (if inFlight e > 0 then e\<lparr>inFlight := inFlight e - 1\<rparr> else e)"

definition releaseReservation :: "loginThrottle \<Rightarrow> string \<Rightarrow> loginThrottle" where
  "releaseReservation t key =
     (if key = '''' then t
      else (case map_of (entries t) key of
              None \<Rightarrow> t
            | Some e0 \<Rightarrow>
                let e = drop_slot e0
                in if inFlight e = 0 \<and> failures e = 0 \<and> time_is_zero (blockedUntil e)
                   then del_entry t key else put_entry t key e))"

definition clearReservedFailures :: "loginThrottle \<Rightarrow> string \<Rightarrow> loginThrottle" where
  "clearReservedFailures t key =
     (if key = '''' then t
      else (case map_of (entries t) key of
              None \<Rightarrow> t
            | Some e0 \<Rightarrow>
                let e = (drop_slot e0)\<lparr>failures := 0, blockedUntil := 0\<rparr>
                in if inFlight e = 0 then del_entry t key else put_entry t key e))"

definition charge_failure :: "loginThrottle \<Rightarrow> string \<Rightarrow> loginThrottleEntry \<Rightarrow> gotime \<Rightarrow> int \<Rightarrow> duration
    \<Rightarrow> loginThrottle" where
  "charge_failure t key e now maxFailures block =
     (let e1 = e\<lparr>failures := failures e + 1\<rparr>
      in put_entry t key (if failures e1 \<ge> maxFailures then e1\<lparr>blockedUntil := now + block\<rparr> else e1))"

definition recordReservedFailureWithPolicy :: "loginThrottle \<Rightarrow> string list \<Rightarrow> string \<Rightarrow> gotime \<Rightarrow> int
    \<Rightarrow> duration \<Rightarrow> duration \<Rightarrow> loginThrottle" where
  "recordReservedFailureWithPolicy t ord key now maxFailures0 window0 block0 =
     (if key = '''' then t
      else
        let maxFailures = (if maxFailures0 \<le> 0 then loginThrottleMaxFailures else maxFailures0);
            w = (if window0 \<le> 0 then loginThrottleWindow else window0);
            block = (if block0 \<le> 0 then loginThrottleBlock else block0)
        in (case map_of (entries t) key of
              Some e \<Rightarrow> charge_failure t key (drop_slot (e\<lparr>window := w\<rparr>)) now maxFailures block
            | None \<Rightarrow>
                (case make_room t ord now of
                   (False, t1) \<Rightarrow> t1
                 | (True, t1) \<Rightarrow> charge_failure t1 key (drop_slot (newEntry now w)) now maxFailures block)))"

definition recordFailureWithPolicy :: "loginThrottle \<Rightarrow> string list \<Rightarrow> string \<Rightarrow> gotime \<Rightarrow> int
    \<Rightarrow> duration \<Rightarrow> duration \<Rightarrow> loginThrottle" where
  "recordFailureWithPolicy t ord key now maxFailures0 window0 block0 =
     (if key = '''' then t
      else
        let maxFailures = (if maxFailures0 \<le> 0 then loginThrottleMaxFailures else maxFailures0);
            w = (if window0 \<le> 0 then loginThrottleWindow else window0);
            block = (if block0 \<le> 0 then loginThrottleBlock else block0);
            fresh = (case make_room t ord now of
                       (False, t1) \<Rightarrow> t1
                     | (True, t1) \<Rightarrow> charge_failure t1 key (newEntry now w) now maxFailures block)
        in (case map_of (entries t) key of
              None \<Rightarrow> fresh
            | Some e \<Rightarrow>
                if \<not> loginThrottleEntryBlocked e now \<and> loginThrottleEntryExpired e now then fresh
                else charge_failure t key (e\<lparr>window := w\<rparr>) now maxFailures block))"

definition recordReservedFailureWithLimit :: "loginThrottle \<Rightarrow> string list \<Rightarrow> string \<Rightarrow> gotime \<Rightarrow> int \<Rightarrow> loginThrottle" where
  "recordReservedFailureWithLimit t ord key now maxFailures =
     recordReservedFailureWithPolicy t ord key now maxFailures loginThrottleWindow loginThrottleBlock"

definition recordFailureWithLimit :: "loginThrottle \<Rightarrow> string list \<Rightarrow> string \<Rightarrow> gotime \<Rightarrow> int \<Rightarrow> loginThrottle" where
  "recordFailureWithLimit t ord key now maxFailures =
     recordFailureWithPolicy t ord key now maxFailures loginThrottleWindow loginThrottleBlock"

definition throttle_recordFailure :: "loginThrottle \<Rightarrow> string list \<Rightarrow> string \<Rightarrow> gotime \<Rightarrow> loginThrottle" where
  "throttle_recordFailure t ord key now = recordFailureWithLimit t ord key now loginThrottleMaxFailures"

definition throttle_recordSuccess :: "loginThrottle \<Rightarrow> string \<Rightarrow> loginThrottle" where
  "throttle_recordSuccess t key = (if key = '''' then t else del_entry t key)"

section \<open>Reservations over two tables\<close>

definition on_ptr :: "throttle_store \<Rightarrow> throttle_ptr \<Rightarrow> (loginThrottle \<Rightarrow> loginThrottle) \<Rightarrow> throttle_store" where
  \<comment> \<open>a method call through a pointer; a nil receiver does nothing\<close>
  "on_ptr h p f = (case p of None \<Rightarrow> h | Some a \<Rightarrow> h(a := f (h a)))"

definition reserve_ptr :: "throttle_store \<Rightarrow> throttle_ptr \<Rightarrow> string list \<Rightarrow> string \<Rightarrow> gotime \<Rightarrow> int \<Rightarrow> duration
    \<Rightarrow> bool \<times> throttle_store" where
  "reserve_ptr h p ord key now maxFailures w =
     (case p of
        None \<Rightarrow> (True, h)
      | Some a \<Rightarrow> (case tryReserveWithPolicy (h a) ord key now maxFailures w of
                     (ok, t) \<Rightarrow> (ok, h(a := t))))"

definition reserveLoginThrottleAttemptWithPolicy :: "throttle_store \<Rightarrow> throttle_ptr \<Rightarrow> throttle_ptr
    \<Rightarrow> string list \<Rightarrow> string list \<Rightarrow> string \<Rightarrow> string \<Rightarrow> gotime \<Rightarrow> loginThrottlePolicy
    \<Rightarrow> loginThrottleReservation option \<times> throttle_store" where
  "reserveLoginThrottleAttemptWithPolicy h up cp ordU ordC ukey ckey now policy0 =
     (let policy = normalizedLoginThrottlePolicy policy0
      in (case reserve_ptr h up ordU ukey now (UsernameMaxFailures policy) (lp_Window policy) of
            (False, h1) \<Rightarrow> (None, h1)
          | (True, h1) \<Rightarrow>
              if up \<noteq> None \<and> cp = up
              then (Some \<lparr>usernameThrottle = up, clientThrottle = None, usernameKey = ukey,
                      clientKey = '''', res_policy = policy, settled = False\<rparr>, h1)
              else (case reserve_ptr h1 cp ordC ckey now (ClientMaxFailures policy) (lp_Window policy) of
                      (False, h2) \<Rightarrow> (None, on_ptr h2 up (\<lambda>t. releaseReservation t ukey))
                    | (True, h2) \<Rightarrow>
                        (Some \<lparr>usernameThrottle = up, clientThrottle = cp, usernameKey = ukey,
                          clientKey = ckey, res_policy = policy, settled = False\<rparr>, h2))))"

definition reserveLoginThrottleAttempt :: "throttle_store \<Rightarrow> throttle_ptr \<Rightarrow> throttle_ptr
    \<Rightarrow> string list \<Rightarrow> string list \<Rightarrow> string \<Rightarrow> string \<Rightarrow> gotime
    \<Rightarrow> loginThrottleReservation option \<times> throttle_store" where
  "reserveLoginThrottleAttempt h up cp ordU ordC ukey ckey now =
     reserveLoginThrottleAttemptWithPolicy h up cp ordU ordC ukey ckey now defaultLoginThrottlePolicy"

definition reservation_release :: "throttle_store \<Rightarrow> loginThrottleReservation
    \<Rightarrow> throttle_store \<times> loginThrottleReservation" where
  "reservation_release h r =
     (if settled r then (h, r)
      else (on_ptr (on_ptr h (usernameThrottle r) (\<lambda>t. releaseReservation t (usernameKey r)))
              (clientThrottle r) (\<lambda>t. releaseReservation t (clientKey r)),
            r\<lparr>settled := True\<rparr>))"

definition reservation_recordFailure :: "throttle_store \<Rightarrow> string list \<Rightarrow> string list
    \<Rightarrow> loginThrottleReservation \<Rightarrow> gotime \<Rightarrow> throttle_store \<times> loginThrottleReservation" where
  "reservation_recordFailure h ordU ordC r now =
     (if settled r then (h, r)
      else let policy = normalizedLoginThrottlePolicy (res_policy r) in
        (on_ptr (on_ptr h (usernameThrottle r)
            (\<lambda>t. recordReservedFailureWithPolicy t ordU (usernameKey r) now (UsernameMaxFailures policy)
               (lp_Window policy) (lp_Block policy)))
           (clientThrottle r)
            (\<lambda>t. recordReservedFailureWithPolicy t ordC (clientKey r) now (ClientMaxFailures policy)
               (lp_Window policy) (lp_Block policy)),
         r\<lparr>settled := True\<rparr>))"

definition reservation_recordSuccess :: "throttle_store \<Rightarrow> loginThrottleReservation
    \<Rightarrow> throttle_store \<times> loginThrottleReservation" where
  "reservation_recordSuccess h r =
     (if settled r then (h, r)
      else (on_ptr (on_ptr h (usernameThrottle r) (\<lambda>t. clearReservedFailures t (usernameKey r)))
              (clientThrottle r) (\<lambda>t. releaseReservation t (clientKey r)),
            r\<lparr>settled := True\<rparr>))"

section \<open>Keys\<close>

definition loginThrottlePeer :: "string \<Rightarrow> string" where
  "loginThrottlePeer peerAddr =
     (let host0 = trim_space peerAddr;
          host = (case split_host_port host0 of Some (h, _) \<Rightarrow> h | None \<Rightarrow> host0)
      in if host = '''' then ''unknown'' else host)"

definition loginThrottleKey :: "string \<Rightarrow> string \<Rightarrow> string" where
  "loginThrottleKey peerAddr username =
     ''user'' @ [CHR 0x00] @ loginThrottlePeer peerAddr @ [CHR 0x00] @ trim_space (to_lower username)"

definition loginThrottleClientKey :: "string \<Rightarrow> string" where
  "loginThrottleClientKey peerAddr = ''client'' @ [CHR 0x00] @ loginThrottlePeer peerAddr"


section \<open>Tables keep their bound and their locked entries\<close>

lemmas entry_defs = loginThrottleEntryBlocked_def loginThrottleEntryExpired_def prunable_def
lemmas table_defs = put_entry_def del_entry_def

definition locked :: "gotime \<Rightarrow> loginThrottleEntry \<Rightarrow> bool" where
  "locked now e \<longleftrightarrow> inFlight e > 0 \<or> loginThrottleEntryBlocked e now"

definition entry_ok :: "loginThrottleEntry \<Rightarrow> bool" where
  "entry_ok e \<longleftrightarrow> 0 \<le> failures e \<and> 0 \<le> inFlight e"

definition table_wf :: "loginThrottle \<Rightarrow> bool" where
  "table_wf t \<longleftrightarrow> gm_wf (entries t) \<and> '''' \<notin> gm_keys (entries t) \<and> 0 < maxEntries t"

definition lookup_entry :: "loginThrottle \<Rightarrow> string \<Rightarrow> loginThrottleEntry option" where
  "lookup_entry t k = map_of (entries t) k"

lemma prunable_not_locked: "prunable now e \<Longrightarrow> \<not> locked now e"
  by (simp add: prunable_def locked_def)

lemma evict_scan_cases:
  assumes "evict_scan m now ord old oldT = (ok, m')"
    and "old \<noteq> '''' \<longrightarrow> (\<exists>e. map_of m old = Some e \<and> \<not> locked now e)"
  shows "(ok \<and> (\<exists>k e. map_of m k = Some e \<and> \<not> locked now e \<and> m' = AList.delete k m)) \<or> (\<not> ok \<and> m' = m)"
  using assms
proof (induction m now ord old oldT rule: evict_scan.induct)
  case (1 m now oldestKey oldestStart)
  then show ?case by (auto split: if_splits)
next
  case (2 m now key keys oldestKey oldestStart)
  show ?case
  proof (cases "map_of m key")
    case None
    with 2 show ?thesis by auto
  next
    case (Some e)
    consider "prunable now e" | "\<not> prunable now e" "locked now e" | "\<not> prunable now e" "\<not> locked now e"
      by blast
    then show ?thesis
    proof cases
      case 1
      with Some 2 show ?thesis using prunable_not_locked by auto
    next
      case 2
      with Some "2.IH"(2) "2.prems" show ?thesis by (auto simp: locked_def)
    next
      case 3
      with Some "2.IH"(3,4) "2.prems" show ?thesis by (auto simp: locked_def split: if_splits)
    qed
  qed
qed

lemma length_prune_le: "length (filter P xs) \<le> length xs"
  by (rule length_filter_le)

lemma prune_entry:
  "table_wf t \<Longrightarrow> lookup_entry (pruneLocked t now) k =
     (case lookup_entry t k of Some e \<Rightarrow> if prunable now e then None else Some e | None \<Rightarrow> None)"
  by (simp add: table_wf_def lookup_entry_def pruneLocked_def map_of_filter split: option.split)

lemma table_wf_prune [simp]:
  "table_wf t \<Longrightarrow> table_wf (pruneLocked t now)" "maxEntries (pruneLocked t now) = maxEntries t"
  "length (entries (pruneLocked t now)) \<le> length (entries t)"
  by (auto simp: table_wf_def pruneLocked_def)

lemma evict_cases:
  assumes "table_wf t" "evictOldestUnlockedEntryLocked t ord now = (ok, t')"
  shows "(ok \<and> (\<exists>k e. lookup_entry t k = Some e \<and> \<not> locked now e \<and> t' = del_entry t k)) \<or> (\<not> ok \<and> t' = t)"
proof -
  obtain m where "evict_scan (entries t) now (range_keys ord (entries t)) '''' 0 = (ok, m)" "t' = t\<lparr>entries := m\<rparr>"
    using assms(2) by (auto simp: evictOldestUnlockedEntryLocked_def split: prod.splits)
  then have "(ok \<and> (\<exists>k e. map_of (entries t) k = Some e \<and> \<not> locked now e \<and> m = AList.delete k (entries t)))
      \<or> (\<not> ok \<and> m = entries t)"
    using evict_scan_cases by blast
  then show ?thesis
  proof (elim disjE conjE exE)
    fix k e
    assume "ok" "map_of (entries t) k = Some e" "\<not> locked now e" "m = AList.delete k (entries t)"
    then have "lookup_entry t k = Some e" "t' = del_entry t k"
      using \<open>t' = t\<lparr>entries := m\<rparr>\<close> by (simp_all only: lookup_entry_def del_entry_def)
    with \<open>ok\<close> \<open>\<not> locked now e\<close> show ?thesis by blast
  next
    assume "\<not> ok" "m = entries t"
    with \<open>t' = t\<lparr>entries := m\<rparr>\<close> show ?thesis by simp
  qed
qed

lemma make_room_cases:
  assumes wf: "table_wf t" and room: "make_room t ord now = (ok, t')"
  obtains "int (length (entries (pruneLocked t now))) < maxEntries t" "ok" "t' = pruneLocked t now"
  | k e where "ok" "lookup_entry (pruneLocked t now) k = Some e" "\<not> locked now e"
      "t' = del_entry (pruneLocked t now) k"
  | "\<not> ok" "t' = pruneLocked t now"
proof (cases "int (length (entries (pruneLocked t now))) \<ge> maxEntries t")
  case True
  then have "evictOldestUnlockedEntryLocked (pruneLocked t now) ord now = (ok, t')"
    using room by (simp add: make_room_def)
  from evict_cases [OF table_wf_prune(1) [OF wf] this] show ?thesis
  proof (elim disjE conjE exE)
    fix k e
    assume "ok" "lookup_entry (pruneLocked t now) k = Some e" "\<not> locked now e"
      "t' = del_entry (pruneLocked t now) k"
    then show ?thesis by (rule that(2))
  next
    assume "\<not> ok" "t' = pruneLocked t now"
    then show ?thesis by (rule that(3))
  qed
next
  case False
  with room have "int (length (entries (pruneLocked t now))) < maxEntries t" "ok" "t' = pruneLocked t now"
    by (simp_all add: make_room_def)
  then show ?thesis by (rule that(1))
qed

lemma del_entry_simps [simp]:
  "maxEntries (del_entry t k) = maxEntries t"
  "lookup_entry (del_entry t k) k' = (if k' = k then None else lookup_entry t k')"
  "table_wf t \<Longrightarrow> table_wf (del_entry t k)"
  "length (entries (del_entry t k)) \<le> length (entries t)"
  by (auto simp: del_entry_def lookup_entry_def table_wf_def)

lemma put_entry_simps [simp]:
  "maxEntries (put_entry t k e) = maxEntries t"
  "lookup_entry (put_entry t k e) k' = (if k' = k then Some e else lookup_entry t k')"
  "table_wf t \<Longrightarrow> k \<noteq> '''' \<Longrightarrow> table_wf (put_entry t k e)"
  by (auto simp: put_entry_def lookup_entry_def table_wf_def)

lemma length_put_entry: "length (entries (put_entry t k e)) =
    (if lookup_entry t k = None then Suc (length (entries t)) else length (entries t))"
  by (simp add: put_entry_def lookup_entry_def length_update map_of_eq_None_iff)

lemma length_del_entry:
  "table_wf t \<Longrightarrow> lookup_entry t k = Some e \<Longrightarrow> length (entries (del_entry t k)) < length (entries t)"
  using length_delete_key [of "entries t" k] map_of_Some_key [of "entries t" k e]
  by (cases "entries t") (auto simp: table_wf_def lookup_entry_def del_entry_def)

text \<open>The store contract: keys other than the empty one, which no operation inserts.\<close>

interpretation lt: bounded_store lookup_entry "\<lambda>t. length (entries t)" maxEntries table_wf locked
  make_room put_entry "\<lambda>k. k \<noteq> ''''"
proof
  fix t t' ord now ok k v
  assume wf: "table_wf t" and room: "make_room t ord now = (ok, t')"
  note cases = make_room_cases [OF wf room]
  note wf' = table_wf_prune(1) [OF wf, of now]
  show "table_wf t' \<and> maxEntries t' = maxEntries t"
    using wf' by (rule_tac cases) auto
  show "length (entries t') \<le> length (entries t)"
    by (rule cases) (auto intro: order_trans [OF del_entry_simps(4) table_wf_prune(3)])
  show "lookup_entry t' k = None \<or> lookup_entry t' k = lookup_entry t k"
    by (rule cases) (auto simp: prune_entry [OF wf] split: option.splits)
  assume "lookup_entry t k = Some v" "locked now v"
  then show "lookup_entry t' k = Some v"
    by (rule_tac cases) (auto simp: prune_entry [OF wf] dest: prunable_not_locked)
next
  fix t t' ord now
  assume wf: "table_wf t" and room: "make_room t ord now = (True, t')"
    and le: "int (length (entries t)) \<le> maxEntries t"
  show "int (length (entries t')) < maxEntries t"
  proof (rule make_room_cases [OF wf room])
    fix k e assume "lookup_entry (pruneLocked t now) k = Some e" "t' = del_entry (pruneLocked t now) k"
    then have "length (entries t') < length (entries (pruneLocked t now))"
      using length_del_entry [OF table_wf_prune(1) [OF wf]] by simp
    moreover have "length (entries (pruneLocked t now)) \<le> length (entries t)" by simp
    ultimately show ?thesis using le by linarith
  qed auto
qed (auto simp: length_put_entry)

abbreviation bounded_table :: "loginThrottle \<Rightarrow> bool" where
  "bounded_table \<equiv> lt.bounded"

definition table_ok :: "loginThrottle \<Rightarrow> bool" where
  "table_ok t \<longleftrightarrow> table_wf t \<and> int (length (entries t)) \<le> maxEntries t \<and>
     (\<forall>k e. lookup_entry t k = Some e \<longrightarrow> entry_ok e)"

lemma table_ok_bounded: "table_ok t \<Longrightarrow> lt.bounded t"
  by (simp add: table_ok_def lt.bounded_def)

lemma table_ok_entry: "table_ok t \<Longrightarrow> lookup_entry t k = Some e \<Longrightarrow> entry_ok e"
  by (simp add: table_ok_def)

lemma table_ok_wf: "table_ok t \<Longrightarrow> table_wf t"
  by (simp add: table_ok_def)

lemma table_ok_key: "table_ok t \<Longrightarrow> lookup_entry t k = Some e \<Longrightarrow> k \<noteq> ''''"
  by (auto simp: table_ok_def table_wf_def lookup_entry_def dest: map_of_Some_key)

lemma table_okI: "lt.bounded t \<Longrightarrow> (\<And>k e. lookup_entry t k = Some e \<Longrightarrow> entry_ok e) \<Longrightarrow> table_ok t"
  by (simp add: table_ok_def lt.bounded_def)

lemma table_ok_new [simp]: "table_ok (newLoginThrottle n)"
  by (simp add: table_ok_def newLoginThrottle_def table_wf_def lookup_entry_def defaultLoginThrottleMaxKeys_def)

lemma table_ok_del: "table_ok t \<Longrightarrow> table_ok (del_entry t k)"
  unfolding table_ok_def
  by (auto split: if_splits) (meson del_entry_simps(4) of_nat_mono order_trans)

lemma table_ok_put:
  assumes "table_ok t" "lookup_entry t k = Some e0" "entry_ok e"
  shows "table_ok (put_entry t k e)"
proof (rule table_okI)
  show "lt.bounded (put_entry t k e)"
    using lt.bounded_put_known [OF table_ok_bounded] table_ok_key assms by blast
qed (use assms in \<open>auto simp: table_ok_def split: if_splits\<close>)

lemma table_ok_room:
  assumes "table_ok t" "make_room t ord now = (ok, t')"
  shows "table_ok t'"
proof (rule table_okI)
  show "lt.bounded t'" using lt.bounded_room [OF table_ok_bounded] assms by blast
  fix k e assume "lookup_entry t' k = Some e"
  then have "lookup_entry t k = Some e"
    using lt.room_sub [OF table_ok_wf [OF assms(1)] assms(2), of k] by simp
  then show "entry_ok e" by (rule table_ok_entry [OF assms(1)])
qed

lemma table_ok_insert:
  assumes "table_ok t" "make_room t ord now = (True, t')" "k \<noteq> ''''" "entry_ok e"
  shows "table_ok (put_entry t' k e)"
proof (rule table_okI)
  show "lt.bounded (put_entry t' k e)"
    using lt.bounded_insert [OF table_ok_bounded] assms by blast
qed (use table_ok_room [OF assms(1,2)] assms(4) in \<open>auto simp: table_ok_def split: if_splits\<close>)

section \<open>What an operation does to the entries\<close>

text \<open>One table operation is \<^emph>\<open>local\<close> to a key: it leaves the table sound, and every other key keeps
  its entry, unless room had to be made and the entry was unlocked.\<close>

definition local_op :: "gotime \<Rightarrow> string \<Rightarrow> loginThrottle \<Rightarrow> loginThrottle \<Rightarrow> bool" where
  "local_op now key t t' \<longleftrightarrow> table_ok t' \<and> maxEntries t' = maxEntries t \<and>
     (\<forall>k e. k \<noteq> key \<longrightarrow> lookup_entry t k = Some e \<longrightarrow> locked now e \<longrightarrow> lookup_entry t' k = Some e) \<and>
     (\<forall>k. k \<noteq> key \<longrightarrow> lookup_entry t' k = None \<or> lookup_entry t' k = lookup_entry t k)"

lemma local_op_refl: "table_ok t \<Longrightarrow> local_op now key t t"
  by (simp add: local_op_def)

lemma local_op_put: "table_ok t \<Longrightarrow> lookup_entry t key = Some e0 \<Longrightarrow> (entry_ok e0 \<Longrightarrow> entry_ok e) \<Longrightarrow> local_op now key t (put_entry t key e)"
  by (simp add: local_op_def table_ok_put table_ok_entry [of t key e0])

lemma local_op_del: "table_ok t \<Longrightarrow> local_op now key t (del_entry t key)"
  by (simp add: local_op_def table_ok_del)

lemma local_op_room: "table_ok t \<Longrightarrow> make_room t ord now = (ok, t') \<Longrightarrow> local_op now key t t'"
  unfolding local_op_def
  using table_ok_room [of t ord now ok t'] lt.room_wf [OF table_ok_wf, of t ord now ok t']
    lt.room_keeps [OF table_ok_wf, of t ord now ok t'] lt.room_sub [OF table_ok_wf, of t ord now ok t']
  by (intro conjI allI impI) simp_all

lemma local_op_insert:
  assumes "table_ok t" "make_room t ord now = (True, t')" "key \<noteq> ''''" "entry_ok e"
  shows "local_op now key t (put_entry t' key e)"
  using local_op_room [OF assms(1,2), of key] table_ok_insert [OF assms] by (simp add: local_op_def)

lemma local_op_after_del:
  "table_ok t \<Longrightarrow> local_op now key (del_entry t key) t' \<Longrightarrow> local_op now key t t'"
  by (auto simp: local_op_def)

lemma entry_ok_simps [simp, intro]:
  "entry_ok (newEntry now w)" "entry_ok e \<Longrightarrow> entry_ok (unblock_entry e now w)" "entry_ok e \<Longrightarrow> entry_ok (drop_slot e)"
  "entry_ok e \<Longrightarrow> entry_ok (e\<lparr>inFlight := inFlight e + 1\<rparr>)" "entry_ok e \<Longrightarrow> entry_ok (e\<lparr>window := w\<rparr>)"
  "entry_ok e \<Longrightarrow> entry_ok (e\<lparr>failures := failures e + 1\<rparr>)"
  "entry_ok (e\<lparr>blockedUntil := b\<rparr>) \<longleftrightarrow> entry_ok e"
  "entry_ok e \<Longrightarrow> entry_ok (e\<lparr>failures := 0, blockedUntil := b\<rparr>)"
  by (auto simp: entry_ok_def newEntry_def unblock_entry_def drop_slot_def Let_def)

lemma take_slot_known:
  "table_ok t \<Longrightarrow> lookup_entry t key = Some e0 \<Longrightarrow> (entry_ok e0 \<Longrightarrow> entry_ok e) \<Longrightarrow> take_slot t key e n = (ok, t') \<Longrightarrow> local_op now key t t'"
  by (auto simp: take_slot_def intro!: local_op_put split: if_splits)

lemma take_slot_insert:
  "table_ok t \<Longrightarrow> make_room t ord now = (True, t1) \<Longrightarrow> key \<noteq> '''' \<Longrightarrow> entry_ok e \<Longrightarrow> take_slot t1 key e n = (ok, t')
    \<Longrightarrow> local_op now key t t'"
  by (auto simp: take_slot_def intro: local_op_insert split: if_splits)

lemma charge_known:
  "table_ok t \<Longrightarrow> lookup_entry t key = Some e0 \<Longrightarrow> (entry_ok e0 \<Longrightarrow> entry_ok e) \<Longrightarrow> local_op now key t (charge_failure t key e s n b)"
  by (auto simp: charge_failure_def Let_def intro!: local_op_put)

lemma charge_insert:
  "table_ok t \<Longrightarrow> make_room t ord now = (True, t1) \<Longrightarrow> key \<noteq> '''' \<Longrightarrow> entry_ok e
    \<Longrightarrow> local_op now key t (charge_failure t1 key e s n b)"
  by (auto simp: charge_failure_def Let_def intro: local_op_insert)

lemmas fold_lookup = lookup_entry_def [symmetric]

lemma reserve_fresh_local:
  assumes "table_ok t" "key \<noteq> ''''"
    and "(case make_room t ord now of (False, t1) \<Rightarrow> (False, t1)
          | (True, t1) \<Rightarrow> take_slot t1 key (newEntry now w) n) = (ok, t')"
  shows "local_op now key t t'"
proof -
  obtain b t1 where room: "make_room t ord now = (b, t1)" by (cases "make_room t ord now")
  show ?thesis
    using assms room take_slot_insert [OF assms(1), of ord now t1 key "newEntry now w" n ok t']
      local_op_room [OF assms(1) room, of key]
    by (cases b) auto
qed

lemma tryReserve_local:
  assumes "table_ok t" "tryReserveWithPolicy t ord key now n w = (ok, t')"
  shows "local_op now key t t'"
proof (cases "key = ''''")
  case True
  with assms show ?thesis by (simp add: tryReserveWithPolicy_def local_op_refl)
next
  case False
  show ?thesis
  proof (cases "lookup_entry t key")
    case None
    with assms False show ?thesis
      by (intro reserve_fresh_local [OF assms(1) False])
        (simp add: tryReserveWithPolicy_def fold_lookup Let_def)
  next
    case (Some e0)
    note fresh = reserve_fresh_local [OF table_ok_del [OF assms(1), of key] False, THEN local_op_after_del [OF assms(1)]]
    note known = take_slot_known [OF assms(1) Some]
    from assms False Some show ?thesis
      by (auto simp: tryReserveWithPolicy_def fold_lookup Let_def local_op_refl
          intro: fresh known split: if_splits)
  qed
qed

lemma release_local: "table_ok t \<Longrightarrow> local_op now key t (releaseReservation t key)"
  by (auto simp: releaseReservation_def fold_lookup Let_def local_op_refl local_op_del
      intro!: local_op_put split: option.split)

lemma clear_local: "table_ok t \<Longrightarrow> local_op now key t (clearReservedFailures t key)"
  by (auto simp: clearReservedFailures_def fold_lookup Let_def local_op_refl local_op_del
      intro!: local_op_put split: option.split)

lemma reservedFailure_local: "table_ok t \<Longrightarrow> local_op now key t (recordReservedFailureWithPolicy t ord key now n w b)"
  by (auto simp: recordReservedFailureWithPolicy_def fold_lookup Let_def local_op_refl
      intro!: charge_known intro: local_op_room charge_insert split: option.split prod.split bool.split)

lemma recordFailure_local: "table_ok t \<Longrightarrow> local_op now key t (recordFailureWithPolicy t ord key now n w b)"
  by (auto simp: recordFailureWithPolicy_def fold_lookup Let_def local_op_refl
      intro!: charge_known intro: local_op_room charge_insert split: option.split prod.split bool.split)

lemma recordSuccess_local: "table_ok t \<Longrightarrow> local_op now key t (throttle_recordSuccess t key)"
  by (simp add: throttle_recordSuccess_def local_op_refl local_op_del)

lemma retryAfter_local: "table_ok t \<Longrightarrow> retryAfter t key now = (d, t') \<Longrightarrow> local_op now key t t'"
  by (auto simp: retryAfter_def local_op_refl local_op_del split: option.splits if_splits)

section \<open>Sequences of operations on one table\<close>

datatype throttle_op =
    OpReserve "string list" string gotime int duration
  | OpReservedFailure "string list" string gotime int duration duration
  | OpFailure "string list" string gotime int duration duration
  | OpRelease string
  | OpClear string
  | OpSuccess string
  | OpRetryAfter string gotime

primrec throttle_exec :: "loginThrottle \<Rightarrow> throttle_op \<Rightarrow> loginThrottle" where
  "throttle_exec t (OpReserve ord key now n w) = snd (tryReserveWithPolicy t ord key now n w)"
| "throttle_exec t (OpReservedFailure ord key now n w b) = recordReservedFailureWithPolicy t ord key now n w b"
| "throttle_exec t (OpFailure ord key now n w b) = recordFailureWithPolicy t ord key now n w b"
| "throttle_exec t (OpRelease key) = releaseReservation t key"
| "throttle_exec t (OpClear key) = clearReservedFailures t key"
| "throttle_exec t (OpSuccess key) = throttle_recordSuccess t key"
| "throttle_exec t (OpRetryAfter key now) = snd (retryAfter t key now)"

primrec op_key :: "throttle_op \<Rightarrow> string" where
  "op_key (OpReserve ord key now n w) = key"
| "op_key (OpReservedFailure ord key now n w b) = key"
| "op_key (OpFailure ord key now n w b) = key"
| "op_key (OpRelease key) = key"
| "op_key (OpClear key) = key"
| "op_key (OpSuccess key) = key"
| "op_key (OpRetryAfter key now) = key"

fun op_time :: "throttle_op \<Rightarrow> gotime option" where
  "op_time (OpReserve ord key now n w) = Some now"
| "op_time (OpReservedFailure ord key now n w b) = Some now"
| "op_time (OpFailure ord key now n w b) = Some now"
| "op_time (OpRetryAfter key now) = Some now"
| "op_time _ = None"

lemma throttle_exec_local:
  assumes "table_ok t" "op_time op = None \<or> op_time op = Some now"
  shows "local_op now (op_key op) t (throttle_exec t op)"
proof (cases op)
  case (OpReserve ord key s n w)
  with assms tryReserve_local [OF assms(1), of ord key s n w] show ?thesis
    by (cases "tryReserveWithPolicy t ord key s n w") auto
next
  case (OpRetryAfter key s)
  with assms retryAfter_local [OF assms(1), of key s] show ?thesis
    by (cases "retryAfter t key s") auto
qed (use assms in \<open>auto simp: reservedFailure_local recordFailure_local release_local clear_local recordSuccess_local\<close>)

lemma throttle_exec_ok: "table_ok t \<Longrightarrow> table_ok (throttle_exec t op)"
  using throttle_exec_local [of t op "case op_time op of None \<Rightarrow> 0 | Some s \<Rightarrow> s"]
  by (auto simp: local_op_def split: option.splits)

lemma throttle_exec_max: "table_ok t \<Longrightarrow> maxEntries (throttle_exec t op) = maxEntries t"
  using throttle_exec_local [of t op "case op_time op of None \<Rightarrow> 0 | Some s \<Rightarrow> s"]
  by (auto simp: local_op_def split: option.splits)

lemma throttle_run_ok:
  "table_ok t \<Longrightarrow> table_ok (foldl throttle_exec t ops) \<and> maxEntries (foldl throttle_exec t ops) = maxEntries t"
  by (induction ops arbitrary: t) (simp_all add: throttle_exec_ok throttle_exec_max)

section \<open>Reservations in flight\<close>

definition inflight :: "loginThrottle \<Rightarrow> string \<Rightarrow> int" where
  "inflight t k = (case lookup_entry t k of None \<Rightarrow> 0 | Some e \<Rightarrow> inFlight e)"

lemma inflight_nonneg: "table_ok t \<Longrightarrow> 0 \<le> inflight t k"
  by (auto simp: inflight_def entry_ok_def dest: table_ok_entry split: option.split)

lemma local_inflight_other:
  assumes "table_ok t" "local_op now key t t'" "k \<noteq> key"
  shows "inflight t' k = inflight t k"
proof (cases "lookup_entry t k")
  case None
  with assms(2,3) show ?thesis by (auto simp: local_op_def inflight_def)
next
  case (Some e)
  have "0 \<le> inFlight e" using table_ok_entry [OF assms(1) Some] by (simp add: entry_ok_def)
  then consider "inFlight e = 0" | "locked now e" unfolding locked_def by linarith
  then show ?thesis
  proof cases
    case 1
    with Some assms(2,3) show ?thesis by (auto simp: local_op_def inflight_def split: option.splits)
  next
    case 2
    with Some assms(2,3) show ?thesis by (auto simp: local_op_def inflight_def)
  qed
qed

lemma inflight_put [simp]: "inflight (put_entry t k e) k = inFlight e"
  by (simp add: inflight_def)

lemma inflight_del [simp]: "inflight (del_entry t k) k = 0"
  by (simp add: inflight_def)

lemma inFlight_simps [simp]:
  "inFlight (newEntry now w) = 0" "inFlight (unblock_entry e now w) = inFlight e"
  "entry_ok e \<Longrightarrow> inFlight (drop_slot e) = max 0 (inFlight e - 1)"
  by (auto simp: newEntry_def unblock_entry_def drop_slot_def entry_ok_def Let_def)

lemma inflight_take_slot: "take_slot t key e n = (ok, t') \<Longrightarrow> inflight t' key = inFlight e + (if ok then 1 else 0)"
  by (auto simp: take_slot_def split: if_splits)

lemma inflight_charge [simp]: "inflight (charge_failure t key e now n b) key = inFlight e"
  by (simp add: charge_failure_def Let_def)

lemma inflight_room_zero:
  assumes "table_ok t" "make_room t ord now = (ok, t')" "inflight t k = 0"
  shows "inflight t' k = 0"
  using lt.room_sub [OF table_ok_wf [OF assms(1)] assms(2), of k] assms(3)
  by (auto simp: inflight_def)

lemma reserve_fresh_inflight:
  assumes "table_ok t" "inflight t key = 0"
    and "(case make_room t ord now of (False, t1) \<Rightarrow> (False, t1)
          | (True, t1) \<Rightarrow> take_slot t1 key (newEntry now w) n) = (ok, t')"
  shows "inflight t' key = (if ok then 1 else 0)"
  using assms inflight_room_zero [OF assms(1) _ assms(2)]
  by (auto simp: inflight_take_slot split: prod.splits bool.splits)

lemma tryReserve_inflight:
  assumes "table_ok t" "tryReserveWithPolicy t ord key now n w = (ok, t')" "key \<noteq> ''''"
  shows "inflight t' k = inflight t k + (if ok \<and> k = key then 1 else 0)"
proof (cases "k = key")
  case False
  with local_inflight_other [OF assms(1) tryReserve_local [OF assms(1,2)]] show ?thesis by simp
next
  case True
  show ?thesis
  proof (cases "lookup_entry t key")
    case None
    then have "inflight t key = 0" by (simp add: inflight_def)
    with True None assms reserve_fresh_inflight [OF assms(1)] show ?thesis
      by (simp add: tryReserveWithPolicy_def fold_lookup Let_def)
  next
    case (Some e0)
    have fl: "inflight t key = inFlight e0" using Some by (simp add: inflight_def)
    show ?thesis
    proof (cases "loginThrottleEntryBlocked e0 now")
      case True
      with Some assms \<open>k = key\<close> show ?thesis by (auto simp: tryReserveWithPolicy_def fold_lookup Let_def)
    next
      case unblocked: False
      let ?e = "unblock_entry e0 now (if w \<le> 0 then loginThrottleWindow else w)"
      show ?thesis
      proof (cases "inFlight ?e = 0 \<and> loginThrottleEntryExpired ?e now")
        case True
        with Some assms unblocked fl \<open>k = key\<close> reserve_fresh_inflight [OF table_ok_del [OF assms(1)] inflight_del]
        show ?thesis by (simp add: tryReserveWithPolicy_def fold_lookup Let_def)
      next
        case False
        with Some assms unblocked fl \<open>k = key\<close>
        have "take_slot t key ?e (if n \<le> 0 then loginThrottleMaxFailures else n) = (ok, t')"
          by (auto simp: tryReserveWithPolicy_def fold_lookup Let_def split: if_splits)
        from inflight_take_slot [OF this] fl \<open>k = key\<close> show ?thesis by simp
      qed
    qed
  qed
qed

definition settles :: "(loginThrottle \<Rightarrow> loginThrottle) \<Rightarrow> string \<Rightarrow> bool" where
  "settles f key \<longleftrightarrow> (\<forall>t. table_ok t \<longrightarrow> table_ok (f t) \<and>
     (\<forall>k. inflight (f t) k = (if k = key \<and> k \<noteq> '''' then max 0 (inflight t k - 1) else inflight t k)))"

lemma settlesI:
  assumes "\<And>t. table_ok t \<Longrightarrow> local_op now key t (f t)"
    and "\<And>t. table_ok t \<Longrightarrow> key \<noteq> '''' \<Longrightarrow> inflight (f t) key = max 0 (inflight t key - 1)"
    and "\<And>t. key = '''' \<Longrightarrow> f t = t"
  shows "settles f key"
  unfolding settles_def
proof (intro allI impI conjI)
  fix t k
  assume t: "table_ok t"
  show "table_ok (f t)" using assms(1) [OF t] by (simp add: local_op_def)
  show "inflight (f t) k = (if k = key \<and> k \<noteq> '''' then max 0 (inflight t k - 1) else inflight t k)"
    using local_inflight_other [OF t assms(1) [OF t]] assms(2) [OF t] assms(3) by (cases "k = key") auto
qed

lemma settles_release: "settles (\<lambda>t. releaseReservation t key) key"
proof (rule settlesI)
  fix t :: loginThrottle
  assume "table_ok t"
  then show "local_op 0 key t (releaseReservation t key)" by (rule release_local)
  assume "key \<noteq> ''''"
  then show "inflight (releaseReservation t key) key = max 0 (inflight t key - 1)"
    using \<open>table_ok t\<close>
    by (auto simp: releaseReservation_def fold_lookup Let_def inflight_def dest!: table_ok_entry split: option.splits)
qed (simp add: releaseReservation_def)

lemma settles_clear: "settles (\<lambda>t. clearReservedFailures t key) key"
proof (rule settlesI)
  fix t :: loginThrottle
  assume "table_ok t"
  then show "local_op 0 key t (clearReservedFailures t key)" by (rule clear_local)
  assume "key \<noteq> ''''"
  then show "inflight (clearReservedFailures t key) key = max 0 (inflight t key - 1)"
    using \<open>table_ok t\<close>
    by (auto simp: clearReservedFailures_def fold_lookup Let_def inflight_def dest!: table_ok_entry split: option.splits)
qed (simp add: clearReservedFailures_def)

lemma settles_failure: "settles (\<lambda>t. recordReservedFailureWithPolicy t ord key now n w b) key"
proof (rule settlesI)
  fix t :: loginThrottle
  assume t: "table_ok t"
  then show "local_op now key t (recordReservedFailureWithPolicy t ord key now n w b)"
    by (rule reservedFailure_local)
  assume key: "key \<noteq> ''''"
  show "inflight (recordReservedFailureWithPolicy t ord key now n w b) key = max 0 (inflight t key - 1)"
  proof (cases "lookup_entry t key")
    case None
    then have "inflight t key = 0" by (simp add: inflight_def)
    with None key inflight_room_zero [OF t] show ?thesis
      by (auto simp: recordReservedFailureWithPolicy_def fold_lookup Let_def split: prod.split bool.split)
  next
    case (Some e)
    with key table_ok_entry [OF t Some] show ?thesis
      by (simp add: recordReservedFailureWithPolicy_def fold_lookup Let_def inflight_def [of t])
  qed
qed (simp add: recordReservedFailureWithPolicy_def)

section \<open>Every reservation is accounted for\<close>

text \<open>The life of a set of tables and of the reservations made on them: attempts are reserved, and a
  reservation handle is settled in one of the three ways, any number of times.\<close>

inductive reservation_run :: "throttle_store \<Rightarrow> loginThrottleReservation list \<Rightarrow> bool" where
  run_start: "(\<And>a. \<exists>n. h a = newLoginThrottle n) \<Longrightarrow> reservation_run h []"
| run_refused: "reservation_run h rs
    \<Longrightarrow> reserveLoginThrottleAttemptWithPolicy h up cp ordU ordC uk ck now pol = (None, h')
    \<Longrightarrow> reservation_run h' rs"
| run_reserved: "reservation_run h rs
    \<Longrightarrow> reserveLoginThrottleAttemptWithPolicy h up cp ordU ordC uk ck now pol = (Some r, h')
    \<Longrightarrow> reservation_run h' (r # rs)"
| run_release: "reservation_run h rs \<Longrightarrow> i < length rs \<Longrightarrow> reservation_release h (rs ! i) = (h', r')
    \<Longrightarrow> reservation_run h' (rs[i := r'])"
| run_failure: "reservation_run h rs \<Longrightarrow> i < length rs
    \<Longrightarrow> reservation_recordFailure h ordU ordC (rs ! i) now = (h', r')
    \<Longrightarrow> reservation_run h' (rs[i := r'])"
| run_success: "reservation_run h rs \<Longrightarrow> i < length rs \<Longrightarrow> reservation_recordSuccess h (rs ! i) = (h', r')
    \<Longrightarrow> reservation_run h' (rs[i := r'])"

definition holds :: "loginThrottleReservation \<Rightarrow> nat \<Rightarrow> string \<Rightarrow> int" where
  \<comment> \<open>how many slots of key \<open>k\<close> in table \<open>a\<close> the handle stands for\<close>
  "holds r a k =
     (if settled r then 0
      else (if usernameThrottle r = Some a \<and> usernameKey r = k then 1 else 0) +
           (if clientThrottle r = Some a \<and> clientKey r = k then 1 else 0))"

definition accounted :: "throttle_store \<Rightarrow> loginThrottleReservation list \<Rightarrow> bool" where
  "accounted h rs \<longleftrightarrow> (\<forall>a. table_ok (h a)) \<and>
     (\<forall>a k. k \<noteq> '''' \<longrightarrow> inflight (h a) k = (\<Sum>r\<leftarrow>rs. holds r a k))"

lemma holds_nonneg [simp]: "0 \<le> holds r a k"
  by (simp add: holds_def)

lemma on_ptr_ok:
  assumes "settles f key" "\<forall>a. table_ok (h a)"
  shows "\<forall>a. table_ok (on_ptr h p f a)"
    and "inflight (on_ptr h p f a) k =
      (if p = Some a \<and> k = key \<and> k \<noteq> '''' then max 0 (inflight (h a) k - 1) else inflight (h a) k)"
  using assms by (auto simp: on_ptr_def settles_def split: option.split)

lemma settle_pair:
  assumes ok: "\<forall>a. table_ok (h a)" and f: "settles f (usernameKey r)" and g: "settles g (clientKey r)"
    and un: "\<not> settled r" and k: "k \<noteq> ''''" and ge: "holds r a k \<le> inflight (h a) k"
  shows "\<forall>a. table_ok (on_ptr (on_ptr h (usernameThrottle r) f) (clientThrottle r) g a)"
    and "inflight (on_ptr (on_ptr h (usernameThrottle r) f) (clientThrottle r) g a) k = inflight (h a) k - holds r a k"
proof -
  note ok1 = on_ptr_ok(1) [OF f ok, of "usernameThrottle r"]
  show "\<forall>a. table_ok (on_ptr (on_ptr h (usernameThrottle r) f) (clientThrottle r) g a)"
    by (rule on_ptr_ok(1) [OF g ok1])
  show "inflight (on_ptr (on_ptr h (usernameThrottle r) f) (clientThrottle r) g a) k = inflight (h a) k - holds r a k"
    using on_ptr_ok(2) [OF g ok1, of "clientThrottle r" a k] on_ptr_ok(2) [OF f ok, of "usernameThrottle r" a k] k ge un
    by (auto simp: holds_def split: if_splits)
qed

lemma sum_holds_update:
  "i < length rs \<Longrightarrow> (\<Sum>r\<leftarrow>rs[i := r']. holds r a k) = (\<Sum>r\<leftarrow>rs. holds r a k) - holds (rs ! i) a k + holds r' a k"
  by (induction rs arbitrary: i) (auto split: nat.splits)

lemma holds_le_sum: "i < length rs \<Longrightarrow> holds (rs ! i) a k \<le> (\<Sum>r\<leftarrow>rs. holds r a k)"
proof (induction rs arbitrary: i)
  case (Cons r rs)
  have "0 \<le> (\<Sum>r\<leftarrow>rs. holds r a k)" by (rule sum_list_nonneg) auto
  with Cons show ?case by (cases i) (auto intro: add_increasing)
qed simp

lemma accounted_settle:
  assumes acc: "accounted h rs" and i: "i < length rs" and un: "\<not> settled (rs ! i)"
    and f: "settles f (usernameKey (rs ! i))" and g: "settles g (clientKey (rs ! i))"
  shows "accounted (on_ptr (on_ptr h (usernameThrottle (rs ! i)) f) (clientThrottle (rs ! i)) g)
    (rs[i := (rs ! i)\<lparr>settled := True\<rparr>])"
proof -
  have ok: "\<forall>a. table_ok (h a)" using acc by (simp add: accounted_def)
  have le: "holds (rs ! i) a k \<le> inflight (h a) k" if "k \<noteq> ''''" for a k
    using acc that holds_le_sum [OF i] by (simp add: accounted_def)
  have zero: "holds ((rs ! i)\<lparr>settled := True\<rparr>) a k = 0" for a k by (simp add: holds_def)
  show ?thesis
    unfolding accounted_def
  proof (intro conjI allI impI)
    fix a k
    show "table_ok (on_ptr (on_ptr h (usernameThrottle (rs ! i)) f) (clientThrottle (rs ! i)) g a)"
      by (rule on_ptr_ok(1) [OF g on_ptr_ok(1) [OF f ok], rule_format])
    assume k: "k \<noteq> ([] :: string)"
    show "inflight (on_ptr (on_ptr h (usernameThrottle (rs ! i)) f) (clientThrottle (rs ! i)) g a) k =
        (\<Sum>r\<leftarrow>rs[i := (rs ! i)\<lparr>settled := True\<rparr>]. holds r a k)"
      using settle_pair(2) [OF ok f g un k le [OF k]] acc k
      by (simp add: sum_holds_update [OF i] zero accounted_def)
  qed
qed

lemma reserve_ptr_inflight:
  assumes ok: "\<forall>a. table_ok (h a)" and res: "reserve_ptr h p ord key now n w = (b, h')"
  shows "\<forall>a. table_ok (h' a)"
    and "k \<noteq> '''' \<Longrightarrow> inflight (h' a) k = inflight (h a) k + (if b \<and> p = Some a \<and> k = key then 1 else 0)"
proof -
  have "(\<forall>a. table_ok (h' a)) \<and> (k \<noteq> '''' \<longrightarrow>
    inflight (h' a) k = inflight (h a) k + (if b \<and> p = Some a \<and> k = key then 1 else 0))"
  proof (cases p)
    case None
    with assms show ?thesis by (simp add: reserve_ptr_def)
  next
    case (Some x)
    obtain t where t: "tryReserveWithPolicy (h x) ord key now n w = (b, t)" "h' = h(x := t)"
      using res Some by (auto simp: reserve_ptr_def split: prod.splits)
    have "table_ok (h x)" using ok by simp
    then have "local_op now key (h x) t" by (rule tryReserve_local [OF _ t(1)])
    moreover have "inflight t k = inflight (h x) k + (if b \<and> k = key then 1 else 0)" if "k \<noteq> ''''"
    proof (cases "key = ''''")
      case True
      with t(1) that show ?thesis by (simp add: tryReserveWithPolicy_def)
    next
      case False
      then show ?thesis by (rule tryReserve_inflight [OF \<open>table_ok (h x)\<close> t(1)])
    qed
    ultimately show ?thesis using ok Some t(2) by (auto simp: local_op_def)
  qed
  then show "\<forall>a. table_ok (h' a)"
    and "k \<noteq> '''' \<Longrightarrow> inflight (h' a) k = inflight (h a) k + (if b \<and> p = Some a \<and> k = key then 1 else 0)"
    by blast+
qed

lemma reserve_attempt_inflight:
  assumes ok: "\<forall>a. table_ok (h a)"
    and res: "reserveLoginThrottleAttemptWithPolicy h up cp ordU ordC uk ck now pol = (o', h')"
  shows "\<forall>a. table_ok (h' a)"
    and "k \<noteq> '''' \<Longrightarrow> inflight (h' a) k = inflight (h a) k + (case o' of None \<Rightarrow> 0 | Some r \<Rightarrow> holds r a k)"
proof -
  define P where "P = normalizedLoginThrottlePolicy pol"
  obtain b h1 where r1: "reserve_ptr h up ordU uk now (UsernameMaxFailures P) (lp_Window P) = (b, h1)"
    by (cases "reserve_ptr h up ordU uk now (UsernameMaxFailures P) (lp_Window P)")
  note u = reserve_ptr_inflight [OF ok r1]
  have "(\<forall>a. table_ok (h' a)) \<and> (k \<noteq> '''' \<longrightarrow>
    inflight (h' a) k = inflight (h a) k + (case o' of None \<Rightarrow> 0 | Some r \<Rightarrow> holds r a k))"
  proof (cases "b \<and> \<not> (up \<noteq> None \<and> cp = up)")
    case False
    with res r1 u show ?thesis
      by (auto simp: reserveLoginThrottleAttemptWithPolicy_def Let_def P_def [symmetric] holds_def split: bool.splits if_splits)
  next
    case True
    obtain b2 h2 where r2: "reserve_ptr h1 cp ordC ck now (ClientMaxFailures P) (lp_Window P) = (b2, h2)"
      by (cases "reserve_ptr h1 cp ordC ck now (ClientMaxFailures P) (lp_Window P)")
    note c = reserve_ptr_inflight [OF u(1) r2]
    note rel = on_ptr_ok [OF settles_release c(1), of up uk]
    have "0 \<le> inflight (h a) k" using ok inflight_nonneg by blast
    with True res r1 r2 u c rel show ?thesis
      by (cases b2) (auto simp: reserveLoginThrottleAttemptWithPolicy_def Let_def P_def [symmetric] holds_def)
  qed
  then show "\<forall>a. table_ok (h' a)"
    and "k \<noteq> '''' \<Longrightarrow> inflight (h' a) k = inflight (h a) k + (case o' of None \<Rightarrow> 0 | Some r \<Rightarrow> holds r a k)"
    by blast+
qed

lemma inflight_new [simp]: "inflight (newLoginThrottle n) k = 0"
  by (simp add: inflight_def lookup_entry_def newLoginThrottle_def)

lemma reservation_run_accounted: "reservation_run h rs \<Longrightarrow> accounted h rs"
proof (induction rule: reservation_run.induct)
  case (run_start h)
  have "table_ok (h a) \<and> inflight (h a) k = 0" for a k
    using run_start [of a] by auto
  then show ?case by (simp add: accounted_def)
next
  case (run_refused h rs up cp ordU ordC uk ck now pol h')
  then show ?case using reserve_attempt_inflight [OF _ run_refused.hyps(2)] by (simp add: accounted_def)
next
  case (run_reserved h rs up cp ordU ordC uk ck now pol r h')
  then show ?case using reserve_attempt_inflight [OF _ run_reserved.hyps(2)] by (simp add: accounted_def)
next
  case (run_release h rs i h' r')
  then show ?case
    using accounted_settle [OF run_release.IH run_release.hyps(2) _ settles_release settles_release]
    by (auto simp: reservation_release_def split: if_splits)
next
  case (run_failure h rs i ordU ordC now h' r')
  then show ?case
    using accounted_settle [OF run_failure.IH run_failure.hyps(2) _ settles_failure settles_failure]
    by (auto simp: reservation_recordFailure_def Let_def split: if_splits)
next
  case (run_success h rs i h' r')
  then show ?case
    using accounted_settle [OF run_success.IH run_success.hyps(2) _ settles_clear settles_release]
    by (auto simp: reservation_recordSuccess_def split: if_splits)
qed

section \<open>Lockouts survive\<close>

definition locked_until :: "loginThrottle \<Rightarrow> string \<Rightarrow> gotime \<Rightarrow> bool" where
  "locked_until t k until \<longleftrightarrow> (\<exists>e. lookup_entry t k = Some e \<and> until \<le> blockedUntil e)"

fun spares_lock :: "string \<Rightarrow> gotime \<Rightarrow> throttle_op \<Rightarrow> bool" where
  \<comment> \<open>an operation at a time before \<open>until\<close> that is not a successful login of \<open>k\<close>; a failure of \<open>k\<close>
    itself is recorded late enough, under its block duration, not to end the lockout early\<close>
  "spares_lock k until (OpReserve ord key now n w) \<longleftrightarrow> now < until"
| "spares_lock k until (OpReservedFailure ord key now n w b) \<longleftrightarrow> now < until \<and>
     (key = k \<longrightarrow> until \<le> now + (if b \<le> 0 then loginThrottleBlock else b))"
| "spares_lock k until (OpFailure ord key now n w b) \<longleftrightarrow> now < until \<and>
     (key = k \<longrightarrow> until \<le> now + (if b \<le> 0 then loginThrottleBlock else b))"
| "spares_lock k until (OpRelease key) \<longleftrightarrow> True"
| "spares_lock k until (OpClear key) \<longleftrightarrow> key \<noteq> k"
| "spares_lock k until (OpSuccess key) \<longleftrightarrow> key \<noteq> k"
| "spares_lock k until (OpRetryAfter key now) \<longleftrightarrow> now < until"

lemma blockedUntil_simps [simp]:
  "blockedUntil (drop_slot e) = blockedUntil e"
  by (simp add: drop_slot_def)

lemma locked_until_blocked:
  "0 < until \<Longrightarrow> now < until \<Longrightarrow> until \<le> blockedUntil e \<Longrightarrow> loginThrottleEntryBlocked e now"
  by (simp add: loginThrottleEntryBlocked_def time_is_zero_def)

lemma locked_until_other:
  assumes "table_ok t" "locked_until t k until" "0 < until" "spares_lock k until op" "op_key op \<noteq> k"
  shows "locked_until (throttle_exec t op) k until"
proof -
  obtain e where e: "lookup_entry t k = Some e" "until \<le> blockedUntil e"
    using assms(2) by (auto simp: locked_until_def)
  define now where "now = (case op_time op of None \<Rightarrow> 0 | Some s \<Rightarrow> s)"
  have "now < until" using assms(3,4) by (cases op) (simp_all add: now_def)
  then have "locked now e" using e assms(3) by (simp add: locked_def locked_until_blocked)
  moreover have "local_op now (op_key op) t (throttle_exec t op)"
    by (rule throttle_exec_local [OF assms(1)]) (simp add: now_def split: option.split)
  ultimately show ?thesis using e assms(5) by (auto simp: local_op_def locked_until_def)
qed

lemma locked_until_same:
  assumes "table_ok t" "locked_until t k until" "0 < until" "spares_lock k until op" "op_key op = k"
  shows "locked_until (throttle_exec t op) k until"
proof -
  obtain e where e: "lookup_entry t k = Some e" "until \<le> blockedUntil e"
    using assms(2) by (auto simp: locked_until_def)
  have k: "k \<noteq> ''''" by (rule table_ok_key [OF assms(1) e(1)])
  have blk: "loginThrottleEntryBlocked e now" if "now < until" for now
    using that assms(3) e(2) by (simp add: locked_until_blocked)
  show ?thesis
    using assms(3,4,5) e k blk
    by (cases op)
      (auto simp: locked_until_def tryReserveWithPolicy_def recordReservedFailureWithPolicy_def
        recordFailureWithPolicy_def releaseReservation_def retryAfter_def charge_failure_def fold_lookup Let_def
        time_is_zero_def loginThrottleEntryBlocked_def split: prod.splits)
qed

lemma lockout_run:
  assumes "table_ok t" "locked_until t k until" "0 < until" "list_all (spares_lock k until) ops"
  shows "table_ok (foldl throttle_exec t ops) \<and> locked_until (foldl throttle_exec t ops) k until"
  using assms
proof (induction ops arbitrary: t)
  case (Cons op ops)
  then have "locked_until (throttle_exec t op) k until"
    using locked_until_other locked_until_same by (cases "op_key op = k") auto
  with Cons show ?case by (simp add: throttle_exec_ok)
qed simp

section \<open>The guess budget of one key\<close>

text \<open>\<open>guess_run\<close>: what can happen to one key of a table between \<open>t0\<close> and \<open>t0 + D\<close> under a policy
  \<open>(n, w, b)\<close>, counting the failed guesses \<open>g\<close> and the outstanding ones \<open>r\<close>. Other keys may do
  anything as long as the table does not have to evict. A successful login of the key ends the run.\<close>

definition has_room :: "loginThrottle \<Rightarrow> gotime \<Rightarrow> bool" where
  "has_room t now \<longleftrightarrow> int (length (entries (pruneLocked t now))) < maxEntries t"

inductive guess_run :: "gotime \<Rightarrow> duration \<Rightarrow> int \<Rightarrow> duration \<Rightarrow> duration \<Rightarrow> string
    \<Rightarrow> loginThrottle \<Rightarrow> nat \<Rightarrow> nat \<Rightarrow> bool"
  for t0 D n w b key where
  guess_start: "table_ok t \<Longrightarrow> lookup_entry t key = None \<Longrightarrow> guess_run t0 D n w b key t 0 0"
| guess_reserve: "guess_run t0 D n w b key t g r \<Longrightarrow> t0 \<le> now \<Longrightarrow> now \<le> t0 + D
    \<Longrightarrow> tryReserveWithPolicy t ord key now n w = (True, t') \<Longrightarrow> guess_run t0 D n w b key t' g (Suc r)"
| guess_refused: "guess_run t0 D n w b key t g r \<Longrightarrow> t0 \<le> now \<Longrightarrow> now \<le> t0 + D
    \<Longrightarrow> tryReserveWithPolicy t ord key now n w = (False, t') \<Longrightarrow> guess_run t0 D n w b key t' g r"
| guess_failed: "guess_run t0 D n w b key t g (Suc r) \<Longrightarrow> t0 \<le> now \<Longrightarrow> now \<le> t0 + D
    \<Longrightarrow> guess_run t0 D n w b key (recordReservedFailureWithPolicy t ord key now n w b) (Suc g) r"
| guess_released: "guess_run t0 D n w b key t g (Suc r)
    \<Longrightarrow> guess_run t0 D n w b key (releaseReservation t key) g r"
| guess_other: "guess_run t0 D n w b key t g r \<Longrightarrow> op_key op \<noteq> key
    \<Longrightarrow> (\<And>now. op_time op = Some now \<Longrightarrow> t0 \<le> now \<and> now \<le> t0 + D \<and> has_room t now)
    \<Longrightarrow> guess_run t0 D n w b key (throttle_exec t op) g r"

definition guess_inv :: "gotime \<Rightarrow> duration \<Rightarrow> int \<Rightarrow> string \<Rightarrow> duration \<Rightarrow> loginThrottle \<Rightarrow> nat \<Rightarrow> nat \<Rightarrow> bool" where
  "guess_inv t0 D n key w t g r \<longleftrightarrow> table_ok t \<and>
     (case lookup_entry t key of
        None \<Rightarrow> g = 0 \<and> r = 0
      | Some e \<Rightarrow> failures e = int g \<and> inFlight e = int r \<and> int g + int r \<le> n \<and>
          t0 \<le> windowStart e \<and> window e = w \<and>
          (blockedUntil e = 0 \<and> int g < n \<or> blockedUntil e \<noteq> 0 \<and> t0 + D < blockedUntil e))"

lemma not_expired:
  "0 < window e \<Longrightarrow> now \<le> t0 + D \<Longrightarrow> t0 \<le> windowStart e \<Longrightarrow> D \<le> window e \<Longrightarrow> \<not> loginThrottleEntryExpired e now"
  by (simp add: loginThrottleEntryExpired_def time_sub_def sat64_def min_int64_def)

lemma room_has_room: "has_room t now \<Longrightarrow> make_room t ord now = (True, pruneLocked t now)"
  by (simp add: has_room_def make_room_def)

lemma has_room_del:
  assumes "has_room t now"
  shows "has_room (del_entry t k) now"
proof -
  have "length (filter P (AList.delete k m)) \<le> length (filter P m)" for P and m :: "(string, loginThrottleEntry) gomap"
    by (induction m) auto
  then have "length (entries (pruneLocked (del_entry t k) now)) \<le> length (entries (pruneLocked t now))"
    by (simp add: pruneLocked_def del_entry_def)
  with assms show ?thesis by (simp add: has_room_def)
qed

lemma reserve_fresh_other:
  "has_room t now \<Longrightarrow> key \<noteq> k \<Longrightarrow>
    lookup_entry (snd (case make_room t ord now of (False, t1) \<Rightarrow> (False, t1)
      | (True, t1) \<Rightarrow> take_slot t1 k e n)) key = lookup_entry (pruneLocked t now) key"
  by (simp add: room_has_room take_slot_def)

lemma exec_other_keeps:
  assumes t: "table_ok t" and op: "op_key op \<noteq> key" and e: "lookup_entry t key = Some e"
    and room: "\<And>now. op_time op = Some now \<Longrightarrow> has_room t now \<and> \<not> prunable now e"
  shows "lookup_entry (throttle_exec t op) key = Some e"
proof -
  note wf = table_ok_wf [OF t]
  have kept: "lookup_entry (pruneLocked t now) key = Some e" if "\<not> prunable now e" for now
    using e that by (simp add: prune_entry [OF wf])
  show ?thesis
  proof (cases op)
    case (OpReserve ord k now n w)
    have del: "lookup_entry (pruneLocked (del_entry t k) now) key = Some e"
      using e room OpReserve op by (simp add: prune_entry [OF del_entry_simps(3) [OF wf]])
    show ?thesis
      using OpReserve op e room [of now] kept [of now] reserve_fresh_other [of t now key k] del
        reserve_fresh_other [OF has_room_del, of t now key k]
      by (auto simp: tryReserveWithPolicy_def take_slot_def fold_lookup Let_def split: option.split)
  next
    case (OpReservedFailure ord k now n w b)
    then show ?thesis using op e room [of now] kept [of now]
      by (auto simp: recordReservedFailureWithPolicy_def charge_failure_def room_has_room Let_def split: option.split)
  next
    case (OpFailure ord k now n w b)
    then show ?thesis using op e room [of now] kept [of now]
      by (auto simp: recordFailureWithPolicy_def charge_failure_def room_has_room Let_def split: option.split)
  next
    case (OpRetryAfter k now)
    then show ?thesis using op e by (auto simp: retryAfter_def split: option.split)
  qed (use op e in \<open>auto simp: releaseReservation_def clearReservedFailures_def throttle_recordSuccess_def Let_def
      split: option.split\<close>)
qed

definition budget_params :: "gotime \<Rightarrow> duration \<Rightarrow> int \<Rightarrow> duration \<Rightarrow> duration \<Rightarrow> string \<Rightarrow> bool" where
  "budget_params t0 D n w b key \<longleftrightarrow>
     0 \<le> t0 \<and> 0 \<le> D \<and> D \<le> w \<and> D < b \<and> 0 < w \<and> 0 < n \<and> key \<noteq> ''''"

lemma budget_paramsD:
  assumes "budget_params t0 D n w b key"
  shows "D \<le> w" "D < b" "0 < w" "0 < n" "0 \<le> t0" "0 \<le> D" "key \<noteq> ''''"
  using assms by (simp_all add: budget_params_def)

lemma guess_inv_reserve:
  assumes par: "budget_params t0 D n w b key" and inv: "guess_inv t0 D n key w t g r" and now: "t0 \<le> now" "now \<le> t0 + D"
    and res: "tryReserveWithPolicy t ord key now n w = (ok, t')"
  shows "guess_inv t0 D n key w t' g (if ok then Suc r else r)"
proof -
  note D = budget_paramsD(1,2) [OF par] and pos = budget_paramsD(3-6) [OF par] and key = budget_paramsD(7) [OF par]
  have t: "table_ok t" and t': "table_ok t'"
    using inv tryReserve_local [OF _ res] by (auto simp: guess_inv_def local_op_def)
  show ?thesis
  proof (cases "lookup_entry t key")
    case None
    then have sub: "lookup_entry t1 key = None" if "make_room t ord now = (c, t1)" for c t1
      using lt.room_sub [OF table_ok_wf [OF t] that, of key] by auto
    with None inv res t' now pos key show ?thesis
      by (auto simp: guess_inv_def tryReserveWithPolicy_def take_slot_def newEntry_def fold_lookup Let_def
          split: prod.splits bool.splits if_splits)
  next
    case (Some e)
    have e: "failures e = int g" "inFlight e = int r" "window e = w" "t0 \<le> windowStart e"
        "blockedUntil e = 0 \<or> blockedUntil e \<noteq> 0 \<and> t0 + D < blockedUntil e"
      using inv Some by (auto simp: guess_inv_def)
    show ?thesis
    proof (cases "blockedUntil e = 0")
      case True
      have "\<not> loginThrottleEntryExpired e now"
        using not_expired [of e now t0 D] e now D pos by simp
      moreover have "unblock_entry e now w = e"
        using True e by (simp add: unblock_entry_def time_is_zero_def)
      ultimately have "take_slot t key e n = (ok, t')"
        using True Some res pos key
        by (auto simp: tryReserveWithPolicy_def fold_lookup Let_def loginThrottleEntryBlocked_def time_is_zero_def)
      then show ?thesis using inv Some t' e True
        by (auto simp: guess_inv_def take_slot_def split: if_splits)
    next
      case False
      then have "loginThrottleEntryBlocked e now"
        using e(5) now by (simp add: loginThrottleEntryBlocked_def time_is_zero_def)
      then show ?thesis using Some res key inv
        by (auto simp: tryReserveWithPolicy_def fold_lookup Let_def)
    qed
  qed
qed

lemma guess_inv_failed:
  assumes par: "budget_params t0 D n w b key" and inv: "guess_inv t0 D n key w t g (Suc r)" and now: "t0 \<le> now" "now \<le> t0 + D"
  shows "guess_inv t0 D n key w (recordReservedFailureWithPolicy t ord key now n w b) (Suc g) r"
proof -
  note D = budget_paramsD(1,2) [OF par] and pos = budget_paramsD(3-6) [OF par] and key = budget_paramsD(7) [OF par]
  have t: "table_ok (recordReservedFailureWithPolicy t ord key now n w b)"
    using inv reservedFailure_local [of t now key ord n w b] by (auto simp: guess_inv_def local_op_def)
  obtain e where e: "lookup_entry t key = Some e"
    using inv by (cases "lookup_entry t key") (auto simp: guess_inv_def)
  with inv t now D pos key show ?thesis
    by (auto simp: guess_inv_def recordReservedFailureWithPolicy_def charge_failure_def drop_slot_def fold_lookup Let_def)
qed

lemma guess_inv_released:
  assumes par: "budget_params t0 D n w b key" and inv: "guess_inv t0 D n key w t g (Suc r)"
  shows "guess_inv t0 D n key w (releaseReservation t key) g r"
proof -
  note D = budget_paramsD(1,2) [OF par] and pos = budget_paramsD(3-6) [OF par] and key = budget_paramsD(7) [OF par]
  have t: "table_ok (releaseReservation t key)"
    using inv release_local [of t 0 key] by (auto simp: guess_inv_def local_op_def)
  obtain e where e: "lookup_entry t key = Some e"
    using inv by (cases "lookup_entry t key") (auto simp: guess_inv_def)
  with inv t key show ?thesis
    by (auto simp: guess_inv_def releaseReservation_def drop_slot_def time_is_zero_def fold_lookup Let_def)
qed

lemma guess_inv_other:
  assumes par: "budget_params t0 D n w b key" and inv: "guess_inv t0 D n key w t g r" and op: "op_key op \<noteq> key"
    and room: "\<And>now. op_time op = Some now \<Longrightarrow> t0 \<le> now \<and> now \<le> t0 + D \<and> has_room t now"
  shows "guess_inv t0 D n key w (throttle_exec t op) g r"
proof (cases "lookup_entry t key")
  case None
  have "local_op (case op_time op of None \<Rightarrow> 0 | Some s \<Rightarrow> s) (op_key op) t (throttle_exec t op)"
    using inv throttle_exec_local by (auto simp: guess_inv_def split: option.split)
  then have "lookup_entry (throttle_exec t op) key = None" "table_ok (throttle_exec t op)"
    using None op [symmetric] by (auto simp: local_op_def)
  with None inv show ?thesis by (simp add: guess_inv_def)
next
  case (Some e)
  note D = budget_paramsD(1,2) [OF par] and pos = budget_paramsD(3-6) [OF par]
  have e: "window e = w" "t0 \<le> windowStart e" using inv Some by (auto simp: guess_inv_def)
  have "\<not> prunable now e" if "op_time op = Some now" for now
    using room [OF that] not_expired [of e now t0 D] e D pos by (simp add: prunable_def)
  with inv op Some room have "lookup_entry (throttle_exec t op) key = Some e"
    by (intro exec_other_keeps) (auto simp: guess_inv_def)
  with inv Some show ?thesis by (auto simp: guess_inv_def throttle_exec_ok)
qed

lemma guess_run_inv:
  assumes par: "budget_params t0 D n w b key" and "guess_run t0 D n w b key t g r"
  shows "guess_inv t0 D n key w t g r"
  using assms(2)
proof (induction rule: guess_run.induct)
  case (guess_start t)
  then show ?case by (simp add: guess_inv_def)
next
  case (guess_reserve t g r now ord t')
  then show ?case using guess_inv_reserve [OF par, of t g r now ord True] by simp
next
  case (guess_refused t g r now ord t')
  then show ?case using guess_inv_reserve [OF par, of t g r now ord False] by simp
qed (simp_all add: guess_inv_failed [OF par] guess_inv_released [OF par] guess_inv_other [OF par])

section \<open>Properties\<close>

text \<open>Bounded memory. Whatever sequence of operations runs on a fresh login throttle, at most
  \<open>maxEntries\<close> keys are tracked, each once, and no counter of an entry is negative.\<close>
theorem loginThrottle_bounded:
  "int (length (entries (foldl throttle_exec (newLoginThrottle n) ops))) \<le> (if n \<le> 0 then 50000 else n) \<and>
   distinct (map fst (entries (foldl throttle_exec (newLoginThrottle n) ops))) \<and>
   list_all (\<lambda>(k, e). k \<noteq> '''' \<and> 0 \<le> failures e \<and> 0 \<le> inFlight e)
     (entries (foldl throttle_exec (newLoginThrottle n) ops))"
proof -
  let ?t = "foldl throttle_exec (newLoginThrottle n) ops"
  have t: "table_ok ?t" "maxEntries ?t = maxEntries (newLoginThrottle n)"
    using throttle_run_ok [OF table_ok_new, of n ops] by auto
  have wf: "gm_wf (entries ?t)" using t(1) by (simp add: table_ok_def table_wf_def)
  have "k \<noteq> '''' \<and> 0 \<le> failures e \<and> 0 \<le> inFlight e" if "(k, e) \<in> set (entries ?t)" for k e
  proof -
    have l: "lookup_entry ?t k = Some e" using that wf by (simp add: lookup_entry_def map_of_set)
    show ?thesis
      using table_ok_entry [OF t(1) l] table_ok_key [OF t(1) l] by (simp add: entry_ok_def)
  qed
  then have entries: "list_all (\<lambda>(k, e). k \<noteq> [] \<and> 0 \<le> failures e \<and> 0 \<le> inFlight e) (entries ?t)"
    unfolding list_all_iff by blast
  have "maxEntries (newLoginThrottle n) = (if n \<le> 0 then 50000 else n)"
    by (simp add: newLoginThrottle_def defaultLoginThrottleMaxKeys_def)
  with entries t wf show ?thesis by (simp add: table_ok_def gm_wf_def)
qed


definition example_user :: string where
  "example_user = loginThrottleKey ''10.0.0.1:4000'' ''Admin''"




text \<open>C25: a lockout cannot be flushed out. While a key is blocked, no sequence of operations on this or
  on other keys (flooding the table with new keys included) lifts the block before its end, except a
  successful login of the key: every attempt is refused and \<open>retryAfter\<close> reports a positive wait.\<close>
theorem lockout_survives:
  assumes "table_ok t" "map_of (entries t) k = Some e" "until \<le> blockedUntil e" "0 < until"
    and "list_all (spares_lock k until) ops" "now < until"
  shows "fst (tryReserveWithPolicy (foldl throttle_exec t ops) ord k now n w) = False \<and>
    0 < fst (retryAfter (foldl throttle_exec t ops) k now)"
proof -
  let ?t = "foldl throttle_exec t ops"
  have "locked_until t k until" using assms(2,3) by (auto simp: locked_until_def lookup_entry_def)
  then have t: "table_ok ?t" "locked_until ?t k until" using lockout_run assms(1,4,5) by auto
  then obtain e' where e': "lookup_entry ?t k = Some e'" "until \<le> blockedUntil e'" by (auto simp: locked_until_def)
  have "k \<noteq> ''''" by (rule table_ok_key [OF t(1) e'(1)])
  then show ?thesis
    using e' locked_until_blocked [OF assms(4,6) e'(2)] assms(6)
    by (simp add: tryReserveWithPolicy_def retryAfter_def fold_lookup loginThrottleEntryBlocked_def time_sub_def
        sat64_def max_int64_def)
qed

definition example_lock :: loginThrottle where
  "example_lock = foldl throttle_exec (newLoginThrottle 1)
     [OpFailure [] ''victim'' 10 1 loginThrottleWindow loginThrottleBlock]"

theorem lockout_survives_witness:
  "fst (tryReserveWithPolicy (foldl throttle_exec example_lock
      [OpReserve [''victim''] ''other'' 20 5 loginThrottleWindow, OpFailure [''victim''] ''flood'' 21 5 0 0, OpRelease ''victim''])
     [''victim''] ''victim'' 30 5 loginThrottleWindow) = False"
proof -
  have ok: "table_ok example_lock"
    unfolding example_lock_def using throttle_run_ok [OF table_ok_new] by blast
  have e: "map_of (entries example_lock) ''victim'' =
      Some \<lparr>failures = 1, inFlight = 0, windowStart = 10, window = loginThrottleWindow, blockedUntil = 10 + loginThrottleBlock\<rparr>"
    by code_simp
  show ?thesis
    using lockout_survives [OF ok e, of "10 + loginThrottleBlock"
        "[OpReserve [''victim''] ''other'' 20 5 loginThrottleWindow, OpFailure [''victim''] ''flood'' 21 5 0 0, OpRelease ''victim'']" 30
        "[''victim'']" 5 loginThrottleWindow]
    by (simp add: loginThrottleBlock_def)
qed

end
