(* ===== verification/Float64.thy ===== *)
theory Float64
  imports Prelude
begin

text \<open>
  Go's \<open>float64\<close> arithmetic, as the limiters use it. A finite \<open>float64\<close> is the rational number it
  denotes, and every arithmetic operation of the source is the exact operation followed by \<open>fround\<close>,
  the IEEE~754 rounding to binary64 (53 significant bits, gradual underflow, ties to even). Values
  stay far below the overflow threshold in every use, so infinities and NaN are not represented.
\<close>

type_synonym float64 = rat

section \<open>Rounding\<close>

definition pow2 :: "int \<Rightarrow> rat" where
  "pow2 k = (if 0 \<le> k then 2 ^ nat k else 1 / 2 ^ nat (- k))"

function bit_length :: "int \<Rightarrow> int" where
  "bit_length n = (if n \<le> 0 then 0 else 1 + bit_length (n div 2))"
  by pat_completeness auto
termination by (relation "measure nat") auto

declare bit_length.simps [simp del]

definition ilog2 :: "rat \<Rightarrow> int" where
  \<comment> \<open>the binary exponent of a positive number\<close>
  "ilog2 x = (case quotient_of x of (n, d) \<Rightarrow>
     let k = bit_length n - bit_length d
     in if pow2 k \<le> x then k else k - 1)"

definition round_even :: "rat \<Rightarrow> int" where
  "round_even x =
     (let f = \<lfloor>x\<rfloor>; d = x - of_int f
      in if d < 1 / 2 then f else if d > 1 / 2 then f + 1 else if even f then f else f + 1)"

definition ulp_exp :: "rat \<Rightarrow> int" where
  "ulp_exp x = max (ilog2 \<bar>x\<bar> - 52) (- 1074)"

definition fround :: "rat \<Rightarrow> float64" where
  "fround x = (if x = 0 then 0
     else of_int (round_even (x / pow2 (ulp_exp x))) * pow2 (ulp_exp x))"

section \<open>Operations of the source\<close>

definition f_of_int :: "int \<Rightarrow> float64" where \<comment> \<open>\<open>float64(n)\<close>\<close>
  "f_of_int n = fround (of_int n)"

definition f_add :: "float64 \<Rightarrow> float64 \<Rightarrow> float64" where "f_add x y = fround (x + y)"
definition f_sub :: "float64 \<Rightarrow> float64 \<Rightarrow> float64" where "f_sub x y = fround (x - y)"
definition f_mul :: "float64 \<Rightarrow> float64 \<Rightarrow> float64" where "f_mul x y = fround (x * y)"
definition f_div :: "float64 \<Rightarrow> float64 \<Rightarrow> float64" where "f_div x y = fround (x / y)"

text \<open>\<open>int64(x)\<close> truncates towards zero; Go leaves values outside the \<open>int64\<close> range to the
  implementation, and the uses stay inside it. \<open>math.Ceil\<close> and \<open>math.Floor\<close> are exact.\<close>

definition f_trunc :: "float64 \<Rightarrow> int" where
  "f_trunc x = (if 0 \<le> x then \<lfloor>x\<rfloor> else \<lceil>x\<rceil>)"

definition duration_seconds :: "duration \<Rightarrow> float64" where
  "duration_seconds d =
     f_add (f_of_int (go_div d second)) (f_div (f_of_int (go_mod d second)) 1000000000)"

lemmas f_defs = f_of_int_def f_add_def f_sub_def f_mul_def f_div_def

section \<open>Powers of two\<close>

lemma pow2_powi: "pow2 k = 2 powi k"
  by (simp add: pow2_def power_int_def power_one_over inverse_eq_divide)

lemma pow2_pos [simp]: "0 < pow2 k" "pow2 k \<noteq> 0" "0 \<le> pow2 k"
  by (simp_all add: pow2_def)

lemma pow2_add: "pow2 (a + b) = pow2 a * pow2 b"
  by (simp add: pow2_powi power_int_add)

lemma pow2_strict: "a < b \<Longrightarrow> pow2 a < pow2 b"
  by (simp add: pow2_powi power_int_strict_increasing)

lemma pow2_less_iff [simp]: "pow2 a < pow2 b \<longleftrightarrow> a < b"
  by (metis pow2_strict less_asym linorder_cases)

lemma pow2_le_iff [simp]: "pow2 a \<le> pow2 b \<longleftrightarrow> a \<le> b"
  by (meson pow2_less_iff linorder_not_le)

lemma pow2_Suc: "pow2 (k + 1) = 2 * pow2 k"
  by (simp add: pow2_powi power_int_add)

lemma pow2_div: "pow2 a / pow2 b = pow2 (a - b)"
  by (simp add: pow2_powi power_int_diff)

lemma pow2_int: "0 \<le> k \<Longrightarrow> pow2 k = of_int (2 ^ nat k)"
  by (simp add: pow2_def)

lemma pow2_53: "pow2 (53 + q) = 9007199254740992 * pow2 q" "pow2 (q + 53) = 9007199254740992 * pow2 q"
  by (simp_all only: pow2_add) (simp_all add: pow2_def [of 53])

lemma pow2_grid: "u \<le> k \<Longrightarrow> of_int (2 ^ nat (k - u)) = pow2 k / pow2 u"
  by (simp add: pow2_div pow2_int)

lemma bit_length_nonneg: "0 \<le> bit_length n"
  by (induction n rule: bit_length.induct) (subst bit_length.simps, simp)

lemma bit_length_pow2:
  "0 < n \<Longrightarrow> pow2 (bit_length n - 1) \<le> of_int n \<and> of_int n < pow2 (bit_length n)"
proof (induction n rule: bit_length.induct)
  case (1 n)
  show ?case
  proof (cases "n = 1")
    case True
    then show ?thesis by (simp add: bit_length.simps pow2_def)
  next
    case False
    let ?h = "n div 2"
    have h: "0 < ?h" and b: "bit_length n = 1 + bit_length ?h" using 1 False by (auto simp: bit_length.simps [of n])
    have IH: "pow2 (bit_length ?h - 1) \<le> of_int ?h" "of_int ?h < pow2 (bit_length ?h)" using 1 h by auto
    have "0 \<le> bit_length ?h" by (rule bit_length_nonneg)
    then have p: "pow2 (bit_length ?h) = of_int (2 ^ nat (bit_length ?h))" by (rule pow2_int)
    have "?h < 2 ^ nat (bit_length ?h)" using IH(2) unfolding p by (simp only: of_int_less_iff)
    then have "n < 2 * 2 ^ nat (bit_length ?h)" by simp
    then have "(of_int n :: rat) < of_int (2 * 2 ^ nat (bit_length ?h))" by (simp only: of_int_less_iff)
    then have up: "of_int n < pow2 (bit_length n)" using p b pow2_Suc [of "bit_length ?h"] by (simp add: add.commute)
    have "2 * ?h \<le> n" by simp
    then have "(2 :: rat) * of_int ?h \<le> of_int n" by (metis of_int_le_iff of_int_mult of_int_numeral)
    moreover have "pow2 (bit_length n - 1) = 2 * pow2 (bit_length ?h - 1)"
      using b pow2_Suc [of "bit_length ?h - 1"] by simp
    ultimately show ?thesis using up IH(1) by linarith
  qed
qed

lemma ilog2_bounds:
  assumes "0 < x"
  shows "pow2 (ilog2 x) \<le> x" "x < pow2 (ilog2 x + 1)"
proof -
  obtain n d where q: "quotient_of x = (n, d)" by (cases "quotient_of x")
  have d: "0 < d" using quotient_of_denom_pos [OF q] .
  have x: "x = of_int n / of_int d" by (rule quotient_of_div [OF q])
  have n: "0 < n" using assms x d by (simp add: zero_less_divide_iff)
  let ?a = "bit_length n" and ?b = "bit_length d"
  have nb: "pow2 (?a - 1) \<le> of_int n" "of_int n < pow2 ?a"
    using bit_length_pow2 [OF n] by simp_all
  have db: "pow2 (?b - 1) \<le> of_int d" "of_int d < pow2 ?b"
    using bit_length_pow2 [OF d] by simp_all
  have "pow2 (?a - ?b - 1) = pow2 (?a - 1) / pow2 ?b" by (simp add: pow2_div algebra_simps)
  also have "\<dots> \<le> of_int n / of_int d"
    using nb(1) db(2) d n by (intro frac_le) simp_all
  finally have lo: "pow2 (?a - ?b - 1) \<le> x" using x by simp
  have "of_int n / of_int d < pow2 ?a / pow2 (?b - 1)"
    using nb db d n by (intro frac_less) simp_all
  then have hi: "x < pow2 (?a - ?b + 1)" by (simp add: x pow2_div algebra_simps)
  show "pow2 (ilog2 x) \<le> x" "x < pow2 (ilog2 x + 1)"
    using lo hi by (auto simp: ilog2_def q Let_def not_le)
qed

lemma ilog2_mono: "0 < x \<Longrightarrow> x \<le> y \<Longrightarrow> ilog2 x \<le> ilog2 y"
  using ilog2_bounds(1) [of x] ilog2_bounds(2) [of y] pow2_less_iff [of "ilog2 x" "ilog2 y + 1"]
  by linarith

lemma ilog2_less: "0 < x \<Longrightarrow> x < pow2 k \<Longrightarrow> ilog2 x < k"
  using ilog2_bounds(1) [of x] pow2_less_iff [of "ilog2 x" k] by linarith

lemma ilog2_ge: "pow2 k \<le> x \<Longrightarrow> k \<le> ilog2 x"
proof -
  assume "pow2 k \<le> x"
  moreover have "0 < x" using pow2_pos(1) [of k] \<open>pow2 k \<le> x\<close> by linarith
  ultimately show ?thesis using ilog2_bounds(2) [of x] pow2_less_iff [of k "ilog2 x + 1"] by linarith
qed

section \<open>Rounding is monotone, exact on representable numbers and accurate\<close>

lemma round_even_of_int [simp]: "round_even (of_int n) = n"
  by (simp add: round_even_def)

lemma round_even_zero [simp]: "round_even 0 = 0"
  using round_even_of_int [of 0] by simp

lemma round_even_near: "\<bar>of_int (round_even x) - x\<bar> \<le> 1 / 2"
  using of_int_floor_le [of x] floor_correct [of x] by (auto simp: round_even_def Let_def)

lemma round_even_mono:
  assumes "x \<le> y"
  shows "round_even x \<le> round_even y"
proof (cases "\<lfloor>x\<rfloor> = \<lfloor>y\<rfloor>")
  case True
  then show ?thesis using assms by (auto simp: round_even_def Let_def)
next
  case False
  then have "\<lfloor>x\<rfloor> + 1 \<le> \<lfloor>y\<rfloor>" using floor_mono [OF assms] by simp
  moreover have "round_even x \<le> \<lfloor>x\<rfloor> + 1" "\<lfloor>y\<rfloor> \<le> round_even y" by (simp_all add: round_even_def Let_def)
  ultimately show ?thesis by linarith
qed

definition representable :: "rat \<Rightarrow> bool" where
  "representable x \<longleftrightarrow> (\<exists>m q. x = of_int m * pow2 q \<and> \<bar>m\<bar> \<le> 2 ^ 53 \<and> - 1074 \<le> q)"

lemma fround_zero [simp]: "fround 0 = 0"
  by (simp add: fround_def)

lemma fround_scaled: "x \<noteq> 0 \<Longrightarrow> fround x = of_int (round_even (x / pow2 (ulp_exp x))) * pow2 (ulp_exp x)"
  by (simp add: fround_def)

lemma fround_id:
  assumes "representable x"
  shows "fround x = x"
proof (cases "x = 0")
  case False
  obtain m q where mq: "x = of_int m * pow2 q" "\<bar>m\<bar> \<le> 2 ^ 53" "- 1074 \<le> q"
    using assms by (auto simp: representable_def)
  have "\<exists>k. x / pow2 (ulp_exp x) = of_int k"
  proof (cases "ulp_exp x \<le> q")
    case True
    have "x / pow2 (ulp_exp x) = of_int m * (pow2 q / pow2 (ulp_exp x))" using mq by simp
    also have "\<dots> = of_int (m * 2 ^ nat (q - ulp_exp x))" using True by (simp add: pow2_div pow2_int)
    finally show ?thesis by blast
  next
    case big: False
    have ax: "\<bar>x\<bar> = of_int \<bar>m\<bar> * pow2 q" using mq by (simp add: abs_mult)
    have "\<bar>m\<bar> = 2 ^ 53"
    proof (rule ccontr)
      assume "\<bar>m\<bar> \<noteq> 2 ^ 53"
      then have "\<bar>m\<bar> < 2 ^ 53" using mq(2) by linarith
      then have "(of_int \<bar>m\<bar> :: rat) < of_int (2 ^ 53)" by (rule of_int_less_iff [THEN iffD2])
      then have "\<bar>x\<bar> < of_int (2 ^ 53) * pow2 q" using ax by simp
      also have "\<dots> = pow2 (53 + q)" by (simp add: pow2_53)
      finally have "ilog2 \<bar>x\<bar> < 53 + q" using False by (intro ilog2_less) simp_all
      with big mq(3) show False by (simp add: ulp_exp_def split: if_splits)
    qed
    then have "\<bar>x\<bar> = of_int (2 ^ 53) * pow2 q" using ax by simp
    also have "\<dots> = pow2 (53 + q)" by (simp add: pow2_53)
    finally have ax': "\<bar>x\<bar> = pow2 (53 + q)" .
    then have "ilog2 \<bar>x\<bar> < 54 + q" using False by (intro ilog2_less) simp_all
    then have "ulp_exp x \<le> q + 1" using mq(3) by (simp add: ulp_exp_def)
    then have u: "ulp_exp x = q + 1" using big by simp
    have m: "m = 2 ^ 53 \<or> m = - (2 ^ 53)" using \<open>\<bar>m\<bar> = 2 ^ 53\<close> by linarith
    have "x / pow2 (ulp_exp x) = of_int m / 2" using mq(1) u by (simp add: pow2_Suc)
    also have "\<dots> = of_int (if m = 2 ^ 53 then 2 ^ 52 else - (2 ^ 52))" using m by auto
    finally show ?thesis by blast
  qed
  then obtain k where k: "x / pow2 (ulp_exp x) = of_int k" ..
  then have "x = of_int k * pow2 (ulp_exp x)" by (simp add: divide_eq_eq)
  then show ?thesis using k False by (simp add: fround_scaled)
qed simp

lemma scaled_bound: "x \<noteq> 0 \<Longrightarrow> \<bar>x\<bar> / pow2 (ulp_exp x) < 2 ^ 53"
proof -
  assume "x \<noteq> 0"
  then have "\<bar>x\<bar> < pow2 (ilog2 \<bar>x\<bar> + 1)" by (intro ilog2_bounds(2)) simp
  also have "\<dots> \<le> pow2 (ulp_exp x + 53)" by (simp add: ulp_exp_def)
  also have "\<dots> = 2 ^ 53 * pow2 (ulp_exp x)" by (simp add: pow2_53)
  finally show ?thesis by (simp add: divide_less_eq)
qed

lemma representable_fround [simp]: "representable (fround x)"
proof (cases "x = 0")
  case True
  have "representable 0" unfolding representable_def by (intro exI [of _ 0] exI [of _ 0]) simp
  with True show ?thesis by simp
next
  case False
  let ?y = "x / pow2 (ulp_exp x)"
  have "\<bar>?y\<bar> < 2 ^ 53" using scaled_bound [OF False] by (simp add: abs_divide)
  then have "?y < 2 ^ 53" "- (2 ^ 53) < ?y" unfolding abs_less_iff by linarith+
  then have "?y \<le> of_int (2 ^ 53)" "of_int (- (2 ^ 53)) \<le> ?y" by simp_all
  then have "round_even ?y \<le> 2 ^ 53" "- (2 ^ 53) \<le> round_even ?y"
    using round_even_mono [of ?y "of_int (2 ^ 53)"] round_even_mono [of "of_int (- (2 ^ 53))" ?y]
    by (simp_all only: round_even_of_int)
  then have "\<bar>round_even ?y\<bar> \<le> 2 ^ 53" by linarith
  moreover have "- 1074 \<le> ulp_exp x" by (simp add: ulp_exp_def)
  ultimately show ?thesis
    unfolding representable_def fround_scaled [OF False] by blast
qed

lemma fround_nonneg: "0 \<le> x \<Longrightarrow> 0 \<le> fround x"
proof (cases "x = 0")
  case False
  assume "0 \<le> x"
  then have "round_even (of_int 0) \<le> round_even (x / pow2 (ulp_exp x))" by (intro round_even_mono) simp
  then show ?thesis by (simp add: fround_scaled [OF False])
qed simp

lemma fround_nonpos: "x \<le> 0 \<Longrightarrow> fround x \<le> 0"
proof (cases "x = 0")
  case False
  assume "x \<le> 0"
  then have "round_even (x / pow2 (ulp_exp x)) \<le> round_even (of_int 0)"
    by (intro round_even_mono) (simp add: divide_le_0_iff)
  then show ?thesis by (simp add: fround_scaled [OF False] mult_le_0_iff)
qed simp

lemma fround_le_pow2:
  assumes "0 < x" "x \<le> pow2 k" "ulp_exp x \<le> k"
  shows "fround x \<le> pow2 k"
proof -
  have "x / pow2 (ulp_exp x) \<le> of_int (2 ^ nat (k - ulp_exp x))"
    using assms by (simp only: pow2_grid) (simp add: divide_right_mono)
  then have "round_even (x / pow2 (ulp_exp x)) \<le> 2 ^ nat (k - ulp_exp x)"
    using round_even_mono round_even_of_int by metis
  then have "of_int (round_even (x / pow2 (ulp_exp x))) \<le> pow2 k / pow2 (ulp_exp x)"
    by (simp only: pow2_grid [OF assms(3), symmetric] of_int_le_iff)
  then have "of_int (round_even (x / pow2 (ulp_exp x))) * pow2 (ulp_exp x) \<le> pow2 k"
    by (simp add: pos_le_divide_eq)
  with assms(1) show ?thesis by (simp add: fround_scaled)
qed

lemma pow2_le_fround:
  assumes "pow2 k \<le> x" "ulp_exp x \<le> k"
  shows "pow2 k \<le> fround x"
proof -
  have "0 < x" using assms(1) pow2_pos(1) [of k] by linarith
  have "of_int (2 ^ nat (k - ulp_exp x)) \<le> x / pow2 (ulp_exp x)"
    using assms by (simp only: pow2_grid) (simp add: divide_right_mono)
  then have "2 ^ nat (k - ulp_exp x) \<le> round_even (x / pow2 (ulp_exp x))"
    using round_even_mono round_even_of_int by metis
  then have "pow2 k / pow2 (ulp_exp x) \<le> of_int (round_even (x / pow2 (ulp_exp x)))"
    by (simp only: pow2_grid [OF assms(2), symmetric] of_int_le_iff)
  then have "pow2 k \<le> of_int (round_even (x / pow2 (ulp_exp x))) * pow2 (ulp_exp x)"
    by (simp add: pos_divide_le_eq)
  with \<open>0 < x\<close> show ?thesis by (simp add: fround_scaled)
qed

lemma fround_mono:
  assumes "0 \<le> x" "x \<le> y"
  shows "fround x \<le> fround y"
proof (cases "x = 0")
  case True
  with assms show ?thesis by (simp add: fround_nonneg)
next
  case False
  then have x: "0 < x" and y: "0 < y" using assms by simp_all
  have le: "ilog2 x \<le> ilog2 y" by (rule ilog2_mono [OF x assms(2)])
  show ?thesis
  proof (cases "ulp_exp x = ulp_exp y")
    case True
    have "round_even (x / pow2 (ulp_exp y)) \<le> round_even (y / pow2 (ulp_exp y))"
      using assms(2) by (intro round_even_mono divide_right_mono) simp_all
    with True x y show ?thesis by (simp add: fround_scaled)
  next
    case False
    then have d: "ulp_exp x < ulp_exp y" "ulp_exp y = ilog2 y - 52" "ilog2 x < ilog2 y"
      using le x y by (auto simp: ulp_exp_def)
    have "x \<le> pow2 (ilog2 x + 1)" using ilog2_bounds(2) [OF x] by simp
    also have "\<dots> \<le> pow2 (ilog2 y)" using d(3) by simp
    finally have "fround x \<le> pow2 (ilog2 y)" using d x by (intro fround_le_pow2) simp_all
    also have "\<dots> \<le> fround y" using d ilog2_bounds(1) [OF y] by (intro pow2_le_fround) simp_all
    finally show ?thesis .
  qed
qed

lemma fround_relative:
  assumes "pow2 (- 1022) \<le> x"
  shows "\<bar>fround x - x\<bar> \<le> x / 2 ^ 53"
proof -
  have x: "0 < x" using assms pow2_pos(1) [of "- 1022"] by linarith
  let ?u = "pow2 (ulp_exp x)"
  have "- 1022 \<le> ilog2 x" by (rule ilog2_ge [OF assms])
  then have u: "ulp_exp x = ilog2 x - 52" using x by (simp add: ulp_exp_def)
  have "\<bar>of_int (round_even (x / ?u)) - x / ?u\<bar> * ?u \<le> 1 / 2 * ?u"
    by (intro mult_right_mono round_even_near) simp
  moreover have "\<bar>of_int (round_even (x / ?u)) - x / ?u\<bar> * ?u = \<bar>fround x - x\<bar>"
  proof -
    have "\<bar>of_int (round_even (x / ?u)) - x / ?u\<bar> * ?u = \<bar>(of_int (round_even (x / ?u)) - x / ?u) * ?u\<bar>"
      by (simp add: abs_mult)
    also have "\<dots> = \<bar>fround x - x\<bar>" using x by (simp add: fround_scaled left_diff_distrib)
    finally show ?thesis .
  qed
  moreover have "2 ^ 52 * ?u = pow2 (ilog2 x)"
    unfolding u using pow2_add [of "ilog2 x - 52" 52] by (simp add: pow2_def [of 52])
  moreover have "pow2 (ilog2 x) \<le> x" by (rule ilog2_bounds(1) [OF x])
  ultimately show ?thesis by (simp add: field_simps)
qed

lemma representable_of_int: "\<bar>n\<bar> \<le> 2 ^ 53 \<Longrightarrow> representable (of_int n)"
  unfolding representable_def by (intro exI [of _ n] exI [of _ 0]) (simp add: pow2_def)

lemma f_of_int_exact [simp]: "\<bar>n\<bar> \<le> 9007199254740992 \<Longrightarrow> f_of_int n = of_int n"
  by (simp add: f_of_int_def fround_id representable_of_int)

text \<open>Taking whole units out of a representable number that has them is exact.\<close>

lemma fround_minus_int:
  assumes "representable x" "of_int n \<le> x" "0 \<le> n" "x \<le> 2 ^ 53"
  shows "fround (x - of_int n) = x - of_int n"
proof (cases "x = 0")
  case True
  then show ?thesis using assms by simp
next
  case False
  have x0: "0 < x" using False assms(2,3) by (metis of_int_0_le_iff order_le_less order_trans)
  obtain m q where mq: "x = of_int m * pow2 q" "\<bar>m\<bar> \<le> 2 ^ 53" "- 1074 \<le> q"
    using assms(1) by (auto simp: representable_def)
  have "representable (x - of_int n)"
  proof (cases "q \<le> 0")
    case True
    have m: "0 < m" using x0 mq(1) pow2_pos(1) [of q] by (metis of_int_0_less_iff zero_less_mult_pos2)
    have one: "of_int (2 ^ nat (- q)) * pow2 q = 1"
      using True by (cases "q = 0") (simp_all add: pow2_def)
    have "x - of_int n = of_int m * pow2 q - of_int n * (of_int (2 ^ nat (- q)) * pow2 q)" unfolding one mq(1) by simp
    also have "\<dots> = of_int (m - n * 2 ^ nat (- q)) * pow2 q" by (simp add: left_diff_distrib)
    finally have eq: "x - of_int n = of_int (m - n * 2 ^ nat (- q)) * pow2 q" .
    then have "0 \<le> of_int (m - n * 2 ^ nat (- q)) * pow2 q" using assms(2) by simp
    then have "(of_int 0 :: rat) \<le> of_int (m - n * 2 ^ nat (- q))" using pow2_pos(1) [of q] by (metis of_int_0 zero_le_mult_iff not_le)
    then have "0 \<le> m - n * 2 ^ nat (- q)" by (simp only: of_int_le_iff)
    moreover have "0 \<le> n * 2 ^ nat (- q)" using assms(3) by simp
    ultimately have "\<bar>m - n * 2 ^ nat (- q)\<bar> \<le> 2 ^ 53" using m mq(2) by linarith
    then show ?thesis unfolding representable_def using mq(3) eq by blast
  next
    case False
    then have "x = of_int (m * 2 ^ nat q)" using mq(1) by (simp add: pow2_def)
    then have x: "x - of_int n = of_int (m * 2 ^ nat q - n)" by simp
    then have "of_int (m * 2 ^ nat q - n) \<le> (of_int (2 ^ 53) :: rat)" "(of_int 0 :: rat) \<le> of_int (m * 2 ^ nat q - n)"
      using assms by (simp_all flip: x add: add_increasing2)
    then have "m * 2 ^ nat q - n \<le> 2 ^ 53" "0 \<le> m * 2 ^ nat q - n"
      by (simp_all only: of_int_le_iff)
    then have "\<bar>m * 2 ^ nat q - n\<bar> \<le> 2 ^ 53" by linarith
    then show ?thesis unfolding x by (rule representable_of_int)
  qed
  then show ?thesis by (rule fround_id)
qed

lemma fround_minus_one:
  assumes "representable x" "1 \<le> x" "x \<le> 2 ^ 53"
  shows "fround (x - 1) = x - 1"
  using fround_minus_int [of x 1] assms by simp

lemma fround_plus_one:
  assumes "representable x" "0 \<le> x" "x + 1 \<le> 2 ^ 53"
  shows "\<bar>fround (x + 1) - (x + 1)\<bar> \<le> (x + 1) / 2 ^ 53"
  using assms(2) by (intro fround_relative) (simp add: pow2_def)

end
