(* ===== verification/Admission.thy ===== *)
theory Admission
  imports Prelude
begin

text \<open>
  Runs of an admission step and the metering contract. A limiter is a step \<open>'s \<Rightarrow> 'i \<Rightarrow> bool \<times> 's\<close>;
  \<open>run_steps\<close> feeds it a list of inputs and collects the admitted ones. The locale \<open>metered\<close> states what
  the bucket limiters promise: a credit that pays for every admission and grows by at most \<open>gain\<close> per
  step. The bound on the number of admissions follows once for all of them.
\<close>

fun run_steps :: "('s \<Rightarrow> 'i \<Rightarrow> bool \<times> 's) \<Rightarrow> 's \<Rightarrow> 'i list \<Rightarrow> 'i list \<times> 's" where
  "run_steps step s [] = ([], s)"
| "run_steps step s (x # xs) =
     (case step s x of (ok, s') \<Rightarrow>
        case run_steps step s' xs of (adm, s'') \<Rightarrow> (if ok then x # adm else adm, s''))"

abbreviation admitted :: "('s \<Rightarrow> 'i \<Rightarrow> bool \<times> 's) \<Rightarrow> 's \<Rightarrow> 'i list \<Rightarrow> 'i list" where
  "admitted step s xs \<equiv> fst (run_steps step s xs)"

lemma admitted_Cons:
  "step s x = (ok, s') \<Longrightarrow> admitted step s (x # xs) = (if ok then x # admitted step s' xs else admitted step s' xs)"
  by (simp split: prod.split)

lemma set_admitted: "set (admitted step s xs) \<subseteq> set xs"
proof (induction xs arbitrary: s)
  case (Cons x xs)
  obtain ok s' where st: "step s x = (ok, s')" by (cases "step s x")
  show ?case unfolding admitted_Cons [of step s x ok s', OF st] using Cons.IH [of s'] by (cases ok) auto
qed simp

fun run_gain :: "('s \<Rightarrow> 'i \<Rightarrow> bool \<times> 's) \<Rightarrow> ('s \<Rightarrow> 'i \<Rightarrow> 'r) \<Rightarrow> 's \<Rightarrow> 'i list \<Rightarrow> 'r :: comm_monoid_add" where
  "run_gain step gain s [] = 0"
| "run_gain step gain s (x # xs) = gain s x + run_gain step gain (snd (step s x)) xs"

locale metered =
  fixes step :: "'s \<Rightarrow> 'i \<Rightarrow> bool \<times> 's"
    and inv :: "'s \<Rightarrow> bool"
    and credit :: "'s \<Rightarrow> 'r :: linordered_field"
    and gain :: "'s \<Rightarrow> 'i \<Rightarrow> 'r"
    and valid_input :: "'s \<Rightarrow> 'i \<Rightarrow> bool"
  assumes step_inv: "inv s \<Longrightarrow> valid_input s x \<Longrightarrow> step s x = (ok, s') \<Longrightarrow> inv s'"
    and credit_nonneg: "inv s \<Longrightarrow> 0 \<le> credit s"
    and step_credit: "inv s \<Longrightarrow> valid_input s x \<Longrightarrow> step s x = (ok, s')
      \<Longrightarrow> credit s' + (if ok then 1 else 0) \<le> credit s + gain s x"
begin

fun valid_run :: "'s \<Rightarrow> 'i list \<Rightarrow> bool" where
  "valid_run s [] \<longleftrightarrow> True"
| "valid_run s (x # xs) \<longleftrightarrow> valid_input s x \<and> valid_run (snd (step s x)) xs"

lemma run_inv: "inv s \<Longrightarrow> valid_run s xs \<Longrightarrow> inv (snd (run_steps step s xs))"
proof (induction xs arbitrary: s)
  case (Cons x xs)
  obtain ok s' where "step s x = (ok, s')" by (cases "step s x")
  with Cons step_inv [of s x ok s'] show ?case by (auto split: prod.split dest: Cons.IH)
qed simp

lemma admissions_bounded:
  "inv s \<Longrightarrow> valid_run s xs \<Longrightarrow> of_nat (length (admitted step s xs)) \<le> credit s + run_gain step gain s xs"
proof (induction xs arbitrary: s)
  case Nil
  then show ?case using credit_nonneg [of s] by simp
next
  case (Cons x xs)
  obtain ok s' where st: "step s x = (ok, s')" by (cases "step s x")
  have "inv s'" using step_inv Cons.prems st by auto
  then have "of_nat (length (admitted step s' xs)) \<le> credit s' + run_gain step gain s' xs"
    using Cons.IH Cons.prems(2) st by auto
  moreover have "credit s' + (if ok then 1 else 0) \<le> credit s + gain s x"
    using step_credit Cons.prems st by auto
  ultimately show ?case unfolding admitted_Cons [of step s x ok s', OF st] run_gain.simps st snd_conv
    by (cases ok) simp_all
qed

end

text \<open>A limiter whose credit accrues with time: \<open>rate\<close> per unit since the last step and at most \<open>slack\<close>
  of rounding error per step.\<close>

locale clocked = metered step inv credit "\<lambda>s t. rate * of_int (t - clock s) + slack"
    "\<lambda>s t. clock s \<le> t \<and> t - clock s \<le> span"
  for step :: "'s \<Rightarrow> int \<Rightarrow> bool \<times> 's" and inv :: "'s \<Rightarrow> bool" and credit :: "'s \<Rightarrow> 'r :: linordered_field"
    and clock :: "'s \<Rightarrow> int" and rate slack :: 'r and span :: int +
  assumes clock_step: "inv s \<Longrightarrow> clock s \<le> t \<Longrightarrow> t - clock s \<le> span \<Longrightarrow> step s t = (ok, s') \<Longrightarrow> clock s' = t"
begin

lemma clocked_run:
  assumes "inv s" "sorted (clock s # ts)" "last (clock s # ts) - clock s \<le> span"
  shows "valid_run s ts \<and> run_gain step (\<lambda>s t. rate * of_int (t - clock s) + slack) s ts
    = rate * of_int (last (clock s # ts) - clock s) + slack * of_nat (length ts)"
  using assms
proof (induction ts arbitrary: s)
  case (Cons t ts)
  obtain ok s' where st: "step s t = (ok, s')" by (cases "step s t")
  have le: "clock s \<le> t" "t \<le> last (t # ts)" using Cons.prems(2) by auto
  have v: "t - clock s \<le> span" using Cons.prems(3) le by auto
  have c: "clock s' = t" and i: "inv s'"
    using clock_step [OF Cons.prems(1) le(1) v st] step_inv [OF Cons.prems(1) _ st] le(1) v by auto
  have next_ok: "sorted (clock s' # ts)" "last (clock s' # ts) - clock s' \<le> span"
    using Cons.prems(2,3) c le by auto
  let ?g = "\<lambda>s t. rate * of_int (t - clock s) + slack"
  note IH = Cons.IH [OF i next_ok, unfolded c]
  have "run_gain step ?g s (t # ts) = ?g s t + run_gain step ?g s' ts" using st by simp
  also have "\<dots> = rate * of_int (t - clock s) + slack + (rate * of_int (last (t # ts) - t) + slack * of_nat (length ts))"
    using IH by (simp only:)
  also have "\<dots> = rate * of_int (last (clock s # t # ts) - clock s) + slack * of_nat (length (t # ts))"
    by (simp add: algebra_simps)
  finally show ?case using IH st le v by simp
qed simp

lemma rate_bound:
  assumes "inv s" "sorted (clock s # ts)" "last (clock s # ts) - clock s \<le> span"
  shows "of_nat (length (admitted step s ts))
    \<le> credit s + rate * of_int (last (clock s # ts) - clock s) + slack * of_nat (length ts)"
  using admissions_bounded [OF assms(1) conjunct1 [OF clocked_run [OF assms]]] clocked_run [OF assms] by simp

end

end
