(* ===== verification/RateLimiter.thy ===== *)
theory RateLimiter
  imports Prelude GoStrings BoundedStore Float64 Admission
begin

text \<open>
  Public rate limiting (\<open>internal/server/rate_limiter.go\<close>): per-rule tables of key states, the four
  algorithms, the evaluation of a rule list against a request, the key derivation, the generated
  response headers and the validation of rules. Parameters of the model: the evaluation of a rule's
  match expression (a compiled CEL program), SHA-256, and the JSON codecs. A request is the record of
  the parts the code reads; \<open>ord i\<close> is the order in which the \<open>i\<close>-th candidate's eviction visits the
  key map. Key maps hold pointers that are never nil: every store is a fresh state.
\<close>

section \<open>Data\<close>

record publicRateLimitKeyPartConfig =
  kp_Source :: string
  kp_Name :: string

record publicRateLimitResponseHeaderConfig =
  rh_Name :: string
  rh_Value :: string

record 'm publicRateLimitRuleConfig =
  rl_ID :: int
  rl_Name :: string
  rl_Priority :: int
  rl_Enabled :: bool
  rl_Algorithm :: string
  rl_Limit :: int
  rl_WindowMillis :: int
  rl_Burst :: int
  rl_Match :: 'm
  rl_KeyParts :: "publicRateLimitKeyPartConfig list"
  rl_ResponseStatusCode :: int
  rl_ResponseBody :: string
  rl_ResponseBodyMode :: string
  rl_ResponseTemplateID :: int
  rl_ResponseContentType :: string
  rl_ResponseHeaders :: "publicRateLimitResponseHeaderConfig list"
  rl_CreatedAt :: gotime
  rl_UpdatedAt :: gotime
  rl_Fingerprint :: string

record publicRateLimitKeyRuntime =
  fixedWindowStart :: int
  fixedCount :: int
  slidingHits :: "int list"
  tokens :: float64
  tokenLastRefill :: int
  tokenInitialized :: bool
  leakyLevel :: float64
  leakyLastDrain :: int
  leakyInitialized :: bool
  lastSeenAt :: gotime

definition zeroKeyRuntime :: publicRateLimitKeyRuntime where
  "zeroKeyRuntime = \<lparr>fixedWindowStart = 0, fixedCount = 0, slidingHits = [], tokens = 0, tokenLastRefill = 0,
     tokenInitialized = False, leakyLevel = 0, leakyLastDrain = 0, leakyInitialized = False, lastSeenAt = 0\<rparr>"

record publicRateLimitRuleRuntime =
  rt_fingerprint :: string
  rt_keys :: "(string, publicRateLimitKeyRuntime) gomap"

record publicRateLimiter =
  lim_rules :: "(int, publicRateLimitRuleRuntime) gomap"
  lastPrune :: gotime

record publicRateLimitAllowResult =
  allowed :: bool
  remaining :: int
  res_retryAfter :: duration

record http_request =
  rq_RemoteAddr :: string
  rq_Identity :: "string option option" \<comment> \<open>the client identity attached to the context, if any, and its resolved address\<close>
  rq_Host :: string
  rq_Method :: string
  rq_Path :: string
  rq_Header :: "string \<Rightarrow> string"
  rq_Cookie :: "string \<Rightarrow> string option"
  rq_Query :: "string \<Rightarrow> string"

type_synonym http_header = "(string, string list) gomap"

record 'm publicRateLimitDecision =
  dc_Rule :: "'m publicRateLimitRuleConfig"
  dc_MatchError :: "string option"
  dc_ErrorKind :: string
  dc_StatusCode :: int
  dc_Body :: string
  dc_Headers :: http_header
  dc_RetryAfter :: duration
  dc_Limit :: int
  dc_Remaining :: int
  dc_ResetAt :: gotime

definition maxRateLimitKeysPerRule :: int where "maxRateLimitKeysPerRule = 10000"
definition rateLimitIdleStateTTL :: duration where "rateLimitIdleStateTTL = 15 * minute"
definition rateLimitPruneInterval :: duration where "rateLimitPruneInterval = minute"
definition rateLimitMissingValue :: string where "rateLimitMissingValue = ''<missing>''"
definition maxRateLimitKeyValueBytes :: nat where "maxRateLimitKeyValueBytes = 256"
definition publicPolicyMatchFailureBody :: string where
  "publicPolicyMatchFailureBody = ''Service Unavailable'' @ [CHR 0x0A]"

section \<open>Helpers\<close>

definition maxInt64 :: "int \<Rightarrow> int \<Rightarrow> int" where
  "maxInt64 a b = (if a > b then a else b)"

definition millisDuration :: "int \<Rightarrow> duration" where
  "millisDuration ms = i64 ((if ms < 1 then 1 else ms) * millisecond)"

definition effectiveRateLimitBurst :: "'m publicRateLimitRuleConfig \<Rightarrow> int" where
  "effectiveRateLimitBurst rule = (if rl_Burst rule > 0 then rl_Burst rule else rl_Limit rule)"

section \<open>The four algorithms\<close>

definition allowFixedWindow :: "publicRateLimitKeyRuntime \<Rightarrow> 'm publicRateLimitRuleConfig \<Rightarrow> int
    \<Rightarrow> publicRateLimitAllowResult \<times> publicRateLimitKeyRuntime" where
  "allowFixedWindow s rule nowMs =
     (let w = rl_WindowMillis rule;
          windowStart = go_div nowMs w * w;
          s1 = (if fixedWindowStart s \<noteq> windowStart then s\<lparr>fixedWindowStart := windowStart, fixedCount := 0\<rparr> else s);
          retry = millisDuration (windowStart + w - nowMs)
      in if fixedCount s1 \<ge> rl_Limit rule
         then (\<lparr>allowed = False, remaining = 0, res_retryAfter = retry\<rparr>, s1)
         else (let s2 = s1\<lparr>fixedCount := fixedCount s1 + 1\<rparr>
               in (\<lparr>allowed = True, remaining = maxInt64 0 (rl_Limit rule - fixedCount s2), res_retryAfter = retry\<rparr>, s2)))"

definition allowSlidingWindow :: "publicRateLimitKeyRuntime \<Rightarrow> 'm publicRateLimitRuleConfig \<Rightarrow> int
    \<Rightarrow> publicRateLimitAllowResult \<times> publicRateLimitKeyRuntime" where
  "allowSlidingWindow s rule nowMs =
     (let cutoff = nowMs - rl_WindowMillis rule;
          hits = dropWhile (\<lambda>h. h \<le> cutoff) (slidingHits s);
          s1 = s\<lparr>slidingHits := hits\<rparr>
      in if int (length hits) \<ge> rl_Limit rule
         then (\<lparr>allowed = False, remaining = 0,
                res_retryAfter = millisDuration (hits ! 0 + rl_WindowMillis rule - nowMs)\<rparr>, s1)
         else (let hits' = hits @ [nowMs]
               in (\<lparr>allowed = True, remaining = maxInt64 0 (rl_Limit rule - int (length hits')),
                    res_retryAfter = millisDuration (rl_WindowMillis rule)\<rparr>, s1\<lparr>slidingHits := hits'\<rparr>)))"

definition refill_amount :: "'m publicRateLimitRuleConfig \<Rightarrow> int \<Rightarrow> float64" where
  \<comment> \<open>\<open>float64(elapsed)*float64(rule.Limit)/float64(rule.WindowMillis)\<close>\<close>
  "refill_amount rule elapsed =
     f_div (f_mul (f_of_int elapsed) (f_of_int (rl_Limit rule))) (f_of_int (rl_WindowMillis rule))"

definition token_refill :: "publicRateLimitKeyRuntime \<Rightarrow> 'm publicRateLimitRuleConfig \<Rightarrow> int
    \<Rightarrow> publicRateLimitKeyRuntime" where
  "token_refill s rule nowMs =
     (let capacity = effectiveRateLimitBurst rule;
          s1 = (if \<not> tokenInitialized s
                then s\<lparr>tokens := f_of_int capacity, tokenLastRefill := nowMs, tokenInitialized := True\<rparr> else s);
          elapsed = maxInt64 0 (nowMs - tokenLastRefill s1)
      in if elapsed > 0
         then s1\<lparr>tokens := min (f_of_int capacity) (f_add (tokens s1) (refill_amount rule elapsed)),
                 tokenLastRefill := nowMs\<rparr>
         else s1)"

definition allowTokenBucket :: "publicRateLimitKeyRuntime \<Rightarrow> 'm publicRateLimitRuleConfig \<Rightarrow> int
    \<Rightarrow> publicRateLimitAllowResult \<times> publicRateLimitKeyRuntime" where
  "allowTokenBucket s rule nowMs =
     (let s1 = token_refill s rule nowMs
      in if tokens s1 < 1
         then (let needed = f_sub 1 (tokens s1);
                   retryMs = \<lceil>f_div (f_mul needed (f_of_int (rl_WindowMillis rule))) (f_of_int (rl_Limit rule))\<rceil>
               in (\<lparr>allowed = False, remaining = 0, res_retryAfter = millisDuration retryMs\<rparr>, s1))
         else (let s2 = s1\<lparr>tokens := f_sub (tokens s1) 1\<rparr>
               in (\<lparr>allowed = True, remaining = \<lfloor>tokens s2\<rfloor>,
                    res_retryAfter = millisDuration (rl_WindowMillis rule)\<rparr>, s2)))"

definition leaky_drain :: "publicRateLimitKeyRuntime \<Rightarrow> 'm publicRateLimitRuleConfig \<Rightarrow> int
    \<Rightarrow> publicRateLimitKeyRuntime" where
  "leaky_drain s rule nowMs =
     (let s1 = (if \<not> leakyInitialized s then s\<lparr>leakyLastDrain := nowMs, leakyInitialized := True\<rparr> else s);
          elapsed = maxInt64 0 (nowMs - leakyLastDrain s1)
      in if elapsed > 0
         then s1\<lparr>leakyLevel := max 0 (f_sub (leakyLevel s1) (refill_amount rule elapsed)), leakyLastDrain := nowMs\<rparr>
         else s1)"

definition allowLeakyBucket :: "publicRateLimitKeyRuntime \<Rightarrow> 'm publicRateLimitRuleConfig \<Rightarrow> int
    \<Rightarrow> publicRateLimitAllowResult \<times> publicRateLimitKeyRuntime" where
  "allowLeakyBucket s rule nowMs =
     (let capacity = effectiveRateLimitBurst rule;
          s1 = leaky_drain s rule nowMs
      in if f_add (leakyLevel s1) 1 > f_of_int capacity
         then (let over = f_sub (f_add (leakyLevel s1) 1) (f_of_int capacity);
                   retryMs = \<lceil>f_div (f_mul over (f_of_int (rl_WindowMillis rule))) (f_of_int (rl_Limit rule))\<rceil>
               in (\<lparr>allowed = False, remaining = 0, res_retryAfter = millisDuration retryMs\<rparr>, s1))
         else (let s2 = s1\<lparr>leakyLevel := f_add (leakyLevel s1) 1\<rparr>
               in (\<lparr>allowed = True, remaining = maxInt64 0 (capacity - \<lceil>leakyLevel s2\<rceil>),
                    res_retryAfter = millisDuration (rl_WindowMillis rule)\<rparr>, s2)))"

definition allow :: "publicRateLimitKeyRuntime \<Rightarrow> 'm publicRateLimitRuleConfig \<Rightarrow> gotime
    \<Rightarrow> publicRateLimitAllowResult \<times> publicRateLimitKeyRuntime" where
  "allow s rule now =
     (let nowMs = unix_milli now
      in if rl_Algorithm rule = ''sliding_window'' then allowSlidingWindow s rule nowMs
         else if rl_Algorithm rule = ''token_bucket'' then allowTokenBucket s rule nowMs
         else if rl_Algorithm rule = ''leaky_bucket'' then allowLeakyBucket s rule nowMs
         else allowFixedWindow s rule nowMs)"

section \<open>Keys\<close>

definition normalizeBareRequestHost :: "string \<Rightarrow> string" where
  "normalizeBareRequestHost host0 =
     (let host = trim_space (to_lower (trim_chars ''[]'' host0))
      in if index_char CHR '':'' host \<noteq> None then host else trim_suffix_char CHR ''.'' host)"

definition normalizeRequestHost :: "string \<Rightarrow> string" where
  "normalizeRequestHost host0 =
     (let host = trim_space (to_lower host0)
      in if host \<noteq> [] \<and> hd host = CHR ''['' then
           (case split_host_port host of
              Some (h, _) \<Rightarrow> normalizeBareRequestHost h
            | None \<Rightarrow> normalizeBareRequestHost (trim_chars ''[]'' host))
         else (case split_host_port host of
                 Some (h, _) \<Rightarrow> normalizeBareRequestHost h
               | None \<Rightarrow>
                   (case last_index_char CHR '':'' host of
                      Some i \<Rightarrow> if count_list host CHR '':'' = 1 then normalizeBareRequestHost (take i host)
                               else normalizeBareRequestHost host
                    | None \<Rightarrow> normalizeBareRequestHost host)))"

definition peer_or_missing :: "http_request \<Rightarrow> string" where
  "peer_or_missing r =
     (case split_host_port (rq_RemoteAddr r) of
        Some (h, _) \<Rightarrow> if h \<noteq> '''' then h
          else if rq_RemoteAddr r \<noteq> '''' then rq_RemoteAddr r else rateLimitMissingValue
      | None \<Rightarrow> if rq_RemoteAddr r \<noteq> '''' then rq_RemoteAddr r else rateLimitMissingValue)"

definition remoteIPForRateLimit :: "http_request \<Rightarrow> string" where
  "remoteIPForRateLimit r =
     (case rq_Identity r of
        Some (Some addr) \<Rightarrow> addr
      | Some None \<Rightarrow> rateLimitMissingValue
      | None \<Rightarrow> peer_or_missing r)"

definition key_part_value :: "string \<Rightarrow> http_request \<Rightarrow> publicRateLimitKeyPartConfig \<Rightarrow> string" where
  \<comment> \<open>the switch of \<open>keyValues\<close>; \<open>protocol\<close> is the listener's protocol\<close>
  "key_part_value protocol r part =
     (if kp_Source part = ''remote_ip'' then remoteIPForRateLimit r
      else if kp_Source part = ''host'' then normalizeRequestHost (rq_Host r)
      else if kp_Source part = ''method'' then to_upper (rq_Method r)
      else if kp_Source part = ''path'' then rq_Path r
      else if kp_Source part = ''protocol'' then protocol
      else if kp_Source part = ''header'' then rq_Header r (kp_Name part)
      else if kp_Source part = ''cookie'' then
        (case rq_Cookie r (kp_Name part) of Some v \<Rightarrow> v | None \<Rightarrow> rateLimitMissingValue)
      else if kp_Source part = ''query_param'' then rq_Query r (kp_Name part)
      else rateLimitMissingValue)"

definition keyValues :: "'m publicRateLimitRuleConfig \<Rightarrow> string \<Rightarrow> http_request \<Rightarrow> string list" where
  "keyValues rule protocol r =
     (let parts = (if rl_KeyParts rule = [] then [\<lparr>kp_Source = ''remote_ip'', kp_Name = ''''\<rparr>] else rl_KeyParts rule)
      in concat (map (\<lambda>part.
           let v0 = key_part_value protocol r part;
               v1 = (if v0 = '''' then rateLimitMissingValue else v0)
           in [kp_Source part @ '':'' @ to_lower (kp_Name part), take maxRateLimitKeyValueBytes v1]) parts))"

definition rateLimitKeyHash :: "(string \<Rightarrow> string) \<Rightarrow> string list \<Rightarrow> string" where
  \<comment> \<open>\<open>sha\<close> is the hexadecimal SHA-256 of its argument\<close>
  "rateLimitKeyHash sha values = sha (concat (map (\<lambda>v. v @ [CHR 0x00]) values))"

section \<open>Evaluation\<close>

definition newPublicRateLimiter :: publicRateLimiter where
  "newPublicRateLimiter = \<lparr>lim_rules = [], lastPrune = 0\<rparr>"

definition rl_reconcile :: "publicRateLimiter \<Rightarrow> 'm publicRateLimitRuleConfig list option \<Rightarrow> publicRateLimiter" where
  \<comment> \<open>the argument is the rule list of the snapshot, \<open>None\<close> for a nil snapshot; a later rule with the same id wins\<close>
  "rl_reconcile l snap =
     (let keep = foldl (\<lambda>m rule. if rl_Enabled rule then AList.update (rl_ID rule) (rl_Fingerprint rule) m else m)
                   [] (case snap of None \<Rightarrow> [] | Some rules \<Rightarrow> rules);
          kept = filter (\<lambda>(i, rt). map_of keep i = Some (rt_fingerprint rt)) (lim_rules l)
      in l\<lparr>lim_rules := foldl (\<lambda>m (i, fp). case map_of m i of
             None \<Rightarrow> AList.update i \<lparr>rt_fingerprint = fp, rt_keys = []\<rparr> m | Some _ \<Rightarrow> m) kept keep\<rparr>)"

definition idle_key :: "gotime \<Rightarrow> publicRateLimitKeyRuntime \<Rightarrow> bool" where
  "idle_key now s \<longleftrightarrow> time_is_zero (lastSeenAt s) \<or> time_sub now (lastSeenAt s) > rateLimitIdleStateTTL"

definition rl_pruneLocked :: "publicRateLimiter \<Rightarrow> gotime \<Rightarrow> publicRateLimiter" where
  "rl_pruneLocked l now =
     (if \<not> time_is_zero (lastPrune l) \<and> time_sub now (lastPrune l) < rateLimitPruneInterval then l
      else \<lparr>lim_rules = map (\<lambda>(i, rt). (i, rt\<lparr>rt_keys := filter (\<lambda>p. \<not> idle_key now (snd p)) (rt_keys rt)\<rparr>)) (lim_rules l),
            lastPrune = now\<rparr>)"

fun evict_oldest_scan :: "(string, publicRateLimitKeyRuntime) gomap \<Rightarrow> string list \<Rightarrow> string \<Rightarrow> gotime \<Rightarrow> string" where
  "evict_oldest_scan keys [] oldestKey oldestTime = oldestKey"
| "evict_oldest_scan keys (key # rest) oldestKey oldestTime =
     (case map_of keys key of
        None \<Rightarrow> evict_oldest_scan keys rest oldestKey oldestTime
      | Some s \<Rightarrow>
          if oldestKey = '''' \<or> lastSeenAt s < oldestTime then evict_oldest_scan keys rest key (lastSeenAt s)
          else evict_oldest_scan keys rest oldestKey oldestTime)"

definition evictOldestRateLimitKey :: "(string, publicRateLimitKeyRuntime) gomap \<Rightarrow> string list
    \<Rightarrow> (string, publicRateLimitKeyRuntime) gomap" where
  "evictOldestRateLimitKey keys ord =
     (let oldestKey = evict_oldest_scan keys (range_keys ord keys) '''' 0
      in if oldestKey \<noteq> '''' then AList.delete oldestKey keys else keys)"

definition header_set :: "string \<Rightarrow> string \<Rightarrow> http_header \<Rightarrow> http_header" where
  "header_set name v h = AList.update (canonical_header name) [v] h"

definition rateLimitGeneratedHeaders :: "'m publicRateLimitRuleConfig \<Rightarrow> publicRateLimitAllowResult \<Rightarrow> gotime
    \<Rightarrow> http_header" where
  "rateLimitGeneratedHeaders rule result now =
     (let ra0 = \<lceil>duration_seconds (res_retryAfter result)\<rceil>;
          ra = (if ra0 < 1 then 1 else ra0);
          resetUnix = (now + i64 (ra * second) - unix_epoch) div second;
          lim = format_int (rl_Limit rule);
          rem = format_int (maxInt64 0 (remaining result))
      in header_set ''X-RateLimit-Reset'' (format_int resetUnix)
           (header_set ''X-RateLimit-Remaining'' rem
           (header_set ''X-RateLimit-Limit'' lim
           (header_set ''RateLimit-Reset'' (format_int ra)
           (header_set ''RateLimit-Remaining'' rem
           (header_set ''RateLimit-Limit'' lim
           (header_set ''Retry-After'' (format_int ra) [])))))))"

definition reject_decision :: "'m publicRateLimitRuleConfig \<Rightarrow> publicRateLimitAllowResult \<Rightarrow> gotime
    \<Rightarrow> 'm publicRateLimitDecision" where
  "reject_decision rule result now =
     \<lparr>dc_Rule = rule, dc_MatchError = None, dc_ErrorKind = '''', dc_StatusCode = rl_ResponseStatusCode rule,
      dc_Body = rl_ResponseBody rule, dc_Headers = rateLimitGeneratedHeaders rule result now,
      dc_RetryAfter = res_retryAfter result, dc_Limit = rl_Limit rule, dc_Remaining = remaining result,
      dc_ResetAt = now + res_retryAfter result\<rparr>"

definition match_error_decision :: "'m publicRateLimitRuleConfig \<Rightarrow> string \<Rightarrow> 'm publicRateLimitDecision" where
  "match_error_decision rule err =
     \<lparr>dc_Rule = rule, dc_MatchError = Some err, dc_ErrorKind = ''policy_match_failed'', dc_StatusCode = 503, dc_Body = publicPolicyMatchFailureBody,
      dc_Headers = [], dc_RetryAfter = 0, dc_Limit = 0, dc_Remaining = 0, dc_ResetAt = 0\<rparr>"

fun rl_candidates :: "('m \<Rightarrow> string \<Rightarrow> http_request \<Rightarrow> string + bool) \<Rightarrow> (string \<Rightarrow> string)
    \<Rightarrow> 'm publicRateLimitRuleConfig list \<Rightarrow> string \<Rightarrow> http_request
    \<Rightarrow> 'm publicRateLimitDecision + ('m publicRateLimitRuleConfig \<times> string) list" where
  "rl_candidates matchf sha [] protocol r = Inr []"
| "rl_candidates matchf sha (rule # rules) protocol r =
     (if \<not> rl_Enabled rule then rl_candidates matchf sha rules protocol r
      else (case matchf (rl_Match rule) protocol r of
              Inl err \<Rightarrow> Inl (match_error_decision rule err)
            | Inr False \<Rightarrow> rl_candidates matchf sha rules protocol r
            | Inr True \<Rightarrow>
                ebind (rl_candidates matchf sha rules protocol r)
                  (\<lambda>cs. Inr ((rule, rateLimitKeyHash sha (keyValues rule protocol r)) # cs))))"

definition rule_runtime :: "publicRateLimiter \<Rightarrow> 'm publicRateLimitRuleConfig \<Rightarrow> publicRateLimitRuleRuntime" where
  "rule_runtime l rule =
     (case map_of (lim_rules l) (rl_ID rule) of
        Some rt \<Rightarrow> if rt_fingerprint rt \<noteq> rl_Fingerprint rule then \<lparr>rt_fingerprint = rl_Fingerprint rule, rt_keys = []\<rparr> else rt
      | None \<Rightarrow> \<lparr>rt_fingerprint = rl_Fingerprint rule, rt_keys = []\<rparr>)"

definition key_room :: "(string, publicRateLimitKeyRuntime) gomap \<Rightarrow> string list
    \<Rightarrow> (string, publicRateLimitKeyRuntime) gomap" where
  "key_room keys ord =
     (if int (length keys) \<ge> maxRateLimitKeysPerRule then evictOldestRateLimitKey keys ord else keys)"

definition candidate_step :: "string list \<Rightarrow> publicRateLimiter \<Rightarrow> 'm publicRateLimitRuleConfig \<Rightarrow> string \<Rightarrow> gotime
    \<Rightarrow> publicRateLimitAllowResult \<times> publicRateLimiter" where
  "candidate_step ord l rule key now =
     (let rt = rule_runtime l rule;
          (s, keys) = (case map_of (rt_keys rt) key of
                         Some s \<Rightarrow> (s, rt_keys rt)
                       | None \<Rightarrow> (zeroKeyRuntime, key_room (rt_keys rt) ord));
          (result, s') = allow (s\<lparr>lastSeenAt := now\<rparr>) rule now
      in (result, l\<lparr>lim_rules := AList.update (rl_ID rule)
            (rt\<lparr>rt_keys := AList.update key s' keys\<rparr>) (lim_rules l)\<rparr>))"

fun candidate_loop :: "(nat \<Rightarrow> string list) \<Rightarrow> nat \<Rightarrow> publicRateLimiter
    \<Rightarrow> ('m publicRateLimitRuleConfig \<times> string) list \<Rightarrow> gotime \<Rightarrow> 'm publicRateLimitDecision option \<times> publicRateLimiter" where
  "candidate_loop ord i l [] now = (None, l)"
| "candidate_loop ord i l ((rule, key) # cs) now =
     (case candidate_step (ord i) l rule key now of
        (result, l') \<Rightarrow>
          if \<not> allowed result then (Some (reject_decision rule result now), l')
          else candidate_loop ord (Suc i) l' cs now)"

definition rl_evaluate :: "('m \<Rightarrow> string \<Rightarrow> http_request \<Rightarrow> string + bool) \<Rightarrow> (string \<Rightarrow> string) \<Rightarrow> (nat \<Rightarrow> string list)
    \<Rightarrow> publicRateLimiter \<Rightarrow> 'm publicRateLimitRuleConfig list \<Rightarrow> string \<Rightarrow> http_request \<Rightarrow> gotime
    \<Rightarrow> 'm publicRateLimitDecision option \<times> publicRateLimiter" where
  \<comment> \<open>\<open>None\<close> is the allowing decision \<open>(publicRateLimitDecision\{\}, true)\<close>\<close>
  "rl_evaluate matchf sha ord l rules protocol r now =
     (case rl_candidates matchf sha rules protocol r of
        Inl d \<Rightarrow> (Some d, l)
      | Inr [] \<Rightarrow> (None, l)
      | Inr cs \<Rightarrow> candidate_loop ord 0 (rl_pruneLocked l now) cs now)"

definition sortPublicRateLimitRules :: "'m publicRateLimitRuleConfig list \<Rightarrow> 'm publicRateLimitRuleConfig list" where
  "sortPublicRateLimitRules rules = sort_key (\<lambda>rule. (rl_Priority rule, rl_ID rule)) rules"


definition checkPublicRateLimitsWithSnapshot :: "('m \<Rightarrow> string \<Rightarrow> http_request \<Rightarrow> string + bool) \<Rightarrow> (string \<Rightarrow> string)
    \<Rightarrow> (nat \<Rightarrow> string list) \<Rightarrow> publicRateLimiter \<Rightarrow> 'm publicRateLimitRuleConfig list option
    \<Rightarrow> (int \<Rightarrow> string option) \<Rightarrow> int \<Rightarrow> http_request \<Rightarrow> gotime \<Rightarrow> 'm publicRateLimitDecision option \<times> publicRateLimiter" where
  \<comment> \<open>\<open>listeners\<close> gives the protocol of the snapshot's listeners\<close>
  "checkPublicRateLimitsWithSnapshot matchf sha ord l snap listeners listenerID r now =
     (case snap of
        None \<Rightarrow> (None, l)
      | Some rules \<Rightarrow>
          if rules = [] then (None, l)
          else (case listeners listenerID of
                  None \<Rightarrow> (None, l)
                | Some protocol \<Rightarrow> rl_evaluate matchf sha ord l rules protocol r now))"

definition header_del :: "string \<Rightarrow> http_header \<Rightarrow> http_header" where
  "header_del name h = AList.delete (canonical_header name) h"

definition header_add :: "string \<Rightarrow> string \<Rightarrow> http_header \<Rightarrow> http_header" where
  "header_add name v h =
     AList.update (canonical_header name)
       ((case map_of h (canonical_header name) of None \<Rightarrow> [] | Some vs \<Rightarrow> vs) @ [v]) h"

definition writeRateLimitResponse :: "http_header \<Rightarrow> 'm publicRateLimitDecision \<Rightarrow> http_header \<times> int \<times> string" where
  \<comment> \<open>the header map, the status and the body handed to the response writer\<close>
  "writeRateLimitResponse h d =
     (if dc_MatchError d \<noteq> None
      then (header_set ''Content-Type'' ''text/plain; charset=utf-8'' h, 503, publicPolicyMatchFailureBody)
      else
        let h1 = foldl (\<lambda>h hd. header_set (rh_Name hd) (rh_Value hd) h) h (rl_ResponseHeaders (dc_Rule d));
            h2 = (if rl_ResponseContentType (dc_Rule d) \<noteq> ''''
                  then header_set ''Content-Type'' (rl_ResponseContentType (dc_Rule d)) h1 else h1);
            h3 = foldl (\<lambda>h (name, values). foldl (\<lambda>h v. header_add name v h) (header_del name h) values) h2 (dc_Headers d)
        in (h3, dc_StatusCode d, dc_Body d))"

section \<open>Window limiters\<close>

definition alg_step :: "(publicRateLimitKeyRuntime \<Rightarrow> 'm publicRateLimitRuleConfig \<Rightarrow> int
      \<Rightarrow> publicRateLimitAllowResult \<times> publicRateLimitKeyRuntime)
    \<Rightarrow> 'm publicRateLimitRuleConfig \<Rightarrow> publicRateLimitKeyRuntime \<Rightarrow> int \<Rightarrow> bool \<times> publicRateLimitKeyRuntime" where
  "alg_step alg rule s nowMs = apfst allowed (alg s rule nowMs)"

definition rule_ok :: "'m publicRateLimitRuleConfig \<Rightarrow> bool" where
  \<comment> \<open>what validation guarantees of the numbers of a rule\<close>
  "rule_ok rule \<longleftrightarrow> 1 \<le> rl_Limit rule \<and> 1 \<le> rl_WindowMillis rule"

lemma fixed_step:
  assumes "rule_ok rule" "0 \<le> t" "alg_step allowFixedWindow rule s t = (ok, s')"
  shows "fixedWindowStart s' = t div rl_WindowMillis rule * rl_WindowMillis rule"
    and "ok \<longleftrightarrow> (if fixedWindowStart s = fixedWindowStart s' then fixedCount s else 0) < rl_Limit rule"
    and "fixedCount s' = (if fixedWindowStart s = fixedWindowStart s' then fixedCount s else 0) + (if ok then 1 else 0)"
  using assms by (auto simp: rule_ok_def alg_step_def allowFixedWindow_def Let_def split: if_splits)

definition in_window :: "int \<Rightarrow> int \<Rightarrow> int list \<Rightarrow> int list" where
  "in_window w j ts = filter (\<lambda>t. t div w = j) ts"

lemma fixed_window_run:
  assumes rule: "rule_ok rule" and "sorted ts" "list_all (\<lambda>t. 0 \<le> t \<and> i \<le> t div rl_WindowMillis rule) ts"
    and "fixedWindowStart s = i * rl_WindowMillis rule" "0 \<le> fixedCount s" "fixedCount s \<le> rl_Limit rule"
  shows "int (length (in_window (rl_WindowMillis rule) j (admitted (alg_step allowFixedWindow rule) s ts)))
    \<le> rl_Limit rule - (if i = j then fixedCount s else if j < i then rl_Limit rule else 0)"
  using assms(2-)
proof (induction ts arbitrary: s i)
  case Nil
  then show ?case using rule by (simp add: in_window_def rule_ok_def)
next
  case (Cons t ts)
  let ?w = "rl_WindowMillis rule" and ?k = "t div rl_WindowMillis rule"
  have w: "0 < ?w" using rule by (simp add: rule_ok_def)
  obtain ok s' where st: "alg_step allowFixedWindow rule s t = (ok, s')" by (cases "alg_step allowFixedWindow rule s t")
  have t: "0 \<le> t" "i \<le> ?k" using Cons.prems(2) by auto
  note f = fixed_step [OF rule t(1) st]
  have same: "fixedWindowStart s = fixedWindowStart s' \<longleftrightarrow> i = ?k" using f(1) Cons.prems(3) w by simp
  have "list_all (\<lambda>x. 0 \<le> x \<and> ?k \<le> x div ?w) ts"
    using Cons.prems(1,2) w by (auto simp: list_all_iff zdiv_mono1)
  moreover have "0 \<le> fixedCount s'" "fixedCount s' \<le> rl_Limit rule"
    using f(2,3) Cons.prems(4,5) same rule by (auto simp: rule_ok_def split: if_splits)
  ultimately have IH: "int (length (in_window ?w j (admitted (alg_step allowFixedWindow rule) s' ts)))
      \<le> rl_Limit rule - (if ?k = j then fixedCount s' else if j < ?k then rl_Limit rule else 0)"
    using Cons.IH Cons.prems(1) f(1) by auto
  have "in_window ?w j (admitted (alg_step allowFixedWindow rule) s (t # ts)) =
      (if ok \<and> ?k = j then [t] else []) @ in_window ?w j (admitted (alg_step allowFixedWindow rule) s' ts)"
    unfolding admitted_Cons [of "alg_step allowFixedWindow rule" s t ok s', OF st] by (simp add: in_window_def)
  then show ?case using IH f(3) same t(2) rule Cons.prems(4,5)
    by (auto simp: rule_ok_def split: if_splits)
qed

lemma sliding_step:
  assumes "alg_step allowSlidingWindow rule s t = (ok, s')"
  defines "hits \<equiv> dropWhile (\<lambda>h. h \<le> t - rl_WindowMillis rule) (slidingHits s)"
  shows "ok \<longleftrightarrow> int (length hits) < rl_Limit rule" "slidingHits s' = (if ok then hits @ [t] else hits)"
  using assms by (auto simp: alg_step_def allowSlidingWindow_def Let_def split: if_splits)

lemma dropWhile_sorted_filter: "sorted xs \<Longrightarrow> dropWhile (\<lambda>h. h \<le> (c :: int)) xs = filter (\<lambda>h. c < h) xs"
  by (induction xs) (auto intro!: filter_True [symmetric])

definition hits_in :: "int \<Rightarrow> int \<Rightarrow> int list \<Rightarrow> nat" where
  \<comment> \<open>how many of the instants lie in the half-open interval \<open>(T - w, T]\<close>\<close>
  "hits_in w T ts = length (filter (\<lambda>t. T - w < t \<and> t \<le> T) ts)"

lemma sliding_window_run:
  assumes rule: "rule_ok rule"
    and "sorted (A @ ts)" "slidingHits s = filter (\<lambda>a. c < a) A" "list_all (\<lambda>t. c \<le> t - rl_WindowMillis rule) ts"
    and "\<And>T. int (hits_in (rl_WindowMillis rule) T A) \<le> rl_Limit rule"
  shows "int (hits_in (rl_WindowMillis rule) T (A @ admitted (alg_step allowSlidingWindow rule) s ts)) \<le> rl_Limit rule"
  using assms(2-)
proof (induction ts arbitrary: s A c)
  case Nil
  then show ?case by simp
next
  case (Cons t ts)
  let ?w = "rl_WindowMillis rule" and ?step = "alg_step allowSlidingWindow rule"
  obtain ok s' where st: "?step s t = (ok, s')" by (cases "?step s t")
  have c: "c \<le> t - ?w" and srt: "sorted A" "\<forall>a\<in>set A. a \<le> t" "sorted ts" "\<forall>x\<in>set ts. t \<le> x"
    using Cons.prems(1,3) by (auto simp: sorted_append)
  have hits: "dropWhile (\<lambda>h. h \<le> t - ?w) (slidingHits s) = filter (\<lambda>a. t - ?w < a) A"
    using Cons.prems(2) srt(1) c by (simp add: dropWhile_sorted_filter sorted_filter [of id, simplified])
      (rule filter_cong, auto)
  note f = sliding_step [OF st, unfolded hits]
  let ?B = "if ok then A @ [t] else A"
  have "slidingHits s' = filter (\<lambda>a. t - ?w < a) ?B" using f(2) rule by (auto simp: rule_ok_def)
  moreover have "sorted (?B @ ts)" using Cons.prems(1) srt by (auto simp: sorted_append)
  moreover have "list_all (\<lambda>x. t - ?w \<le> x - ?w) ts" using srt(4) by (auto simp: list_all_iff)
  moreover have "int (hits_in ?w T ?B) \<le> rl_Limit rule" for T
  proof (cases "ok \<and> T - ?w < t \<and> t \<le> T")
    case True
    have "filter (\<lambda>x. T - ?w < x \<and> x \<le> T) A = filter (\<lambda>x. T - ?w < x) (filter (\<lambda>a. t - ?w < a) A)"
      using True srt(2) by (auto simp: filter_filter intro!: filter_cong)
    then have "hits_in ?w T A \<le> length (filter (\<lambda>a. t - ?w < a) A)"
      by (simp add: hits_in_def del: filter_filter)
    then show ?thesis using True f(1) by (simp add: hits_in_def)
  next
    case False
    then show ?thesis using Cons.prems(4) [of T] by (auto simp: hits_in_def)
  qed
  ultimately have "int (hits_in ?w T (?B @ admitted ?step s' ts)) \<le> rl_Limit rule"
    using Cons.IH [of ?B s' "t - ?w"] by blast
  then show ?case unfolding admitted_Cons [of ?step s t ok s', OF st] by (cases ok) simp_all
qed

section \<open>Bucket limiters\<close>

definition eps :: rat where "eps = 1 / 9007199254740992" \<comment> \<open>\<open>2^-53\<close>, the relative rounding error\<close>

definition bucket_rule :: "'m publicRateLimitRuleConfig \<Rightarrow> bool" where
  "bucket_rule rule \<longleftrightarrow> 1 \<le> rl_Limit rule \<and> rl_Limit rule \<le> 9007199254740992 \<and>
     1 \<le> rl_WindowMillis rule \<and> rl_WindowMillis rule \<le> 9007199254740992 \<and>
     1 \<le> effectiveRateLimitBurst rule \<and> effectiveRateLimitBurst rule \<le> 9007199254740992"

definition bucket_cap :: "'m publicRateLimitRuleConfig \<Rightarrow> rat" where
  "bucket_cap rule = of_int (effectiveRateLimitBurst rule)"

definition bucket_rate :: "'m publicRateLimitRuleConfig \<Rightarrow> rat" where
  \<comment> \<open>tokens per millisecond, with the relative rounding error of the four operations\<close>
  "bucket_rate rule = of_int (rl_Limit rule) / of_int (rl_WindowMillis rule) * (1 + 4 * eps)"

definition bucket_slack :: "'m publicRateLimitRuleConfig \<Rightarrow> rat" where
  "bucket_slack rule = 3 * bucket_cap rule * eps"

lemma eps_bounds: "0 < eps" "eps < 1 / 1000" "(1 + eps) * (1 + eps) \<le> 1 + 3 * eps"
    "(1 + eps) * (1 + eps) * (1 + eps) \<le> 1 + 4 * eps"
  by (simp_all add: eps_def)

lemma bucket_cap_bounds:
  assumes "bucket_rule rule"
  shows "1 \<le> bucket_cap rule" "bucket_cap rule \<le> 2 ^ 53" "f_of_int (effectiveRateLimitBurst rule) = bucket_cap rule"
    "0 \<le> bucket_rate rule" "0 \<le> bucket_slack rule"
proof -
  show c: "1 \<le> bucket_cap rule" using assms by (simp add: bucket_rule_def bucket_cap_def)
  have "(of_int (effectiveRateLimitBurst rule) :: rat) \<le> of_int 9007199254740992"
    using assms by (simp only: of_int_le_iff bucket_rule_def)
  then show "bucket_cap rule \<le> 2 ^ 53" by (simp add: bucket_cap_def)
  show "f_of_int (effectiveRateLimitBurst rule) = bucket_cap rule"
    using assms by (simp add: bucket_rule_def bucket_cap_def)
  show "0 \<le> bucket_rate rule" "0 \<le> bucket_slack rule"
    using assms c eps_bounds(1) by (simp_all add: bucket_rule_def bucket_rate_def bucket_slack_def)
qed

lemma fround_upper: "pow2 (- 1022) \<le> x \<Longrightarrow> fround x \<le> x * (1 + eps)"
  using fround_relative [of x] unfolding abs_le_iff by (simp add: eps_def distrib_left right_diff_distrib)

lemma fround_lower: "pow2 (- 1022) \<le> x \<Longrightarrow> x * (1 - eps) \<le> fround x"
  using fround_relative [of x] unfolding abs_le_iff by (simp add: eps_def distrib_left right_diff_distrib)

lemma pow2_tiny: "pow2 (- 1022) \<le> pow2 (- 53)" "pow2 (- 1022) \<le> 1" "pow2 (- 1022) \<le> eps" "pow2 (- 53) = eps"
proof -
  show "pow2 (- 53) = eps" by (simp add: pow2_def eps_def)
  show "pow2 (- 1022) \<le> pow2 (- 53)" by (simp only: pow2_le_iff)
  then show "pow2 (- 1022) \<le> eps" using \<open>pow2 (- 53) = eps\<close> by simp
  then show "pow2 (- 1022) \<le> 1" using eps_bounds(2) by linarith
qed

lemma refill_bounds:
  assumes rule: "bucket_rule rule" and e: "1 \<le> e" "e \<le> 9007199254740992"
  shows "eps \<le> refill_amount rule e"
    and "refill_amount rule e \<le> of_int e * of_int (rl_Limit rule) / of_int (rl_WindowMillis rule) * ((1 + eps) * (1 + eps))"
proof -
  let ?l = "of_int (rl_Limit rule) :: rat" and ?w = "of_int (rl_WindowMillis rule) :: rat" and ?e = "of_int e :: rat"
  have nums: "1 \<le> ?e" "1 \<le> ?l" "1 \<le> ?w" using rule e by (simp_all add: bucket_rule_def)
  have "?w \<le> of_int 9007199254740992" using rule by (simp only: of_int_le_iff bucket_rule_def)
  then have w: "?w * eps \<le> 1" by (simp add: eps_def)
  have eq: "refill_amount rule e = fround (fround (?e * ?l) / ?w)"
    using rule e by (simp add: refill_amount_def f_div_def f_mul_def bucket_rule_def)
  have el: "1 \<le> ?e * ?l" using mult_mono [OF nums(1,2)] nums by simp
  let ?p = "fround (?e * ?l)"
  have "representable (of_int 1)" by (rule representable_of_int) simp
  then have "fround 1 = 1" by (simp add: fround_id)
  moreover have "fround 1 \<le> ?p" using el by (intro fround_mono) simp_all
  ultimately have p: "1 \<le> ?p" by simp
  have p': "?p \<le> ?e * ?l * (1 + eps)" using el pow2_tiny(2) by (intro fround_upper) linarith
  have "?w * eps \<le> ?p" using w p by linarith
  then have q: "eps \<le> ?p / ?w" using nums by (simp add: pos_le_divide_eq mult.commute)
  have "representable (pow2 (- 53))"
    unfolding representable_def by (intro exI [of _ 1] exI [of _ "- 53"]) simp
  then have "fround eps = eps" using fround_id pow2_tiny(4) by metis
  moreover have "fround eps \<le> fround (?p / ?w)" using q eps_bounds(1) by (intro fround_mono) simp_all
  ultimately show "eps \<le> refill_amount rule e" by (simp add: eq)
  have "fround (?p / ?w) \<le> ?p / ?w * (1 + eps)" using q pow2_tiny(3) by (intro fround_upper) linarith
  also have "\<dots> \<le> ?e * ?l * (1 + eps) / ?w * (1 + eps)"
    using p' nums eps_bounds(1) by (intro mult_right_mono divide_right_mono) simp_all
  finally show "refill_amount rule e \<le> ?e * ?l / ?w * ((1 + eps) * (1 + eps))"
    by (simp add: eq mult.assoc)
qed

definition token_inv :: "'m publicRateLimitRuleConfig \<Rightarrow> publicRateLimitKeyRuntime \<Rightarrow> bool" where
  "token_inv rule s \<longleftrightarrow> bucket_rule rule \<and> tokenInitialized s \<and> representable (tokens s) \<and>
     0 \<le> tokens s \<and> tokens s \<le> bucket_cap rule"

lemma representable_cap: "bucket_rule rule \<Longrightarrow> representable (bucket_cap rule)"
  unfolding bucket_cap_def by (rule representable_of_int) (simp add: bucket_rule_def)

lemma token_refill_props:
  assumes inv: "token_inv rule s" and t: "tokenLastRefill s \<le> t" "t - tokenLastRefill s \<le> 9007199254740992"
  defines "s1 \<equiv> token_refill s rule t"
  shows "token_inv rule s1" "tokenLastRefill s1 = t"
    "tokens s1 \<le> tokens s + (bucket_rate rule * of_int (t - tokenLastRefill s) + bucket_slack rule)"
proof -
  have rule: "bucket_rule rule" and i: "tokenInitialized s" using inv by (simp_all add: token_inv_def)
  note cap = bucket_cap_bounds [OF rule]
  let ?e = "t - tokenLastRefill s"
  have "token_inv rule s1 \<and> tokenLastRefill s1 = t \<and>
    tokens s1 \<le> tokens s + (bucket_rate rule * of_int ?e + bucket_slack rule)"
  proof (cases "?e = 0")
    case True
    then have "s1 = s" using i by (simp add: s1_def token_refill_def maxInt64_def)
    then show ?thesis using True inv t cap by simp
  next
    case False
    let ?q = "refill_amount rule ?e" and ?x = "tokens s + refill_amount rule ?e"
    have e: "1 \<le> ?e" using False t by simp
    have s1: "s1 = s\<lparr>tokens := min (bucket_cap rule) (fround ?x), tokenLastRefill := t\<rparr>"
      using i e cap(3) by (simp add: s1_def token_refill_def maxInt64_def Let_def f_add_def)
    note q = refill_bounds [OF rule e t(2)]
    have tk: "0 \<le> tokens s" "tokens s \<le> bucket_cap rule" using inv by (simp_all add: token_inv_def)
    have x: "pow2 (- 1022) \<le> ?x" using q(1) tk(1) pow2_tiny(3) by linarith
    have "0 \<le> fround ?x" using q(1) tk(1) eps_bounds(1) by (intro fround_nonneg) linarith
    then have "token_inv rule s1"
      using s1 inv cap(1) representable_cap [OF rule] by (auto simp: token_inv_def min_def)
    moreover have "fround ?x \<le> tokens s + (bucket_rate rule * of_int ?e + bucket_slack rule)"
    proof -
      let ?r = "of_int ?e * of_int (rl_Limit rule) / of_int (rl_WindowMillis rule) :: rat"
      have r: "0 \<le> ?r" using rule e by (simp add: bucket_rule_def)
      have "fround ?x \<le> ?x * (1 + eps)" by (rule fround_upper [OF x])
      also have "\<dots> = tokens s + tokens s * eps + ?q * (1 + eps)" by (simp add: algebra_simps)
      also have "\<dots> \<le> tokens s + bucket_cap rule * eps + ?r * ((1 + eps) * (1 + eps)) * (1 + eps)"
        using tk(2) q(2) eps_bounds(1) by (intro add_mono mult_right_mono) simp_all
      also have "\<dots> \<le> tokens s + bucket_slack rule + ?r * (1 + 4 * eps)"
      proof -
        have "bucket_cap rule * eps \<le> bucket_slack rule"
          using cap(1) eps_bounds(1) by (simp add: bucket_slack_def)
        moreover have "?r * ((1 + eps) * (1 + eps)) * (1 + eps) \<le> ?r * (1 + 4 * eps)"
          using mult_left_mono [OF eps_bounds(4) r] by (simp only: mult.assoc)
        ultimately show ?thesis by linarith
      qed
      also have "?r * (1 + 4 * eps) = bucket_rate rule * of_int ?e"
        by (simp add: bucket_rate_def mult_ac)
      finally show ?thesis by simp
    qed
    ultimately show ?thesis using s1 by (simp add: min_def)
  qed
  then show "token_inv rule s1" "tokenLastRefill s1 = t"
    "tokens s1 \<le> tokens s + (bucket_rate rule * of_int ?e + bucket_slack rule)" by auto
qed

interpretation tb: clocked "alg_step allowTokenBucket rule" "token_inv rule" tokens tokenLastRefill
  "bucket_rate rule" "bucket_slack rule" 9007199254740992
  for rule :: "'m publicRateLimitRuleConfig"
proof
  fix s s' :: publicRateLimitKeyRuntime and t ok
  assume inv: "token_inv rule s" and t: "tokenLastRefill s \<le> t \<and> t - tokenLastRefill s \<le> 9007199254740992"
    and st: "alg_step allowTokenBucket rule s t = (ok, s')"
  note r = token_refill_props [OF inv conjunct1 [OF t] conjunct2 [OF t]]
  have "representable (tokens (token_refill s rule t))" "tokens (token_refill s rule t) \<le> 2 ^ 53"
    using r(1) bucket_cap_bounds(2) [of rule] by (auto simp: token_inv_def)
  then have one: "1 \<le> tokens (token_refill s rule t) \<Longrightarrow>
      fround (tokens (token_refill s rule t) - 1) = tokens (token_refill s rule t) - 1"
    by (intro fround_minus_one)
  have "fround (tokens (token_refill s rule t) - 1) = tokens (token_refill s rule t) - 1 \<Longrightarrow>
      representable (tokens (token_refill s rule t) - 1)"
    using representable_fround by metis
  with one st r show "token_inv rule s'"
    by (auto simp: alg_step_def allowTokenBucket_def Let_def token_inv_def f_sub_def split: if_splits)
  show "tokens s' + (if ok then 1 else 0) \<le> tokens s + (bucket_rate rule * of_int (t - tokenLastRefill s) + bucket_slack rule)"
    using one st r(3) by (auto simp: alg_step_def allowTokenBucket_def Let_def f_sub_def split: if_splits)
next
  fix s s' :: publicRateLimitKeyRuntime and t ok
  assume "token_inv rule s" "tokenLastRefill s \<le> t" "t - tokenLastRefill s \<le> 9007199254740992"
    and st: "alg_step allowTokenBucket rule s t = (ok, s')"
  then show "tokenLastRefill s' = t"
    using token_refill_props(2) by (auto simp: alg_step_def allowTokenBucket_def Let_def split: if_splits)
qed (simp add: token_inv_def)

definition leaky_inv :: "'m publicRateLimitRuleConfig \<Rightarrow> publicRateLimitKeyRuntime \<Rightarrow> bool" where
  "leaky_inv rule s \<longleftrightarrow> bucket_rule rule \<and> leakyInitialized s \<and> representable (leakyLevel s) \<and>
     0 \<le> leakyLevel s \<and> leakyLevel s \<le> bucket_cap rule"

lemma fround_drop:
  assumes "representable y" "0 \<le> y" "y \<le> c" "1 \<le> c" "0 \<le> q"
  shows "max 0 (fround (y - q)) \<le> y" "y - q - c * eps \<le> max 0 (fround (y - q))"
proof -
  have y: "fround y = y" by (rule fround_id [OF assms(1)])
  have "fround (y - q) \<le> y"
  proof (cases "0 \<le> y - q")
    case True
    then have "fround (y - q) \<le> fround y" using assms(5) by (intro fround_mono) simp_all
    then show ?thesis using y by simp
  next
    case False
    then show ?thesis using fround_nonpos [of "y - q"] assms(2) by simp
  qed
  then show "max 0 (fround (y - q)) \<le> y" using assms(2) by simp
  show "y - q - c * eps \<le> max 0 (fround (y - q))"
  proof (cases "pow2 (- 1022) \<le> y - q")
    case True
    have "(y - q) * eps \<le> c * eps" using assms(3,5) eps_bounds(1) by (intro mult_right_mono) simp_all
    moreover have "(y - q) * (1 - eps) = (y - q) - (y - q) * eps" by (simp add: right_diff_distrib)
    ultimately show ?thesis using fround_lower [OF True] by linarith
  next
    case False
    have "1 * eps \<le> c * eps" using assms(4) eps_bounds(1) by (intro mult_right_mono) simp_all
    then have "y - q - c * eps \<le> 0" using False pow2_tiny(3) by linarith
    then show ?thesis by (simp add: max_def)
  qed
qed

lemma leaky_drain_props:
  assumes inv: "leaky_inv rule s" and t: "leakyLastDrain s \<le> t" "t - leakyLastDrain s \<le> 9007199254740992"
  defines "s1 \<equiv> leaky_drain s rule t"
  shows "leaky_inv rule s1 \<and> leakyLastDrain s1 = t \<and>
    leakyLevel s - bucket_rate rule * of_int (t - leakyLastDrain s) - bucket_cap rule * eps \<le> leakyLevel s1"
proof -
  have rule: "bucket_rule rule" and i: "leakyInitialized s" using inv by (simp_all add: leaky_inv_def)
  note cap = bucket_cap_bounds [OF rule]
  let ?e = "t - leakyLastDrain s"
  show ?thesis
  proof (cases "?e = 0")
    case True
    then have "s1 = s" using i by (simp add: s1_def leaky_drain_def maxInt64_def)
    then show ?thesis using True inv cap(1) eps_bounds(1) by simp
  next
    case False
    let ?q = "refill_amount rule ?e"
    have e: "1 \<le> ?e" using False t by simp
    have s1: "s1 = s\<lparr>leakyLevel := max 0 (fround (leakyLevel s - ?q)), leakyLastDrain := t\<rparr>"
      using i e by (simp add: s1_def leaky_drain_def maxInt64_def Let_def f_sub_def)
    note q = refill_bounds [OF rule e t(2)]
    have q0: "0 \<le> ?q" using q(1) eps_bounds(1) by linarith
    have lv: "representable (leakyLevel s)" "0 \<le> leakyLevel s" "leakyLevel s \<le> bucket_cap rule"
      using inv by (simp_all add: leaky_inv_def)
    note d = fround_drop [OF lv cap(1) q0]
    have "representable 0" using representable_of_int [of 0] by simp
    then have "leaky_inv rule s1"
      using s1 inv d(1) lv(3) by (auto simp: leaky_inv_def max_def split: if_splits)
    moreover have "?q \<le> bucket_rate rule * of_int ?e"
    proof -
      let ?r = "of_int ?e * of_int (rl_Limit rule) / of_int (rl_WindowMillis rule) :: rat"
      have r: "0 \<le> ?r" using rule e by (simp add: bucket_rule_def)
      have "?q \<le> ?r * ((1 + eps) * (1 + eps))" by (rule q(2))
      also have "\<dots> \<le> ?r * (1 + 4 * eps)"
        using eps_bounds(1,3) r by (intro mult_left_mono) linarith
      also have "\<dots> = bucket_rate rule * of_int ?e" by (simp add: bucket_rate_def mult_ac)
      finally show ?thesis .
    qed
    ultimately show ?thesis using s1 d(2) by simp
  qed
qed

lemma leaky_add_props:
  assumes inv: "leaky_inv rule s" and fits: "f_add (leakyLevel s) 1 \<le> bucket_cap rule"
  shows "leaky_inv rule (s\<lparr>leakyLevel := f_add (leakyLevel s) 1\<rparr>)"
    and "leakyLevel s + 1 - 2 * bucket_cap rule * eps \<le> f_add (leakyLevel s) 1"
proof -
  have lv: "0 \<le> leakyLevel s" "leakyLevel s \<le> bucket_cap rule" and rule: "bucket_rule rule"
    using inv by (simp_all add: leaky_inv_def)
  note cap = bucket_cap_bounds [OF rule]
  have "0 \<le> f_add (leakyLevel s) 1" unfolding f_add_def using lv by (intro fround_nonneg) simp
  then show "leaky_inv rule (s\<lparr>leakyLevel := f_add (leakyLevel s) 1\<rparr>)"
    using inv fits by (simp add: leaky_inv_def f_add_def)
  have "(leakyLevel s + 1) * eps \<le> (2 * bucket_cap rule) * eps"
    using lv cap(1) eps_bounds(1) by (intro mult_right_mono) simp_all
  moreover have "(leakyLevel s + 1) * (1 - eps) \<le> fround (leakyLevel s + 1)"
    using lv pow2_tiny(2) by (intro fround_lower) linarith
  ultimately show "leakyLevel s + 1 - 2 * bucket_cap rule * eps \<le> f_add (leakyLevel s) 1"
    by (simp add: f_add_def right_diff_distrib)
qed

interpretation lb: clocked "alg_step allowLeakyBucket rule" "leaky_inv rule" "\<lambda>s. bucket_cap rule - leakyLevel s"
  leakyLastDrain "bucket_rate rule" "bucket_slack rule" 9007199254740992
  for rule :: "'m publicRateLimitRuleConfig"
proof
  fix s s' :: publicRateLimitKeyRuntime and t ok
  assume inv: "leaky_inv rule s" and t: "leakyLastDrain s \<le> t \<and> t - leakyLastDrain s \<le> 9007199254740992"
    and st: "alg_step allowLeakyBucket rule s t = (ok, s')"
  note r = leaky_drain_props [OF inv conjunct1 [OF t] conjunct2 [OF t]]
  have rule: "bucket_rule rule" using inv by (simp add: leaky_inv_def)
  note cap = bucket_cap_bounds [OF rule]
  note a = leaky_add_props [OF conjunct1 [OF r]]
  show "leaky_inv rule s'"
    using st r a(1) cap(3) by (auto simp: alg_step_def allowLeakyBucket_def Let_def split: if_splits)
  have "0 \<le> bucket_cap rule * eps" using cap(1) eps_bounds(1) by simp
  then show "bucket_cap rule - leakyLevel s' + (if ok then 1 else 0)
      \<le> bucket_cap rule - leakyLevel s + (bucket_rate rule * of_int (t - leakyLastDrain s) + bucket_slack rule)"
    using st r a(2) cap(3)
    by (auto simp: alg_step_def allowLeakyBucket_def Let_def bucket_slack_def split: if_splits)
next
  fix s s' :: publicRateLimitKeyRuntime and t ok
  assume "leaky_inv rule s" "leakyLastDrain s \<le> t" "t - leakyLastDrain s \<le> 9007199254740992"
    and st: "alg_step allowLeakyBucket rule s t = (ok, s')"
  then show "leakyLastDrain s' = t"
    using leaky_drain_props by (auto simp: alg_step_def allowLeakyBucket_def Let_def split: if_splits)
qed (simp add: leaky_inv_def)

section \<open>The key tables\<close>

definition keys_wf :: "(string, publicRateLimitKeyRuntime) gomap \<Rightarrow> bool" where
  "keys_wf m \<longleftrightarrow> gm_wf m \<and> '''' \<notin> gm_keys m"

lemma evict_oldest_scan_key:
  assumes "old = '''' \<or> old \<in> gm_keys m"
  shows "evict_oldest_scan m ks old oldT = '''' \<or> evict_oldest_scan m ks old oldT \<in> gm_keys m"
  using assms
proof (induction ks arbitrary: old oldT)
  case (Cons k ks)
  show ?case
  proof (cases "map_of m k")
    case (Some s)
    then have "k \<in> gm_keys m" by (rule map_of_Some_key)
    with Some Cons.IH [of k] Cons.IH [of old] Cons.prems show ?thesis by auto
  qed (use Cons in simp)
qed simp

lemma evict_oldest_scan_found:
  assumes "old \<noteq> '''' \<or> (\<exists>k\<in>set ks. k \<noteq> '''' \<and> k \<in> gm_keys m)"
    and "\<forall>k\<in>set ks. k \<noteq> ''''"
  shows "evict_oldest_scan m ks old oldT \<noteq> ''''"
  using assms
  by (induction m ks old oldT rule: evict_oldest_scan.induct) (auto simp: map_of_eq_None_iff split: option.split)

lemma evict_oldest_scan_some:
  assumes "keys_wf m" "m \<noteq> []"
  shows "evict_oldest_scan m (range_keys ord m) '''' 0 \<noteq> ''''" "evict_oldest_scan m (range_keys ord m) '''' 0 \<in> gm_keys m"
proof -
  have e: "\<forall>k\<in>set (range_keys ord m). k \<noteq> ''''" using assms(1) unfolding keys_wf_def set_range_keys by metis
  obtain p where "p \<in> set m" using assms(2) by (cases m) auto
  then have "fst p \<in> set (range_keys ord m)" "fst p \<in> gm_keys m" by auto
  then show k: "evict_oldest_scan m (range_keys ord m) '''' 0 \<noteq> ''''"
    using e evict_oldest_scan_found [of "''''" "range_keys ord m" m 0] by blast
  then show "evict_oldest_scan m (range_keys ord m) '''' 0 \<in> gm_keys m" using evict_oldest_scan_key [of "''''" m "range_keys ord m" 0] by auto
qed

lemma evict_oldest_size:
  assumes "keys_wf m" "m \<noteq> []"
  shows "length (evictOldestRateLimitKey m ord) = length m - 1"
  using assms evict_oldest_scan_some [OF assms, of ord]
  by (simp add: evictOldestRateLimitKey_def Let_def keys_wf_def length_delete_key)

lemma key_room_cases: "key_room m ord = m \<or> (\<exists>k. key_room m ord = AList.delete k m)"
  by (auto simp: key_room_def evictOldestRateLimitKey_def Let_def)

lemma keys_wf_room [simp]: "keys_wf m \<Longrightarrow> keys_wf (key_room m ord)"
  by (auto simp: keys_wf_def key_room_def evictOldestRateLimitKey_def Let_def)

interpretation rk: bounded_store map_of "\<lambda>m. length m" "\<lambda>_. maxRateLimitKeysPerRule" keys_wf "\<lambda>_ _. False"
  "\<lambda>m ord now. (True, key_room m ord)" "\<lambda>m k v. AList.update k v m" "\<lambda>k. k \<noteq> ''''"
proof
  fix m m' :: "(string, publicRateLimitKeyRuntime) gomap" and ord :: "string list" and now :: gotime
  assume wf: "keys_wf m" and r: "(True, key_room m ord) = (True, m')"
    and le: "int (length m) \<le> maxRateLimitKeysPerRule"
  show "int (length m') < maxRateLimitKeysPerRule"
  proof (cases "int (length m) \<ge> maxRateLimitKeysPerRule")
    case True
    then have "m \<noteq> []" by (auto simp: maxRateLimitKeysPerRule_def)
    then show ?thesis using True r le wf evict_oldest_size [OF wf, of ord]
      by (auto simp: key_room_def maxRateLimitKeysPerRule_def)
  next
    case False
    then show ?thesis using r by (simp add: key_room_def)
  qed
next
  fix m m' :: "(string, publicRateLimitKeyRuntime) gomap" and ord :: "string list" and now ok
  assume wf: "keys_wf m" and r: "(True, key_room m ord) = (ok, m')"
  show "keys_wf m' \<and> maxRateLimitKeysPerRule = maxRateLimitKeysPerRule" using wf r by auto
  show "length m' \<le> length m" using r by (auto simp: key_room_def evictOldestRateLimitKey_def Let_def)
  show "map_of m' k = None \<or> map_of m' k = map_of m k" for k
    using r key_room_cases [of m ord] by auto
qed (auto simp: keys_wf_def length_update map_of_eq_None_iff)

definition limiter_wf :: "publicRateLimiter \<Rightarrow> bool" where
  "limiter_wf l \<longleftrightarrow> gm_wf (lim_rules l) \<and> (\<forall>i rt. map_of (lim_rules l) i = Some rt \<longrightarrow> rk.bounded (rt_keys rt))"

lemma rk_bounded_Nil [simp]: "rk.bounded []"
  unfolding rk.bounded_def by (simp add: keys_wf_def maxRateLimitKeysPerRule_def)

lemma limiter_wf_runtime: "limiter_wf l \<Longrightarrow> rk.bounded (rt_keys (rule_runtime l rule))"
  by (auto simp: limiter_wf_def rule_runtime_def split: option.split)

lemma limiter_wf_candidate:
  assumes "limiter_wf l" "key \<noteq> ''''" "candidate_step ord l rule key now = (r, l')"
  shows "limiter_wf l'"
proof -
  let ?rt = "rule_runtime l rule"
  have b: "rk.bounded (rt_keys ?rt)" by (rule limiter_wf_runtime [OF assms(1)])
  have "rk.bounded (AList.update key s (rt_keys ?rt))" if "map_of (rt_keys ?rt) key = Some s0" for s s0
    by (rule rk.bounded_put_known [OF b assms(2) that])
  moreover have "rk.bounded (AList.update key s (key_room (rt_keys ?rt) ord))" for s
    by (rule rk.bounded_insert [OF b refl assms(2)])
  ultimately show ?thesis
    using assms(1,3) by (auto simp: candidate_step_def Let_def limiter_wf_def split: prod.splits option.splits if_splits)
qed

lemma limiter_wf_loop:
  assumes "limiter_wf l" "\<forall>c\<in>set cs. snd c \<noteq> ''''"
  shows "limiter_wf (snd (candidate_loop ord i l cs now))"
  using assms
  by (induction ord i l cs now rule: candidate_loop.induct) (auto dest: limiter_wf_candidate split: prod.split)

lemma map_of_prune:
  "map_of (map (\<lambda>(i, rt). (i, f rt)) m) k = map_option f (map_of m k)"
  by (induction m) auto

lemma rk_bounded_filter: "rk.bounded m \<Longrightarrow> rk.bounded (filter P m)"
  unfolding rk.bounded_def keys_wf_def
  by (auto intro: order_trans [OF of_nat_mono [OF length_filter_le]])

lemma limiter_wf_prune: "limiter_wf l \<Longrightarrow> limiter_wf (rl_pruneLocked l now)"
  by (auto simp: limiter_wf_def rl_pruneLocked_def map_of_prune rk_bounded_filter gm_wf_def comp_def case_prod_beta)

lemma candidates_keys:
  assumes sha: "\<And>x. sha x \<noteq> ''''"
  shows "rl_candidates matchf sha rules protocol r = Inr cs \<Longrightarrow> list_all (\<lambda>c. snd c \<noteq> '''') cs"
proof (induction rules arbitrary: cs)
  case (Cons rule rules)
  then show ?case
    using sha by (auto simp: rateLimitKeyHash_def split: if_splits sum.splits bool.splits)
qed simp

lemma limiter_wf_evaluate:
  assumes "\<And>x. sha x \<noteq> ''''" "limiter_wf l"
  shows "limiter_wf (snd (rl_evaluate matchf sha ord l rules protocol r now))"
proof (cases "rl_candidates matchf sha rules protocol r")
  case (Inl d)
  with assms(2) show ?thesis by (simp add: rl_evaluate_def)
next
  case (Inr cs)
  have "\<forall>c\<in>set cs. snd c \<noteq> ''''" using candidates_keys [OF assms(1) Inr] by (simp add: list_all_iff)
  from limiter_wf_loop [OF limiter_wf_prune [OF assms(2)] this] Inr assms(2) show ?thesis
    by (cases cs) (simp_all add: rl_evaluate_def del: candidate_loop.simps)
qed

lemma keep_fold_wf:
  "limiter_wf l \<Longrightarrow> limiter_wf (l\<lparr>lim_rules := foldl (\<lambda>m (i, fp). case map_of m i of
     None \<Rightarrow> AList.update i \<lparr>rt_fingerprint = fp, rt_keys = []\<rparr> m | Some _ \<Rightarrow> m) (lim_rules l) keep\<rparr>)"
proof (induction keep arbitrary: l)
  case (Cons p keep)
  obtain i fp where p: "p = (i, fp)" by (cases p)
  let ?m = "case map_of (lim_rules l) i of
     None \<Rightarrow> AList.update i \<lparr>rt_fingerprint = fp, rt_keys = []\<rparr> (lim_rules l) | Some _ \<Rightarrow> lim_rules l"
  have "limiter_wf (l\<lparr>lim_rules := ?m\<rparr>)" using Cons.prems by (auto simp: limiter_wf_def split: option.split)
  from Cons.IH [OF this] p show ?case by simp
qed simp

lemma limiter_wf_reconcile: "limiter_wf l \<Longrightarrow> limiter_wf (rl_reconcile l snap)"
proof -
  assume l: "limiter_wf l"
  have "limiter_wf (l\<lparr>lim_rules := filter P (lim_rules l)\<rparr>)" for P
    using l by (auto simp: limiter_wf_def map_of_filter split: option.splits if_splits)
  from keep_fold_wf [OF this] show ?thesis by (simp add: rl_reconcile_def Let_def)
qed

text \<open>What a server does to its limiter: evaluate requests and reconcile with new rule lists.\<close>

inductive limiter_run :: "('m \<Rightarrow> string \<Rightarrow> http_request \<Rightarrow> string + bool) \<Rightarrow> (string \<Rightarrow> string) \<Rightarrow> publicRateLimiter \<Rightarrow> bool"
  for matchf sha where
  limiter_start: "limiter_run matchf sha newPublicRateLimiter"
| limiter_request: "limiter_run matchf sha l
    \<Longrightarrow> limiter_run matchf sha (snd (rl_evaluate matchf sha ord l rules protocol r now))"
| limiter_reload: "limiter_run matchf sha l \<Longrightarrow> limiter_run matchf sha (rl_reconcile l (snap :: 'm publicRateLimitRuleConfig list option))"

lemma limiter_run_wf:
  assumes "limiter_run matchf sha l" "\<And>x. sha x \<noteq> ''''"
  shows "limiter_wf l"
  using assms(1)
  by induction (auto simp: limiter_wf_evaluate [OF assms(2)] limiter_wf_reconcile, simp add: limiter_wf_def newPublicRateLimiter_def)

section \<open>The whole limiter enforces a fixed window\<close>

text \<open>The requests that reach one fixed-window rule, with the keys and instants of those that were
  admitted (latest first). Idle keys are pruned on the way; the table does not overflow.\<close>

inductive fixed_history :: "('m \<Rightarrow> string \<Rightarrow> http_request \<Rightarrow> string + bool) \<Rightarrow> (string \<Rightarrow> string)
    \<Rightarrow> 'm publicRateLimitRuleConfig \<Rightarrow> publicRateLimiter \<Rightarrow> (string \<times> gotime) list \<Rightarrow> gotime \<Rightarrow> bool"
  for matchf sha rule where
  fh_start: "unix_epoch \<le> t \<Longrightarrow> fixed_history matchf sha rule newPublicRateLimiter [] t"
| fh_request: "fixed_history matchf sha rule l H t \<Longrightarrow> t \<le> now
    \<Longrightarrow> matchf (rl_Match rule) protocol r = Inr True
    \<Longrightarrow> int (length (rt_keys (rule_runtime l rule))) < maxRateLimitKeysPerRule
    \<Longrightarrow> rl_evaluate matchf sha ord l [rule] protocol r now = (d, l')
    \<Longrightarrow> fixed_history matchf sha rule l'
          (if d = None then (rateLimitKeyHash sha (keyValues rule protocol r), now) # H else H) now"

definition hits_of :: "string \<Rightarrow> (string \<times> gotime) list \<Rightarrow> gotime list" where
  "hits_of k H = map snd (filter (\<lambda>p. fst p = k) H)"

definition window_index :: "int \<Rightarrow> gotime \<Rightarrow> int" where
  "window_index w t = unix_milli t div w"

definition hits_in_window :: "int \<Rightarrow> int \<Rightarrow> gotime list \<Rightarrow> int" where
  "hits_in_window w j A = int (length (filter (\<lambda>a. window_index w a = j) A))"

definition key_inv :: "int \<Rightarrow> int \<Rightarrow> publicRateLimitKeyRuntime option \<Rightarrow> gotime list \<Rightarrow> gotime \<Rightarrow> bool" where
  "key_inv w limit st A t \<longleftrightarrow> (\<forall>j. hits_in_window w j A \<le> limit) \<and>
     (case st of
        None \<Rightarrow> (\<forall>a\<in>set A. window_index w a < window_index w t)
      | Some s \<Rightarrow> unix_epoch \<le> lastSeenAt s \<and> lastSeenAt s \<le> t \<and> (\<forall>a\<in>set A. a \<le> lastSeenAt s) \<and>
          (\<exists>i. fixedWindowStart s = i * w \<and> i \<le> window_index w t \<and> (\<forall>a\<in>set A. window_index w a \<le> i) \<and>
             fixedCount s = hits_in_window w i A))"

lemma window_index_mono: "0 < w \<Longrightarrow> s \<le> t \<Longrightarrow> window_index w s \<le> window_index w t"
  unfolding window_index_def by (intro zdiv_mono1 unix_milli_mono)

lemma window_index_nonneg: "0 < w \<Longrightarrow> unix_epoch \<le> t \<Longrightarrow> 0 \<le> window_index w t"
  by (simp add: window_index_def unix_milli_def pos_imp_zdiv_nonneg_iff)

lemma hits_in_window_zero: "(\<And>a. a \<in> set A \<Longrightarrow> window_index w a \<noteq> j) \<Longrightarrow> hits_in_window w j A = 0"
  by (auto simp: hits_in_window_def filter_empty_conv)

lemma idle_new_window:
  assumes "0 < w" "w \<le> 900000" "unix_epoch \<le> seen" "idle_key now s" "lastSeenAt s = seen"
  shows "window_index w seen < window_index w now"
proof -
  have "\<not> time_is_zero seen" using assms(3) by (auto simp: time_is_zero_def unix_epoch_def)
  then have "900000 * 1000000 < now - seen"
    using assms(4,5) time_sub_gt_iff [of "900000 * 1000000" now seen]
    by (auto simp: idle_key_def rateLimitIdleStateTTL_def min_int64_def max_int64_def)
  then have "(seen - unix_epoch + 900000 * 1000000) div 1000000 \<le> (now - unix_epoch) div 1000000"
    by (intro zdiv_mono1) simp_all
  then have "unix_milli seen + w \<le> unix_milli now" using assms(2) by (simp add: unix_milli_def)
  then have "(unix_milli seen + w) div w \<le> unix_milli now div w" using assms(1) by (intro zdiv_mono1)
  then show ?thesis using assms(1) by (simp add: window_index_def)
qed

lemma key_inv_later: "0 < w \<Longrightarrow> key_inv w limit st A t \<Longrightarrow> t \<le> now \<Longrightarrow> key_inv w limit st A now"
  using window_index_mono [of w t now] by (fastforce simp: key_inv_def split: option.splits)

lemma key_inv_pruned:
  assumes "0 < w" "w \<le> 900000" "key_inv w limit (Some s) A t" "idle_key now s"
  shows "key_inv w limit None A now"
proof -
  have "window_index w (lastSeenAt s) < window_index w now"
    using assms idle_new_window by (auto simp: key_inv_def)
  moreover have "window_index w a \<le> window_index w (lastSeenAt s)" if "a \<in> set A" for a
    using assms(1,3) that by (intro window_index_mono) (auto simp: key_inv_def)
  ultimately show ?thesis using assms(3) by (fastforce simp: key_inv_def)
qed

lemma hits_in_window_Cons:
  "hits_in_window w j (a # A) = (if window_index w a = j then 1 else 0) + hits_in_window w j A"
  by (simp add: hits_in_window_def)

lemma key_inv_step:
  assumes rule: "rule_ok rule" and now: "unix_epoch \<le> now"
    and inv: "key_inv (rl_WindowMillis rule) (rl_Limit rule) st A now"
    and st: "allowFixedWindow ((case st of None \<Rightarrow> zeroKeyRuntime | Some s \<Rightarrow> s)\<lparr>lastSeenAt := now\<rparr>) rule (unix_milli now) = (r, s')"
  shows "key_inv (rl_WindowMillis rule) (rl_Limit rule) (Some s') (if allowed r then now # A else A) now"
proof -
  let ?w = "rl_WindowMillis rule" and ?k = "window_index (rl_WindowMillis rule) now"
  let ?s = "(case st of None \<Rightarrow> zeroKeyRuntime | Some s \<Rightarrow> s)\<lparr>lastSeenAt := now\<rparr>"
  have w: "0 < ?w" using rule by (simp add: rule_ok_def)
  have t: "0 \<le> unix_milli now" using now by (simp add: unix_milli_def)
  have step: "alg_step allowFixedWindow rule ?s (unix_milli now) = (allowed r, s')"
    using st by (simp add: alg_step_def)
  note f = fixed_step [OF rule t step, folded window_index_def]
  have last: "lastSeenAt s' = now"
    using st by (auto simp: allowFixedWindow_def Let_def split: if_splits)
  have past: "a \<le> now" "window_index ?w a \<le> ?k" if "a \<in> set A" for a
  proof -
    show "a \<le> now"
    proof (cases st)
      case None
      then have "window_index ?w a < ?k" using inv that by (simp add: key_inv_def)
      then show ?thesis using window_index_mono [OF w, of now a] by linarith
    qed (use inv that in \<open>auto simp: key_inv_def\<close>)
    then show "window_index ?w a \<le> ?k" by (rule window_index_mono [OF w])
  qed
  have count: "(if fixedWindowStart ?s = ?k * ?w then fixedCount ?s else 0) = hits_in_window ?w ?k A"
  proof (cases st)
    case None
    then have "hits_in_window ?w ?k A = 0" using inv by (intro hits_in_window_zero) (auto simp: key_inv_def)
    with None show ?thesis by (simp add: zeroKeyRuntime_def)
  next
    case (Some s)
    then obtain i where i: "fixedWindowStart s = i * ?w" "i \<le> ?k" "\<forall>a\<in>set A. window_index ?w a \<le> i"
      "fixedCount s = hits_in_window ?w i A" using inv by (auto simp: key_inv_def)
    show ?thesis
    proof (cases "i = ?k")
      case False
      then have "hits_in_window ?w ?k A = 0" using i(2,3) by (intro hits_in_window_zero) fastforce
      with False Some i(1) w show ?thesis by simp
    qed (use Some i in simp)
  qed
  let ?A = "if allowed r then now # A else A"
  have c: "fixedCount s' = hits_in_window ?w ?k ?A" "allowed r \<longleftrightarrow> hits_in_window ?w ?k A < rl_Limit rule"
    using f count by (auto simp: hits_in_window_Cons)
  have bound: "hits_in_window ?w j ?A \<le> rl_Limit rule" for j
    using inv c(2) by (auto simp: key_inv_def hits_in_window_Cons)
  show ?thesis
    unfolding key_inv_def using bound last now f(1) c(1) past
    by (auto intro!: exI [of _ ?k])
qed

abbreviation rule_keys :: "publicRateLimiter \<Rightarrow> 'm publicRateLimitRuleConfig \<Rightarrow> (string, publicRateLimitKeyRuntime) gomap" where
  "rule_keys l rule \<equiv> rt_keys (rule_runtime l rule)"

lemma rule_keys_prune:
  "rule_keys (rl_pruneLocked l now) rule = rule_keys l rule \<or>
   rule_keys (rl_pruneLocked l now) rule = filter (\<lambda>p. \<not> idle_key now (snd p)) (rule_keys l rule)"
  by (auto simp: rl_pruneLocked_def rule_runtime_def map_of_prune split: option.split)

lemma key_inv_prune:
  assumes w: "0 < w" "w \<le> 900000" and wf: "limiter_wf l" and le: "t \<le> now"
    and inv: "key_inv w limit (map_of (rule_keys l rule) k) A t"
  shows "key_inv w limit (map_of (rule_keys (rl_pruneLocked l now) rule) k) A now"
proof (cases "rule_keys (rl_pruneLocked l now) rule = rule_keys l rule")
  case True
  then show ?thesis using key_inv_later [OF w(1) inv le] by simp
next
  case False
  have "gm_wf (rule_keys l rule)"
    using limiter_wf_runtime [OF wf, of rule] by (simp add: rk.bounded_def keys_wf_def)
  with False have "map_of (rule_keys (rl_pruneLocked l now) rule) k =
      (case map_of (rule_keys l rule) k of None \<Rightarrow> None | Some s \<Rightarrow> if idle_key now s then None else Some s)"
    using rule_keys_prune [of l now rule] by (auto simp: map_of_filter split: option.split)
  then show ?thesis
    using inv key_inv_later [OF w(1) inv le] key_inv_pruned [OF w, of limit _ A t now]
    by (auto split: option.splits if_splits)
qed

lemma length_rule_keys_prune: "length (rule_keys (rl_pruneLocked l now) rule) \<le> length (rule_keys l rule)"
  using rule_keys_prune [of l now rule] by (auto intro: length_filter_le)

lemma candidate_step_keys:
  assumes "candidate_step ord l rule key now = (r, l')" "int (length (rule_keys l rule)) < maxRateLimitKeysPerRule"
    "rl_Algorithm rule = ''fixed_window''"
  shows "\<exists>s'. allowFixedWindow ((case map_of (rule_keys l rule) key of None \<Rightarrow> zeroKeyRuntime | Some s \<Rightarrow> s)\<lparr>lastSeenAt := now\<rparr>)
      rule (unix_milli now) = (r, s') \<and> map_of (rule_keys l' rule) = (map_of (rule_keys l rule))(key \<mapsto> s')"
proof -
  have fp: "rt_fingerprint (rule_runtime l rule) = rl_Fingerprint rule"
    by (simp add: rule_runtime_def split: option.split)
  have room: "key_room (rule_keys l rule) ord = rule_keys l rule" using assms(2) by (simp add: key_room_def)
  show ?thesis
    using assms(1,3) room fp
    by (auto simp: candidate_step_def allow_def Let_def rule_runtime_def [of l'] split: option.splits prod.splits)
qed

lemma evaluate_single:
  assumes "rl_Enabled rule" "matchf (rl_Match rule) protocol r = Inr True"
    and "rl_evaluate matchf sha ord l [rule] protocol r now = (d, l')"
  obtains res where "candidate_step (ord 0) (rl_pruneLocked l now) rule (rateLimitKeyHash sha (keyValues rule protocol r)) now = (res, l')"
    "d = None \<longleftrightarrow> allowed res"
  using assms by (auto simp: rl_evaluate_def split: prod.splits if_splits)

lemma hits_of_Cons: "hits_of k ((k', t) # H) = (if k' = k then t # hits_of k H else hits_of k H)"
  by (simp add: hits_of_def)

lemma fixed_history_inv:
  assumes rule: "rule_ok rule" "rl_WindowMillis rule \<le> 900000" "rl_Algorithm rule = ''fixed_window''" "rl_Enabled rule"
    and sha: "\<And>x. sha x \<noteq> ''''" and "fixed_history matchf sha rule l H t"
  shows "limiter_wf l \<and> unix_epoch \<le> t \<and>
    (\<forall>k. key_inv (rl_WindowMillis rule) (rl_Limit rule) (map_of (rule_keys l rule) k) (hits_of k H) t)"
  using assms(6)
proof induction
  case (fh_start t)
  then show ?case
    using rule(1) by (auto simp: newPublicRateLimiter_def limiter_wf_def rule_runtime_def key_inv_def hits_of_def
        hits_in_window_def rule_ok_def)
next
  case (fh_request l H t now protocol r ord d l')
  let ?w = "rl_WindowMillis rule" and ?k = "rateLimitKeyHash sha (keyValues rule protocol r)"
  let ?l = "rl_pruneLocked l now"
  obtain res where res: "candidate_step (ord 0) ?l rule ?k now = (res, l')" "d = None \<longleftrightarrow> allowed res"
    using evaluate_single [where ord = ord, OF rule(4) fh_request.hyps(3) fh_request.hyps(5)] .
  have wf: "limiter_wf ?l" using fh_request.IH limiter_wf_prune by blast
  have room: "int (length (rule_keys ?l rule)) < maxRateLimitKeysPerRule"
    using length_rule_keys_prune [of l now rule] fh_request.hyps(4) by linarith
  have now: "unix_epoch \<le> now" using fh_request.IH fh_request.hyps(2) by simp
  have inv: "key_inv ?w (rl_Limit rule) (map_of (rule_keys ?l rule) k) (hits_of k H) now" for k
    using fh_request.IH fh_request.hyps(2) rule(1,2)
    by (intro key_inv_prune [where t = t]) (auto simp: rule_ok_def)
  obtain s' where s': "allowFixedWindow ((case map_of (rule_keys ?l rule) ?k of None \<Rightarrow> zeroKeyRuntime | Some s \<Rightarrow> s)\<lparr>lastSeenAt := now\<rparr>)
      rule (unix_milli now) = (res, s')" "map_of (rule_keys l' rule) = (map_of (rule_keys ?l rule))(?k \<mapsto> s')"
    using candidate_step_keys [OF res(1) room rule(3)] by blast
  have "key_inv ?w (rl_Limit rule) (map_of (rule_keys l' rule) k)
      (hits_of k (if d = None then (?k, now) # H else H)) now" for k
    using key_inv_step [OF rule(1) now inv s'(1)] inv [of k] s'(2) res(2) by (auto simp: hits_of_Cons)
  moreover have "?k \<noteq> ''''" using sha by (simp add: rateLimitKeyHash_def)
  then have "limiter_wf l'" by (rule limiter_wf_candidate [OF wf _ res(1)])
  ultimately show ?case using now by blast
qed

section \<open>Properties\<close>

definition example_rule :: "string \<Rightarrow> int \<Rightarrow> int \<Rightarrow> unit publicRateLimitRuleConfig" where
  "example_rule alg limit win =
     \<lparr>rl_ID = 1, rl_Name = ''r'', rl_Priority = 0, rl_Enabled = True, rl_Algorithm = alg, rl_Limit = limit,
      rl_WindowMillis = win, rl_Burst = 0, rl_Match = (), rl_KeyParts = [], rl_ResponseStatusCode = 429,
      rl_ResponseBody = '''', rl_ResponseBodyMode = ''inline'', rl_ResponseTemplateID = 0, rl_ResponseContentType = '''',
      rl_ResponseHeaders = [], rl_CreatedAt = 0, rl_UpdatedAt = 0, rl_Fingerprint = ''fp''\<rparr>"

definition example_request :: http_request where
  "example_request = \<lparr>rq_RemoteAddr = ''10.0.0.1:99'', rq_Identity = None, rq_Host = ''h'', rq_Method = ''GET'',
     rq_Path = ''/'', rq_Header = (\<lambda>_. ''''), rq_Cookie = (\<lambda>_. None), rq_Query = (\<lambda>_. '''')\<rparr>"



text \<open>C6: the sliding window never admits more than \<open>limit\<close> requests in any interval of the window's
  length, wherever the interval starts, for requests arriving at non-decreasing times.\<close>
theorem allowSlidingWindow_limit:
  assumes "1 \<le> rl_Limit rule" "1 \<le> rl_WindowMillis rule" "sorted ts"
  shows "int (length (filter (\<lambda>t. T - rl_WindowMillis rule < t \<and> t \<le> T)
    (admitted (alg_step allowSlidingWindow rule) zeroKeyRuntime ts))) \<le> rl_Limit rule"
proof -
  let ?c = "(case ts of [] \<Rightarrow> 0 | t # _ \<Rightarrow> t) - rl_WindowMillis rule"
  have "list_all (\<lambda>t. ?c \<le> t - rl_WindowMillis rule) ts"
    using assms(3) by (cases ts) (auto simp: list_all_iff)
  from sliding_window_run [where A = "[]", OF _ _ _ this] assms show ?thesis
    by (simp add: rule_ok_def zeroKeyRuntime_def hits_in_def)
qed

theorem allowSlidingWindow_limit_witness:
  "admitted (alg_step allowSlidingWindow (example_rule ''sliding_window'' 2 1000)) zeroKeyRuntime [0, 10, 20, 1005, 1009] = [0, 10, 1005] \<and>
   int (length (filter (\<lambda>t. 1009 - 1000 < t \<and> t \<le> 1009) [0, 10, 1005 :: int])) \<le> 2"
proof -
  have a: "admitted (alg_step allowSlidingWindow (example_rule ''sliding_window'' 2 1000)) zeroKeyRuntime [0, 10, 20, 1005, 1009] = [0, 10, 1005]"
    by code_simp
  have "int (length (filter (\<lambda>t. 1009 - rl_WindowMillis (example_rule ''sliding_window'' 2 1000) < t \<and> t \<le> 1009)
    (admitted (alg_step allowSlidingWindow (example_rule ''sliding_window'' 2 1000)) zeroKeyRuntime [0, 10, 20, 1005, 1009])))
      \<le> rl_Limit (example_rule ''sliding_window'' 2 1000)"
    by (rule allowSlidingWindow_limit) (simp_all add: example_rule_def)
  then show ?thesis unfolding a by (simp add: example_rule_def)
qed

lemma token_fresh:
  "bucket_rule rule \<Longrightarrow> admitted (alg_step allowTokenBucket rule) zeroKeyRuntime (t # ts) =
    admitted (alg_step allowTokenBucket rule)
      (zeroKeyRuntime\<lparr>tokens := bucket_cap rule, tokenLastRefill := t, tokenInitialized := True\<rparr>) (t # ts)"
  by (simp add: alg_step_def allowTokenBucket_def token_refill_def zeroKeyRuntime_def bucket_cap_bounds(3))

lemma leaky_fresh:
  "admitted (alg_step allowLeakyBucket rule) zeroKeyRuntime (t # ts) =
    admitted (alg_step allowLeakyBucket rule) (zeroKeyRuntime\<lparr>leakyLastDrain := t, leakyInitialized := True\<rparr>) (t # ts)"
  by (simp add: alg_step_def allowLeakyBucket_def leaky_drain_def zeroKeyRuntime_def)

text \<open>C5: the token bucket. Of any requests at non-decreasing times on one key, at most the burst
  capacity plus the configured rate times the elapsed time is admitted, up to the accumulated
  rounding error of the \<open>float64\<close> arithmetic (relative \<open>2^-51\<close> on the refill and \<open>3\<close> units of \<open>2^-53\<close> of
  the capacity per request).\<close>
theorem allowTokenBucket_rate:
  assumes "bucket_rule rule" "sorted (t # ts)" "last (t # ts) - t \<le> 9007199254740992"
  shows "of_nat (length (admitted (alg_step allowTokenBucket rule) zeroKeyRuntime (t # ts)))
    \<le> of_int (effectiveRateLimitBurst rule)
      + of_int (rl_Limit rule) / of_int (rl_WindowMillis rule) * (1 + 1 / 2251799813685248) * of_int (last (t # ts) - t)
      + (3 * of_int (effectiveRateLimitBurst rule) / 9007199254740992 * of_nat (length (t # ts)) :: rat)"
proof -
  let ?s = "zeroKeyRuntime\<lparr>tokens := bucket_cap rule, tokenLastRefill := t, tokenInitialized := True\<rparr>"
  have "token_inv rule ?s"
    using assms(1) representable_cap bucket_cap_bounds(1) [of rule] by (simp add: token_inv_def)
  from tb.rate_bound [OF this, of "t # ts"] assms(2,3) show ?thesis
    unfolding token_fresh [OF assms(1)] by (simp add: bucket_rate_def bucket_slack_def bucket_cap_def eps_def)
qed

theorem allowTokenBucket_rate_witness:
  "bucket_rule (example_rule ''token_bucket'' 2 1000) \<and>
   of_nat (length (admitted (alg_step allowTokenBucket (example_rule ''token_bucket'' 2 1000)) zeroKeyRuntime [0, 0, 0, 500]))
     \<le> (2 + 2 / 1000 * (1 + 1 / 2251799813685248) * 500 + 3 * 2 / 9007199254740992 * 4 :: rat)"
  using allowTokenBucket_rate [of "example_rule ''token_bucket'' 2 1000" 0 "[0, 0, 500]"]
  by (simp add: bucket_rule_def example_rule_def effectiveRateLimitBurst_def)

text \<open>The leaky bucket obeys the same bound: capacity plus drain rate times elapsed time, up to
  the same rounding allowance.\<close>
theorem allowLeakyBucket_rate:
  assumes "bucket_rule rule" "sorted (t # ts)" "last (t # ts) - t \<le> 9007199254740992"
  shows "of_nat (length (admitted (alg_step allowLeakyBucket rule) zeroKeyRuntime (t # ts)))
    \<le> of_int (effectiveRateLimitBurst rule)
      + of_int (rl_Limit rule) / of_int (rl_WindowMillis rule) * (1 + 1 / 2251799813685248) * of_int (last (t # ts) - t)
      + (3 * of_int (effectiveRateLimitBurst rule) / 9007199254740992 * of_nat (length (t # ts)) :: rat)"
proof -
  let ?s = "zeroKeyRuntime\<lparr>leakyLastDrain := t, leakyInitialized := True\<rparr>"
  have "representable 0" using representable_of_int [of 0] by simp
  then have "leaky_inv rule ?s"
    using assms(1) bucket_cap_bounds(1) [of rule] by (simp add: leaky_inv_def zeroKeyRuntime_def)
  from lb.rate_bound [OF this, of "t # ts"] assms(2,3) show ?thesis
    unfolding leaky_fresh by (simp add: bucket_rate_def bucket_slack_def bucket_cap_def eps_def zeroKeyRuntime_def)
qed

theorem allowLeakyBucket_rate_witness:
  "bucket_rule (example_rule ''leaky_bucket'' 2 1000) \<and>
   of_nat (length (admitted (alg_step allowLeakyBucket (example_rule ''leaky_bucket'' 2 1000)) zeroKeyRuntime [0, 0, 0, 500]))
     \<le> (2 + 2 / 1000 * (1 + 1 / 2251799813685248) * 500 + 3 * 2 / 9007199254740992 * 4 :: rat)"
  using allowLeakyBucket_rate [of "example_rule ''leaky_bucket'' 2 1000" 0 "[0, 0, 500]"]
  by (simp add: bucket_rule_def example_rule_def effectiveRateLimitBurst_def)

definition window_state :: "'m publicRateLimitRuleConfig \<Rightarrow> int \<Rightarrow> publicRateLimitKeyRuntime \<Rightarrow> bool" where
  \<comment> \<open>what holds of a key state after requests up to \<open>t\<close>\<close>
  "window_state rule t s \<longleftrightarrow> sorted (slidingHits s) \<and> (\<forall>h\<in>set (slidingHits s). h \<le> t) \<and>
     int (length (slidingHits s)) \<le> rl_Limit rule"

lemma window_state_step:
  assumes "rule_ok rule" "window_state rule t s" "t \<le> t'"
    and "alg = allowFixedWindow \<or> alg = allowSlidingWindow" "alg_step alg rule s t' = (ok, s')"
  shows "window_state rule t' s'"
  using assms(4)
proof
  assume "alg = allowFixedWindow"
  then have "slidingHits s' = slidingHits s"
    using assms(5) by (auto simp: alg_step_def allowFixedWindow_def Let_def split: if_splits)
  then show ?thesis using assms(2,3) by (fastforce simp: window_state_def)
next
  assume "alg = allowSlidingWindow"
  then have st: "alg_step allowSlidingWindow rule s t' = (ok, s')" using assms(5) by simp
  let ?h = "dropWhile (\<lambda>h. h \<le> t' - rl_WindowMillis rule) (slidingHits s)"
  have h: "sorted ?h" "\<forall>x\<in>set ?h. x \<le> t'" "length ?h \<le> length (slidingHits s)"
    using assms(2,3) by (auto simp: window_state_def sorted_dropWhile length_dropWhile_le dest!: set_dropWhileD)
  then show ?thesis using sliding_step [OF st] assms(1,2)
    by (auto simp: window_state_def sorted_append rule_ok_def)
qed

lemma window_state_run:
  assumes "rule_ok rule" "alg = allowFixedWindow \<or> alg = allowSlidingWindow"
  shows "window_state rule t s \<Longrightarrow> sorted (t # ts) \<Longrightarrow> window_state rule (last (t # ts)) (snd (run_steps (alg_step alg rule) s ts))"
proof (induction ts arbitrary: s t)
  case (Cons t' ts)
  obtain ok s' where st: "alg_step alg rule s t' = (ok, s')" by (cases "alg_step alg rule s t'")
  have "window_state rule t' s'"
    by (rule window_state_step [OF assms(1) Cons.prems(1) _ assms(2) st]) (use Cons.prems(2) in simp)
  with Cons.IH [of t' s'] Cons.prems(2) st show ?case
    by (cases "run_steps (alg_step alg rule) s' ts") auto
qed simp

lemma millis_exact:
  assumes "1 \<le> d" "d \<le> 86400000"
  shows "millisDuration d = d * 1000000"
  using assms by (simp add: millisDuration_def in_i64_def min_int64_def max_int64_def)

lemma retry_fixed:
  assumes rule: "rule_ok rule" "rl_WindowMillis rule \<le> 86400000" and t: "0 \<le> t"
    and deny: "allowFixedWindow s rule t = (r, s')" "\<not> allowed r"
  shows "\<exists>d. 1 \<le> d \<and> d \<le> rl_WindowMillis rule \<and> res_retryAfter r = d * 1000000 \<and>
    allowed (fst (allowFixedWindow s' rule (t + d))) \<and>
    (\<forall>x. 0 \<le> x \<longrightarrow> x < d \<longrightarrow> \<not> allowed (fst (allowFixedWindow s' rule (t + x))))"
proof -
  let ?w = "rl_WindowMillis rule" and ?k = "t div rl_WindowMillis rule"
  let ?d = "?k * ?w + ?w - t"
  have w: "0 < ?w" using rule by (simp add: rule_ok_def)
  have m: "t = ?k * ?w + t mod ?w" "0 \<le> t mod ?w" "t mod ?w < ?w" using w by simp_all
  then have d: "1 \<le> ?d" "?d \<le> ?w" by linarith+
  have s': "fixedWindowStart s' = ?k * ?w" "fixedCount s' \<ge> rl_Limit rule" "res_retryAfter r = millisDuration ?d"
    using deny t w by (auto simp: allowFixedWindow_def Let_def split: if_splits)
  have next_w: "(t + ?d) div ?w = ?k + 1" using w by (simp flip: distrib_right)
  have "allowed (fst (allowFixedWindow s' rule (t + ?d)))"
    using s'(1) next_w w t d rule by (auto simp: allowFixedWindow_def Let_def rule_ok_def)
  moreover have "\<not> allowed (fst (allowFixedWindow s' rule (t + x)))" if "0 \<le> x" "x < ?d" for x
  proof -
    have "t + x = ?w * ?k + (t mod ?w + x)" "0 \<le> t mod ?w + x" "t mod ?w + x < ?w"
      unfolding mult.commute [of ?w ?k] using that m by linarith+
    then have "(t + x) div ?w = ?k" by (rule int_div_pos_eq)
    then show ?thesis using s'(1,2) that t w by (auto simp: allowFixedWindow_def Let_def)
  qed
  ultimately show ?thesis using d s'(3) millis_exact [OF d(1)] rule(2) by (intro exI [of _ ?d]) auto
qed

lemma retry_sliding:
  assumes rule: "rule_ok rule" "rl_WindowMillis rule \<le> 86400000" and inv: "window_state rule t s"
    and deny: "allowSlidingWindow s rule t = (r, s')" "\<not> allowed r"
  shows "\<exists>d. 1 \<le> d \<and> d \<le> rl_WindowMillis rule \<and> res_retryAfter r = d * 1000000 \<and>
    allowed (fst (allowSlidingWindow s' rule (t + d))) \<and>
    (\<forall>x. 0 \<le> x \<longrightarrow> x < d \<longrightarrow> \<not> allowed (fst (allowSlidingWindow s' rule (t + x))))"
proof -
  let ?w = "rl_WindowMillis rule"
  let ?h = "dropWhile (\<lambda>h. h \<le> t - ?w) (slidingHits s)"
  have full: "int (length ?h) \<ge> rl_Limit rule" and s': "slidingHits s' = ?h"
    and r: "res_retryAfter r = millisDuration (?h ! 0 + ?w - t)"
    using deny by (auto simp: allowSlidingWindow_def Let_def split: if_splits)
  then obtain a hs where h: "?h = a # hs" using rule(1) by (cases ?h) (auto simp: rule_ok_def)
  have len: "length ?h \<le> length (slidingHits s)" by (rule length_dropWhile_le)
  have srt: "sorted (a # hs)" using inv h by (metis sorted_dropWhile window_state_def)
  have a: "t - ?w < a" "a \<le> t"
    using h hd_dropWhile [of "\<lambda>h. h \<le> t - ?w" "slidingHits s"] inv
    by (auto simp: window_state_def) (metis list.set_intros(1) set_dropWhileD)
  let ?d = "a + ?w - t"
  have d: "1 \<le> ?d" "?d \<le> ?w" using a by auto
  have small: "int (length (a # hs)) \<le> rl_Limit rule" using inv len h by (simp add: window_state_def)
  have "length (dropWhile (\<lambda>x. x \<le> a) hs) \<le> length hs" by (rule length_dropWhile_le)
  then have "allowed (fst (allowSlidingWindow s' rule (t + ?d)))"
    using small s' h by (simp add: allowSlidingWindow_def Let_def)
  moreover have "\<not> allowed (fst (allowSlidingWindow s' rule (t + x)))" if "0 \<le> x" "x < ?d" for x
    using that full s' h by (simp add: allowSlidingWindow_def Let_def)
  ultimately show ?thesis using d r h millis_exact [OF d(1)] rule(2) by (intro exI [of _ ?d]) auto
qed

text \<open>C26: \<open>Retry-After\<close> is exact for the window algorithms. When a request on a key is refused after any
  sequence of earlier requests, the reported wait is at most the window; a request just that much
  later is admitted, and none before is, if the key stays silent meanwhile.\<close>
theorem retryAfter_exact:
  assumes "1 \<le> rl_Limit rule" "1 \<le> rl_WindowMillis rule" "rl_WindowMillis rule \<le> 86400000"
    and "alg = allowFixedWindow \<or> alg = allowSlidingWindow"
    and "sorted (0 # ts @ [t])" "alg (snd (run_steps (alg_step alg rule) zeroKeyRuntime ts)) rule t = (r, s')" "\<not> allowed r"
  shows "\<exists>d. 1 \<le> d \<and> d \<le> rl_WindowMillis rule \<and> res_retryAfter r = d * 1000000 \<and>
    allowed (fst (alg s' rule (t + d))) \<and> (\<forall>x. 0 \<le> x \<longrightarrow> x < d \<longrightarrow> \<not> allowed (fst (alg s' rule (t + x))))"
proof -
  let ?s = "snd (run_steps (alg_step alg rule) zeroKeyRuntime ts)"
  have rule: "rule_ok rule" using assms(1,2) by (simp add: rule_ok_def)
  have "window_state rule 0 zeroKeyRuntime" using assms(1) by (simp add: window_state_def zeroKeyRuntime_def)
  moreover have srt: "sorted (0 # ts)" "last (0 # ts) \<le> t" "0 \<le> t"
    using assms(5) by (auto simp: sorted_append)
  ultimately have "window_state rule (last (0 # ts)) ?s" using window_state_run [OF rule assms(4)] by blast
  then have inv: "window_state rule t ?s" using srt(2) by (fastforce simp: window_state_def)
  show ?thesis
    using assms(4,6,7) retry_fixed [OF rule assms(3) srt(3)] retry_sliding [OF rule assms(3) inv] by blast
qed

theorem retryAfter_exact_witness:
  "\<exists>d. 1 \<le> d \<and> d * 1000000 = 994000000 \<and>
    allowed (fst (allowSlidingWindow (snd (run_steps (alg_step allowSlidingWindow (example_rule ''sliding_window'' 1 1000)) zeroKeyRuntime [4]))
       (example_rule ''sliding_window'' 1 1000) (10 + d)))"
proof -
  let ?R = "example_rule ''sliding_window'' 1 1000"
  let ?s = "snd (run_steps (alg_step allowSlidingWindow ?R) zeroKeyRuntime [4])"
  have e: "allowSlidingWindow ?s ?R 10 = (\<lparr>allowed = False, remaining = 0, res_retryAfter = 994000000\<rparr>, ?s)" by code_simp
  have "\<exists>d. 1 \<le> d \<and> d \<le> rl_WindowMillis ?R \<and> res_retryAfter \<lparr>allowed = False, remaining = 0, res_retryAfter = 994000000\<rparr> = d * 1000000 \<and>
    allowed (fst (allowSlidingWindow ?s ?R (10 + d))) \<and> (\<forall>x. 0 \<le> x \<longrightarrow> x < d \<longrightarrow> \<not> allowed (fst (allowSlidingWindow ?s ?R (10 + x))))"
    by (rule retryAfter_exact [where alg = allowSlidingWindow and rule = ?R and ts = "[4]" and t = 10, OF _ _ _ _ _ e])
      (simp_all add: example_rule_def)
  then show ?thesis by auto
qed

text \<open>The state of the limiter is bounded. In every state reached by evaluating requests and
  reloading the configuration, each rule tracks at most 10000 keys, each of them once.\<close>
theorem limiter_keys_bounded:
  assumes "\<And>x. sha x \<noteq> ''''" "limiter_run matchf sha l" "map_of (lim_rules l) i = Some rt"
  shows "length (rt_keys rt) \<le> 10000 \<and> distinct (map fst (rt_keys rt))"
proof -
  have "rk.bounded (rt_keys rt)" using limiter_run_wf [OF assms(2,1)] assms(3) by (auto simp: limiter_wf_def)
  then have "keys_wf (rt_keys rt)" "int (length (rt_keys rt)) \<le> maxRateLimitKeysPerRule"
    unfolding rk.bounded_def by blast+
  then show ?thesis by (simp add: keys_wf_def gm_wf_def maxRateLimitKeysPerRule_def)
qed

theorem limiter_keys_bounded_witness:
  "\<exists>rt. map_of (lim_rules (snd (rl_evaluate (\<lambda>_ _ _. Inr True) (\<lambda>x. ''k'') (\<lambda>_. []) newPublicRateLimiter
      [example_rule ''fixed_window'' 1 60000] ''http'' example_request unix_epoch))) 1 = Some rt \<and> length (rt_keys rt) \<le> 10000"
proof -
  let ?m = "\<lambda>(_ :: unit) (_ :: string) (_ :: http_request). Inr True :: string + bool" and ?sha = "\<lambda>x :: string. ''k''"
  let ?l = "snd (rl_evaluate ?m ?sha (\<lambda>_. []) newPublicRateLimiter [example_rule ''fixed_window'' 1 60000] ''http'' example_request unix_epoch)"
  have run: "limiter_run ?m ?sha ?l" by (rule limiter_request [OF limiter_start])
  have "map_option rt_fingerprint (map_of (lim_rules ?l) 1) = Some ''fp''" by code_simp
  then obtain rt where rt: "map_of (lim_rules ?l) 1 = Some rt" by auto
  from limiter_keys_bounded [OF _ run rt] rt show ?thesis by auto
qed

text \<open>a window longer than the idle time-to-live of 15 minutes is not enforced across a pause: a key
  that exhausted a daily limit of one request gets another one 16 minutes later, in the same window,
  because its state has been pruned.\<close>
theorem idle_prune_resets_long_window:
  "let rule = example_rule ''fixed_window'' 1 86400000;
       ev = (\<lambda>l now. rl_evaluate (\<lambda>_ _ _. Inr True) (\<lambda>x. ''k'') (\<lambda>_. []) l [rule] ''http'' example_request now);
       t = unix_epoch + 3600 * second;
       l1 = snd (ev newPublicRateLimiter t)
   in map_option dc_StatusCode (fst (ev newPublicRateLimiter t)) = None \<and>
      map_option dc_StatusCode (fst (ev l1 (t + 16 * minute))) = None \<and>
      unix_milli t div 86400000 = unix_milli (t + 16 * minute) div 86400000"
  by code_simp

lemma takeWhile_terminated: "z \<notin> set v \<Longrightarrow> takeWhile (\<lambda>c. c \<noteq> z) (v @ z # rest) = v"
  by (induction v) auto

lemma terminated_inj:
  assumes "list_all (\<lambda>v. z \<notin> set v) xs" "list_all (\<lambda>v. z \<notin> set v) ys"
    and "concat (map (\<lambda>v. v @ [z]) xs) = concat (map (\<lambda>v. v @ [z]) ys)"
  shows "xs = ys"
  using assms
proof (induction xs arbitrary: ys)
  case Nil
  then show ?case by (cases ys) auto
next
  case (Cons x xs)
  then obtain y ys' where ys: "ys = y # ys'" by (cases ys) auto
  let ?c = "\<lambda>vs. concat (map (\<lambda>v. v @ [z]) vs)"
  have eq: "x @ z # ?c xs = y @ z # ?c ys'" using Cons.prems(3) ys by simp
  have "x = takeWhile (\<lambda>c. c \<noteq> z) (x @ z # ?c xs)" using Cons.prems(1) by (intro takeWhile_terminated [symmetric]) simp
  also have "\<dots> = takeWhile (\<lambda>c. c \<noteq> z) (y @ z # ?c ys')" by (simp only: eq)
  also have "\<dots> = y" using Cons.prems(2) ys by (intro takeWhile_terminated) simp
  finally have "x = y" .
  then show ?case using eq Cons.IH [of ys'] Cons.prems(1,2) ys by simp
qed

text \<open>Distinct clients get distinct buckets. When the hash has no collision and no key value holds a
  NUL byte, two requests share a bucket of a rule exactly when all their effective key values agree.\<close>
theorem rateLimitKeyHash_separates:
  assumes "inj sha" "list_all (\<lambda>v. CHR 0x00 \<notin> set v) (keyValues rule p r)"
    and "list_all (\<lambda>v. CHR 0x00 \<notin> set v) (keyValues rule p' r')"
  shows "rateLimitKeyHash sha (keyValues rule p r) = rateLimitKeyHash sha (keyValues rule p' r')
    \<longleftrightarrow> keyValues rule p r = keyValues rule p' r'"
  unfolding rateLimitKeyHash_def inj_eq [OF assms(1)] 
  by (rule iffI [OF terminated_inj [OF assms(2,3)]]) (assumption, erule arg_cong)

definition example_path_rule :: "unit publicRateLimitRuleConfig" where
  "example_path_rule = (example_rule ''fixed_window'' 1 60000)\<lparr>rl_KeyParts := [\<lparr>kp_Source = ''path'', kp_Name = ''''\<rparr>]\<rparr>"

theorem rateLimitKeyHash_separates_witness:
  "rateLimitKeyHash (\<lambda>x. x) (keyValues example_path_rule ''http'' example_request)
   \<noteq> rateLimitKeyHash (\<lambda>x. x) (keyValues example_path_rule ''http'' (example_request\<lparr>rq_Path := ''/login''\<rparr>))"
proof -
  have v: "keyValues example_path_rule ''http'' example_request = [''path:'', ''/'']"
    "keyValues example_path_rule ''http'' (example_request\<lparr>rq_Path := ''/login''\<rparr>) = [''path:'', ''/login'']"
    by (simp_all add: keyValues_def example_path_rule_def example_rule_def example_request_def key_part_value_def
        maxRateLimitKeyValueBytes_def to_lower_def)
  have "inj (\<lambda>x :: string. x)" by simp
  from rateLimitKeyHash_separates [OF this, of example_path_rule "''http''" example_request "''http''" "example_request\<lparr>rq_Path := ''/login''\<rparr>"]
  show ?thesis unfolding v by simp
qed

end
