(* ===== verification/RateLimitRules.thy ===== *)
theory RateLimitRules
  imports RateLimiter
begin

text \<open>
  Rate limit rules (\<open>internal/server/rate_limiter.go\<close>): the validation of a rule mutation, of its key
  parts and response headers, the conversions between protocol enums and stored strings, and the
  loading of a stored row. Protocol enums are datatypes with a constructor for unknown numbers; the
  validation of match expressions and the JSON codecs are parameters.
\<close>

section \<open>Validation of rules\<close>

datatype proto_algorithm =
    ALGORITHM_UNSPECIFIED | FIXED_WINDOW | SLIDING_WINDOW | TOKEN_BUCKET | LEAKY_BUCKET | ALGORITHM_UNKNOWN int

datatype proto_key_source =
    KEY_SOURCE_UNSPECIFIED | REMOTE_IP | HOST | METHOD | PATH | PROTOCOL | HEADER | COOKIE | QUERY_PARAM
  | KEY_SOURCE_UNKNOWN int

datatype proto_body_mode = BODY_MODE_UNSPECIFIED | BODY_MODE_INLINE | BODY_MODE_TEMPLATE | BODY_MODE_UNKNOWN int

definition alnum_char :: "char \<Rightarrow> bool" where
  "alnum_char c \<longleftrightarrow> (let n = (of_char c :: nat) in (97 \<le> n \<and> n \<le> 122) \<or> (65 \<le> n \<and> n \<le> 90) \<or> (48 \<le> n \<and> n \<le> 57))"

definition publicNamePattern :: "string \<Rightarrow> bool" where
  \<comment> \<open>matches \<open>^[a-zA-Z0-9][a-zA-Z0-9_.-]{0,63}$\<close>\<close>
  "publicNamePattern s \<longleftrightarrow> s \<noteq> [] \<and> length s \<le> 64 \<and> alnum_char (hd s) \<and>
     list_all (\<lambda>c. alnum_char c \<or> List.member ''_.-'' c) (tl s)"

definition validHTTPToken :: "string \<Rightarrow> bool" where
  "validHTTPToken s \<longleftrightarrow> s \<noteq> [] \<and> list_all token_char s"

definition protectedRateLimitResponseHeader :: "string \<Rightarrow> bool" where
  "protectedRateLimitResponseHeader name \<longleftrightarrow> List.member
     [''connection'', ''transfer-encoding'', ''content-length'', ''retry-after'', ''ratelimit-limit'',
      ''ratelimit-remaining'', ''ratelimit-reset'', ''x-ratelimit-limit'', ''x-ratelimit-remaining'',
      ''x-ratelimit-reset''] (to_lower name)"

definition unsafeForwardingKeyPartHeader :: "string \<Rightarrow> bool" where
  "unsafeForwardingKeyPartHeader name \<longleftrightarrow> List.member
     [''forwarded'', ''x-forwarded-for'', ''x-forwarded-host'', ''x-forwarded-proto'', ''x-forwarded-port'',
      ''x-real-ip'', ''client-ip'', ''true-client-ip'', ''cf-connecting-ip'', ''fastly-client-ip'',
      ''x-client-ip'', ''x-cluster-client-ip''] (to_lower (canonical_header (trim_space name)))"

definition validStoredRateLimitKeySource :: "string \<Rightarrow> bool" where
  "validStoredRateLimitKeySource source \<longleftrightarrow> List.member
     [''remote_ip'', ''host'', ''method'', ''path'', ''protocol'', ''header'', ''cookie'', ''query_param''] source"

definition rateLimitAlgorithmStringFromProto :: "proto_algorithm \<Rightarrow> string result" where
  "rateLimitAlgorithmStringFromProto a =
     (case a of
        ALGORITHM_UNSPECIFIED \<Rightarrow> Inr ''fixed_window''
      | FIXED_WINDOW \<Rightarrow> Inr ''fixed_window''
      | SLIDING_WINDOW \<Rightarrow> Inr ''sliding_window''
      | TOKEN_BUCKET \<Rightarrow> Inr ''token_bucket''
      | LEAKY_BUCKET \<Rightarrow> Inr ''leaky_bucket''
      | ALGORITHM_UNKNOWN _ \<Rightarrow> Inl (InvalidArgument ''rate limit algorithm is invalid''))"

definition normalizePublicRateLimitAlgorithm :: "string \<Rightarrow> string" where
  "normalizePublicRateLimitAlgorithm a =
     (if List.member [''sliding_window'', ''token_bucket'', ''leaky_bucket''] a then a else ''fixed_window'')"

definition protoRateLimitAlgorithmFromString :: "string \<Rightarrow> proto_algorithm" where
  "protoRateLimitAlgorithmFromString a =
     (let n = normalizePublicRateLimitAlgorithm a
      in if n = ''sliding_window'' then SLIDING_WINDOW else if n = ''token_bucket'' then TOKEN_BUCKET
         else if n = ''leaky_bucket'' then LEAKY_BUCKET else FIXED_WINDOW)"

definition rateLimitKeySourceStringFromProto :: "proto_key_source \<Rightarrow> string result" where
  "rateLimitKeySourceStringFromProto src =
     (case src of
        KEY_SOURCE_UNSPECIFIED \<Rightarrow> Inr ''remote_ip''
      | REMOTE_IP \<Rightarrow> Inr ''remote_ip''
      | HOST \<Rightarrow> Inr ''host''
      | METHOD \<Rightarrow> Inr ''method''
      | PATH \<Rightarrow> Inr ''path''
      | PROTOCOL \<Rightarrow> Inr ''protocol''
      | HEADER \<Rightarrow> Inr ''header''
      | COOKIE \<Rightarrow> Inr ''cookie''
      | QUERY_PARAM \<Rightarrow> Inr ''query_param''
      | KEY_SOURCE_UNKNOWN _ \<Rightarrow> Inl (InvalidArgument ''rate limit key source is invalid''))"

definition protoRateLimitKeySourceFromString :: "string \<Rightarrow> proto_key_source" where
  "protoRateLimitKeySourceFromString s =
     (if s = ''host'' then HOST else if s = ''method'' then METHOD else if s = ''path'' then PATH
      else if s = ''protocol'' then PROTOCOL else if s = ''header'' then HEADER
      else if s = ''cookie'' then COOKIE else if s = ''query_param'' then QUERY_PARAM else REMOTE_IP)"

definition check_key_part :: "string \<Rightarrow> string \<Rightarrow> publicRateLimitKeyPartConfig result" where
  \<comment> \<open>the switch on the source, shared by the two key part validators; \<open>name\<close> is already trimmed\<close>
  "check_key_part source name =
     (if source = ''header'' then
        reject_if (name = '''') (InvalidArgument ''rate limit header key part requires a name'')
          (let n = canonical_header name
           in reject_if (\<not> validHTTPToken n) (InvalidArgument ''rate limit header key part name is invalid'')
                (Inr \<lparr>kp_Source = source, kp_Name = n\<rparr>))
      else if source = ''cookie'' \<or> source = ''query_param'' then
        reject_if (name = '''') (InvalidArgument ''rate limit cookie and query key parts require a name'')
          (Inr \<lparr>kp_Source = source, kp_Name = name\<rparr>)
      else Inr \<lparr>kp_Source = source, kp_Name = ''''\<rparr>)"

fun emap :: "('a \<Rightarrow> 'e + 'b option) \<Rightarrow> 'a list \<Rightarrow> 'e + 'b list" where
  \<comment> \<open>a loop that appends, skips or returns the first error\<close>
  "emap f [] = Inr []"
| "emap f (x # xs) =
     ebind (f x) (\<lambda>y. ebind (emap f xs) (\<lambda>ys. Inr (case y of None \<Rightarrow> ys | Some b \<Rightarrow> b # ys)))"

definition default_key_part :: publicRateLimitKeyPartConfig where
  "default_key_part = \<lparr>kp_Source = ''remote_ip'', kp_Name = ''''\<rparr>"

definition validateRateLimitKeyParts :: "(proto_key_source \<times> string) option list
    \<Rightarrow> publicRateLimitKeyPartConfig list result" where
  "validateRateLimitKeyParts parts =
     (if parts = [] then Inr [default_key_part]
      else reject_if (length parts > 8) (InvalidArgument ''rate limit rule has too many key parts'')
        (ebind (emap (\<lambda>p. case p of
             None \<Rightarrow> Inr None
           | Some (src, name) \<Rightarrow>
               ebind (rateLimitKeySourceStringFromProto src)
                 (\<lambda>source. ebind (check_key_part source (trim_space name)) (\<lambda>c. Inr (Some c)))) parts)
          (\<lambda>resp. Inr (if resp = [] then [default_key_part] else resp))))"

definition validateStoredRateLimitKeyParts :: "publicRateLimitKeyPartConfig list
    \<Rightarrow> publicRateLimitKeyPartConfig list result" where
  "validateStoredRateLimitKeyParts parts =
     (if parts = [] then Inr [default_key_part]
      else reject_if (length parts > 8) (InvalidArgument ''rate limit rule has too many key parts'')
        (ebind (emap (\<lambda>p.
             let source = trim_space (kp_Source p)
             in reject_if (\<not> validStoredRateLimitKeySource source) (InvalidArgument ''rate limit key source is invalid'')
                  (ebind (check_key_part source (trim_space (kp_Name p))) (\<lambda>c. Inr (Some c)))) parts)
          (\<lambda>resp. Inr (if resp = [] then [default_key_part] else resp))))"

definition validateRateLimitClientIdentityKeyPartConfig :: "publicRateLimitKeyPartConfig list
    \<Rightarrow> publicRateLimitKeyPartConfig list result" where
  "validateRateLimitClientIdentityKeyPartConfig parts =
     reject_if (list_ex (\<lambda>p. kp_Source p = ''header'' \<and> unsafeForwardingKeyPartHeader (kp_Name p)) parts)
       (InvalidArgument ''rate limit header key part must not use forwarding or client IP headers; use REMOTE_IP'')
       (Inr parts)"

definition validateRateLimitClientIdentityKeyParts :: "(proto_key_source \<times> string) option list
    \<Rightarrow> publicRateLimitKeyPartConfig list result" where
  "validateRateLimitClientIdentityKeyParts parts =
     ebind (validateRateLimitKeyParts parts) validateRateLimitClientIdentityKeyPartConfig"

definition validateStoredRateLimitClientIdentityKeyParts :: "publicRateLimitKeyPartConfig list
    \<Rightarrow> publicRateLimitKeyPartConfig list result" where
  "validateStoredRateLimitClientIdentityKeyParts parts =
     ebind (validateStoredRateLimitKeyParts parts) validateRateLimitClientIdentityKeyPartConfig"

definition validateRateLimitResponseHeaders :: "(string \<times> string) option list
    \<Rightarrow> publicRateLimitResponseHeaderConfig list result" where
  "validateRateLimitResponseHeaders headers =
     reject_if (length headers > 32) (InvalidArgument ''rate limit response has too many headers'')
       (emap (\<lambda>h. case h of
           None \<Rightarrow> Inr None
         | Some (nm, v) \<Rightarrow>
             let name = canonical_header (trim_space nm)
             in if name = '''' then Inr None
                else reject_if (\<not> validHTTPToken name \<or> protectedRateLimitResponseHeader name)
                  (InvalidArgument (''rate limit response header '' @ name @ '' is not allowed''))
                  (Inr (Some \<lparr>rh_Name = name, rh_Value = v\<rparr>))) headers)"

definition publicResponseBodyModeStringFromProto :: "proto_body_mode \<Rightarrow> string result" where
  "publicResponseBodyModeStringFromProto m =
     (case m of
        BODY_MODE_UNSPECIFIED \<Rightarrow> Inr ''inline''
      | BODY_MODE_INLINE \<Rightarrow> Inr ''inline''
      | BODY_MODE_TEMPLATE \<Rightarrow> Inr ''template''
      | BODY_MODE_UNKNOWN _ \<Rightarrow> Inl (InvalidArgument ''response body mode is invalid''))"

record publicRateLimitRuleMutationInput =
  mi_Name :: string
  mi_Priority :: int
  mi_Enabled :: int
  mi_Algorithm :: string
  mi_LimitCount :: int
  mi_WindowMillis :: int
  mi_Burst :: int
  mi_MatchJSON :: string
  mi_KeyPartsJSON :: string
  mi_ResponseStatusCode :: int
  mi_ResponseBody :: string
  mi_ResponseBodyMode :: string
  mi_ResponseTemplateID :: "int option"
  mi_ResponseContentType :: string
  mi_ResponseHeadersJSON :: string

record ('mr, 'm) rl_codecs =
  validate_match :: "'mr \<Rightarrow> 'm result"
  marshal_match :: "'m \<Rightarrow> string option"
  marshal_key_parts :: "publicRateLimitKeyPartConfig list \<Rightarrow> string option"
  marshal_headers :: "publicRateLimitResponseHeaderConfig list \<Rightarrow> string option"

definition marshal_or :: "string option \<Rightarrow> string result" where
  "marshal_or j = (case j of None \<Rightarrow> Inl (Internal ''json'') | Some s \<Rightarrow> Inr s)"

definition boolInt :: "bool \<Rightarrow> int" where
  "boolInt b = (if b then 1 else 0)"

definition validatePublicRateLimitRuleInput :: "('mr, 'm) rl_codecs \<Rightarrow> string \<Rightarrow> int \<Rightarrow> bool \<Rightarrow> proto_algorithm
    \<Rightarrow> int \<Rightarrow> int \<Rightarrow> int \<Rightarrow> (proto_key_source \<times> string) option list \<Rightarrow> int \<Rightarrow> string \<Rightarrow> proto_body_mode \<Rightarrow> int
    \<Rightarrow> string \<Rightarrow> (string \<times> string) option list \<Rightarrow> 'mr \<Rightarrow> publicRateLimitRuleMutationInput result" where
  "validatePublicRateLimitRuleInput C name0 priority enabled algorithm limit0 windowMillis0 burst keyParts
     statusCode0 body0 bodyMode templateID contentType0 headers matchRule =
     (let name = (if trim_space name0 = '''' then ''rate-limit'' else trim_space name0) in
      reject_if (\<not> publicNamePattern name)
        (InvalidArgument ''rate limit rule name must be 1-64 alphanumeric, dot, dash, or underscore characters'')
      (ebind (rateLimitAlgorithmStringFromProto algorithm) (\<lambda>alg.
      let limit = (if limit0 = 0 then 60 else limit0) in
      reject_if (limit < 1) (InvalidArgument ''rate limit must be at least 1'')
      (let windowMillis = (if windowMillis0 = 0 then 60000 else windowMillis0) in
      reject_if (windowMillis < 1000 \<or> windowMillis > 86400000)
        (InvalidArgument ''rate limit window must be between 1 second and 1 day'')
      (reject_if (burst < 0) (InvalidArgument ''rate limit burst must be non-negative'')
      (reject_if (burst > 0 \<and> burst > i64 (10 * limit)) (InvalidArgument ''rate limit burst must not exceed 10x limit'')
      (ebind (validate_match C matchRule) (\<lambda>matchConfig.
      ebind (validateRateLimitClientIdentityKeyParts keyParts) (\<lambda>keyPartConfig.
      let statusCode = (if statusCode0 = 0 then 429 else statusCode0) in
      reject_if (statusCode < 400 \<or> statusCode > 599)
        (InvalidArgument ''rate limit response status must be between 400 and 599'')
      (let body = (if body0 = '''' then ''Rate limit exceeded'' @ [CHR 0x0A] else body0) in
      reject_if (length body > 65536) (InvalidArgument ''rate limit response body is too large'')
      (ebind (publicResponseBodyModeStringFromProto bodyMode) (\<lambda>mode.
      reject_if (mode = ''template'' \<and> templateID \<le> 0) (InvalidArgument ''rate limit response template id is required'')
      (let templateRef = (if mode = ''template'' then Some templateID else None);
           contentType = (if contentType0 = '''' then ''text/plain; charset=utf-8'' else contentType0) in
      ebind (validateRateLimitResponseHeaders headers) (\<lambda>headerConfig.
      ebind (marshal_or (marshal_match C matchConfig)) (\<lambda>matchJSON.
      ebind (marshal_or (marshal_key_parts C keyPartConfig)) (\<lambda>keyPartsJSON.
      ebind (marshal_or (marshal_headers C headerConfig)) (\<lambda>responseHeadersJSON.
      Inr \<lparr>mi_Name = name, mi_Priority = priority, mi_Enabled = boolInt enabled, mi_Algorithm = alg,
           mi_LimitCount = limit, mi_WindowMillis = windowMillis, mi_Burst = burst, mi_MatchJSON = matchJSON,
           mi_KeyPartsJSON = keyPartsJSON, mi_ResponseStatusCode = statusCode, mi_ResponseBody = body,
           mi_ResponseBodyMode = mode, mi_ResponseTemplateID = templateRef, mi_ResponseContentType = contentType,
           mi_ResponseHeadersJSON = responseHeadersJSON\<rparr>)))))))))))))))))"

record rate_limit_row =
  row_ID :: int
  row_Name :: string
  row_Priority :: int
  row_Enabled :: int
  row_Algorithm :: string
  row_LimitCount :: int
  row_WindowMillis :: int
  row_Burst :: int
  row_MatchJson :: string
  row_KeyPartsJson :: string
  row_ResponseStatusCode :: int
  row_ResponseBody :: string
  row_ResponseBodyMode :: string
  row_ResponseBodyTemplateID :: "int option"
  row_ResponseContentType :: string
  row_ResponseHeadersJson :: string
  row_CreatedAt :: gotime
  row_UpdatedAt :: gotime

record 'm rl_decoders =
  decode_match :: "string \<Rightarrow> 'm result"
  unmarshal_key_parts :: "string \<Rightarrow> publicRateLimitKeyPartConfig list result"
  unmarshal_headers :: "string \<Rightarrow> publicRateLimitResponseHeaderConfig list result"
  fingerprint_of :: "'m publicRateLimitRuleConfig \<Rightarrow> string"

definition normalizePublicResponseBodyMode :: "string \<Rightarrow> string" where
  "normalizePublicResponseBodyMode mode = (if trim_space mode = ''template'' then ''template'' else ''inline'')"

definition publicRateLimitRuleRowToConfig :: "'m rl_decoders \<Rightarrow> rate_limit_row \<Rightarrow> 'm publicRateLimitRuleConfig result" where
  "publicRateLimitRuleRowToConfig D row =
     ebind (decode_match D (row_MatchJson row)) (\<lambda>mtch.
     ebind (if trim_space (row_KeyPartsJson row) \<noteq> '''' then unmarshal_key_parts D (row_KeyPartsJson row) else Inr [])
       (\<lambda>keyParts0.
     ebind (validateStoredRateLimitClientIdentityKeyParts keyParts0) (\<lambda>keyParts.
     ebind (if trim_space (row_ResponseHeadersJson row) \<noteq> '''' then unmarshal_headers D (row_ResponseHeadersJson row) else Inr [])
       (\<lambda>responseHeaders.
     let rule0 =
       \<lparr>rl_ID = row_ID row, rl_Name = row_Name row, rl_Priority = row_Priority row, rl_Enabled = (row_Enabled row \<noteq> 0),
        rl_Algorithm = normalizePublicRateLimitAlgorithm (row_Algorithm row), rl_Limit = row_LimitCount row,
        rl_WindowMillis = row_WindowMillis row, rl_Burst = row_Burst row, rl_Match = mtch, rl_KeyParts = keyParts,
        rl_ResponseStatusCode = (if row_ResponseStatusCode row = 0 then 429 else row_ResponseStatusCode row),
        rl_ResponseBody = (if row_ResponseBody row = '''' then ''Rate limit exceeded'' @ [CHR 0x0A] else row_ResponseBody row),
        rl_ResponseBodyMode = normalizePublicResponseBodyMode (row_ResponseBodyMode row),
        rl_ResponseTemplateID = (case row_ResponseBodyTemplateID row of None \<Rightarrow> 0 | Some i \<Rightarrow> i),
        rl_ResponseContentType = (if row_ResponseContentType row = '''' then ''text/plain; charset=utf-8''
          else row_ResponseContentType row),
        rl_ResponseHeaders = responseHeaders, rl_CreatedAt = row_CreatedAt row, rl_UpdatedAt = row_UpdatedAt row,
        rl_Fingerprint = ''''\<rparr>;
       rule1 = (if rl_Algorithm rule0 = '''' then rule0\<lparr>rl_Algorithm := ''fixed_window''\<rparr> else rule0);
       rule2 = (if rl_KeyParts rule1 = [] then rule1\<lparr>rl_KeyParts := [default_key_part]\<rparr> else rule1)
     in Inr (rule2\<lparr>rl_Fingerprint := fingerprint_of D rule2\<rparr>)))))"

section \<open>What validation guarantees\<close>

lemma emap_all:
  assumes "emap f xs = Inr ys" "\<forall>x y. f x = Inr (Some y) \<longrightarrow> P y"
  shows "list_all P ys"
  using assms(1)
proof (induction xs arbitrary: ys)
  case (Cons x xs)
  obtain o' zs where "f x = Inr o'" "emap f xs = Inr zs" "ys = (case o' of None \<Rightarrow> zs | Some b \<Rightarrow> b # zs)"
    using Cons.prems by auto
  then show ?case using Cons.IH [of zs] assms(2) by (cases o') auto
qed simp

lemma emap_length: "emap f xs = Inr ys \<Longrightarrow> length ys \<le> length xs"
proof (induction xs arbitrary: ys)
  case (Cons x xs)
  then show ?case by (fastforce split: option.splits)
qed simp

definition key_part_ok :: "publicRateLimitKeyPartConfig \<Rightarrow> bool" where
  "key_part_ok p \<longleftrightarrow> validStoredRateLimitKeySource (kp_Source p) \<and>
     (kp_Source p = ''header'' \<longrightarrow> validHTTPToken (kp_Name p) \<and> \<not> unsafeForwardingKeyPartHeader (kp_Name p)) \<and>
     (kp_Source p = ''cookie'' \<or> kp_Source p = ''query_param'' \<longrightarrow> kp_Name p \<noteq> '''')"

definition key_part_shape :: "publicRateLimitKeyPartConfig \<Rightarrow> bool" where
  "key_part_shape p \<longleftrightarrow> validStoredRateLimitKeySource (kp_Source p) \<and>
     (kp_Source p = ''header'' \<longrightarrow> validHTTPToken (kp_Name p)) \<and>
     (kp_Source p = ''cookie'' \<or> kp_Source p = ''query_param'' \<longrightarrow> kp_Name p \<noteq> '''')"

lemma check_key_part_shape:
  "check_key_part source name = Inr c \<Longrightarrow> validStoredRateLimitKeySource source \<Longrightarrow> key_part_shape c"
  by (auto simp: check_key_part_def key_part_shape_def Let_def split: if_splits)

lemma source_from_proto: "rateLimitKeySourceStringFromProto src = Inr s \<Longrightarrow> validStoredRateLimitKeySource s"
  by (cases src) (auto simp: rateLimitKeySourceStringFromProto_def validStoredRateLimitKeySource_def)

lemma default_key_part_shape [simp]: "key_part_shape default_key_part"
  by (simp add: key_part_shape_def default_key_part_def validStoredRateLimitKeySource_def)

lemma validate_key_parts_shape:
  assumes "validateRateLimitKeyParts parts = Inr ps"
  shows "ps \<noteq> [] \<and> length ps \<le> 8 \<and> list_all key_part_shape ps"
proof (cases "parts = []")
  case True
  with assms show ?thesis by (auto simp: validateRateLimitKeyParts_def)
next
  case False
  let ?f = "\<lambda>p. case p of None \<Rightarrow> Inr None | Some (src, name) \<Rightarrow>
      ebind (rateLimitKeySourceStringFromProto src)
        (\<lambda>source. ebind (check_key_part source (trim_space name)) (\<lambda>c. Inr (Some c)))"
  obtain qs where qs: "emap ?f parts = Inr qs" "length parts \<le> 8" "ps = (if qs = [] then [default_key_part] else qs)"
    using assms False by (auto simp: validateRateLimitKeyParts_def)
  have "list_all key_part_shape qs"
    by (rule emap_all [OF qs(1)]) (auto dest: source_from_proto check_key_part_shape split: option.splits)
  with qs emap_length [OF qs(1)] show ?thesis by auto
qed

lemma validate_identity_key_parts:
  assumes "validateRateLimitClientIdentityKeyParts parts = Inr ps"
  shows "ps \<noteq> [] \<and> length ps \<le> 8 \<and> list_all key_part_ok ps"
proof -
  have "validateRateLimitKeyParts parts = Inr ps"
    "\<not> list_ex (\<lambda>p. kp_Source p = ''header'' \<and> unsafeForwardingKeyPartHeader (kp_Name p)) ps"
    using assms by (auto simp: validateRateLimitClientIdentityKeyParts_def validateRateLimitClientIdentityKeyPartConfig_def)
  with validate_key_parts_shape show ?thesis
    by (auto simp: list_all_iff list_ex_iff key_part_shape_def key_part_ok_def)
qed

definition header_ok :: "publicRateLimitResponseHeaderConfig \<Rightarrow> bool" where
  "header_ok h \<longleftrightarrow> validHTTPToken (rh_Name h) \<and> \<not> protectedRateLimitResponseHeader (rh_Name h)"

lemma validate_headers_ok:
  assumes "validateRateLimitResponseHeaders headers = Inr hs"
  shows "length hs \<le> 32 \<and> list_all header_ok hs"
proof -
  let ?f = "\<lambda>h. case h of None \<Rightarrow> Inr None | Some (nm, v) \<Rightarrow>
     let name = canonical_header (trim_space nm)
     in if name = '''' then Inr None
        else reject_if (\<not> validHTTPToken name \<or> protectedRateLimitResponseHeader name)
          (InvalidArgument (''rate limit response header '' @ name @ '' is not allowed''))
          (Inr (Some \<lparr>rh_Name = name, rh_Value = v\<rparr>))"
  have e: "emap ?f headers = Inr hs" "length headers \<le> 32"
    using assms by (auto simp: validateRateLimitResponseHeaders_def)
  have "list_all header_ok hs"
    by (rule emap_all [OF e(1)]) (auto simp: header_ok_def Let_def split: option.splits if_splits)
  with e emap_length [OF e(1)] show ?thesis by simp
qed

section \<open>Properties\<close>

text \<open>C29: accepted rules are safe to run. Whatever the administrator sends, an accepted rule mutation has
  a well-formed name, a known algorithm, a limit of at least one, a window between one second and one
  day, a burst within ten times the limit (for limits where that product fits an \<open>int64\<close>), an error
  status and a bounded body; its key parts are non-empty, at most eight, and never trust a forwarding
  header; its response headers are tokens that do not overwrite the generated ones.\<close>
theorem validatePublicRateLimitRuleInput_sound:
  assumes "validatePublicRateLimitRuleInput C name priority enabled algorithm limit windowMillis burst keyParts
      statusCode body bodyMode templateID contentType headers matchRule = Inr mi"
  shows "publicNamePattern (mi_Name mi) \<and>
    List.member [''fixed_window'', ''sliding_window'', ''token_bucket'', ''leaky_bucket''] (mi_Algorithm mi) \<and>
    1 \<le> mi_LimitCount mi \<and> 1000 \<le> mi_WindowMillis mi \<and> mi_WindowMillis mi \<le> 86400000 \<and>
    0 \<le> mi_Burst mi \<and> (mi_LimitCount mi \<le> 922337203685477580 \<longrightarrow> mi_Burst mi \<le> 10 * mi_LimitCount mi) \<and>
    400 \<le> mi_ResponseStatusCode mi \<and> mi_ResponseStatusCode mi \<le> 599 \<and>
    mi_ResponseBody mi \<noteq> '''' \<and> length (mi_ResponseBody mi) \<le> 65536 \<and>
    (mi_ResponseBodyMode mi = ''template'' \<longrightarrow> (\<exists>i>0. mi_ResponseTemplateID mi = Some i)) \<and>
    (\<exists>ps hs. marshal_key_parts C ps = Some (mi_KeyPartsJSON mi) \<and> marshal_headers C hs = Some (mi_ResponseHeadersJSON mi) \<and>
       ps \<noteq> [] \<and> length ps \<le> 8 \<and> list_all key_part_ok ps \<and> length hs \<le> 32 \<and> list_all header_ok hs)"
  using assms
  unfolding validatePublicRateLimitRuleInput_def Let_def reject_if_Inr ebind_Inr sum.inject
proof (elim exE conjE, goal_cases)
  case (1 alg mtch ps mode hs mj kj hj)
  let ?lim = "if limit = 0 then 60 else limit"
  have alg: "List.member [''fixed_window'', ''sliding_window'', ''token_bucket'', ''leaky_bucket''] alg"
    using \<open>rateLimitAlgorithmStringFromProto algorithm = Inr alg\<close>
    by (cases algorithm) (auto simp: rateLimitAlgorithmStringFromProto_def)
  have burst: "burst \<le> 10 * ?lim" if "?lim \<le> 922337203685477580"
  proof (cases "burst > 0")
    case True
    have "in_i64 (10 * ?lim)"
      using that \<open>\<not> ?lim < 1\<close> unfolding in_i64_def min_int64_def max_int64_def by linarith
    then have "i64 (10 * ?lim) = 10 * ?lim" by (rule i64_id)
    with True \<open>\<not> (0 < burst \<and> i64 (10 * ?lim) < burst)\<close> show ?thesis by linarith
  next
    case False
    with \<open>\<not> ?lim < 1\<close> show ?thesis by linarith
  qed
  have kj: "marshal_key_parts C ps = Some kj" using \<open>marshal_or (marshal_key_parts C ps) = Inr kj\<close>
    by (auto simp: marshal_or_def split: option.splits)
  have hj: "marshal_headers C hs = Some hj" using \<open>marshal_or (marshal_headers C hs) = Inr hj\<close>
    by (auto simp: marshal_or_def split: option.splits)
  note parts = validate_identity_key_parts [OF \<open>validateRateLimitClientIdentityKeyParts keyParts = Inr ps\<close>]
  note hdrs = validate_headers_ok [OF \<open>validateRateLimitResponseHeaders headers = Inr hs\<close>]
  have mi: "mi_Name mi = (if trim_space name = '''' then ''rate-limit'' else trim_space name)"
    "mi_Algorithm mi = alg" "mi_LimitCount mi = ?lim" "mi_WindowMillis mi = (if windowMillis = 0 then 60000 else windowMillis)"
    "mi_Burst mi = burst" "mi_KeyPartsJSON mi = kj" "mi_ResponseHeadersJSON mi = hj" "mi_ResponseBodyMode mi = mode"
    "mi_ResponseStatusCode mi = (if statusCode = 0 then 429 else statusCode)"
    "mi_ResponseBody mi = (if body = '''' then ''Rate limit exceeded'' @ [CHR 0x0A] else body)"
    "mi_ResponseTemplateID mi = (if mode = ''template'' then Some templateID else None)"
    unfolding 1(17) [symmetric] by simp_all
  show ?case
    unfolding mi
    using 1(1,3-6,9,10,12) alg burst kj hj parts hdrs
    by (intro conjI exI [of _ ps] exI [of _ hs] impI) (simp_all add: not_less)
qed

definition example_codecs :: "(unit, unit) rl_codecs" where
  "example_codecs = \<lparr>validate_match = (\<lambda>_. Inr ()), marshal_match = (\<lambda>_. Some ''{}''),
     marshal_key_parts = (\<lambda>_. Some ''[]''), marshal_headers = (\<lambda>_. Some ''[]'')\<rparr>"

lemmas example_eval = validatePublicRateLimitRuleInput_def example_codecs_def reject_if_def Let_def
  rateLimitAlgorithmStringFromProto_def validateRateLimitClientIdentityKeyParts_def validateRateLimitKeyParts_def
  validateRateLimitClientIdentityKeyPartConfig_def default_key_part_def publicResponseBodyModeStringFromProto_def
  validateRateLimitResponseHeaders_def marshal_or_def

theorem validatePublicRateLimitRuleInput_sound_witness:
  "\<exists>mi. validatePublicRateLimitRuleInput example_codecs ''api'' 1 True TOKEN_BUCKET 10 0 100 [] 0 '''' BODY_MODE_INLINE 0
      '''' [] () = Inr mi \<and> mi_Burst mi \<le> 10 * mi_LimitCount mi \<and> mi_WindowMillis mi \<le> 86400000"
proof -
  let ?v = "validatePublicRateLimitRuleInput example_codecs ''api'' 1 True TOKEN_BUCKET 10 0 100 [] 0 '''' BODY_MODE_INLINE 0
      '''' [] ()"
  have name: "publicNamePattern ''api''" "trim_space ''api'' = ''api''"
    by (simp_all add: publicNamePattern_def alnum_char_def trim_space_def trim_left_def is_space_def)
  obtain mi where mi: "?v = Inr mi" "mi_LimitCount mi = 10"
    by (simp add: example_eval name i64_def)
  from validatePublicRateLimitRuleInput_sound [OF mi(1)] mi show ?thesis by auto
qed

text \<open>The product \<open>10*limit\<close> of the burst check wraps for limits above a tenth of the \<open>int64\<close> range: a
  burst of 5 is then refused as exceeding ten times a limit of more than \<open>10^18\<close>.\<close>

lemma burst_check_overflow:
  "validatePublicRateLimitRuleInput example_codecs ''api'' 1 True TOKEN_BUCKET 1844674407370955162 0 5 [] 0 ''''
     BODY_MODE_INLINE 0 '''' [] () = Inl (InvalidArgument ''rate limit burst must not exceed 10x limit'')"
proof -
  have "publicNamePattern ''api''" "trim_space ''api'' = ''api''"
    by (simp_all add: publicNamePattern_def alnum_char_def trim_space_def trim_left_def is_space_def)
  then show ?thesis by (simp add: example_eval i64_def)
qed

section \<open>Accepted rules can be loaded again\<close>

lemma upper_char_dash [simp]: "upper_char c = CHR ''-'' \<longleftrightarrow> c = CHR ''-''"
  by (auto simp: upper_char_def dest: arg_cong [of _ _ "of_char :: char \<Rightarrow> nat"])

lemma lower_char_dash [simp]: "lower_char c = CHR ''-'' \<longleftrightarrow> c = CHR ''-''"
  by (auto simp: lower_char_def dest: arg_cong [of _ _ "of_char :: char \<Rightarrow> nat"])

lemma upper_char_idem [simp]: "upper_char (upper_char c) = upper_char c"
  by (auto simp: upper_char_def of_char_of)

lemma canonical_from_idem [simp]: "canonical_from up (canonical_from up s) = canonical_from up s"
  by (induction up s rule: canonical_from.induct) simp_all

lemma canonical_header_idem [simp]: "canonical_header (canonical_header s) = canonical_header s"
  by (simp add: canonical_header_def token_canonical_from)

lemma token_not_space: "token_char c \<Longrightarrow> \<not> is_space c"
  by (auto simp: token_char_def is_space_def Let_def)

lemma trim_token: "validHTTPToken s \<Longrightarrow> trim_space s = s"
  by (rule trim_space_id) (auto simp: validHTTPToken_def list_all_iff token_not_space)

definition stored_form :: "publicRateLimitKeyPartConfig \<Rightarrow> bool" where
  \<comment> \<open>a key part that storing and loading leaves as it is\<close>
  "stored_form p \<longleftrightarrow> validStoredRateLimitKeySource (kp_Source p) \<and>
     check_key_part (trim_space (kp_Source p)) (trim_space (kp_Name p)) = Inr p"

lemma trim_source: "validStoredRateLimitKeySource s \<Longrightarrow> trim_space s = s"
  by (rule trim_space_id) (auto simp: validStoredRateLimitKeySource_def is_space_def)

lemma check_key_part_stored:
  assumes c: "check_key_part source (trim_space name) = Inr c" and src: "validStoredRateLimitKeySource source"
  shows "stored_form c"
proof -
  have t: "trim_space source = source" by (rule trim_source [OF src])
  have nil: "trim_space '''' = ''''" by (rule trim_space_id) simp
  consider (header) "source = ''header''" | (named) "source \<noteq> ''header''" "source = ''cookie'' \<or> source = ''query_param''"
    | (plain) "source \<noteq> ''header''" "\<not> (source = ''cookie'' \<or> source = ''query_param'')" by blast
  then show ?thesis
  proof cases
    case header
    let ?n = "canonical_header (trim_space name)"
    have n: "validHTTPToken ?n" "c = \<lparr>kp_Source = source, kp_Name = ?n\<rparr>"
      using c header unfolding check_key_part_def Let_def by (simp_all only: if_True reject_if_Inr sum.inject not_not simp_thms)
    have "?n \<noteq> ''''" using n(1) by (auto simp: validHTTPToken_def)
    with n src t trim_token [OF n(1)] header show ?thesis
      unfolding stored_form_def check_key_part_def Let_def by (simp only: reject_if_Inr if_True canonical_header_idem
          publicRateLimitKeyPartConfig.simps simp_thms)
  next
    case named
    have n: "trim_space name \<noteq> ''''" "c = \<lparr>kp_Source = source, kp_Name = trim_space name\<rparr>"
      using c named unfolding check_key_part_def by (simp_all only: if_False if_True reject_if_Inr sum.inject not_not simp_thms)
    with src t named show ?thesis
      unfolding stored_form_def check_key_part_def by (simp only: reject_if_Inr if_True if_False trim_space_idem
          publicRateLimitKeyPartConfig.simps simp_thms)
  next
    case plain
    have n: "c = \<lparr>kp_Source = source, kp_Name = ''''\<rparr>"
      using c plain unfolding check_key_part_def by (simp only: if_False sum.inject)
    with src t plain nil show ?thesis
      unfolding stored_form_def check_key_part_def by (simp only: if_False publicRateLimitKeyPartConfig.simps simp_thms)
  qed
qed

lemma stored_form_default [simp]: "stored_form default_key_part"
  using trim_source [of "''remote_ip''"]
  by (simp add: stored_form_def default_key_part_def check_key_part_def validStoredRateLimitKeySource_def
      trim_space_def trim_left_def is_space_def)

lemma validate_key_parts_stored:
  assumes "validateRateLimitKeyParts parts = Inr ps"
  shows "list_all stored_form ps"
proof (cases "parts = []")
  case True
  with assms show ?thesis by (auto simp: validateRateLimitKeyParts_def)
next
  case False
  let ?f = "\<lambda>p. case p of None \<Rightarrow> Inr None | Some (src, name) \<Rightarrow>
      ebind (rateLimitKeySourceStringFromProto src)
        (\<lambda>source. ebind (check_key_part source (trim_space name)) (\<lambda>c. Inr (Some c)))"
  obtain qs where qs: "emap ?f parts = Inr qs" "ps = (if qs = [] then [default_key_part] else qs)"
    using assms False by (auto simp: validateRateLimitKeyParts_def)
  have "list_all stored_form qs"
    by (rule emap_all [OF qs(1)]) (auto dest: source_from_proto check_key_part_stored split: option.splits)
  with qs show ?thesis by auto
qed

lemma emap_id: "list_all (\<lambda>x. f x = Inr (Some x)) xs \<Longrightarrow> emap f xs = Inr xs"
  by (induction xs) simp_all

text \<open>Accepted key parts survive storage. The key parts a mutation is accepted with pass the
  validation at load time and come back unchanged, so a stored rule is never dropped or altered by it.\<close>
theorem key_parts_roundtrip:
  assumes "validateRateLimitClientIdentityKeyParts parts = Inr ps"
  shows "validateStoredRateLimitClientIdentityKeyParts ps = Inr ps"
proof -
  have v: "validateRateLimitKeyParts parts = Inr ps"
    "validateRateLimitClientIdentityKeyPartConfig ps = Inr ps"
    using assms by (auto simp: validateRateLimitClientIdentityKeyParts_def validateRateLimitClientIdentityKeyPartConfig_def)
  note stored = validate_key_parts_stored [OF v(1)] and shape = validate_key_parts_shape [OF v(1)]
  let ?f = "\<lambda>p. let source = trim_space (kp_Source p)
     in reject_if (\<not> validStoredRateLimitKeySource source) (InvalidArgument ''rate limit key source is invalid'')
          (ebind (check_key_part source (trim_space (kp_Name p))) (\<lambda>c. Inr (Some c)))"
  have "list_all (\<lambda>p. ?f p = Inr (Some p)) ps"
    using stored by (auto simp: list_all_iff stored_form_def trim_source Let_def)
  then have "emap ?f ps = Inr ps" by (rule emap_id)
  then have "validateStoredRateLimitKeyParts ps = Inr ps"
    using shape by (simp add: validateStoredRateLimitKeyParts_def)
  with v(2) show ?thesis by (simp add: validateStoredRateLimitClientIdentityKeyParts_def)
qed

theorem key_parts_roundtrip_witness:
  "validateStoredRateLimitClientIdentityKeyParts [\<lparr>kp_Source = ''header'', kp_Name = ''X-Api-Key''\<rparr>]
     = Inr [\<lparr>kp_Source = ''header'', kp_Name = ''X-Api-Key''\<rparr>]"
proof (rule key_parts_roundtrip)
  show "validateRateLimitClientIdentityKeyParts [None, Some (HEADER, '' x-api-key '')]
     = Inr [\<lparr>kp_Source = ''header'', kp_Name = ''X-Api-Key''\<rparr>]" by code_simp
qed

text \<open>The algorithm enum round-trips: converting an accepted algorithm to its stored name and back
  gives the same algorithm, the unspecified value becoming the default fixed window.\<close>
theorem algorithm_roundtrip:
  assumes "rateLimitAlgorithmStringFromProto a = Inr s"
  shows "normalizePublicRateLimitAlgorithm s = s \<and>
    protoRateLimitAlgorithmFromString s = (if a = ALGORITHM_UNSPECIFIED then FIXED_WINDOW else a)"
  using assms
  by (cases a) (auto simp: rateLimitAlgorithmStringFromProto_def protoRateLimitAlgorithmFromString_def
      normalizePublicRateLimitAlgorithm_def)

theorem algorithm_roundtrip_witness:
  "protoRateLimitAlgorithmFromString ''leaky_bucket'' = LEAKY_BUCKET"
  using algorithm_roundtrip [of LEAKY_BUCKET "''leaky_bucket''"] by (simp add: rateLimitAlgorithmStringFromProto_def)

end
