(* ===== verification/LaneOwners.thy ===== *)
theory LaneOwners
  imports Prelude "HOL-Library.Word"
begin

text \<open>
  Ownership of tunnel lanes (\<open>internal/tunnel/lane_owners.go\<close>): which Yamux session serves a lane, how a
  replacement takes over, and what memory a generation holds. Every method body is a critical section
  of one mutex, and is one atomic function here; \<open>Close\<close>, which releases the mutex while it joins the
  session, its openings and its growth, is split at those points into the phases of its goroutine.
  \<open>FinishOpen\<close> registers the stream in one section and ends the opening in a second one; no other section
  can tell the two apart, since the owner counts as busy in between, so they are one step here.
  Owners are heap objects addressed by numbers, sessions and streams are opaque numbers. The growth
  closures handed out by \<open>Attach\<close> are the outstanding \<^emph>\<open>grants\<close>: a grant remembers its owner, the slot
  object it was charged to and its bytes. Slots are identified by \<open>sl_id\<close>, because a lane can get a new
  slot while closures of an old one still exist. \<open>laneLimit\<close>, a difference of two values of a Yamux
  function, is a parameter, as are the outcomes of the reservation callbacks and of Yamux queries.
\<close>

section \<open>Data\<close>

definition AggregateGenerationGrowthBytes :: int where "AggregateGenerationGrowthBytes = 67108864"
definition MaxParallelTunnels :: int where "MaxParallelTunnels = 32"

datatype LaneOwnerState = LaneReplacement | LaneServing | LaneDraining

datatype close_phase = Running | Marked | Reset | Removed
  \<comment> \<open>progress of \<open>Close\<close>: not called, \<open>closed\<close> set, application streams reset, removed from the slot\<close>

record LaneOwner =
  ow_lane :: int
  ow_ID :: string
  ow_state :: LaneOwnerState
  ow_session :: "nat option"
  ow_growth :: bool
  ow_phase :: close_phase
  ow_openingCount :: int
  ow_activity :: "64 word"
  ow_idleSince :: gotime
  ow_application :: "nat list"

record laneOwnerSlot =
  sl_id :: nat
  sl_owners :: "nat list"
  sl_serving :: "nat option"
  sl_growth :: int
  sl_reserved :: int

record growth_grant =
  gr_owner :: nat
  gr_lane :: int
  gr_slot :: nat
  gr_bytes :: int

record LaneOwners =
  lg_closed :: bool
  lg_lanes :: "(int, laneOwnerSlot) gomap"
  lg_growth :: int
  lg_owners :: "(nat, LaneOwner) gomap" \<comment> \<open>every owner object ever allocated\<close>
  lg_grants :: "growth_grant list" \<comment> \<open>closures whose \<open>once\<close> has not run\<close>
  lg_next :: nat \<comment> \<open>next fresh object identity\<close>

definition ow_closed :: "LaneOwner \<Rightarrow> bool" where
  "ow_closed o' \<longleftrightarrow> ow_phase o' \<noteq> Running"

definition newLaneOwners :: LaneOwners where
  "newLaneOwners = \<lparr>lg_closed = False, lg_lanes = [], lg_growth = 0, lg_owners = [], lg_grants = [], lg_next = 0\<rparr>"

definition new_owner :: "int \<Rightarrow> string \<Rightarrow> LaneOwner" where
  "new_owner lane oid = \<lparr>ow_lane = lane, ow_ID = oid, ow_state = LaneReplacement, ow_session = None, ow_growth = False,
     ow_phase = Running, ow_openingCount = 0, ow_activity = 0, ow_idleSince = 0, ow_application = []\<rparr>"

abbreviation owner :: "LaneOwners \<Rightarrow> nat \<Rightarrow> LaneOwner option" where
  "owner g p \<equiv> map_of (lg_owners g) p"

definition upd_owner :: "LaneOwners \<Rightarrow> nat \<Rightarrow> LaneOwner \<Rightarrow> LaneOwners" where
  "upd_owner g p x = g\<lparr>lg_owners := AList.update p x (lg_owners g)\<rparr>"

definition upd_slot :: "LaneOwners \<Rightarrow> int \<Rightarrow> laneOwnerSlot \<Rightarrow> LaneOwners" where
  "upd_slot g lane s = g\<lparr>lg_lanes := AList.update lane s (lg_lanes g)\<rparr>"

section \<open>Acquire and Attach\<close>

definition draining_match :: "LaneOwners \<Rightarrow> laneOwnerSlot \<Rightarrow> string \<Rightarrow> bool" where
  "draining_match g slot replaces \<longleftrightarrow> list_ex (\<lambda>p. case owner g p of
     Some x \<Rightarrow> ow_state x = LaneDraining \<and> ow_ID x = replaces | None \<Rightarrow> False) (sl_owners slot)"

definition slot_admits :: "LaneOwners \<Rightarrow> laneOwnerSlot \<Rightarrow> string \<Rightarrow> int \<Rightarrow> bool" where
  \<comment> \<open>the checks of \<open>Acquire\<close> on an existing slot\<close>
  "slot_admits g slot replaces reserved \<longleftrightarrow>
     sl_reserved slot = reserved \<and> length (sl_owners slot) < 2 \<and>
     (case sl_serving slot of
        Some p \<Rightarrow> replaces \<noteq> '''' \<and> (case owner g p of Some x \<Rightarrow> ow_ID x = replaces | None \<Rightarrow> False)
      | None \<Rightarrow> if sl_owners slot \<noteq> [] then draining_match g slot replaces else replaces = '''')"

definition add_owner :: "LaneOwners \<Rightarrow> int \<Rightarrow> laneOwnerSlot \<Rightarrow> string \<Rightarrow> nat option \<times> LaneOwners" where
  "add_owner g lane slot oid =
     (let p = lg_next g
      in (Some p, (upd_slot (upd_owner g p (new_owner lane oid)) lane (slot\<lparr>sl_owners := p # sl_owners slot\<rparr>))
            \<lparr>lg_next := Suc p\<rparr>))"

definition Acquire :: "LaneOwners \<Rightarrow> int \<Rightarrow> string \<Rightarrow> string \<Rightarrow> int \<Rightarrow> bool \<Rightarrow> nat option \<times> LaneOwners" where
  \<comment> \<open>\<open>reserve_ok\<close> is the outcome of the reserve callback; \<open>None\<close> is \<open>ErrLaneOwnerUnavailable\<close>\<close>
  "Acquire g lane oid replaces reserved reserve_ok =
     (if lane < 0 \<or> lane > MaxParallelTunnels \<or> oid = '''' \<or> reserved < 0 then (None, g)
      else if lg_closed g then (None, g)
      else (case map_of (lg_lanes g) lane of
              None \<Rightarrow>
                if replaces \<noteq> '''' then (None, g)
                else if \<not> reserve_ok then (None, g)
                else add_owner (g\<lparr>lg_next := Suc (lg_next g)\<rparr>) lane
                       \<lparr>sl_id = lg_next g, sl_owners = [], sl_serving = None, sl_growth = 0, sl_reserved = reserved\<rparr> oid
            | Some slot \<Rightarrow>
                if slot_admits g slot replaces reserved then add_owner g lane slot oid else (None, g)))"

definition Attach :: "LaneOwners \<Rightarrow> nat \<Rightarrow> nat \<Rightarrow> bool \<Rightarrow> bool \<times> LaneOwners" where
  \<comment> \<open>\<open>aggregate\<close> is the session's \<open>AggregateFlowControlEnabled\<close>\<close>
  "Attach g p s aggregate =
     (case owner g p of
        None \<Rightarrow> (False, g)
      | Some x \<Rightarrow>
          if lg_closed g \<or> ow_closed x \<or> ow_session x \<noteq> None then (False, g)
          else (True, upd_owner g p (x\<lparr>ow_session := Some s, ow_growth := aggregate\<rparr>)))"

definition grow :: "int \<Rightarrow> LaneOwners \<Rightarrow> nat \<Rightarrow> int \<Rightarrow> bool \<Rightarrow> growth_grant option \<times> LaneOwners" where
  \<comment> \<open>the growth callback installed by \<open>Attach\<close>; \<open>reserve_ok\<close> is the outcome of the process-wide reservation\<close>
  "grow laneLimit g p bytes reserve_ok =
     (case owner g p of
        None \<Rightarrow> (None, g)
      | Some x \<Rightarrow>
          (case map_of (lg_lanes g) (ow_lane x) of
             None \<Rightarrow> (None, g)
           | Some slot \<Rightarrow>
               if lg_closed g \<or> ow_closed x \<or> ow_state x = LaneDraining \<or> bytes < 0 \<or>
                  bytes > laneLimit - sl_growth slot \<or> bytes > AggregateGenerationGrowthBytes - lg_growth g
               then (None, g)
               else if \<not> reserve_ok then (None, g)
               else (let gr = \<lparr>gr_owner = p, gr_lane = ow_lane x, gr_slot = sl_id slot, gr_bytes = bytes\<rparr>
                     in (Some gr, (upd_slot g (ow_lane x) (slot\<lparr>sl_growth := sl_growth slot + bytes\<rparr>))
                           \<lparr>lg_growth := lg_growth g + bytes, lg_grants := gr # lg_grants g\<rparr>))))"

definition release_grant :: "LaneOwners \<Rightarrow> growth_grant \<Rightarrow> LaneOwners" where
  \<comment> \<open>the returned release closure, at its first call; the slot it captured may no longer be in the map\<close>
  "release_grant g gr =
     (let g1 = (case map_of (lg_lanes g) (gr_lane gr) of
                  Some slot \<Rightarrow> if sl_id slot = gr_slot gr
                    then upd_slot g (gr_lane gr) (slot\<lparr>sl_growth := sl_growth slot - gr_bytes gr\<rparr>) else g
                | None \<Rightarrow> g)
      in g1\<lparr>lg_growth := lg_growth g - gr_bytes gr, lg_grants := remove1 gr (lg_grants g)\<rparr>)"

section \<open>Publish\<close>

definition busy :: "LaneOwner \<Rightarrow> bool" where
  "busy x \<longleftrightarrow> ow_openingCount x \<noteq> 0 \<or> ow_application x \<noteq> []"

definition idle_violation :: "LaneOwners \<Rightarrow> nat option \<Rightarrow> nat option \<Rightarrow> 64 word \<Rightarrow> bool" where
  "idle_violation g old expected epoch \<longleftrightarrow> old \<noteq> expected \<or>
     (case old of None \<Rightarrow> False | Some q \<Rightarrow>
        (case owner g q of Some y \<Rightarrow> ow_activity y \<noteq> epoch \<or> busy y | None \<Rightarrow> False))"

definition publish :: "LaneOwners \<Rightarrow> nat \<Rightarrow> nat option \<Rightarrow> 64 word \<Rightarrow> bool
    \<Rightarrow> (nat option \<times> bool) option \<times> LaneOwners" where
  \<comment> \<open>the result is \<open>None\<close> when the source would dereference a nil slot\<close>
  "publish g p expected epoch idleOnly =
     (case owner g p of
        None \<Rightarrow> (None, g)
      | Some x \<Rightarrow>
          if lg_closed g \<or> ow_closed x \<or> ow_session x = None then (Some (None, False), g)
          else (case map_of (lg_lanes g) (ow_lane x) of
                  None \<Rightarrow> (None, g)
                | Some slot \<Rightarrow>
                    let old = sl_serving slot in
                    if idleOnly \<and> idle_violation g old expected epoch then (Some (None, False), g)
                    else if old = Some p then (Some (None, True), g)
                    else
                      let g1 = (case old of
                                  None \<Rightarrow> g
                                | Some q \<Rightarrow> (case owner g q of
                                     Some y \<Rightarrow> upd_owner g q (y\<lparr>ow_state := LaneDraining\<rparr>) | None \<Rightarrow> g));
                          g2 = upd_slot g1 (ow_lane x) (slot\<lparr>sl_serving := Some p\<rparr>)
                      in (Some (old, True), upd_owner g2 p (x\<lparr>ow_state := LaneServing\<rparr>))))"

definition Publish :: "LaneOwners \<Rightarrow> nat \<Rightarrow> (nat option \<times> bool) option \<times> LaneOwners" where
  "Publish g p = publish g p None 0 False"

definition idle_begin :: "LaneOwners \<Rightarrow> nat \<Rightarrow> (64 word \<times> nat option \<times> bool)" where
  \<comment> \<open>first critical section of \<open>idleObservation\<close>: epoch, session, empty\<close>
  "idle_begin g p =
     (case owner g p of
        None \<Rightarrow> (0, None, False)
      | Some x \<Rightarrow> (ow_activity x, ow_session x, \<not> lg_closed g \<and> \<not> ow_closed x \<and> \<not> busy x))"

definition idle_end :: "LaneOwners \<Rightarrow> nat \<Rightarrow> 64 word \<Rightarrow> bool \<Rightarrow> gotime \<Rightarrow> duration \<Rightarrow> (64 word \<times> bool) \<times> LaneOwners" where
  \<comment> \<open>second critical section; \<open>drained\<close> includes the answer of \<open>ReceiveOwnersDrained\<close>\<close>
  "idle_end g p epoch drained now quiet =
     (case owner g p of
        None \<Rightarrow> ((0, False), g)
      | Some x \<Rightarrow>
          if \<not> drained \<or> ow_activity x \<noteq> epoch \<or> lg_closed g \<or> ow_closed x
          then ((0, False), upd_owner g p (x\<lparr>ow_activity := (if time_is_zero (ow_idleSince x) then ow_activity x
                    else ow_activity x + 1), ow_idleSince := 0\<rparr>))
          else (let x' = (if time_is_zero (ow_idleSince x) then x\<lparr>ow_idleSince := now\<rparr> else x)
                in ((epoch, time_sub now (ow_idleSince x') \<ge> quiet), upd_owner g p x')))"

section \<open>Openings and streams\<close>

definition BeginOpen :: "LaneOwners \<Rightarrow> nat \<Rightarrow> bool \<times> LaneOwners" where
  "BeginOpen g p =
     (case owner g p of
        None \<Rightarrow> (False, g)
      | Some x \<Rightarrow>
          if ow_closed x \<or> lg_closed g \<or> ow_state x \<noteq> LaneServing then (False, g)
          else (True, upd_owner g p (x\<lparr>ow_activity := ow_activity x + 1, ow_idleSince := 0,
                  ow_openingCount := ow_openingCount x + 1\<rparr>)))"

definition end_opening :: "LaneOwner \<Rightarrow> LaneOwner" where
  "end_opening x = x\<lparr>ow_openingCount := ow_openingCount x - 1, ow_activity := ow_activity x + 1, ow_idleSince := 0\<rparr>"

definition FinishOpen :: "LaneOwners \<Rightarrow> nat \<Rightarrow> nat option \<Rightarrow> bool \<times> LaneOwners" where
  \<comment> \<open>registers the stream unless the owner or the group is closed; the deferred part ends the opening\<close>
  "FinishOpen g p stream =
     (case owner g p of
        None \<Rightarrow> (False, g)
      | Some x \<Rightarrow>
          (case stream of
             None \<Rightarrow> (False, upd_owner g p (end_opening x))
           | Some st \<Rightarrow>
               if ow_closed x \<or> lg_closed g then (False, upd_owner g p (end_opening x))
               else (True, upd_owner g p (end_opening (x\<lparr>ow_application := List.insert st (ow_application x)\<rparr>)))))"

definition release_stream :: "LaneOwners \<Rightarrow> nat \<Rightarrow> nat \<Rightarrow> LaneOwners" where
  "release_stream g p st =
     (case owner g p of
        None \<Rightarrow> g
      | Some x \<Rightarrow> upd_owner g p (x\<lparr>ow_application := removeAll st (ow_application x),
          ow_activity := ow_activity x + 1, ow_idleSince := 0\<rparr>))"

section \<open>Close\<close>

definition close_mark :: "LaneOwners \<Rightarrow> nat \<Rightarrow> LaneOwners" where
  "close_mark g p =
     (case owner g p of
        Some x \<Rightarrow> if ow_phase x = Running then upd_owner g p (x\<lparr>ow_phase := Marked\<rparr>) else g
      | None \<Rightarrow> g)"

definition close_reset :: "LaneOwners \<Rightarrow> nat \<Rightarrow> nat list \<times> LaneOwners" where
  \<comment> \<open>after \<open>openings.Wait\<close>: take the application streams, which the goroutine then resets\<close>
  "close_reset g p =
     (case owner g p of
        Some x \<Rightarrow> if ow_phase x = Marked then (ow_application x, upd_owner g p (x\<lparr>ow_application := [], ow_phase := Reset\<rparr>))
                 else ([], g)
      | None \<Rightarrow> ([], g))"

definition close_remove :: "LaneOwners \<Rightarrow> nat \<Rightarrow> bool option \<times> LaneOwners" where
  \<comment> \<open>after \<open>growth.Release\<close>: leave the slot; \<open>Some True\<close> when the baseline reservation is released,
    \<open>None\<close> when the source would dereference a nil slot\<close>
  "close_remove g p =
     (case owner g p of
        Some x \<Rightarrow>
          if ow_phase x \<noteq> Reset then (Some False, g)
          else (case map_of (lg_lanes g) (ow_lane x) of
                  None \<Rightarrow> (None, g)
                | Some slot \<Rightarrow>
                    let owners' = removeAll p (sl_owners slot);
                        slot' = slot\<lparr>sl_owners := owners',
                          sl_serving := (if sl_serving slot = Some p then None else sl_serving slot)\<rparr>;
                        g1 = upd_owner g p (x\<lparr>ow_phase := Removed\<rparr>)
                    in if owners' = [] then (Some True, g1\<lparr>lg_lanes := AList.delete (ow_lane x) (lg_lanes g1)\<rparr>)
                       else (Some False, upd_slot g1 (ow_lane x) slot'))
      | None \<Rightarrow> (Some False, g))"

definition group_close :: "LaneOwners \<Rightarrow> LaneOwners \<times> nat list" where
  \<comment> \<open>\<open>LaneOwners.Close\<close>: fence the group and collect the owners, which are then closed one by one\<close>
  "group_close g = (g\<lparr>lg_closed := True\<rparr>, concat (map (sl_owners \<circ> snd) (lg_lanes g)))"

section \<open>Queries\<close>

definition ReservedBytes :: "LaneOwners \<Rightarrow> int" where
  "ReservedBytes g = foldl (\<lambda>tot p. tot + sl_reserved (snd p)) (lg_growth g) (lg_lanes g)"

definition ReservedBaselineBytes :: "LaneOwners \<Rightarrow> nat \<Rightarrow> int" where
  "ReservedBaselineBytes g p =
     (case owner g p of
        Some x \<Rightarrow> (case map_of (lg_lanes g) (ow_lane x) of Some slot \<Rightarrow> sl_reserved slot | None \<Rightarrow> 0)
      | None \<Rightarrow> 0)"

definition lane_Snapshot :: "LaneOwners \<Rightarrow> nat list" where
  "lane_Snapshot g = concat (map (sl_owners \<circ> snd) (lg_lanes g))"

definition lane_Find :: "LaneOwners \<Rightarrow> nat option \<Rightarrow> nat option" where
  "lane_Find g s =
     (case s of None \<Rightarrow> None
      | Some _ \<Rightarrow> List.find (\<lambda>p. case owner g p of Some x \<Rightarrow> ow_session x = s | None \<Rightarrow> False) (lane_Snapshot g))"

definition Predecessor :: "LaneOwners \<Rightarrow> int \<Rightarrow> string \<Rightarrow> nat option" where
  "Predecessor g lane oid =
     (case map_of (lg_lanes g) lane of
        None \<Rightarrow> None
      | Some slot \<Rightarrow>
          (case sl_serving slot of
             Some p \<Rightarrow> (case owner g p of Some x \<Rightarrow> if ow_ID x = oid then Some p else None | None \<Rightarrow> None)
           | None \<Rightarrow> List.find (\<lambda>p. case owner g p of
               Some x \<Rightarrow> ow_ID x = oid \<and> ow_state x = LaneDraining \<and> \<not> ow_closed x | None \<Rightarrow> False) (sl_owners slot)))"

definition Quiescent :: "LaneOwners \<Rightarrow> nat \<Rightarrow> bool \<Rightarrow> bool" where
  \<comment> \<open>\<open>drained\<close> is the session's \<open>ReceiveOwnersDrained\<close>\<close>
  "Quiescent g p drained \<longleftrightarrow>
     (case owner g p of Some x \<Rightarrow> \<not> busy x \<and> ow_session x \<noteq> None \<and> drained | None \<Rightarrow> False)"


definition growth_allow :: "LaneOwners \<Rightarrow> nat \<Rightarrow> bool" where
  \<comment> \<open>the \<open>allow\<close> closure \<open>Attach\<close> installs in the growth controller\<close>
  "growth_allow g p \<longleftrightarrow>
     (case owner g p of Some x \<Rightarrow> \<not> lg_closed g \<and> \<not> ow_closed x \<and> ow_state x \<noteq> LaneDraining | None \<Rightarrow> False)"

datatype fence_error = FenceUnavailable | FenceCtxErr | FenceSessionShutdown | FencePingErr

datatype fence_wait = OpeningsJoined | CtxExpired | SessionClosedFirst

definition AcknowledgeOpeningFence :: "LaneOwners \<Rightarrow> nat \<Rightarrow> fence_wait \<Rightarrow> bool \<Rightarrow> bool \<Rightarrow> fence_error option" where
  \<comment> \<open>\<open>wait\<close> is the case the \<open>select\<close> takes, \<open>ctx_err\<close> the later \<open>ctx.Err()\<close>, \<open>ping_err\<close> the outcome of the Ping\<close>
  "AcknowledgeOpeningFence g p wait ctx_err ping_err =
     (case owner g p of
        None \<Rightarrow> Some FenceUnavailable
      | Some x \<Rightarrow>
          if ow_state x \<noteq> LaneDraining then Some FenceUnavailable
          else if ow_session x = None then Some FenceUnavailable
          else if ow_openingCount x \<noteq> 0 \<and> wait = CtxExpired then Some FenceCtxErr
          else if ow_openingCount x \<noteq> 0 \<and> wait = SessionClosedFirst then Some FenceSessionShutdown
          else if ctx_err then Some FenceCtxErr
          else if ping_err then Some FencePingErr
          else None)"

definition publish_idle_begin :: "LaneOwners \<Rightarrow> nat \<Rightarrow> nat option option" where
  \<comment> \<open>first critical section of \<open>PublishWhenIdle\<close>: the serving owner to observe, \<open>None\<close> when it gives up\<close>
  "publish_idle_begin g p =
     (case owner g p of
        None \<Rightarrow> None
      | Some x \<Rightarrow>
          (case map_of (lg_lanes g) (ow_lane x) of
             None \<Rightarrow> None
           | Some slot \<Rightarrow> if lg_closed g \<or> ow_closed x then None else Some (sl_serving slot)))"

definition PublishWhenIdle :: "LaneOwners \<Rightarrow> nat \<Rightarrow> bool \<Rightarrow> gotime \<Rightarrow> duration \<Rightarrow> (nat option \<times> bool) option \<times> LaneOwners" where
  \<comment> \<open>the whole call when no other goroutine runs between its sections\<close>
  "PublishWhenIdle g p drained now quiet =
     (case publish_idle_begin g p of
        None \<Rightarrow> (Some (None, False), g)
      | Some None \<Rightarrow> publish g p None 0 True
      | Some (Some q) \<Rightarrow>
          let (seen, session, empty) = idle_begin g q;
              ((epoch, ok), g') = idle_end g q seen (empty \<and> session \<noteq> None \<and> drained) now quiet
          in if \<not> ok then (Some (None, False), g') else publish g' p (Some q) epoch True)"

section \<open>The transition system\<close>

inductive lane_reach :: "int \<Rightarrow> LaneOwners \<Rightarrow> bool" for laneLimit where
  lane_start: "lane_reach laneLimit newLaneOwners"
| lane_acquire: "lane_reach laneLimit g \<Longrightarrow> lane_reach laneLimit (snd (Acquire g lane oid replaces reserved ok))"
| lane_attach: "lane_reach laneLimit g \<Longrightarrow> lane_reach laneLimit (snd (Attach g p s aggregate))"
| lane_grow: "lane_reach laneLimit g \<Longrightarrow> lane_reach laneLimit (snd (grow laneLimit g p bytes ok))"
| lane_release_grant: "lane_reach laneLimit g \<Longrightarrow> gr \<in> set (lg_grants g) \<Longrightarrow> lane_reach laneLimit (release_grant g gr)"
| lane_publish: "lane_reach laneLimit g \<Longrightarrow> lane_reach laneLimit (snd (publish g p expected epoch idleOnly))"
| lane_idle: "lane_reach laneLimit g \<Longrightarrow> lane_reach laneLimit (snd (idle_end g p epoch drained now quiet))"
| lane_begin: "lane_reach laneLimit g \<Longrightarrow> lane_reach laneLimit (snd (BeginOpen g p))"
| lane_finish: "lane_reach laneLimit g \<Longrightarrow> owner g p = Some x \<Longrightarrow> 0 < ow_openingCount x
    \<Longrightarrow> lane_reach laneLimit (snd (FinishOpen g p stream))"
| lane_stream: "lane_reach laneLimit g \<Longrightarrow> lane_reach laneLimit (release_stream g p st)"
| lane_mark: "lane_reach laneLimit g \<Longrightarrow> lane_reach laneLimit (close_mark g p)"
| lane_reset: "lane_reach laneLimit g \<Longrightarrow> owner g p = Some x \<Longrightarrow> ow_openingCount x = 0
    \<Longrightarrow> lane_reach laneLimit (snd (close_reset g p))"
| lane_remove: "lane_reach laneLimit g \<Longrightarrow> (\<And>gr. gr \<in> set (lg_grants g) \<Longrightarrow> gr_owner gr \<noteq> p)
    \<Longrightarrow> lane_reach laneLimit (snd (close_remove g p))"
| lane_group_close: "lane_reach laneLimit g \<Longrightarrow> lane_reach laneLimit (fst (group_close g))"

section \<open>Invariants\<close>

definition member_ok :: "LaneOwners \<Rightarrow> int \<Rightarrow> laneOwnerSlot \<Rightarrow> nat \<Rightarrow> bool" where
  "member_ok g lane s p \<longleftrightarrow> (\<exists>x. owner g p = Some x \<and> ow_lane x = lane \<and> ow_phase x \<noteq> Removed \<and>
     (ow_state x = LaneServing \<longleftrightarrow> sl_serving s = Some p))"

definition slot_ok :: "LaneOwners \<Rightarrow> int \<Rightarrow> laneOwnerSlot \<Rightarrow> bool" where
  "slot_ok g lane s \<longleftrightarrow> distinct (sl_owners s) \<and> sl_owners s \<noteq> [] \<and> length (sl_owners s) \<le> 2 \<and> sl_id s < lg_next g \<and>
     (\<forall>p\<in>set (sl_owners s). member_ok g lane s p) \<and> (\<forall>p. sl_serving s = Some p \<longrightarrow> p \<in> set (sl_owners s))"

definition owner_ok :: "LaneOwners \<Rightarrow> nat \<Rightarrow> LaneOwner \<Rightarrow> bool" where
  "owner_ok g p x \<longleftrightarrow> p < lg_next g \<and> 0 \<le> ow_openingCount x \<and>
     (ow_phase x = Reset \<or> ow_phase x = Removed \<longrightarrow> ow_openingCount x = 0 \<and> ow_application x = []) \<and>
     (ow_phase x \<noteq> Removed \<longrightarrow> (\<exists>s. map_of (lg_lanes g) (ow_lane x) = Some s \<and> p \<in> set (sl_owners s)))"

definition registry_inv :: "LaneOwners \<Rightarrow> bool" where
  "registry_inv g \<longleftrightarrow> gm_wf (lg_lanes g) \<and> gm_wf (lg_owners g) \<and>
     (\<forall>lane s. map_of (lg_lanes g) lane = Some s \<longrightarrow> slot_ok g lane s) \<and>
     (\<forall>p x. owner g p = Some x \<longrightarrow> owner_ok g p x) \<and>
     (\<forall>l l' s s'. map_of (lg_lanes g) l = Some s \<longrightarrow> map_of (lg_lanes g) l' = Some s' \<longrightarrow> sl_id s = sl_id s' \<longrightarrow> l = l')"

definition slot_bytes :: "growth_grant list \<Rightarrow> nat \<Rightarrow> int" where
  "slot_bytes grs i = (\<Sum>gr\<leftarrow>filter (\<lambda>gr. gr_slot gr = i) grs. gr_bytes gr)"

definition grant_ok :: "LaneOwners \<Rightarrow> growth_grant \<Rightarrow> bool" where
  "grant_ok g gr \<longleftrightarrow> 0 \<le> gr_bytes gr \<and>
     (\<exists>s. map_of (lg_lanes g) (gr_lane gr) = Some s \<and> sl_id s = gr_slot gr \<and> gr_owner gr \<in> set (sl_owners s))"

definition ledger_inv :: "int \<Rightarrow> LaneOwners \<Rightarrow> bool" where
  "ledger_inv laneLimit g \<longleftrightarrow>
     lg_growth g = (\<Sum>gr\<leftarrow>lg_grants g. gr_bytes gr) \<and> lg_growth g \<le> AggregateGenerationGrowthBytes \<and>
     (\<forall>gr\<in>set (lg_grants g). grant_ok g gr) \<and>
     (\<forall>lane s. map_of (lg_lanes g) lane = Some s \<longrightarrow>
        sl_growth s = slot_bytes (lg_grants g) (sl_id s) \<and> sl_growth s \<le> laneLimit)"

lemma lane_upd_simps [simp]:
  "lg_lanes (upd_owner g p x) = lg_lanes g" "owner (upd_owner g p x) q = (if q = p then Some x else owner g q)"
  "lg_growth (upd_owner g p x) = lg_growth g" "lg_grants (upd_owner g p x) = lg_grants g"
  "lg_closed (upd_owner g p x) = lg_closed g" "lg_next (upd_owner g p x) = lg_next g"
  "lg_owners (upd_slot g lane s) = lg_owners g" "lg_growth (upd_slot g lane s) = lg_growth g"
  "lg_grants (upd_slot g lane s) = lg_grants g" "lg_closed (upd_slot g lane s) = lg_closed g"
  "lg_next (upd_slot g lane s) = lg_next g"
  "map_of (lg_lanes (upd_slot g lane s)) l = (if l = lane then Some s else map_of (lg_lanes g) l)"
  by (simp_all add: upd_owner_def upd_slot_def)

lemma lane_upd_wf [simp]:
  "gm_wf (lg_owners g) \<Longrightarrow> gm_wf (lg_owners (upd_owner g p x))"
  "gm_wf (lg_lanes g) \<Longrightarrow> gm_wf (lg_lanes (upd_slot g lane s))"
  by (simp_all add: upd_owner_def upd_slot_def)

lemma registry_invD:
  assumes "registry_inv g"
  shows "gm_wf (lg_lanes g)" "gm_wf (lg_owners g)"
    "map_of (lg_lanes g) lane = Some s \<Longrightarrow> slot_ok g lane s"
    "owner g p = Some x \<Longrightarrow> owner_ok g p x"
    "map_of (lg_lanes g) l = Some s \<Longrightarrow> map_of (lg_lanes g) l' = Some s' \<Longrightarrow> sl_id s = sl_id s' \<Longrightarrow> l = l'"
  using assms by (simp_all add: registry_inv_def)

lemma registry_upd_owner:
  assumes inv: "registry_inv g" and x: "owner g p = Some x"
    and same: "ow_lane x' = ow_lane x" "ow_state x' = ow_state x" "ow_phase x' = Removed \<longleftrightarrow> ow_phase x = Removed"
    and cnt: "0 \<le> ow_openingCount x'"
      "ow_phase x' = Reset \<or> ow_phase x' = Removed \<Longrightarrow> ow_openingCount x' = 0 \<and> ow_application x' = []"
  shows "registry_inv (upd_owner g p x')"
proof -
  have "slot_ok (upd_owner g p x') lane s" if "map_of (lg_lanes g) lane = Some s" for lane s
    using registry_invD(3) [OF inv that] x same by (auto simp: slot_ok_def member_ok_def)
  moreover have "owner_ok (upd_owner g p x') q y" if "owner (upd_owner g p x') q = Some y" for q y
    using registry_invD(4) [OF inv x] registry_invD(4) [OF inv, of q y] that same cnt
    by (auto simp: owner_ok_def split: if_splits)
  ultimately show ?thesis using inv unfolding registry_inv_def by simp
qed

lemma ledger_upd_owner: "ledger_inv k (upd_owner g p x) \<longleftrightarrow> ledger_inv k g"
  by (simp add: ledger_inv_def grant_ok_def)

lemma registry_local_ops:
  assumes inv: "registry_inv g"
  shows "registry_inv (snd (Attach g p s aggregate))" "registry_inv (snd (idle_end g p epoch drained now quiet))"
    "registry_inv (snd (BeginOpen g p))" "registry_inv (release_stream g p st)" "registry_inv (close_mark g p)"
    "owner g p = Some x \<Longrightarrow> 0 < ow_openingCount x \<Longrightarrow> registry_inv (snd (FinishOpen g p stream))"
    "owner g p = Some x \<Longrightarrow> ow_openingCount x = 0 \<Longrightarrow> registry_inv (snd (close_reset g p))"
proof -
  note upd = registry_upd_owner [OF inv]
  have ok: "owner_ok g p y" if "owner g p = Some y" for y by (rule registry_invD(4) [OF inv that])
  show "registry_inv (snd (Attach g p s aggregate))"
    using inv ok by (auto simp: Attach_def owner_ok_def intro!: upd split: option.split)
  show "registry_inv (snd (idle_end g p epoch drained now quiet))"
    using inv ok by (auto simp: idle_end_def owner_ok_def Let_def intro!: upd split: option.split)
  show "registry_inv (snd (BeginOpen g p))"
    using inv ok by (auto simp: BeginOpen_def owner_ok_def ow_closed_def intro!: upd split: option.split)
  show "registry_inv (release_stream g p st)"
    using inv ok by (auto simp: release_stream_def owner_ok_def intro!: upd split: option.split)
  show "registry_inv (close_mark g p)"
    using inv ok by (auto simp: close_mark_def owner_ok_def intro!: upd split: option.split)
  show "owner g p = Some x \<Longrightarrow> 0 < ow_openingCount x \<Longrightarrow> registry_inv (snd (FinishOpen g p stream))"
    using inv ok by (auto simp: FinishOpen_def owner_ok_def end_opening_def ow_closed_def intro!: upd split: option.split)
  show "owner g p = Some x \<Longrightarrow> ow_openingCount x = 0 \<Longrightarrow> registry_inv (snd (close_reset g p))"
    using inv ok by (auto simp: close_reset_def owner_ok_def intro!: upd)
qed

lemma ledger_local_ops:
  assumes "ledger_inv k g"
  shows "ledger_inv k (snd (Attach g p s aggregate))" "ledger_inv k (snd (idle_end g p epoch drained now quiet))"
    "ledger_inv k (snd (BeginOpen g p))" "ledger_inv k (release_stream g p st)" "ledger_inv k (close_mark g p)"
    "ledger_inv k (snd (FinishOpen g p stream))" "ledger_inv k (snd (close_reset g p))"
  using assms
  by (auto simp: Attach_def idle_end_def BeginOpen_def release_stream_def close_mark_def FinishOpen_def close_reset_def
      ledger_upd_owner Let_def split: option.split)

lemma next_fresh:
  assumes "registry_inv g"
  shows "owner g (lg_next g) = None" "map_of (lg_lanes g) lane = Some s \<Longrightarrow> lg_next g \<notin> set (sl_owners s)"
proof -
  show n: "owner g (lg_next g) = None"
    using registry_invD(4) [OF assms, of "lg_next g"] by (cases "owner g (lg_next g)") (auto simp: owner_ok_def)
  show "map_of (lg_lanes g) lane = Some s \<Longrightarrow> lg_next g \<notin> set (sl_owners s)"
    using registry_invD(3) [OF assms, of lane s] n by (auto simp: slot_ok_def member_ok_def)
qed

lemma registry_add_owner:
  assumes inv: "registry_inv g" and len: "length (sl_owners s) < 2"
    and s: "map_of (lg_lanes g) lane = Some s \<or>
      (map_of (lg_lanes g) lane = None \<and> sl_owners s = [] \<and> sl_serving s = None \<and> sl_id s < lg_next g \<and>
       (\<forall>l t. map_of (lg_lanes g) l = Some t \<longrightarrow> sl_id t \<noteq> sl_id s))"
  shows "registry_inv (snd (add_owner g lane s oid))"
proof -
  let ?p = "lg_next g" and ?g = "snd (add_owner g lane s oid)"
  let ?s = "s\<lparr>sl_owners := lg_next g # sl_owners s\<rparr>"
  have g: "lg_next ?g = Suc ?p" "map_of (lg_lanes ?g) l = (if l = lane then Some ?s else map_of (lg_lanes g) l)"
      "owner ?g q = (if q = ?p then Some (new_owner lane oid) else owner g q)" for l q
    by (simp_all add: add_owner_def Let_def)
  note fresh = next_fresh [OF inv]
  have old: "slot_ok g l t" if "map_of (lg_lanes g) l = Some t" for l t by (rule registry_invD(3) [OF inv that])
  have keep: "member_ok ?g l t q" if "member_ok g l t q" for l t q
    using that fresh(1) by (auto simp: member_ok_def g)
  have other: "slot_ok ?g l t" if "map_of (lg_lanes g) l = Some t" for l t
    using old [OF that] keep by (auto simp: slot_ok_def g(1))
  have "sl_serving s \<noteq> Some ?p" "?p \<notin> set (sl_owners s)" "sl_id s < ?p"
      "distinct (sl_owners s)" "\<forall>q\<in>set (sl_owners s). member_ok g lane s q" "\<forall>q. sl_serving s = Some q \<longrightarrow> q \<in> set (sl_owners s)"
    using s old [of lane s] fresh(2) [of lane s] by (auto simp: slot_ok_def)
  then have new: "slot_ok ?g lane ?s"
    using len keep by (auto simp: slot_ok_def g(1)) (auto simp: member_ok_def g new_owner_def)
  have slots: "slot_ok ?g l t" if "map_of (lg_lanes ?g) l = Some t" for l t
    using that new other by (auto simp: g(2) split: if_splits)
  have owners: "owner_ok ?g q x" if "owner ?g q = Some x" for q x
  proof (cases "q = ?p")
    case True
    then show ?thesis using that by (auto simp: g owner_ok_def new_owner_def)
  next
    case False
    then have "owner_ok g q x" using that registry_invD(4) [OF inv] by (simp add: g(3))
    then show ?thesis using s by (auto simp: owner_ok_def g(1,2))
  qed
  have ids: "l = l'" if "map_of (lg_lanes ?g) l = Some t" "map_of (lg_lanes ?g) l' = Some t'" "sl_id t = sl_id t'" for l l' t t'
    using that registry_invD(5) [OF inv, of l _ l'] s by (fastforce simp: g(2) split: if_splits)
  have "gm_wf (lg_lanes ?g) \<and> gm_wf (lg_owners ?g)"
    using registry_invD(1,2) [OF inv] by (simp add: add_owner_def upd_owner_def upd_slot_def Let_def)
  then show ?thesis unfolding registry_inv_def using slots owners ids by blast
qed

lemma registry_next: "registry_inv g \<Longrightarrow> registry_inv (g\<lparr>lg_next := Suc (lg_next g)\<rparr>)"
  unfolding registry_inv_def slot_ok_def owner_ok_def member_ok_def by (fastforce simp: less_SucI)

lemma registry_acquire:
  assumes inv: "registry_inv g"
  shows "registry_inv (snd (Acquire g lane oid replaces reserved ok))"
proof (cases "map_of (lg_lanes g) lane")
  case None
  have "sl_id t \<noteq> lg_next g" if "map_of (lg_lanes g) l = Some t" for l t
    using registry_invD(3) [OF inv that] by (auto simp: slot_ok_def)
  then have "registry_inv (snd (add_owner (g\<lparr>lg_next := Suc (lg_next g)\<rparr>) lane
      \<lparr>sl_id = lg_next g, sl_owners = [], sl_serving = None, sl_growth = 0, sl_reserved = reserved\<rparr> oid))"
    using None by (intro registry_add_owner registry_next inv) auto
  with None inv show ?thesis by (simp add: Acquire_def)
next
  case (Some s)
  then show ?thesis
    using inv registry_add_owner [OF inv, of s lane oid] by (simp add: Acquire_def slot_admits_def)
qed

lemma slot_bytes_fresh: "(\<And>gr. gr \<in> set grs \<Longrightarrow> gr_slot gr \<noteq> i) \<Longrightarrow> slot_bytes grs i = 0"
  by (auto simp: slot_bytes_def filter_empty_conv)

lemma ledger_invD:
  assumes "ledger_inv k g"
  shows "lg_growth g = (\<Sum>gr\<leftarrow>lg_grants g. gr_bytes gr)" "lg_growth g \<le> AggregateGenerationGrowthBytes"
    "gr \<in> set (lg_grants g) \<Longrightarrow> grant_ok g gr"
    "map_of (lg_lanes g) lane = Some s \<Longrightarrow> sl_growth s = slot_bytes (lg_grants g) (sl_id s)"
    "map_of (lg_lanes g) lane = Some s \<Longrightarrow> sl_growth s \<le> k"
  using assms unfolding ledger_inv_def by blast+

lemma ledger_invI:
  assumes "lg_growth g = (\<Sum>gr\<leftarrow>lg_grants g. gr_bytes gr)" "lg_growth g \<le> AggregateGenerationGrowthBytes"
    "\<And>gr. gr \<in> set (lg_grants g) \<Longrightarrow> grant_ok g gr"
    "\<And>lane s. map_of (lg_lanes g) lane = Some s \<Longrightarrow> sl_growth s = slot_bytes (lg_grants g) (sl_id s) \<and> sl_growth s \<le> k"
  shows "ledger_inv k g"
  using assms unfolding ledger_inv_def by blast

lemma ledger_add_owner:
  assumes inv: "ledger_inv k g" and k: "0 \<le> k"
    and s: "map_of (lg_lanes g) lane = Some s \<or>
      (map_of (lg_lanes g) lane = None \<and> sl_growth s = 0 \<and> (\<forall>gr\<in>set (lg_grants g). gr_slot gr \<noteq> sl_id s))"
  shows "ledger_inv k (snd (add_owner g lane s oid))"
proof (rule ledger_invI)
  let ?g = "snd (add_owner g lane s oid)"
  have g: "lg_growth ?g = lg_growth g" "lg_grants ?g = lg_grants g"
    "map_of (lg_lanes ?g) l = (if l = lane then Some (s\<lparr>sl_owners := lg_next g # sl_owners s\<rparr>) else map_of (lg_lanes g) l)" for l
    by (simp_all add: add_owner_def Let_def)
  show "lg_growth ?g = (\<Sum>gr\<leftarrow>lg_grants ?g. gr_bytes gr)" "lg_growth ?g \<le> AggregateGenerationGrowthBytes"
    unfolding g using ledger_invD(1,2) [OF inv] by simp_all
  have ok: "sl_growth s = slot_bytes (lg_grants g) (sl_id s) \<and> sl_growth s \<le> k"
    using s ledger_invD(4,5) [OF inv, of lane s] k slot_bytes_fresh [of "lg_grants g" "sl_id s"] by auto
  show "grant_ok ?g gr" if "gr \<in> set (lg_grants ?g)" for gr
    using ledger_invD(3) [OF inv, of gr] that s by (fastforce simp: grant_ok_def g)
  show "sl_growth t = slot_bytes (lg_grants ?g) (sl_id t) \<and> sl_growth t \<le> k" if "map_of (lg_lanes ?g) l = Some t" for l t
    using that ok ledger_invD(4,5) [OF inv, of l t] by (auto simp: g split: if_splits)
qed

lemma ledger_next [simp]: "ledger_inv k (g\<lparr>lg_next := n\<rparr>) \<longleftrightarrow> ledger_inv k g"
  by (simp add: ledger_inv_def grant_ok_def)

lemma ledger_acquire:
  assumes reg: "registry_inv g" and inv: "ledger_inv k g" and k: "0 \<le> k"
  shows "ledger_inv k (snd (Acquire g lane oid replaces reserved ok))"
proof (cases "map_of (lg_lanes g) lane")
  case None
  have "gr_slot gr \<noteq> lg_next g" if "gr \<in> set (lg_grants g)" for gr
    using inv that registry_invD(3) [OF reg] by (fastforce simp: ledger_inv_def grant_ok_def slot_ok_def)
  then have "ledger_inv k (snd (add_owner (g\<lparr>lg_next := Suc (lg_next g)\<rparr>) lane
      \<lparr>sl_id = lg_next g, sl_owners = [], sl_serving = None, sl_growth = 0, sl_reserved = reserved\<rparr> oid))"
    using None k inv by (intro ledger_add_owner) auto
  with None inv show ?thesis by (simp add: Acquire_def)
next
  case (Some s)
  then show ?thesis using inv ledger_add_owner [OF inv k, of lane s oid] by (simp add: Acquire_def)
qed

lemma registry_upd_growth:
  assumes inv: "registry_inv g" and s: "map_of (lg_lanes g) lane = Some s"
  shows "registry_inv (upd_slot g lane (s\<lparr>sl_growth := b\<rparr>))"
proof -
  let ?g = "upd_slot g lane (s\<lparr>sl_growth := b\<rparr>)"
  have slots: "slot_ok ?g l t" if "map_of (lg_lanes ?g) l = Some t" for l t
    using that registry_invD(3) [OF inv, of l] s by (auto simp: slot_ok_def member_ok_def split: if_splits)
  have owners: "owner_ok ?g q x" if "owner ?g q = Some x" for q x
    using that registry_invD(4) [OF inv, of q x] s by (auto simp: owner_ok_def)
  have before: "\<exists>t0. map_of (lg_lanes g) l = Some t0 \<and> sl_id t0 = sl_id t" if "map_of (lg_lanes ?g) l = Some t" for l t
    using that s by (auto split: if_splits)
  have ids: "l = l'" if "map_of (lg_lanes ?g) l = Some t" "map_of (lg_lanes ?g) l' = Some t'" "sl_id t = sl_id t'" for l l' t t'
    using before [OF that(1)] before [OF that(2)] that(3) registry_invD(5) [OF inv, of l _ l'] by metis
  have "gm_wf (lg_lanes ?g) \<and> gm_wf (lg_owners ?g)"
    using registry_invD(1,2) [OF inv] by (simp add: upd_slot_def)
  then show ?thesis unfolding registry_inv_def using slots owners ids by blast
qed

lemma registry_ledger_only [simp]: "registry_inv (g\<lparr>lg_growth := n, lg_grants := grs\<rparr>) \<longleftrightarrow> registry_inv g"
  by (simp add: registry_inv_def slot_ok_def owner_ok_def member_ok_def)

lemma registry_grow: "registry_inv g \<Longrightarrow> registry_inv (snd (grow k g p bytes ok))"
  by (auto simp: grow_def Let_def registry_upd_growth split: option.split)

lemma registry_release_grant: "registry_inv g \<Longrightarrow> registry_inv (release_grant g gr)"
  by (auto simp: release_grant_def Let_def registry_upd_growth split: option.split)

lemma slot_bytes_Cons: "slot_bytes (gr # grs) i = (if gr_slot gr = i then gr_bytes gr else 0) + slot_bytes grs i"
  by (simp add: slot_bytes_def)

lemma slot_bytes_remove1:
  "gr \<in> set grs \<Longrightarrow> slot_bytes (remove1 gr grs) i = slot_bytes grs i - (if gr_slot gr = i then gr_bytes gr else 0)"
  by (induction grs) (auto simp: slot_bytes_Cons)

lemma sum_bytes_remove1:
  "gr \<in> set grs \<Longrightarrow> (\<Sum>x\<leftarrow>remove1 gr grs. gr_bytes x) = (\<Sum>x\<leftarrow>grs. gr_bytes x) - gr_bytes gr"
  by (induction grs) auto

lemma ledger_grow:
  assumes reg: "registry_inv g" and inv: "ledger_inv k g"
  shows "ledger_inv k (snd (grow k g p bytes ok))"
proof (cases "fst (grow k g p bytes ok)")
  case None
  then have "snd (grow k g p bytes ok) = g" by (auto simp: grow_def Let_def split: option.splits if_splits)
  then show ?thesis using inv by simp
next
  case (Some gr)
  then obtain x s where x: "owner g p = Some x" "map_of (lg_lanes g) (ow_lane x) = Some s" "ow_phase x = Running"
      "0 \<le> bytes" "bytes \<le> k - sl_growth s" "bytes \<le> AggregateGenerationGrowthBytes - lg_growth g"
    and g': "snd (grow k g p bytes ok) = (upd_slot g (ow_lane x) (s\<lparr>sl_growth := sl_growth s + bytes\<rparr>))
        \<lparr>lg_growth := lg_growth g + bytes, lg_grants := gr # lg_grants g\<rparr>"
    and gr: "gr = \<lparr>gr_owner = p, gr_lane = ow_lane x, gr_slot = sl_id s, gr_bytes = bytes\<rparr>"
    by (auto simp: grow_def Let_def ow_closed_def not_less split: option.splits if_splits)
  let ?g = "snd (grow k g p bytes ok)"
  have mem: "p \<in> set (sl_owners s)" using registry_invD(4) [OF reg x(1)] x(2,3) by (auto simp: owner_ok_def)
  have ok_new: "grant_ok ?g gr" using x mem gr by (auto simp: grant_ok_def g')
  have ok_old: "grant_ok ?g h" if "h \<in> set (lg_grants g)" for h
    using inv that x(2) by (fastforce simp: ledger_inv_def grant_ok_def g')
  have slots: "sl_growth t = slot_bytes (lg_grants ?g) (sl_id t) \<and> sl_growth t \<le> k" if "map_of (lg_lanes ?g) l = Some t" for l t
  proof (cases "l = ow_lane x")
    case True
    then show ?thesis using that ledger_invD(4) [OF inv x(2)] x(5) gr by (auto simp: g' slot_bytes_Cons)
  next
    case False
    then have t: "map_of (lg_lanes g) l = Some t" using that by (simp add: g')
    then have "sl_id t \<noteq> sl_id s" using registry_invD(5) [OF reg t x(2)] False by blast
    then show ?thesis using ledger_invD(4,5) [OF inv t] gr by (simp add: g' slot_bytes_Cons)
  qed
  have sums: "lg_growth ?g = (\<Sum>h\<leftarrow>lg_grants ?g. gr_bytes h)" "lg_growth ?g \<le> AggregateGenerationGrowthBytes"
    "set (lg_grants ?g) = insert gr (set (lg_grants g))"
    unfolding g' using ledger_invD(1) [OF inv] x(6) gr by simp_all
  have "grant_ok ?g h" if "h \<in> set (lg_grants ?g)" for h
    using that ok_new ok_old unfolding sums(3) by blast
  then show ?thesis using sums(1,2) slots by (rule_tac ledger_invI)
qed

lemma ledger_release_grant:
  assumes reg: "registry_inv g" and inv: "ledger_inv k g" and gr: "gr \<in> set (lg_grants g)"
  shows "ledger_inv k (release_grant g gr)"
proof -
  obtain s where s: "map_of (lg_lanes g) (gr_lane gr) = Some s" "sl_id s = gr_slot gr" "0 \<le> gr_bytes gr"
    using inv gr by (auto simp: ledger_inv_def grant_ok_def)
  let ?g = "release_grant g gr"
  have g': "?g = (upd_slot g (gr_lane gr) (s\<lparr>sl_growth := sl_growth s - gr_bytes gr\<rparr>))
      \<lparr>lg_growth := lg_growth g - gr_bytes gr, lg_grants := remove1 gr (lg_grants g)\<rparr>"
    using s by (simp add: release_grant_def Let_def)
  have ok_old: "grant_ok ?g h" if "h \<in> set (remove1 gr (lg_grants g))" for h
    using inv set_remove1_subset [of gr "lg_grants g"] that s(1) by (fastforce simp: ledger_inv_def grant_ok_def g')
  have slots: "sl_growth t = slot_bytes (lg_grants ?g) (sl_id t) \<and> sl_growth t \<le> k" if "map_of (lg_lanes ?g) l = Some t" for l t
  proof (cases "l = gr_lane gr")
    case True
    then show ?thesis using that ledger_invD(4,5) [OF inv s(1)] s by (auto simp: g' slot_bytes_remove1 [OF gr])
  next
    case False
    then have t: "map_of (lg_lanes g) l = Some t" using that by (simp add: g')
    then have "sl_id t \<noteq> gr_slot gr" using registry_invD(5) [OF reg t s(1)] s(2) False by auto
    then show ?thesis using ledger_invD(4,5) [OF inv t] by (simp add: g' slot_bytes_remove1 [OF gr])
  qed
  have sums: "lg_growth ?g = (\<Sum>h\<leftarrow>lg_grants ?g. gr_bytes h)" "lg_growth ?g \<le> AggregateGenerationGrowthBytes"
    "lg_grants ?g = remove1 gr (lg_grants g)"
    unfolding g' using ledger_invD(1,2) [OF inv] s(3) by (simp_all add: sum_bytes_remove1 [OF gr])
  have "grant_ok ?g h" if "h \<in> set (lg_grants ?g)" for h
    using that ok_old unfolding sums(3) by blast
  then show ?thesis using sums(1,2) slots by (rule_tac ledger_invI)
qed

lemma lane_of_member:
  assumes "registry_inv g" "map_of (lg_lanes g) lane = Some s" "p \<in> set (sl_owners s)" "owner g p = Some x"
  shows "ow_lane x = lane" "ow_phase x \<noteq> Removed" "ow_state x = LaneServing \<longleftrightarrow> sl_serving s = Some p"
  using registry_invD(3) [OF assms(1,2)] assms(3,4) by (auto simp: slot_ok_def member_ok_def)

lemma publish_changes:
  assumes "publish g p expected epoch idleOnly = (r, g')"
  obtains "g' = g" "\<And>q. r \<noteq> Some (Some q, True)"
  | x s where "owner g p = Some x" "map_of (lg_lanes g) (ow_lane x) = Some s" "ow_phase x = Running" "sl_serving s \<noteq> Some p"
      "r = Some (sl_serving s, True)"
      "\<not> (idleOnly \<and> idle_violation g (sl_serving s) expected epoch)"
      "lg_lanes g' = AList.update (ow_lane x) (s\<lparr>sl_serving := Some p\<rparr>) (lg_lanes g)"
      "\<And>q. owner g' q = (if q = p then Some (x\<lparr>ow_state := LaneServing\<rparr>)
         else if sl_serving s = Some q then map_option (\<lambda>y. y\<lparr>ow_state := LaneDraining\<rparr>) (owner g q) else owner g q)"
      "gm_wf (lg_owners g) \<Longrightarrow> gm_wf (lg_owners g')" "lg_next g' = lg_next g" "lg_growth g' = lg_growth g"
      "lg_grants g' = lg_grants g" "lg_closed g' = lg_closed g"
proof (cases "g' = g \<and> (\<forall>q. r \<noteq> Some (Some q, True))")
  case False
  then obtain x s where x: "owner g p = Some x" "map_of (lg_lanes g) (ow_lane x) = Some s" "ow_phase x = Running"
      "sl_serving s \<noteq> Some p" "r = Some (sl_serving s, True)" "\<not> (idleOnly \<and> idle_violation g (sl_serving s) expected epoch)"
    and g': "g' = upd_owner (upd_slot (case sl_serving s of None \<Rightarrow> g | Some q \<Rightarrow> (case owner g q of
            Some y \<Rightarrow> upd_owner g q (y\<lparr>ow_state := LaneDraining\<rparr>) | None \<Rightarrow> g)) (ow_lane x) (s\<lparr>sl_serving := Some p\<rparr>))
          p (x\<lparr>ow_state := LaneServing\<rparr>)"
    using assms by (auto simp: publish_def Let_def ow_closed_def split: option.splits if_splits)
  show ?thesis
    by (rule that(2) [OF x])
      (auto simp: g' upd_slot_def upd_owner_def split: option.splits)
qed (use that(1) in blast)

lemma registry_publish:
  assumes inv: "registry_inv g" and pub: "publish g p expected epoch idleOnly = (r, g')"
  shows "registry_inv g'"
  using publish_changes [OF pub]
proof cases
  case 1
  then show ?thesis using inv by simp
next
  case (2 x s)
  let ?s = "s\<lparr>sl_serving := Some p\<rparr>"
  note own = 2(8)
  have lanes: "map_of (lg_lanes g') l = (if l = ow_lane x then Some ?s else map_of (lg_lanes g) l)" for l
    by (simp add: 2(7))
  note ok = registry_invD(3) [OF inv 2(2)]
  have p: "p \<in> set (sl_owners s)" using registry_invD(4) [OF inv 2(1)] 2(2,3) by (auto simp: owner_ok_def)
  have mine: "slot_ok g' (ow_lane x) ?s"
    using ok p 2(1,3) by (auto simp: slot_ok_def member_ok_def own 2(10))
  have other: "slot_ok g' l t" if t: "map_of (lg_lanes g) l = Some t" "l \<noteq> ow_lane x" for l t
  proof -
    have "member_ok g' l t q" if q: "q \<in> set (sl_owners t)" for q
    proof -
      obtain y where y: "owner g q = Some y" "member_ok g l t q"
        using registry_invD(3) [OF inv t(1)] q by (auto simp: slot_ok_def member_ok_def)
      have "ow_lane y = l" by (rule lane_of_member(1) [OF inv t(1) q y(1)])
      moreover have "q \<noteq> p" using \<open>ow_lane y = l\<close> t(2) y(1) 2(1) by auto
      moreover have "sl_serving s \<noteq> Some q"
        using ok lane_of_member(1) [OF inv 2(2) _ y(1)] \<open>ow_lane y = l\<close> t(2) by (auto simp: slot_ok_def)
      ultimately show ?thesis using y by (simp add: member_ok_def own)
    qed
    then show ?thesis using registry_invD(3) [OF inv t(1)] by (simp add: slot_ok_def 2(10))
  qed
  have slots: "slot_ok g' l t" if "map_of (lg_lanes g') l = Some t" for l t
    using that mine other by (auto simp: lanes split: if_splits)
  have owners: "owner_ok g' q y" if "owner g' q = Some y" for q y
    using that registry_invD(4) [OF inv, of q] registry_invD(4) [OF inv 2(1)] 2(2,3) p
    by (auto simp: own owner_ok_def lanes 2(10) split: if_splits)
  have before: "\<exists>t0. map_of (lg_lanes g) l = Some t0 \<and> sl_id t0 = sl_id t" if "map_of (lg_lanes g') l = Some t" for l t
    using that 2(2) by (auto simp: lanes split: if_splits)
  have ids: "l = l'" if "map_of (lg_lanes g') l = Some t" "map_of (lg_lanes g') l' = Some t'" "sl_id t = sl_id t'" for l l' t t'
    using before [OF that(1)] before [OF that(2)] that(3) registry_invD(5) [OF inv, of l _ l'] by metis
  have "gm_wf (lg_lanes g') \<and> gm_wf (lg_owners g')"
    using registry_invD(1,2) [OF inv] 2(7,9) by simp
  then show ?thesis unfolding registry_inv_def using slots owners ids by blast
qed

lemma ledger_publish:
  assumes inv: "ledger_inv k g" and pub: "publish g p expected epoch idleOnly = (r, g')"
  shows "ledger_inv k g'"
  using publish_changes [OF pub]
proof cases
  case 1
  then show ?thesis using inv by simp
next
  case (2 x s)
  have lanes: "map_of (lg_lanes g') l = (if l = ow_lane x then Some (s\<lparr>sl_serving := Some p\<rparr>) else map_of (lg_lanes g) l)" for l
    by (simp add: 2(7))
  have "grant_ok g' h" if "h \<in> set (lg_grants g')" for h
    using ledger_invD(3) [OF inv, of h] that 2(2) by (fastforce simp: grant_ok_def lanes 2(12))
  moreover have "sl_growth t = slot_bytes (lg_grants g') (sl_id t) \<and> sl_growth t \<le> k" if "map_of (lg_lanes g') l = Some t" for l t
    using that ledger_invD(4,5) [OF inv 2(2)] ledger_invD(4,5) [OF inv, of l t] by (auto simp: lanes 2(12) split: if_splits)
  moreover have "lg_growth g' = (\<Sum>h\<leftarrow>lg_grants g'. gr_bytes h)" "lg_growth g' \<le> AggregateGenerationGrowthBytes"
    using ledger_invD(1,2) [OF inv] by (simp_all add: 2(11,12))
  ultimately show ?thesis by (rule_tac ledger_invI)
qed

lemma remove_changes:
  assumes "close_remove g p = (r, g')" "registry_inv g"
  obtains "g' = g" "r = Some False" "\<nexists>x. owner g p = Some x \<and> ow_phase x = Reset"
  | x s where "owner g p = Some x" "map_of (lg_lanes g) (ow_lane x) = Some s" "ow_phase x = Reset" "p \<in> set (sl_owners s)"
      "r = Some (removeAll p (sl_owners s) = [])"
      "lg_lanes g' = (if removeAll p (sl_owners s) = [] then AList.delete (ow_lane x) (lg_lanes g)
         else AList.update (ow_lane x) (s\<lparr>sl_owners := removeAll p (sl_owners s),
            sl_serving := (if sl_serving s = Some p then None else sl_serving s)\<rparr>) (lg_lanes g))"
      "\<And>q. owner g' q = (if q = p then Some (x\<lparr>ow_phase := Removed\<rparr>) else owner g q)"
      "gm_wf (lg_owners g')" "lg_next g' = lg_next g" "lg_growth g' = lg_growth g" "lg_grants g' = lg_grants g"
proof (cases "\<exists>x. owner g p = Some x \<and> ow_phase x = Reset")
  case False
  then have "g' = g" "r = Some False" using assms(1) by (auto simp: close_remove_def split: option.splits if_splits)
  then show ?thesis using False by (rule that(1))
next
  case True
  then obtain x where x: "owner g p = Some x" "ow_phase x = Reset" by blast
  then obtain s where s: "map_of (lg_lanes g) (ow_lane x) = Some s" "p \<in> set (sl_owners s)"
    using registry_invD(4) [OF assms(2) x(1)] by (auto simp: owner_ok_def)
  show ?thesis
    by (rule that(2) [OF x(1) s(1) x(2) s(2)])
      (use assms x s registry_invD(2) [OF assms(2)] in
        \<open>auto simp: close_remove_def Let_def upd_slot_def upd_owner_def split: if_splits\<close>)
qed

lemma registry_remove:
  assumes inv: "registry_inv g" and rem: "close_remove g p = (r, g')"
  shows "registry_inv g'"
  using remove_changes [OF rem inv]
proof cases
  case 1
  then show ?thesis using inv by simp
next
  case (2 x s)
  let ?o = "removeAll p (sl_owners s)"
  let ?s = "s\<lparr>sl_owners := ?o, sl_serving := (if sl_serving s = Some p then None else sl_serving s)\<rparr>"
  note own = 2(7)
  have lanes: "map_of (lg_lanes g') l = (if l = ow_lane x then (if ?o = [] then None else Some ?s) else map_of (lg_lanes g) l)" for l
    by (simp add: 2(6))
  note ok = registry_invD(3) [OF inv 2(2)]
  have "length (sl_owners s) \<le> 2" using ok by (simp add: slot_ok_def)
  then have len: "length ?o \<le> 2" by (rule order_trans [OF length_removeAll_less_eq])
  have mem: "member_ok g' (ow_lane x) ?s q" if "q \<in> set (sl_owners s)" "q \<noteq> p" for q
    using ok that by (auto simp: slot_ok_def member_ok_def own)
  have serving: "q \<in> set ?o" if "sl_serving ?s = Some q" for q
    using ok that by (auto simp: slot_ok_def split: if_splits)
  have mine: "slot_ok g' (ow_lane x) ?s" if "?o \<noteq> []"
  proof -
    have "distinct ?o" "sl_id s < lg_next g'" using ok 2(9) by (simp_all add: slot_ok_def distinct_removeAll)
    moreover have "\<forall>q\<in>set ?o. member_ok g' (ow_lane x) ?s q" using mem by auto
    ultimately show ?thesis unfolding slot_ok_def using that len serving by simp
  qed
  have other: "slot_ok g' l t" if t: "map_of (lg_lanes g) l = Some t" "l \<noteq> ow_lane x" for l t
  proof -
    have "member_ok g' l t q" if q: "q \<in> set (sl_owners t)" for q
    proof -
      obtain y where y: "owner g q = Some y" "member_ok g l t q"
        using registry_invD(3) [OF inv t(1)] q by (auto simp: slot_ok_def member_ok_def)
      have "q \<noteq> p" using lane_of_member(1) [OF inv t(1) q y(1)] t(2) y(1) 2(1) by auto
      then show ?thesis using y by (simp add: member_ok_def own)
    qed
    then show ?thesis using registry_invD(3) [OF inv t(1)] by (simp add: slot_ok_def 2(9))
  qed
  have slots: "slot_ok g' l t" if "map_of (lg_lanes g') l = Some t" for l t
    using that mine other by (auto simp: lanes split: if_splits)
  have owners: "owner_ok g' q y" if y: "owner g' q = Some y" for q y
  proof (cases "q = p")
    case True
    then show ?thesis using y registry_invD(4) [OF inv 2(1)] 2(3) by (auto simp: own owner_ok_def 2(9))
  next
    case False
    then have q: "owner_ok g q y" using y registry_invD(4) [OF inv] by (simp add: own)
    have "?o \<noteq> []" if "ow_lane y = ow_lane x" "ow_phase y \<noteq> Removed"
      using q that 2(2) False by (auto simp: owner_ok_def removeAll_id filter_empty_conv removeAll_filter_not_eq)
    then show ?thesis using q 2(2) False by (auto simp: owner_ok_def lanes 2(9))
  qed
  have before: "\<exists>t0. map_of (lg_lanes g) l = Some t0 \<and> sl_id t0 = sl_id t" if "map_of (lg_lanes g') l = Some t" for l t
    using that 2(2) by (auto simp: lanes split: if_splits)
  have ids: "l = l'" if "map_of (lg_lanes g') l = Some t" "map_of (lg_lanes g') l' = Some t'" "sl_id t = sl_id t'" for l l' t t'
    using before [OF that(1)] before [OF that(2)] that(3) registry_invD(5) [OF inv, of l _ l'] by metis
  have "gm_wf (lg_lanes g') \<and> gm_wf (lg_owners g')"
    using registry_invD(1) [OF inv] 2(6,8) by simp
  then show ?thesis unfolding registry_inv_def using slots owners ids by blast
qed

lemma ledger_remove:
  assumes reg: "registry_inv g" and inv: "ledger_inv k g" and rem: "close_remove g p = (r, g')"
    and none: "\<And>gr. gr \<in> set (lg_grants g) \<Longrightarrow> gr_owner gr \<noteq> p"
  shows "ledger_inv k g'"
  using remove_changes [OF rem reg]
proof cases
  case 1
  then show ?thesis using inv by simp
next
  case (2 x s)
  let ?o = "removeAll p (sl_owners s)"
  let ?s = "s\<lparr>sl_owners := ?o, sl_serving := (if sl_serving s = Some p then None else sl_serving s)\<rparr>"
  have lanes: "map_of (lg_lanes g') l = (if l = ow_lane x then (if ?o = [] then None else Some ?s) else map_of (lg_lanes g) l)" for l
    by (simp add: 2(6))
  have "grant_ok g' h" if h: "h \<in> set (lg_grants g')" for h
  proof -
    have h': "grant_ok g h" "gr_owner h \<noteq> p" using ledger_invD(3) [OF inv] none h by (simp_all add: 2(11))
    have "gr_owner h \<in> set ?o" if "gr_lane h = ow_lane x" using h' that 2(2) by (auto simp: grant_ok_def)
    then have "?o \<noteq> []" if "gr_lane h = ow_lane x" using that by (metis empty_iff list.set(1))
    with \<open>gr_lane h = ow_lane x \<Longrightarrow> gr_owner h \<in> set ?o\<close> show ?thesis
      using h' 2(2) by (cases "gr_lane h = ow_lane x") (auto simp: grant_ok_def lanes)
  qed
  moreover have "sl_growth t = slot_bytes (lg_grants g') (sl_id t) \<and> sl_growth t \<le> k" if "map_of (lg_lanes g') l = Some t" for l t
    using that ledger_invD(4,5) [OF inv 2(2)] ledger_invD(4,5) [OF inv, of l t] by (auto simp: lanes 2(11) split: if_splits)
  moreover have "lg_growth g' = (\<Sum>h\<leftarrow>lg_grants g'. gr_bytes h)" "lg_growth g' \<le> AggregateGenerationGrowthBytes"
    using ledger_invD(1,2) [OF inv] by (simp_all add: 2(10,11))
  ultimately show ?thesis by (rule_tac ledger_invI)
qed

lemma group_close_inv [simp]:
  "registry_inv (fst (group_close g)) \<longleftrightarrow> registry_inv g" "ledger_inv k (fst (group_close g)) \<longleftrightarrow> ledger_inv k g"
  by (simp_all add: group_close_def registry_inv_def slot_ok_def owner_ok_def member_ok_def ledger_inv_def grant_ok_def)

lemma lane_reach_inv:
  assumes "0 \<le> k" "lane_reach k g"
  shows "registry_inv g \<and> ledger_inv k g"
  using assms(2)
proof induction
  case lane_start
  show ?case by (simp add: newLaneOwners_def registry_inv_def ledger_inv_def AggregateGenerationGrowthBytes_def)
next
  case (lane_acquire g lane oid replaces reserved ok)
  then show ?case using registry_acquire ledger_acquire [OF _ _ assms(1)] by blast
next
  case (lane_publish g p expected epoch idleOnly)
  then show ?case using registry_publish ledger_publish by (metis prod.collapse)
next
  case (lane_remove g p)
  then show ?case using registry_remove ledger_remove by (metis prod.collapse)
qed (simp_all add: registry_local_ops ledger_local_ops registry_grow ledger_grow registry_release_grant ledger_release_grant)


section \<open>Consequences of the invariants\<close>

lemma lane_reach_registry: "0 \<le> k \<Longrightarrow> lane_reach k g \<Longrightarrow> registry_inv g"
  by (simp add: lane_reach_inv)

lemma lane_reach_ledger: "0 \<le> k \<Longrightarrow> lane_reach k g \<Longrightarrow> ledger_inv k g"
  by (simp add: lane_reach_inv)

lemma live_owner_slot:
  assumes "registry_inv g" "owner g p = Some x" "ow_phase x \<noteq> Removed"
  obtains s where "map_of (lg_lanes g) (ow_lane x) = Some s" "p \<in> set (sl_owners s)"
  using registry_invD(4) [OF assms(1,2)] assms(3) by (auto simp: owner_ok_def)

lemma serving_owner_of_slot:
  assumes "registry_inv g" "owner g p = Some x" "ow_phase x \<noteq> Removed" "ow_state x = LaneServing"
    "map_of (lg_lanes g) (ow_lane x) = Some s"
  shows "sl_serving s = Some p"
  using live_owner_slot [OF assms(1-3)] lane_of_member(3) [OF assms(1)] assms by (metis option.inject)

lemma BeginOpen_serves:
  assumes "registry_inv g" "fst (BeginOpen g p)"
  obtains x s where "owner g p = Some x" "map_of (lg_lanes g) (ow_lane x) = Some s" "sl_serving s = Some p"
    "ow_phase x = Running" "\<not> lg_closed g"
proof -
  obtain x where x: "owner g p = Some x" "ow_phase x = Running" "ow_state x = LaneServing" "\<not> lg_closed g"
    using assms(2) by (auto simp: BeginOpen_def ow_closed_def split: option.splits if_splits)
  then obtain s where "map_of (lg_lanes g) (ow_lane x) = Some s" using live_owner_slot [OF assms(1) x(1)] by auto
  with x serving_owner_of_slot [OF assms(1) x(1) _ x(3) this] show ?thesis by (intro that) auto
qed

lemma slot_reserved_sum:
  "ReservedBytes g = lg_growth g + (\<Sum>e\<leftarrow>lg_lanes g. sl_reserved (snd e))"
proof -
  have "foldl (\<lambda>tot e. tot + sl_reserved (snd e)) a m = a + (\<Sum>e\<leftarrow>m. sl_reserved (snd e))"
    for a and m :: "(int \<times> laneOwnerSlot) list"
    by (induction m arbitrary: a) simp_all
  then show ?thesis by (simp add: ReservedBytes_def)
qed

lemma sum_reserved_delete:
  assumes "gm_wf m" "map_of m k = Some s"
  shows "(\<Sum>e\<leftarrow>AList.delete k m. sl_reserved (snd e)) = (\<Sum>e\<leftarrow>m. sl_reserved (snd e)) - sl_reserved s"
  using assms
proof (induction m)
  case (Cons a m)
  show ?case
  proof (cases "fst a = k")
    case True
    then have "k \<notin> gm_keys m" "snd a = s" using Cons.prems by (auto simp: gm_wf_def)
    then have "AList.delete k m = m" by (simp add: delete_id)
    with True \<open>snd a = s\<close> show ?thesis by (cases a) simp
  next
    case False
    then have "map_of m k = Some s" "gm_wf m" using Cons.prems by (cases a; simp add: gm_wf_def)+
    then show ?thesis using Cons.IH False by (cases a) simp
  qed
qed simp

lemma sum_reserved_update:
  assumes "gm_wf m" "map_of m k = Some s" "sl_reserved s' = sl_reserved s"
  shows "(\<Sum>e\<leftarrow>AList.update k s' m. sl_reserved (snd e)) = (\<Sum>e\<leftarrow>m. sl_reserved (snd e))"
  using assms
proof (induction m)
  case (Cons a m)
  then show ?case by (cases a) (auto simp: gm_wf_def)
qed simp

lemma Snapshot_iff: "registry_inv g \<Longrightarrow> p \<in> set (lane_Snapshot g) \<longleftrightarrow>
    (\<exists>lane s. map_of (lg_lanes g) lane = Some s \<and> p \<in> set (sl_owners s))"
  using registry_invD(1) [of g] by (force simp: lane_Snapshot_def map_of_set)

definition close_owner :: "LaneOwners \<Rightarrow> nat \<Rightarrow> bool option \<times> LaneOwners" where
  \<comment> \<open>\<open>Close\<close> without interference: its three critical sections in order\<close>
  "close_owner g p = close_remove (snd (close_reset (close_mark g p) p)) p"

lemma close_prefix:
  assumes "owner g p = Some x" "ow_phase x = Running"
  shows "snd (close_reset (close_mark g p) p) =
    upd_owner (upd_owner g p (x\<lparr>ow_phase := Marked\<rparr>)) p (x\<lparr>ow_application := [], ow_phase := Reset\<rparr>)"
  using assms by (simp add: close_mark_def close_reset_def)

text \<open>C30: In every reachable state of a generation a lane has at most two owners, without duplicates, its serving owner
  is one of them, every owner that is in state Serving and not yet removed is the one its lane points
  to, and so two owners that both may begin an Open on the same lane are the same owner.\<close>
theorem lane_single_server:
  assumes "0 \<le> k" "lane_reach k g" "map_of (lg_lanes g) lane = Some s"
  shows "length (sl_owners s) \<le> 2 \<and> distinct (sl_owners s) \<and> sl_owners s \<noteq> [] \<and>
    (\<forall>p. sl_serving s = Some p \<longrightarrow> p \<in> set (sl_owners s)) \<and>
    (\<forall>p x. owner g p = Some x \<and> ow_lane x = lane \<and> ow_state x = LaneServing \<and> ow_phase x \<noteq> Removed \<longrightarrow> sl_serving s = Some p) \<and>
    (\<forall>p q x y. owner g p = Some x \<and> owner g q = Some y \<and> ow_lane x = lane \<and> ow_lane y = lane \<and>
       fst (BeginOpen g p) \<and> fst (BeginOpen g q) \<longrightarrow> p = q)"
proof -
  note inv = lane_reach_registry [OF assms(1,2)]
  have serve: "sl_serving s = Some p" if "owner g p = Some x" "ow_lane x = lane" "fst (BeginOpen g p)" for p x
    using BeginOpen_serves [OF inv that(3)] that assms(3) by (metis option.inject)
  have "sl_serving s = Some p" if "owner g p = Some x" "ow_lane x = lane" "ow_state x = LaneServing" "ow_phase x \<noteq> Removed" for p x
    using serving_owner_of_slot [OF inv that(1,4,3)] that(2) assms(3) by simp
  moreover have "p = q" if "owner g p = Some x" "owner g q = Some y" "ow_lane x = lane" "ow_lane y = lane"
      "fst (BeginOpen g p)" "fst (BeginOpen g q)" for p q x y
    using serve [OF that(1,3,5)] serve [OF that(2,4,6)] by simp
  ultimately show ?thesis using registry_invD(3) [OF inv assms(3)] unfolding slot_ok_def by blast
qed

text \<open>C31: The growth ledger of a generation is exact and bounded: the generation's counter is the sum of the bytes of
  the grants still outstanding and never exceeds 64 MiB, every lane's counter is the sum of the grants charged
  to that slot and never exceeds the lane limit, and \<open>ReservedBytes\<close> is the lanes' baselines plus the
  outstanding grants.\<close>
theorem lane_growth_ledger:
  assumes "0 \<le> k" "lane_reach k g"
  shows "lg_growth g = (\<Sum>gr\<leftarrow>lg_grants g. gr_bytes gr) \<and> lg_growth g \<le> AggregateGenerationGrowthBytes \<and>
    (\<forall>lane s. map_of (lg_lanes g) lane = Some s \<longrightarrow>
       sl_growth s = slot_bytes (lg_grants g) (sl_id s) \<and> 0 \<le> sl_growth s \<and> sl_growth s \<le> k) \<and>
    ReservedBytes g = (\<Sum>e\<leftarrow>lg_lanes g. sl_reserved (snd e)) + (\<Sum>gr\<leftarrow>lg_grants g. gr_bytes gr)"
proof -
  note led = lane_reach_ledger [OF assms]
  have "0 \<le> slot_bytes (lg_grants g) i" for i
    unfolding slot_bytes_def using ledger_invD(3) [OF led] by (intro sum_list_nonneg) (auto simp: grant_ok_def)
  then show ?thesis using ledger_invD [OF led] slot_reserved_sum [of g] by auto
qed

text \<open>The pointers the code follows without a check are never nil: for an owner that exists in a reachable state, publishing
  it and the removal phase of its \<open>Close\<close> find the slot of its lane, in every interleaving with the other owners.\<close>
theorem lane_slot_never_nil:
  assumes "0 \<le> k" "lane_reach k g" "owner g p = Some x"
  shows "fst (publish g p expected epoch idleOnly) \<noteq> None \<and> fst (close_remove g p) \<noteq> None"
proof -
  note inv = lane_reach_registry [OF assms(1,2)]
  have "\<exists>s. map_of (lg_lanes g) (ow_lane x) = Some s" if "ow_phase x \<noteq> Removed"
    using live_owner_slot [OF inv assms(3) that] by metis
  then show ?thesis using assms(3)
    by (cases "ow_phase x = Removed") (auto simp: publish_def close_remove_def ow_closed_def Let_def split: option.splits)
qed

text \<open>\<open>PublishWhenIdle\<close> never displaces an owner that was used since it was observed: when the second phase
  takes the place of a serving owner, that owner is the one observed, its activity epoch is unchanged, it has no opening and no
  application stream, and it is left draining.\<close>
theorem lane_idle_takeover:
  assumes "0 \<le> k" "lane_reach k g" "publish g p expected epoch True = (Some (Some q, True), g')"
  shows "expected = Some q \<and> (\<exists>y y'. owner g q = Some y \<and> ow_activity y = epoch \<and> ow_openingCount y = 0 \<and>
    ow_application y = [] \<and> owner g' q = Some y' \<and> ow_state y' = LaneDraining \<and> \<not> fst (BeginOpen g' q))"
  using publish_changes [OF assms(3)]
proof cases
  case 1
  then show ?thesis by blast
next
  case (2 x s)
  note inv = lane_reach_registry [OF assms(1,2)]
  have q: "sl_serving s = Some q" "q \<noteq> p" using 2(4,5) by auto
  then have "q \<in> set (sl_owners s)" using registry_invD(3) [OF inv 2(2)] by (simp add: slot_ok_def)
  then obtain y where y: "owner g q = Some y"
    using registry_invD(3) [OF inv 2(2)] by (auto simp: slot_ok_def member_ok_def)
  have "owner g' q = Some (y\<lparr>ow_state := LaneDraining\<rparr>)" using q y by (simp add: 2(8))
  moreover have "expected = Some q" "ow_activity y = epoch" "ow_openingCount y = 0" "ow_application y = []"
    using 2(6) q(1) y by (auto simp: idle_violation_def busy_def)
  ultimately show ?thesis using y by (simp add: BeginOpen_def)
qed

lemma removeAll_Nil_iff:
  assumes "p \<in> set xs" "distinct xs"
  shows "removeAll p xs = [] \<longleftrightarrow> xs = [p]"
proof
  assume "removeAll p xs = []"
  then have "set xs = {p}" using assms(1) by (metis Diff_eq_empty_iff empty_set set_removeAll subset_singletonD insert_not_empty equals0D)
  then have "length xs = 1" using distinct_card [OF assms(2)] by simp
  then show "xs = [p]" using \<open>set xs = {p}\<close> by (cases xs) auto
qed simp

lemma lane_removed_gone:
  assumes "registry_inv g" "owner g p = Some x" "ow_phase x = Removed"
  shows "p \<notin> set (lane_Snapshot g)"
  using lane_of_member(2) [OF assms(1) _ _ assms(2)] assms(3) Snapshot_iff [OF assms(1)] by blast

text \<open>An owner whose \<open>Close\<close> is complete holds nothing: no lane lists it, no opening or application stream is left,
  no growth grant is charged to it, and it can never begin an Open again.\<close>
theorem lane_removed_holds_nothing:
  assumes "0 \<le> k" "lane_reach k g" "owner g p = Some x" "ow_phase x = Removed"
  shows "p \<notin> set (lane_Snapshot g) \<and> ow_openingCount x = 0 \<and> ow_application x = [] \<and>
    (\<forall>gr\<in>set (lg_grants g). gr_owner gr \<noteq> p) \<and> \<not> fst (BeginOpen g p)"
proof -
  note inv = lane_reach_registry [OF assms(1,2)]
  have out: "p \<notin> set (sl_owners s)" if "map_of (lg_lanes g) lane = Some s" for lane s
    using lane_of_member(2) [OF inv that _ assms(3)] assms(4) by blast
  have "gr_owner gr \<noteq> p" if "gr \<in> set (lg_grants g)" for gr
    using ledger_invD(3) [OF lane_reach_ledger [OF assms(1,2)] that] out by (auto simp: grant_ok_def)
  moreover have "p \<notin> set (lane_Snapshot g)" by (rule lane_removed_gone [OF inv assms(3,4)])
  moreover have "ow_openingCount x = 0" "ow_application x = []"
    using registry_invD(4) [OF inv assms(3)] assms(4) by (simp_all add: owner_ok_def)
  ultimately show ?thesis using assms(3,4) by (simp add: BeginOpen_def ow_closed_def)
qed

text \<open>C33: \<open>Close\<close> of an owner whose openings and growth are joined completes: its three critical sections lead to
  a reachable state in which the owner is removed and no lane lists it, and the baseline reservation of the
  lane is refunded exactly when it was the last owner of the lane.\<close>
theorem lane_close_completes:
  assumes k: "0 \<le> k" "lane_reach k g" and x: "owner g p = Some x" "ow_phase x = Running" "ow_openingCount x = 0"
    and free: "\<forall>gr\<in>set (lg_grants g). gr_owner gr \<noteq> p"
    and s: "map_of (lg_lanes g) (ow_lane x) = Some s" and close: "close_owner g p = (r, g')"
  shows "lane_reach k g' \<and> map_option ow_phase (owner g' p) = Some Removed \<and> p \<notin> set (lane_Snapshot g') \<and>
    r = Some (sl_owners s = [p]) \<and>
    ReservedBytes g' = ReservedBytes g - (if sl_owners s = [p] then sl_reserved s else 0)"
proof -
  let ?h = "snd (close_reset (close_mark g p) p)"
  note h = close_prefix [OF x(1,2)]
  have "owner (close_mark g p) p = Some (x\<lparr>ow_phase := Marked\<rparr>)" using x by (simp add: close_mark_def)
  then have reach_h: "lane_reach k ?h" using x(3) lane_mark [OF k(2)] by (intro lane_reset [where x = "x\<lparr>ow_phase := Marked\<rparr>"]) auto
  have "lane_reach k (snd (close_remove ?h p))" using free by (intro lane_remove reach_h) (simp add: h)
  then have reach: "lane_reach k g'" using close by (simp add: close_owner_def)
  note inv = lane_reach_registry [OF k(1) reach_h]
  have rem: "close_remove ?h p = (r, g')" using close by (simp add: close_owner_def)
  have sh: "map_of (lg_lanes ?h) (ow_lane x) = Some s" "lg_lanes ?h = lg_lanes g" "lg_growth ?h = lg_growth g" using s by (simp_all add: h)
  have single: "removeAll p (sl_owners s) = [] \<longleftrightarrow> sl_owners s = [p]"
  proof -
    have "p \<in> set (sl_owners s)" using live_owner_slot [OF lane_reach_registry [OF k] x(1)] x(2) s by auto
    moreover have "distinct (sl_owners s)"
      using registry_invD(3) [OF inv sh(1)] by (simp add: slot_ok_def)
    ultimately show ?thesis by (rule removeAll_Nil_iff)
  qed
  from remove_changes [OF rem inv] show ?thesis
  proof cases
    case 1
    then show ?thesis by (simp add: h)
  next
    case (2 x' s')
    have [simp]: "s' = s" "ow_lane x' = ow_lane x" using 2(1,2) sh(1) by (auto simp: h)
    have ph: "owner g' p = Some (x'\<lparr>ow_phase := Removed\<rparr>)" using 2(7) by simp
    have "p \<notin> set (lane_Snapshot g')"
      using lane_removed_gone [OF lane_reach_registry [OF k(1) reach] ph] by simp
    moreover have "ReservedBytes g' = ReservedBytes g - (if sl_owners s = [p] then sl_reserved s else 0)"
      using 2(6,10) registry_invD(1) [OF inv] sh single
      by (auto simp: slot_reserved_sum sum_reserved_delete sum_reserved_update [OF _ sh(1)[unfolded sh(2)]])
    ultimately show ?thesis using reach ph 2(5) single by simp
  qed
qed

section \<open>A concrete generation\<close>

text \<open>Lane 1 with a serving owner \<open>a\<close> (address 1), an attached replacement \<open>b\<close> (address 2) and a grant of 50 bytes to
  \<open>a\<close>; after the takeover \<open>b\<close> serves and \<open>a\<close> drains.\<close>

definition ex_serving :: LaneOwners where
  "ex_serving = snd (publish (snd (Attach (snd (Acquire newLaneOwners 1 ''a'' '''' 100 True)) 1 7 True)) 1 None 0 False)"

definition ex_pair :: LaneOwners where
  "ex_pair = snd (Attach (snd (Acquire (snd (grow 1000 ex_serving 1 50 True)) 1 ''b'' ''a'' 100 True)) 2 8 True)"

definition ex_taken :: LaneOwners where
  "ex_taken = snd (publish ex_pair 2 (Some 1) 0 True)"

lemma ex_lane_reach: "lane_reach 1000 ex_serving" "lane_reach 1000 ex_pair" "lane_reach 1000 ex_taken"
proof -
  show s: "lane_reach 1000 ex_serving" unfolding ex_serving_def by (intro lane_reach.intros)
  show p: "lane_reach 1000 ex_pair" unfolding ex_pair_def by (intro lane_reach.intros s)
  show "lane_reach 1000 ex_taken" unfolding ex_taken_def by (intro lane_reach.intros p)
qed

lemmas lane_eval = ex_taken_def ex_pair_def ex_serving_def publish_def Attach_def Acquire_def grow_def add_owner_def
  newLaneOwners_def new_owner_def upd_owner_def upd_slot_def Let_def MaxParallelTunnels_def ow_closed_def slot_admits_def
  AggregateGenerationGrowthBytes_def idle_violation_def busy_def

lemma ex_taken_eval:
  "lg_lanes ex_taken = [(1, \<lparr>sl_id = 0, sl_owners = [2, 1], sl_serving = Some 2, sl_growth = 50, sl_reserved = 100\<rparr>)]"
  "lg_grants ex_taken = [\<lparr>gr_owner = 1, gr_lane = 1, gr_slot = 0, gr_bytes = 50\<rparr>]" "lg_growth ex_taken = 50"
  "owner ex_taken 2 = Some ((new_owner 1 ''b'')\<lparr>ow_state := LaneServing, ow_session := Some 8, ow_growth := True\<rparr>)"
  "owner ex_taken 1 = Some ((new_owner 1 ''a'')\<lparr>ow_state := LaneDraining, ow_session := Some 7, ow_growth := True\<rparr>)"
  "fst (publish ex_pair 2 (Some 1) 0 True) = Some (Some 1, True)"
  by (simp_all add: lane_eval)

theorem lane_single_server_witness:
  "lane_reach 1000 ex_taken \<and> length (sl_owners (snd (hd (lg_lanes ex_taken)))) \<le> 2 \<and> fst (BeginOpen ex_taken 2) \<and> \<not> fst (BeginOpen ex_taken 1)"
proof -
  have l: "map_of (lg_lanes ex_taken) 1 = Some (snd (hd (lg_lanes ex_taken)))" by (simp add: ex_taken_eval)
  have "fst (BeginOpen ex_taken 2)" by (simp add: BeginOpen_def ex_taken_eval lane_eval new_owner_def)
  then show ?thesis
    using lane_single_server [OF _ ex_lane_reach(3) l, THEN conjunct1] ex_lane_reach(3)
    by (simp add: BeginOpen_def ex_taken_eval(5) del: One_nat_def)
qed

theorem lane_growth_ledger_witness:
  "lane_reach 1000 ex_taken \<and> lg_growth ex_taken = 50 \<and> ReservedBytes ex_taken = 150"
  using lane_growth_ledger [OF _ ex_lane_reach(3)] ex_lane_reach(3) by (simp add: ex_taken_eval)

theorem lane_slot_never_nil_witness:
  "lane_reach 1000 ex_pair \<and> fst (publish ex_pair 2 (Some 1) 0 True) \<noteq> None \<and> fst (close_remove ex_taken 1) \<noteq> None"
  using lane_slot_never_nil [OF _ ex_lane_reach(3) ex_taken_eval(5)] ex_lane_reach(2) ex_taken_eval(6) by simp

theorem lane_idle_takeover_witness:
  "lane_reach 1000 ex_pair \<and> publish ex_pair 2 (Some 1) 0 True = (Some (Some 1, True), ex_taken) \<and> \<not> fst (BeginOpen ex_taken 1)"
proof -
  have p: "publish ex_pair 2 (Some 1) 0 True = (Some (Some 1, True), ex_taken)"
    using ex_taken_eval(6) by (simp add: ex_taken_def prod_eq_iff)
  show ?thesis using lane_idle_takeover [OF _ ex_lane_reach(2) p] p ex_lane_reach(2) by force
qed

definition ex_gone :: LaneOwners where
  "ex_gone = snd (close_owner ex_taken 2)"

theorem lane_close_completes_witness:
  "lane_reach 1000 ex_gone \<and> 2 \<notin> set (lane_Snapshot ex_gone) \<and> ReservedBytes ex_gone = 150"
proof -
  have s: "map_of (lg_lanes ex_taken) (ow_lane ((new_owner 1 ''b'')\<lparr>ow_state := LaneServing, ow_session := Some 8, ow_growth := True\<rparr>)) =
      Some (snd (hd (lg_lanes ex_taken)))" by (simp add: ex_taken_eval new_owner_def)
  have c: "close_owner ex_taken 2 = (fst (close_owner ex_taken 2), ex_gone)" by (simp add: ex_gone_def)
  show ?thesis
    using lane_close_completes [OF _ ex_lane_reach(3) ex_taken_eval(4) _ _ _ s c]
    by (simp add: ex_taken_eval new_owner_def slot_reserved_sum [of ex_taken])
qed

theorem lane_removed_holds_nothing_witness:
  "2 \<notin> set (lane_Snapshot ex_gone) \<and> \<not> fst (BeginOpen ex_gone 2)"
proof -
  have "lane_reach 1000 ex_gone" unfolding ex_gone_def close_owner_def
    by (intro lane_remove lane_reset [where x = "(the (owner ex_taken 2))\<lparr>ow_phase := Marked\<rparr>"] lane_mark ex_lane_reach(3))
      (simp_all add: close_mark_def close_reset_def ex_taken_eval new_owner_def)
  moreover have "owner ex_gone 2 = Some ((the (owner ex_taken 2))\<lparr>ow_phase := Removed\<rparr>)"
    by (simp add: ex_gone_def close_owner_def close_mark_def close_reset_def close_remove_def ex_taken_eval new_owner_def)
  ultimately show ?thesis using lane_removed_holds_nothing [of 1000 ex_gone 2] by simp
qed

end
