(* ===== verification/TunnelProtocol.thy ===== *)
theory TunnelProtocol
  imports Prelude GoStrings LaneOwners "HOL-Library.Word"
begin

text \<open>
  The tunnel's wire contract: the upgrade headers of \<open>internal/tunnel/protocol.go\<close> and
  \<open>internal/tunnel/lane_retirement.go\<close> and the length-prefixed control frames of \<open>internal/tunnel/frame.go\<close>.

  An \<open>http.Header\<close> is a Go map from canonical names to value lists. A reader is the byte sequence that
  is still to come, ended by EOF; a writer collects bytes and may fail after a given number of them. The JSON
  encoder and decoder are parameters.
\<close>

unbundle bit_operations_syntax

section \<open>Header contract\<close>

type_synonym header = "(string, string list) gomap"
type_synonym byte = "8 word"

definition header_Values :: "header \<Rightarrow> string \<Rightarrow> string list" where
  "header_Values h name = (case map_of h (canonical_header name) of None \<Rightarrow> [] | Some vs \<Rightarrow> vs)"

definition header_Set :: "header \<Rightarrow> string \<Rightarrow> string \<Rightarrow> header" where
  "header_Set h name v = AList.update (canonical_header name) [v] h"

definition ProtocolVersion :: int where "ProtocolVersion = 1"
definition TunnelGroupHeader :: string where "TunnelGroupHeader = ''X-P2PStream-Tunnel-Group''"
definition TunnelLaneHeader :: string where "TunnelLaneHeader = ''X-P2PStream-Tunnel-Lane''"
definition TunnelFlowControlHeader :: string where "TunnelFlowControlHeader = ''X-P2PStream-Tunnel-Flow-Control''"
definition TunnelLaneRoleHeader :: string where "TunnelLaneRoleHeader = ''X-P2PStream-Tunnel-Lane-Role''"
definition TunnelSessionWindowHeader :: string where "TunnelSessionWindowHeader = ''X-P2PStream-Tunnel-Session-Window''"
definition TunnelSessionWindowMaxHeader :: string where
  "TunnelSessionWindowMaxHeader = ''X-P2PStream-Tunnel-Session-Window-Max''"
definition TunnelAllocationWindowHeader :: string where
  "TunnelAllocationWindowHeader = ''X-P2PStream-Tunnel-Allocation-Window''"
definition TunnelAllocationWindowMaxHeader :: string where
  "TunnelAllocationWindowMaxHeader = ''X-P2PStream-Tunnel-Allocation-Window-Max''"
definition TunnelDataFrameMaxHeader :: string where "TunnelDataFrameMaxHeader = ''X-P2PStream-Tunnel-Data-Frame-Max''"
definition TunnelCapacityModeAdaptive :: string where "TunnelCapacityModeAdaptive = ''adaptive''"
definition TunnelCapacityModeFixed :: string where "TunnelCapacityModeFixed = ''fixed''"
definition TunnelFlowControlAggregateV1 :: string where "TunnelFlowControlAggregateV1 = ''aggregate-v1''"
definition TunnelLaneRoleControl :: string where "TunnelLaneRoleControl = ''control''"
definition TunnelLaneRoleBulk :: string where "TunnelLaneRoleBulk = ''bulk''"
definition AggregateInitialSessionWindowBytes :: "32 word" where "AggregateInitialSessionWindowBytes = 2097152"
definition AggregateMaxSessionWindowBytes :: "32 word" where "AggregateMaxSessionWindowBytes = 1073741824"
definition AggregateInitialStreamWindowBytes :: "32 word" where "AggregateInitialStreamWindowBytes = 524288"
definition AggregateMaxStreamWindowBytes :: "32 word" where "AggregateMaxStreamWindowBytes = 268435456"
definition AggregateMaxDataFrameBytes :: "32 word" where "AggregateMaxDataFrameBytes = 32768"
definition MaxControlFrameBytes :: nat where "MaxControlFrameBytes = 16384"

datatype tunnel_error =
    InvalidTunnelGroup
  | InvalidTunnelLane
  | DuplicateTunnelHeader string
  | IncompleteFlowControl string
  | UnsupportedFlowControl string
  | InvalidLaneRole string
  | InvalidFlowControlValue string
  | UnsupportedFlowControlValues
  | InvalidCapacityMode string
  | InvalidMaxConcurrentStreams string
  | InvalidLaneRetirement

definition group_char :: "char \<Rightarrow> bool" where
  "group_char ch \<longleftrightarrow>
     (let n = (of_char ch :: nat)
      in (97 \<le> n \<and> n \<le> 122) \<or> (65 \<le> n \<and> n \<le> 90) \<or> (48 \<le> n \<and> n \<le> 57) \<or> ch = CHR ''-'')"

definition parseTunnelLane :: "string \<Rightarrow> string \<Rightarrow> bool \<Rightarrow> tunnel_error + string \<times> int" where
  "parseTunnelLane grp rawLane aggregate =
     (if grp = '''' \<and> rawLane = '''' then Inr ('''', 0)
      else if length grp < 16 \<or> length grp > 64 then Inl InvalidTunnelGroup
      else if \<not> list_all group_char grp then Inl InvalidTunnelGroup
      else (let maximum = (if aggregate then MaxParallelTunnels else MaxParallelTunnels - 1)
            in case parse_int rawLane of
                 None \<Rightarrow> Inl InvalidTunnelLane
               | Some lane \<Rightarrow> if lane < 0 \<or> lane > maximum then Inl InvalidTunnelLane else Inr (grp, lane)))"

definition ParseTunnelLane :: "string \<Rightarrow> string \<Rightarrow> tunnel_error + string \<times> int" where
  "ParseTunnelLane grp rawLane = parseTunnelLane grp rawLane False"

definition ParseAggregateTunnelLane :: "string \<Rightarrow> string \<Rightarrow> tunnel_error + string \<times> int" where
  "ParseAggregateTunnelLane grp rawLane = parseTunnelLane grp rawLane True"

record AggregateFlowControlConfig =
  InitialSessionWindow :: "32 word"
  MaxSessionWindow :: "32 word"
  InitialStreamWindow :: "32 word"
  MaxStreamWindow :: "32 word"
  MaxDataFrame :: "32 word"

definition DefaultAggregateFlowControlConfig :: AggregateFlowControlConfig where
  "DefaultAggregateFlowControlConfig =
     \<lparr>InitialSessionWindow = AggregateInitialSessionWindowBytes, MaxSessionWindow = AggregateMaxSessionWindowBytes,
      InitialStreamWindow = AggregateInitialStreamWindowBytes, MaxStreamWindow = AggregateMaxStreamWindowBytes,
      MaxDataFrame = AggregateMaxDataFrameBytes\<rparr>"

definition SetAggregateFlowControlHeaders :: "header \<Rightarrow> string \<Rightarrow> AggregateFlowControlConfig \<Rightarrow> header" where
  "SetAggregateFlowControlHeaders h role config =
     (let h = header_Set h TunnelFlowControlHeader TunnelFlowControlAggregateV1;
          h = header_Set h TunnelLaneRoleHeader role;
          h = header_Set h TunnelSessionWindowHeader (format_uint (unat (InitialSessionWindow config)));
          h = header_Set h TunnelSessionWindowMaxHeader (format_uint (unat (MaxSessionWindow config)));
          h = header_Set h TunnelAllocationWindowHeader (format_uint (unat (InitialStreamWindow config)));
          h = header_Set h TunnelAllocationWindowMaxHeader (format_uint (unat (MaxStreamWindow config)))
      in header_Set h TunnelDataFrameMaxHeader (format_uint (unat (MaxDataFrame config))))"

definition singleTunnelHeader :: "header \<Rightarrow> string \<Rightarrow> tunnel_error + string \<times> bool" where
  "singleTunnelHeader h name =
     (let values = header_Values h name
      in if length values = 0 then Inr ('''', False)
         else if length values \<noteq> 1 then Inl (DuplicateTunnelHeader name)
         else Inr (trim_space (values ! 0), True))"

definition flow_control_names :: "string list" where
  "flow_control_names = [TunnelFlowControlHeader, TunnelLaneRoleHeader, TunnelSessionWindowHeader, TunnelSessionWindowMaxHeader,
     TunnelAllocationWindowHeader, TunnelAllocationWindowMaxHeader, TunnelDataFrameMaxHeader]"

fun read_headers :: "header \<Rightarrow> string list \<Rightarrow> tunnel_error + string list \<times> bool" where
  \<comment> \<open>the first loop: the values in order, and whether any header is present\<close>
  "read_headers h [] = Inr ([], False)"
| "read_headers h (n # ns) =
     ebind (singleTunnelHeader h n) (\<lambda>(v, ok).
       ebind (read_headers h ns) (\<lambda>(vs, present). Inr (v # vs, ok \<or> present)))"

fun check_complete :: "(string \<times> string) list \<Rightarrow> tunnel_error + unit" where
  "check_complete [] = Inr ()"
| "check_complete ((n, v) # nvs) = (if v = '''' then Inl (IncompleteFlowControl n) else check_complete nvs)"

definition parse_window :: "string \<Rightarrow> string \<Rightarrow> tunnel_error + 32 word" where
  "parse_window name raw =
     (case parse_uint 32 raw of
        None \<Rightarrow> Inl (InvalidFlowControlValue name)
      | Some v \<Rightarrow> if v = 0 \<or> format_uint v \<noteq> raw then Inl (InvalidFlowControlValue name) else Inr (word_of_nat v))"

fun parse_windows :: "(string \<times> string) list \<Rightarrow> tunnel_error + 32 word list" where
  "parse_windows [] = Inr []"
| "parse_windows ((n, raw) # rest) =
     ebind (parse_window n raw) (\<lambda>w. ebind (parse_windows rest) (\<lambda>ws. Inr (w # ws)))"

definition config_of_list :: "32 word list \<Rightarrow> AggregateFlowControlConfig" where
  "config_of_list ws =
     \<lparr>InitialSessionWindow = ws ! 0, MaxSessionWindow = ws ! 1, InitialStreamWindow = ws ! 2, MaxStreamWindow = ws ! 3,
      MaxDataFrame = ws ! 4\<rparr>"

definition ParseAggregateFlowControlHeaders :: "header
    \<Rightarrow> tunnel_error + (AggregateFlowControlConfig \<times> string) option" where
  \<comment> \<open>\<open>Inr None\<close> is \<open>enabled = false\<close> without an error\<close>
  "ParseAggregateFlowControlHeaders h =
     ebind (read_headers h flow_control_names) (\<lambda>(vals, present).
       if \<not> present then Inr None
       else ebind (check_complete (zip flow_control_names vals)) (\<lambda>_.
         if vals ! 0 \<noteq> TunnelFlowControlAggregateV1 then Inl (UnsupportedFlowControl (vals ! 0))
         else (let role = vals ! 1
               in if role \<noteq> TunnelLaneRoleControl \<and> role \<noteq> TunnelLaneRoleBulk then Inl (InvalidLaneRole role)
                  else ebind (parse_windows (zip (drop 2 flow_control_names) (drop 2 vals))) (\<lambda>parsed.
                    let config = config_of_list parsed
                    in if config \<noteq> DefaultAggregateFlowControlConfig then Inl UnsupportedFlowControlValues
                       else Inr (Some (config, role))))))"

definition ParseTunnelLaneHeaders :: "header \<Rightarrow> bool \<Rightarrow> tunnel_error + string \<times> int" where
  "ParseTunnelLaneHeaders h aggregate =
     ebind (singleTunnelHeader h TunnelGroupHeader) (\<lambda>(grp, _).
       ebind (singleTunnelHeader h TunnelLaneHeader) (\<lambda>(lane, _). parseTunnelLane grp lane aggregate))"

definition ParseCapacityMode :: "string \<Rightarrow> tunnel_error + string" where
  "ParseCapacityMode value =
     (let value = to_lower (trim_space value)
      in if value = TunnelCapacityModeAdaptive \<or> value = TunnelCapacityModeFixed then Inr value
         else Inl (InvalidCapacityMode value))"

definition ParseMaxConcurrentStreams :: "string \<Rightarrow> int \<Rightarrow> tunnel_error + int" where
  "ParseMaxConcurrentStreams value maximum =
     (let value = trim_space value
      in case parse_int value of
           None \<Rightarrow> Inl (InvalidMaxConcurrentStreams value)
         | Some streams \<Rightarrow> if streams < 1 \<or> streams > maximum then Inl (InvalidMaxConcurrentStreams value) else Inr streams)"

section \<open>Lane retirement contract\<close>

definition LaneRetirementHeader :: string where "LaneRetirementHeader = ''X-P2PStream-Lane-Retirement''"
definition LaneOwnerHeader :: string where "LaneOwnerHeader = ''X-P2PStream-Lane-Owner''"
definition LaneReplacesHeader :: string where "LaneReplacesHeader = ''X-P2PStream-Lane-Replaces''"
definition LaneGrowthHeader :: string where "LaneGrowthHeader = ''X-P2PStream-Lane-Grown''"
definition LaneRetirementIntervalHeader :: string where
  "LaneRetirementIntervalHeader = ''X-P2PStream-Lane-Retirement-Millis''"

definition owner_char :: "char \<Rightarrow> bool" where
  "owner_char c \<longleftrightarrow>
     (let n = (of_char c :: nat) in (97 \<le> n \<and> n \<le> 122) \<or> (48 \<le> n \<and> n \<le> 57) \<or> c = CHR ''-'')"

definition validLaneOwnerID :: "string \<Rightarrow> bool" where
  "validLaneOwnerID s \<longleftrightarrow> \<not> (length s < 16 \<or> length s > 64) \<and> list_all owner_char s"

definition interval_ok :: "string \<Rightarrow> bool" where
  "interval_ok s \<longleftrightarrow> (case parse_int s of None \<Rightarrow> False | Some millis \<Rightarrow> \<not> (millis < 100 \<or> millis > 60000))"

definition ParseLaneRetirement :: "header \<Rightarrow> tunnel_error + bool \<times> string \<times> string" where
  "ParseLaneRetirement h =
     (let versions = header_Values h LaneRetirementHeader; ids = header_Values h LaneOwnerHeader;
          previous = header_Values h LaneReplacesHeader; intervals = header_Values h LaneRetirementIntervalHeader;
          growth = header_Values h LaneGrowthHeader
      in if length versions = 0 \<and> length ids = 0 \<and> length previous = 0 \<and> length intervals = 0 \<and> length growth = 0
         then Inr (False, '''', '''')
         else if length versions \<noteq> 1 \<or> versions ! 0 \<noteq> ''1'' \<or> length ids \<noteq> 1 \<or> \<not> validLaneOwnerID (ids ! 0) \<or> length previous > 1
         then Inl InvalidLaneRetirement
         else (let replaces = (if length previous = 1 then previous ! 0 else '''')
               in if length previous = 1 \<and> (\<not> validLaneOwnerID replaces \<or> replaces = ids ! 0) then Inl InvalidLaneRetirement
                  else if length intervals > 1 \<or> length growth > 1 then Inl InvalidLaneRetirement
                  else if length intervals = 1 \<and> \<not> interval_ok (intervals ! 0) then Inl InvalidLaneRetirement
                  else if length growth = 1 \<and> (growth ! 0 \<noteq> ''1'' \<or> replaces = '''') then Inl InvalidLaneRetirement
                  else Inr (True, ids ! 0, replaces)))"

section \<open>Open requests\<close>

datatype open_error = ErrUnsupportedVersion int | ErrInvalidNetwork string | ErrInvalidAddress

record OpenRequest =
  or_Version :: int
  or_RequestID :: string
  or_Network :: string
  or_Address :: string
  or_TraceTimings :: bool

definition NewOpenRequest :: "string \<Rightarrow> string \<Rightarrow> string \<Rightarrow> OpenRequest" where
  "NewOpenRequest requestID network address =
     \<lparr>or_Version = ProtocolVersion, or_RequestID = trim_space requestID, or_Network = trim_space (to_lower network),
      or_Address = trim_space address, or_TraceTimings = False\<rparr>"

definition open_Validate :: "OpenRequest \<Rightarrow> open_error option" where
  "open_Validate r =
     (if or_Version r \<noteq> ProtocolVersion then Some (ErrUnsupportedVersion (or_Version r))
      else if trim_space (to_lower (or_Network r)) \<noteq> ''tcp'' then Some (ErrInvalidNetwork (or_Network r))
      else (case split_host_port (trim_space (or_Address r)) of
              None \<Rightarrow> Some ErrInvalidAddress
            | Some (host, port) \<Rightarrow> if trim_space host = '''' \<or> trim_space port = '''' then Some ErrInvalidAddress else None))"

section \<open>Frames\<close>

datatype frame_error = EncodeFailed | FrameTooLarge | ShortWrite | UnexpectedEOF | DecodeFailed | BadOpenRequest open_error

record frame_writer =
  fw_out :: "byte list"
  fw_room :: "nat option" \<comment> \<open>bytes the writer still accepts, \<open>None\<close> for no limit\<close>

definition w_Write :: "frame_writer \<Rightarrow> byte list \<Rightarrow> bool \<times> frame_writer" where
  "w_Write w bs =
     (case fw_room w of
        None \<Rightarrow> (True, w\<lparr>fw_out := fw_out w @ bs\<rparr>)
      | Some k \<Rightarrow> (length bs \<le> k, w\<lparr>fw_out := fw_out w @ take k bs, fw_room := Some (k - length bs)\<rparr>))"

definition PutUint32 :: "32 word \<Rightarrow> byte list" where
  \<comment> \<open>\<open>binary.BigEndian.PutUint32\<close>\<close>
  "PutUint32 v = [ucast (drop_bit 24 v), ucast (drop_bit 16 v), ucast (drop_bit 8 v), ucast v]"

definition Uint32 :: "byte list \<Rightarrow> 32 word" where
  \<comment> \<open>\<open>binary.BigEndian.Uint32\<close>\<close>
  "Uint32 b = ucast (b ! 3) OR push_bit 8 (ucast (b ! 2)) OR push_bit 16 (ucast (b ! 1)) OR push_bit 24 (ucast (b ! 0))"

definition ReadFull :: "byte list \<Rightarrow> nat \<Rightarrow> (byte list) option \<times> byte list" where
  \<comment> \<open>\<open>io.ReadFull\<close>: all bytes, or an error after consuming what was there\<close>
  "ReadFull r n = (if n \<le> length r then (Some (take n r), drop n r) else (None, []))"

definition WriteFrame :: "('a \<Rightarrow> byte list option) \<Rightarrow> frame_writer \<Rightarrow> 'a \<Rightarrow> frame_error option \<times> frame_writer" where
  "WriteFrame marshal w payload =
     (case marshal payload of
        None \<Rightarrow> (Some EncodeFailed, w)
      | Some data \<Rightarrow>
          if length data > MaxControlFrameBytes then (Some FrameTooLarge, w)
          else (let (ok, w1) = w_Write w (PutUint32 (word_of_nat (length data)))
                in if \<not> ok then (Some ShortWrite, w1)
                   else (let (ok2, w2) = w_Write w1 data in (if ok2 then None else Some ShortWrite, w2))))"

definition ReadFrame :: "(byte list \<Rightarrow> 'a option) \<Rightarrow> byte list \<Rightarrow> (frame_error + 'a) \<times> byte list" where
  "ReadFrame unmarshal r =
     (case ReadFull r 4 of
        (None, r1) \<Rightarrow> (Inl UnexpectedEOF, r1)
      | (Some hdr, r1) \<Rightarrow>
          let size = unat (Uint32 hdr)
          in if size > MaxControlFrameBytes then (Inl FrameTooLarge, r1)
             else (case ReadFull r1 size of
                     (None, r2) \<Rightarrow> (Inl UnexpectedEOF, r2)
                   | (Some data, r2) \<Rightarrow> (case unmarshal data of None \<Rightarrow> (Inl DecodeFailed, r2) | Some x \<Rightarrow> (Inr x, r2))))"

definition WriteOpenRequest :: "(OpenRequest \<Rightarrow> byte list option) \<Rightarrow> frame_writer \<Rightarrow> OpenRequest \<Rightarrow> frame_error option \<times> frame_writer" where
  "WriteOpenRequest marshal w req =
     (case open_Validate req of Some e \<Rightarrow> (Some (BadOpenRequest e), w) | None \<Rightarrow> WriteFrame marshal w req)"

definition ReadOpenRequest :: "(byte list \<Rightarrow> OpenRequest option) \<Rightarrow> byte list \<Rightarrow> (frame_error + OpenRequest) \<times> byte list" where
  "ReadOpenRequest unmarshal r =
     (case ReadFrame unmarshal r of
        (Inl e, r1) \<Rightarrow> (Inl e, r1)
      | (Inr req, r1) \<Rightarrow> (case open_Validate req of Some e \<Rightarrow> (Inl (BadOpenRequest e), r1) | None \<Rightarrow> (Inr req, r1)))"

record OpenResponse =
  os_OK :: bool
  os_ErrorKind :: string
  os_Error :: string
  os_DialDurationNanos :: int
  os_DNSDurationNanos :: int

definition WriteOpenResponse :: "(OpenResponse \<Rightarrow> byte list option) \<Rightarrow> frame_writer \<Rightarrow> OpenResponse \<Rightarrow> frame_error option \<times> frame_writer" where
  "WriteOpenResponse marshal w resp = WriteFrame marshal w resp"

definition ReadOpenResponse :: "(byte list \<Rightarrow> OpenResponse option) \<Rightarrow> byte list \<Rightarrow> (frame_error + OpenResponse) \<times> byte list" where
  "ReadOpenResponse unmarshal r = ReadFrame unmarshal r"


section \<open>Frames: big-endian lengths and round trips\<close>

lemma length_PutUint32 [simp]: "length (PutUint32 v) = 4"
  by (simp add: PutUint32_def)

lemma Uint32_PutUint32 [simp]: "Uint32 (PutUint32 v) = v"
proof (rule bit_eqI)
  fix n assume "possible_bit TYPE(32 word) n"
  then have "n < 8 \<or> 8 \<le> n \<and> n < 16 \<or> 16 \<le> n \<and> n < 24 \<or> 24 \<le> n \<and> n < 32" by auto
  then show "bit (Uint32 (PutUint32 v)) n = bit v n"
    by (auto simp: Uint32_def PutUint32_def bit_simps)
qed

lemma frame_size [simp]: "n \<le> MaxControlFrameBytes \<Longrightarrow> unat (word_of_nat n :: 32 word) = n"
  by (simp add: MaxControlFrameBytes_def unsigned_of_nat take_bit_nat_eq_self_iff)

lemma WriteFrame_out:
  assumes "WriteFrame marshal w x = (None, w')"
  obtains bs where "marshal x = Some bs" "length bs \<le> MaxControlFrameBytes"
    "fw_out w' = fw_out w @ PutUint32 (word_of_nat (length bs)) @ bs"
  using assms
  by (auto simp: WriteFrame_def w_Write_def Let_def split: option.splits if_splits prod.splits)

lemma ReadFrame_frame:
  assumes "length bs \<le> MaxControlFrameBytes"
  shows "ReadFrame unmarshal (PutUint32 (word_of_nat (length bs)) @ bs @ rest) =
    (case unmarshal bs of None \<Rightarrow> (Inl DecodeFailed, rest) | Some x \<Rightarrow> (Inr x, rest))"
  using assms by (simp add: ReadFrame_def ReadFull_def)

lemma ReadFrame_consumes:
  assumes "ReadFrame unmarshal r = (res, r')"
  shows "\<exists>pre. r = pre @ r' \<and> (res \<noteq> Inl UnexpectedEOF \<longrightarrow> length pre \<le> 4 + MaxControlFrameBytes)"
proof (cases "4 \<le> length r")
  case False
  then show ?thesis using assms by (auto simp: ReadFrame_def ReadFull_def)
next
  case True
  let ?n = "unat (Uint32 (take 4 r))"
  consider "?n > MaxControlFrameBytes" | "?n \<le> MaxControlFrameBytes" "?n \<le> length r - 4" | "?n \<le> MaxControlFrameBytes" "?n > length r - 4"
    by linarith
  then show ?thesis
  proof cases
    case 1
    then have "r' = drop 4 r" using assms True by (simp add: ReadFrame_def ReadFull_def)
    then show ?thesis by (intro exI [of _ "take 4 r"]) (simp add: min_def)
  next
    case 2
    then have "r' = drop (4 + ?n) r"
      using assms True by (auto simp: ReadFrame_def ReadFull_def Let_def add.commute split: option.splits)
    then show ?thesis using 2 by (intro exI [of _ "take (4 + ?n) r"]) (simp add: min.coboundedI2)
  next
    case 3
    then show ?thesis using assms True by (simp add: ReadFrame_def ReadFull_def)
  qed
qed

lemma read_back:
  assumes codec: "\<And>bs. marshal x = Some bs \<Longrightarrow> unmarshal bs = Some x" and "WriteFrame marshal w x = (None, w')"
  shows "\<exists>sent. fw_out w' = fw_out w @ sent \<and> ReadFrame unmarshal (sent @ rest) = (Inr x, rest)"
proof (rule WriteFrame_out [OF assms(2)])
  fix bs assume "marshal x = Some bs" "length bs \<le> MaxControlFrameBytes"
    "fw_out w' = fw_out w @ PutUint32 (word_of_nat (length bs)) @ bs"
  then show ?thesis
    using codec by (intro exI [of _ "PutUint32 (word_of_nat (length bs)) @ bs"]) (simp add: ReadFrame_frame)
qed

text \<open>C34: Whatever open request the server writes on a stream without an error, the agent reads back: the bytes the writer
  received are one frame, reading them gives the same request and leaves the reader exactly at the bytes that follow.
  The JSON encoder and decoder are assumed to be inverse on this request.\<close>
theorem open_request_roundtrip:
  assumes codec: "\<And>bs. marshal req = Some bs \<Longrightarrow> unmarshal bs = Some req"
    and sent: "WriteOpenRequest marshal w req = (None, w')"
  shows "\<exists>sent. fw_out w' = fw_out w @ sent \<and> ReadOpenRequest unmarshal (sent @ rest) = (Inr req, rest)"
proof -
  have v: "open_Validate req = None" and "WriteFrame marshal w req = (None, w')"
    using sent by (simp_all add: WriteOpenRequest_def split: option.splits)
  then obtain frame where "fw_out w' = fw_out w @ frame" "ReadFrame unmarshal (frame @ rest) = (Inr req, rest)"
    using read_back [of marshal req unmarshal w w' rest] codec by blast
  then show ?thesis using v by (auto simp: ReadOpenRequest_def)
qed

text \<open>A frame reader takes a bounded prefix of its input: unless the input ends inside a frame, it consumes at most the
  four length bytes and 16 KiB, a frame that announces more is refused after its four length bytes whatever follows, and
  \<open>ReadOpenRequest\<close> only returns requests that pass \<open>Validate\<close>.\<close>
theorem frame_reader_bounded:
  "(\<exists>pre. r = pre @ snd (ReadOpenRequest unmarshal r) \<and>
      (fst (ReadOpenRequest unmarshal r) \<noteq> Inl UnexpectedEOF \<longrightarrow> length pre \<le> 4 + MaxControlFrameBytes)) \<and>
   (4 \<le> length r \<and> unat (Uint32 (take 4 r)) > MaxControlFrameBytes \<longrightarrow> ReadOpenRequest unmarshal r = (Inl FrameTooLarge, drop 4 r)) \<and>
   (\<forall>req. fst (ReadOpenRequest unmarshal r) = Inr req \<longrightarrow> open_Validate req = None)"
proof -
  obtain res r' where f: "ReadFrame unmarshal r = (res, r')" by force
  have "snd (ReadOpenRequest unmarshal r) = r'" "fst (ReadOpenRequest unmarshal r) \<noteq> Inl UnexpectedEOF \<Longrightarrow> res \<noteq> Inl UnexpectedEOF"
    by (auto simp: ReadOpenRequest_def f split: sum.splits option.splits)
  then show ?thesis using ReadFrame_consumes [OF f]
    by (auto simp: ReadOpenRequest_def ReadFrame_def ReadFull_def Let_def split: sum.splits option.splits prod.splits if_splits)
qed

section \<open>The flow-control offer\<close>

definition wire_values :: "AggregateFlowControlConfig \<Rightarrow> string \<Rightarrow> string list" where
  "wire_values c role = [TunnelFlowControlAggregateV1, role, format_uint (unat (InitialSessionWindow c)),
     format_uint (unat (MaxSessionWindow c)), format_uint (unat (InitialStreamWindow c)), format_uint (unat (MaxStreamWindow c)),
     format_uint (unat (MaxDataFrame c))]"

definition offers :: "header \<Rightarrow> string \<Rightarrow> bool" where
  \<comment> \<open>every extension header exactly once, with the one value the contract allows up to surrounding space\<close>
  "offers h role \<longleftrightarrow> list_all2 (\<lambda>n v. \<exists>raw. header_Values h n = [raw] \<and> trim_space raw = v)
     flow_control_names (wire_values DefaultAggregateFlowControlConfig role)"

lemma length_canonical_from [simp]: "length (canonical_from up s) = length s"
  by (induction up s rule: canonical_from.induct) simp_all

lemma flow_names_distinct: "distinct (map canonical_header flow_control_names)"
  unfolding flow_control_names_def by code_simp

lemma header_Values_Set: "header_Values (header_Set h n v) m = (if canonical_header m = canonical_header n then [v] else header_Values h m)"
  by (simp add: header_Values_def header_Set_def)

lemma singleTunnelHeader_Inr:
  "singleTunnelHeader h n = Inr (v, ok) \<longleftrightarrow>
     (header_Values h n = [] \<and> v = '''' \<and> \<not> ok) \<or> (\<exists>raw. header_Values h n = [raw] \<and> v = trim_space raw \<and> ok)"
  by (cases "header_Values h n"; cases "tl (header_Values h n)") (auto simp: singleTunnelHeader_def)

lemma read_headers_Inr:
  "read_headers h ns = Inr (vs, present) \<longleftrightarrow>
     list_all2 (\<lambda>n v. (header_Values h n = [] \<and> v = '''') \<or> (\<exists>raw. header_Values h n = [raw] \<and> v = trim_space raw)) ns vs \<and>
     present = (\<exists>n\<in>set ns. header_Values h n \<noteq> [])"
proof (induction ns arbitrary: vs present)
  case (Cons n ns)
  note IH = Cons.IH
  show ?case
  proof (cases vs)
    case (Cons v vs')
    have "read_headers h (n # ns) = Inr (v # vs', present) \<longleftrightarrow>
        (\<exists>ok p. singleTunnelHeader h n = Inr (v, ok) \<and> read_headers h ns = Inr (vs', p) \<and> present = (ok \<or> p))" by auto
    also have "\<dots> \<longleftrightarrow> (\<exists>ok. singleTunnelHeader h n = Inr (v, ok) \<and> present = (ok \<or> (\<exists>n\<in>set ns. header_Values h n \<noteq> []))) \<and>
        list_all2 (\<lambda>n v. (header_Values h n = [] \<and> v = '''') \<or> (\<exists>raw. header_Values h n = [raw] \<and> v = trim_space raw)) ns vs'"
      unfolding IH by blast
    also have "(\<exists>ok. singleTunnelHeader h n = Inr (v, ok) \<and> present = (ok \<or> (\<exists>n\<in>set ns. header_Values h n \<noteq> []))) \<longleftrightarrow>
        ((header_Values h n = [] \<and> v = '''') \<or> (\<exists>raw. header_Values h n = [raw] \<and> v = trim_space raw)) \<and>
        present = (\<exists>n\<in>set (n # ns). header_Values h n \<noteq> [])"
      unfolding singleTunnelHeader_Inr by (cases "header_Values h n") auto
    finally show ?thesis unfolding Cons by (simp only: list_all2_Cons conj_assoc)  (simp add: conj_commute)
  qed auto
qed auto

lemma check_complete_Inr: "length ns = length vs \<Longrightarrow> check_complete (zip ns vs) = Inr u \<longleftrightarrow> '''' \<notin> set vs"
  by (induction ns vs rule: list_induct2) auto

lemma unat_word_of_nat32: "v < 2 ^ 32 \<Longrightarrow> unat (word_of_nat v :: 32 word) = v"
  by (simp add: unsigned_of_nat take_bit_nat_eq_self_iff)

lemma parse_window_Inr: "parse_window n raw = Inr w \<longleftrightarrow> raw = format_uint (unat w) \<and> w \<noteq> 0"
proof
  assume "parse_window n raw = Inr w"
  then obtain v where v: "parse_uint 32 raw = Some v" "v \<noteq> 0" "format_uint v = raw" "w = word_of_nat v"
    by (auto simp: parse_window_def split: option.splits if_splits)
  have "unat w = v" using parse_uint_bound [OF v(1)] unat_word_of_nat32 v(4) by simp
  with v show "raw = format_uint (unat w) \<and> w \<noteq> 0" by auto
next
  assume "raw = format_uint (unat w) \<and> w \<noteq> 0"
  then show "parse_window n raw = Inr w"
    using unsigned_less [of w] by (auto simp: parse_window_def unat_eq_zero)
qed

lemma parse_windows_Inr:
  "length ns = length raws \<Longrightarrow> parse_windows (zip ns raws) = Inr ws \<longleftrightarrow> raws = map (\<lambda>w. format_uint (unat w)) ws \<and> 0 \<notin> set ws"
proof (induction ns raws arbitrary: ws rule: list_induct2)
  case (Cons n ns raw raws)
  show ?case
  proof (cases ws)
    case (Cons w ws')
    have "parse_windows (zip (n # ns) (raw # raws)) = Inr (w # ws') \<longleftrightarrow>
        parse_window n raw = Inr w \<and> parse_windows (zip ns raws) = Inr ws'" by simp
    then show ?thesis unfolding \<open>ws = w # ws'\<close> Cons.IH parse_window_Inr by auto
  qed simp
qed auto

lemma format_uint_nonempty: "format_uint n \<noteq> ''''"
  using format_uint_digits by blast

lemma wire_nonempty: "role \<noteq> '''' \<Longrightarrow> '''' \<notin> set (wire_values c role)"
  using format_uint_nonempty [THEN not_sym] by (simp add: wire_values_def TunnelFlowControlAggregateV1_def)

lemma config_windows_nonzero [simp]:
  "0 \<notin> {InitialSessionWindow DefaultAggregateFlowControlConfig, MaxSessionWindow DefaultAggregateFlowControlConfig,
     InitialStreamWindow DefaultAggregateFlowControlConfig, MaxStreamWindow DefaultAggregateFlowControlConfig,
     MaxDataFrame DefaultAggregateFlowControlConfig}"
  by (simp add: DefaultAggregateFlowControlConfig_def AggregateInitialSessionWindowBytes_def AggregateMaxSessionWindowBytes_def
      AggregateInitialStreamWindowBytes_def AggregateMaxStreamWindowBytes_def AggregateMaxDataFrameBytes_def)

lemma list_all2_cong_right: "(\<And>x y. y \<in> set ys \<Longrightarrow> P x y = Q x y) \<Longrightarrow> list_all2 P xs ys = list_all2 Q xs ys"
  by (induction xs ys rule: list_induct2') simp_all

lemma length5: "length xs = 5 \<longleftrightarrow> (\<exists>a b c d e. xs = [a, b, c, d, e])"
  by (auto simp: numeral_eq_Suc length_Suc_conv)

lemma wire_values_eq:
  assumes "length vals = 7" "vals ! 0 = TunnelFlowControlAggregateV1" "vals ! 1 = role"
    and "drop 2 vals = map (\<lambda>w. format_uint (unat w)) ws" "config_of_list ws = c"
  shows "vals = wire_values c role"
proof -
  have "length ws = 5" using assms(1) arg_cong [OF assms(4), of length] by simp
  then obtain a b d e f where ws: "ws = [a, b, d, e, f]" by (auto simp: length5)
  have "vals = [vals ! 0, vals ! 1] @ drop 2 vals"
    using assms(1) by (cases vals; cases "tl vals") auto
  also have "\<dots> = wire_values c role"
    using assms by (simp add: wire_values_def ws config_of_list_def flip: assms(5))
  finally show ?thesis .
qed

lemma offers_read:
  assumes "role \<noteq> ''''"
  shows "offers h role \<longleftrightarrow> read_headers h flow_control_names = Inr (wire_values DefaultAggregateFlowControlConfig role, True)"
proof -
  have ne: "'''' \<notin> set (wire_values DefaultAggregateFlowControlConfig role)" by (rule wire_nonempty [OF assms])
  let ?P = "\<lambda>n v. (header_Values h n = [] \<and> v = '''') \<or> (\<exists>raw. header_Values h n = [raw] \<and> v = trim_space raw)"
  have "offers h role \<longleftrightarrow> list_all2 ?P flow_control_names (wire_values DefaultAggregateFlowControlConfig role)"
    unfolding offers_def using ne by (intro list_all2_cong_right) auto
  moreover have "\<exists>n\<in>set flow_control_names. header_Values h n \<noteq> []" if "offers h role"
    using that by (auto simp: offers_def flow_control_names_def wire_values_def)
  ultimately show ?thesis unfolding read_headers_Inr by blast
qed

lemma flow_control_accepts:
  "ParseAggregateFlowControlHeaders h = Inr (Some (c, role)) \<longleftrightarrow>
     c = DefaultAggregateFlowControlConfig \<and> (role = TunnelLaneRoleControl \<or> role = TunnelLaneRoleBulk) \<and> offers h role"
proof
  assume "ParseAggregateFlowControlHeaders h = Inr (Some (c, role))"
  then obtain vals ws where v: "read_headers h flow_control_names = Inr (vals, True)" "vals ! 0 = TunnelFlowControlAggregateV1"
      "vals ! 1 = role" "role = TunnelLaneRoleControl \<or> role = TunnelLaneRoleBulk"
      "parse_windows (zip (drop 2 flow_control_names) (drop 2 vals)) = Inr ws" "config_of_list ws = c" "c = DefaultAggregateFlowControlConfig"
    by (auto simp: ParseAggregateFlowControlHeaders_def Let_def split: if_splits)
  have len: "length vals = 7" using v(1) list_all2_lengthD
    by (fastforce simp: read_headers_Inr flow_control_names_def)
  then have "drop 2 vals = map (\<lambda>w. format_uint (unat w)) ws"
    using v(5) by (subst (asm) parse_windows_Inr) (simp_all add: flow_control_names_def)
  then have "vals = wire_values c role" using len v by (intro wire_values_eq)
  then show "c = DefaultAggregateFlowControlConfig \<and> (role = TunnelLaneRoleControl \<or> role = TunnelLaneRoleBulk) \<and> offers h role"
    using v offers_read [of role h] by (auto simp: TunnelLaneRoleControl_def TunnelLaneRoleBulk_def)
next
  let ?d = DefaultAggregateFlowControlConfig
  assume a: "c = ?d \<and> (role = TunnelLaneRoleControl \<or> role = TunnelLaneRoleBulk) \<and> offers h role"
  then have r: "role \<noteq> ''''" by (auto simp: TunnelLaneRoleControl_def TunnelLaneRoleBulk_def)
  let ?ws = "[InitialSessionWindow ?d, MaxSessionWindow ?d, InitialStreamWindow ?d, MaxStreamWindow ?d, MaxDataFrame ?d]"
  have read: "read_headers h flow_control_names = Inr (wire_values ?d role, True)" using a offers_read [OF r] by blast
  have len: "length flow_control_names = length (wire_values ?d role)" by (simp add: flow_control_names_def wire_values_def)
  then have complete: "check_complete (zip flow_control_names (wire_values ?d role)) = Inr ()"
    using wire_nonempty [OF r] by (simp add: check_complete_Inr)
  have "drop 2 (wire_values ?d role) = map (\<lambda>w. format_uint (unat w)) ?ws" by (simp add: wire_values_def)
  then have windows: "parse_windows (zip (drop 2 flow_control_names) (drop 2 (wire_values ?d role))) = Inr ?ws"
    using config_windows_nonzero by (subst parse_windows_Inr) (auto simp: flow_control_names_def wire_values_def)
  have "wire_values ?d role ! 0 = TunnelFlowControlAggregateV1" "wire_values ?d role ! 1 = role" "config_of_list ?ws = ?d"
    by (simp_all add: wire_values_def config_of_list_def)
  then show "ParseAggregateFlowControlHeaders h = Inr (Some (c, role))"
    using a by (auto simp: ParseAggregateFlowControlHeaders_def read complete windows)
qed

lemma flow_control_absent:
  "ParseAggregateFlowControlHeaders h = Inr None \<longleftrightarrow> (\<forall>n\<in>set flow_control_names. header_Values h n = [])"
proof
  assume "ParseAggregateFlowControlHeaders h = Inr None"
  then obtain vals where "read_headers h flow_control_names = Inr (vals, False)"
    by (auto simp: ParseAggregateFlowControlHeaders_def Let_def split: if_splits)
  then show "\<forall>n\<in>set flow_control_names. header_Values h n = []" by (simp add: read_headers_Inr)
next
  assume a: "\<forall>n\<in>set flow_control_names. header_Values h n = []"
  have "list_all2 (\<lambda>n v. (header_Values h n = [] \<and> v = '''') \<or> (\<exists>raw. header_Values h n = [raw] \<and> v = trim_space raw)) ns
      (map (\<lambda>_. '''') ns)" if "set ns \<subseteq> set flow_control_names" for ns
    using that a by (induction ns) auto
  then have "read_headers h flow_control_names = Inr (map (\<lambda>_. '''') flow_control_names, False)"
    using a unfolding read_headers_Inr by blast
  then show "ParseAggregateFlowControlHeaders h = Inr None" by (simp add: ParseAggregateFlowControlHeaders_def)
qed

lemma Set_offers:
  assumes "trim_space role = role"
  shows "offers (SetAggregateFlowControlHeaders h role DefaultAggregateFlowControlConfig) role"
proof -
  have "trim_space TunnelFlowControlAggregateV1 = TunnelFlowControlAggregateV1"
    by (simp add: TunnelFlowControlAggregateV1_def trim_space_def trim_left_def is_space_def)
  then show ?thesis using assms flow_names_distinct
    by (simp add: offers_def flow_control_names_def wire_values_def SetAggregateFlowControlHeaders_def header_Values_Set Let_def)
qed

text \<open>C37: The parser of the flow-control extension accepts exactly the complete canonical offer: it enables aggregate flow control
  if and only if every one of the seven headers is present exactly once and carries, up to surrounding space, the canonical text of the default
  configuration and a known role, it reports a disabled extension if and only if all seven are absent, and whatever
  \<open>SetAggregateFlowControlHeaders\<close> writes on top of any headers is accepted and read back.\<close>
theorem flow_control_contract:
  "(ParseAggregateFlowControlHeaders h = Inr (Some (c, role)) \<longleftrightarrow>
      c = DefaultAggregateFlowControlConfig \<and> (role = TunnelLaneRoleControl \<or> role = TunnelLaneRoleBulk) \<and> offers h role) \<and>
   (ParseAggregateFlowControlHeaders h = Inr None \<longleftrightarrow> list_all (\<lambda>n. header_Values h n = []) flow_control_names) \<and>
   ParseAggregateFlowControlHeaders (SetAggregateFlowControlHeaders h TunnelLaneRoleBulk DefaultAggregateFlowControlConfig) =
     Inr (Some (DefaultAggregateFlowControlConfig, TunnelLaneRoleBulk)) \<and>
   ParseAggregateFlowControlHeaders (SetAggregateFlowControlHeaders h TunnelLaneRoleControl DefaultAggregateFlowControlConfig) =
     Inr (Some (DefaultAggregateFlowControlConfig, TunnelLaneRoleControl))"
proof -
  have "trim_space TunnelLaneRoleBulk = TunnelLaneRoleBulk" "trim_space TunnelLaneRoleControl = TunnelLaneRoleControl"
    by (simp_all add: TunnelLaneRoleBulk_def TunnelLaneRoleControl_def trim_space_def trim_left_def is_space_def)
  then show ?thesis by (simp add: flow_control_accepts flow_control_absent Set_offers list_all_iff)
qed

section \<open>Lanes\<close>

lemma parseTunnelLane_Inr:
  "parseTunnelLane grp raw aggregate = Inr (g, lane) \<Longrightarrow>
     0 \<le> lane \<and> lane \<le> MaxParallelTunnels \<and> (\<not> aggregate \<longrightarrow> lane < MaxParallelTunnels) \<and> g = grp \<and>
     (g = '''' \<and> lane = 0 \<or> 16 \<le> length g \<and> length g \<le> 64 \<and> list_all group_char g)"
  by (auto simp: parseTunnelLane_def MaxParallelTunnels_def Let_def split: if_splits option.splits)

lemma validLaneOwnerID_nonempty: "validLaneOwnerID s \<Longrightarrow> s \<noteq> ''''"
  by (auto simp: validLaneOwnerID_def)

lemma ParseLaneRetirement_Inr:
  assumes "ParseLaneRetirement h = Inr (True, oid, replaces)"
  shows "validLaneOwnerID oid" "replaces = '''' \<or> validLaneOwnerID replaces \<and> replaces \<noteq> oid"
  using assms by (auto simp: ParseLaneRetirement_def Let_def split: if_splits)

text \<open>What the upgrade headers admit, the lane registry can own: a lane and an owner identity accepted from the headers are
  always within the ranges \<open>Acquire\<close> checks, so the first owner of a lane of an open generation is registered whenever the
  headers name no predecessor and the reservation succeeds, and an owner never replaces itself.\<close>
theorem parsed_lane_is_acquirable:
  assumes "ParseTunnelLaneHeaders h aggregate = Inr (g, lane)" "ParseLaneRetirement h = Inr (True, oid, replaces)"
  shows "0 \<le> lane \<and> lane \<le> MaxParallelTunnels \<and> replaces \<noteq> oid \<and>
    (\<forall>gen reserved. \<not> lg_closed gen \<and> map_of (lg_lanes gen) lane = None \<and> 0 \<le> reserved \<and> replaces = '''' \<longrightarrow>
       fst (Acquire gen lane oid replaces reserved True) \<noteq> None)"
proof -
  have "0 \<le> lane \<and> lane \<le> MaxParallelTunnels"
    using assms(1) parseTunnelLane_Inr by (auto simp: ParseTunnelLaneHeaders_def)
  moreover have "oid \<noteq> ''''" "replaces \<noteq> oid"
    using ParseLaneRetirement_Inr [OF assms(2)] validLaneOwnerID_nonempty by auto
  ultimately show ?thesis by (auto simp: Acquire_def add_owner_def Let_def)
qed

section \<open>Concrete inputs\<close>

definition ex_request :: OpenRequest where
  "ex_request = NewOpenRequest ''r'' ''TCP'' '' a:1''"

definition ex_marshal :: "OpenRequest \<Rightarrow> byte list option" where
  "ex_marshal r = Some [7, 9]"

definition ex_unmarshal :: "byte list \<Rightarrow> OpenRequest option" where
  "ex_unmarshal bs = (if bs = [7, 9] then Some ex_request else None)"

lemma ex_request_valid: "open_Validate ex_request = None"
  by code_simp

theorem open_request_roundtrip_witness:
  "WriteOpenRequest ex_marshal \<lparr>fw_out = [], fw_room = None\<rparr> ex_request = (None, \<lparr>fw_out = [0, 0, 0, 2, 7, 9], fw_room = None\<rparr>) \<and>
   (\<exists>sent. [0, 0, 0, 2, 7, 9] = sent \<and> ReadOpenRequest ex_unmarshal (sent @ [5]) = (Inr ex_request, [5]))"
proof -
  have w: "WriteOpenRequest ex_marshal \<lparr>fw_out = [], fw_room = None\<rparr> ex_request = (None, \<lparr>fw_out = [0, 0, 0, 2, 7, 9], fw_room = None\<rparr>)"
    by (simp add: WriteOpenRequest_def ex_request_valid WriteFrame_def ex_marshal_def MaxControlFrameBytes_def w_Write_def PutUint32_def)
  show ?thesis
    using open_request_roundtrip [OF _ w, of ex_unmarshal "[5]"] w by (simp add: ex_marshal_def ex_unmarshal_def)
qed

theorem frame_reader_bounded_witness:
  "ReadOpenRequest ex_unmarshal [0, 0, 64, 1, 7] = (Inl FrameTooLarge, [7])"
proof -
  have "unat (Uint32 (take 4 [0, 0, 64, 1, 7])) = 16385" by (simp add: Uint32_def)
  then show ?thesis
    using frame_reader_bounded [of "[0, 0, 64, 1, 7]" ex_unmarshal] by (simp add: MaxControlFrameBytes_def)
qed

definition ex_headers :: header where
  "ex_headers = [(canonical_header TunnelGroupHeader, [''aaaaaaaaaaaaaaaa'']), (canonical_header TunnelLaneHeader, ['' 3'']),
     (canonical_header LaneRetirementHeader, [''1'']), (canonical_header LaneOwnerHeader, [''bbbbbbbbbbbbbbbb''])]"

lemma ex_headers_parse:
  "ParseTunnelLaneHeaders ex_headers True = Inr (''aaaaaaaaaaaaaaaa'', 3)"
  "ParseLaneRetirement ex_headers = Inr (True, ''bbbbbbbbbbbbbbbb'', '''')"
  by code_simp+

theorem parsed_lane_is_acquirable_witness:
  "ParseTunnelLaneHeaders ex_headers True = Inr (''aaaaaaaaaaaaaaaa'', 3) \<and>
   fst (Acquire newLaneOwners 3 ''bbbbbbbbbbbbbbbb'' '''' 100 True) \<noteq> None"
  using parsed_lane_is_acquirable [OF ex_headers_parse] ex_headers_parse(1)
  by (simp add: newLaneOwners_def)

end
