(* ===== verification/TunnelResources.thy ===== *)
theory TunnelResources
  imports Prelude Float64 TunnelProtocol
begin

text \<open>
  Resource accounting of a tunnel session (\<open>internal/tunnel/yamux.go\<close>), the Yamux configurations it builds and the
  vendored functions they rest on (\<open>third_party/yamux\<close>: the memory models of receive windows and \<open>VerifyConfig\<close>), the
  receive window growth estimator (\<open>internal/tunnel/receive_window_growth.go\<close>) and the stream limiter
  (\<open>internal/tunnel/stream_limiter.go\<close>). \<open>int64\<close> sums are written with their wrap-around (\<open>i64\<close>, \<open>u64\<close>), so that the guards of
  the source are what keeps them exact.
\<close>

definition u64 :: "int \<Rightarrow> int" where "u64 x = x mod 18446744073709551616"
definition u32 :: "int \<Rightarrow> int" where "u32 x = x mod 4294967296"

lemma u64_id [simp, go_num]: "0 \<le> x \<Longrightarrow> x < 18446744073709551616 \<Longrightarrow> u64 x = x"
  by (simp add: u64_def)

lemma u32_id [simp, go_num]: "0 \<le> x \<Longrightarrow> x < 4294967296 \<Longrightarrow> u32 x = x"
  by (simp add: u32_def)

lemma i64_small [simp, go_num]: "0 \<le> x \<Longrightarrow> x \<le> 9223372036854775807 \<Longrightarrow> i64 x = x"
  by (simp add: in_i64_def min_int64_def max_int64_def)

abbreviation KiB :: int where "KiB \<equiv> 1024"
abbreviation MiB :: int where "MiB \<equiv> 1048576"

section \<open>Vendored memory models\<close>

definition initialStreamWindow :: int where "initialStreamWindow = 256 * KiB"
definition recvChunkSize :: int where "recvChunkSize = 64 * KiB"
definition recvChunkAccounting :: int where "recvChunkAccounting = 64"
definition AggregateWindowUnitSize :: int where "AggregateWindowUnitSize = 4 * KiB"
definition AggregateMaxDataFrameSize :: int where "AggregateMaxDataFrameSize = 32 * KiB"
definition AggregateMaxSessionWindowSize :: int where "AggregateMaxSessionWindowSize = 1073741824"
definition aggregateChunkAccounting :: int where "aggregateChunkAccounting = 1024"
definition aggregateStreamWindowDivisor :: int where "aggregateStreamWindowDivisor = 4"
definition AggregateSendMemory :: int where "AggregateSendMemory = 8 * (40 * KiB + 1024)"

definition ReceiveWindowMemory :: "int \<Rightarrow> int" where
  "ReceiveWindowMemory window =
     (if window = 0 then 0
      else (let chunks = u64 ((u64 (window + recvChunkSize - 1)) div recvChunkSize + 2)
            in u64 (chunks * (recvChunkSize + recvChunkAccounting))))"

definition AggregateReceiveWindowMemory :: "int \<Rightarrow> int" where
  "AggregateReceiveWindowMemory window =
     (let units = u64 (window + AggregateWindowUnitSize - 1) div AggregateWindowUnitSize
      in u64 (units * (AggregateWindowUnitSize + aggregateChunkAccounting)))"

lemmas yamux_consts = initialStreamWindow_def recvChunkSize_def recvChunkAccounting_def AggregateWindowUnitSize_def
  AggregateMaxDataFrameSize_def AggregateMaxSessionWindowSize_def aggregateChunkAccounting_def aggregateStreamWindowDivisor_def
  AggregateSendMemory_def

record yamux_Config =
  AcceptBacklog :: int
  EnableKeepAlive :: bool
  KeepAliveInterval :: duration
  ConnectionWriteTimeout :: duration
  cfg_MaxStreamWindowSize :: int
  MaxIncomingStreams :: int
  InitialSessionWindowSize :: int
  MaxSessionWindowSize :: int
  MaxDataFrameSize :: int
  InitialStreamAllocationWindowSize :: int
  MaxStreamAllocationWindowSize :: int
  AggregateReceivePressureTimeout :: duration
  StreamOpenTimeout :: duration
  StreamCloseTimeout :: duration
  cfg_LogOutput :: bool \<comment> \<open>whether an output is set\<close>
  cfg_Logger :: bool \<comment> \<open>whether a logger is set\<close>

definition yamux_DefaultConfig :: yamux_Config where
  "yamux_DefaultConfig = \<lparr>AcceptBacklog = 256, EnableKeepAlive = True, KeepAliveInterval = 30 * second,
     ConnectionWriteTimeout = 10 * second, cfg_MaxStreamWindowSize = initialStreamWindow, MaxIncomingStreams = 0,
     InitialSessionWindowSize = 0, MaxSessionWindowSize = 0, MaxDataFrameSize = 0, InitialStreamAllocationWindowSize = 0,
     MaxStreamAllocationWindowSize = 0, AggregateReceivePressureTimeout = 0, StreamOpenTimeout = 75 * second,
     StreamCloseTimeout = 5 * minute, cfg_LogOutput = True, cfg_Logger = False\<rparr>"

definition aggregate_ok :: "yamux_Config \<Rightarrow> bool" where
  \<comment> \<open>the checks of \<open>VerifyConfig\<close> on a configuration with aggregate fields\<close>
  "aggregate_ok c \<longleftrightarrow>
     InitialSessionWindowSize c \<noteq> 0 \<and> MaxSessionWindowSize c \<noteq> 0 \<and> MaxDataFrameSize c \<noteq> 0 \<and>
     InitialStreamAllocationWindowSize c \<noteq> 0 \<and> MaxStreamAllocationWindowSize c \<noteq> 0 \<and>
     list_all (\<lambda>v. v mod AggregateWindowUnitSize = 0) [InitialSessionWindowSize c, MaxSessionWindowSize c,
       InitialStreamAllocationWindowSize c, MaxStreamAllocationWindowSize c] \<and>
     InitialSessionWindowSize c \<le> MaxSessionWindowSize c \<and> MaxSessionWindowSize c \<le> AggregateMaxSessionWindowSize \<and>
     MaxDataFrameSize c = AggregateMaxDataFrameSize \<and>
     InitialStreamAllocationWindowSize c \<le> InitialSessionWindowSize c div aggregateStreamWindowDivisor \<and>
     InitialStreamAllocationWindowSize c \<le> MaxStreamAllocationWindowSize c \<and>
     MaxStreamAllocationWindowSize c \<le> MaxSessionWindowSize c div aggregateStreamWindowDivisor"

definition VerifyConfig :: "yamux_Config \<Rightarrow> bool" where
  \<comment> \<open>whether the configuration is accepted\<close>
  "VerifyConfig c \<longleftrightarrow>
     AcceptBacklog c > 0 \<and> KeepAliveInterval c > 0 \<and> cfg_MaxStreamWindowSize c \<ge> initialStreamWindow \<and> MaxIncomingStreams c \<ge> - 1 \<and>
     \<not> (AggregateReceivePressureTimeout c < 0 \<or>
        (AggregateReceivePressureTimeout c > 0 \<and> AggregateReceivePressureTimeout c < 4 * millisecond)) \<and>
     ((InitialSessionWindowSize c \<noteq> 0 \<or> MaxSessionWindowSize c \<noteq> 0 \<or> MaxDataFrameSize c \<noteq> 0 \<or>
       InitialStreamAllocationWindowSize c \<noteq> 0 \<or> MaxStreamAllocationWindowSize c \<noteq> 0) \<longrightarrow> aggregate_ok c) \<and>
     cfg_LogOutput c \<noteq> cfg_Logger c"

section \<open>Limits and normalisation\<close>

definition InitialStreamWindowSizeBytes :: int where "InitialStreamWindowSizeBytes = 256 * KiB"
definition AdaptivePerStreamOverheadBytes :: int where "AdaptivePerStreamOverheadBytes = 768 * KiB"
definition AdaptiveServerStreamOverheadBytes :: int where "AdaptiveServerStreamOverheadBytes = 256 * KiB"
definition DefaultAdaptiveReceiveWindowBytes :: int where "DefaultAdaptiveReceiveWindowBytes = 512 * KiB"
definition DefaultAdaptiveStreamChargeBytes :: int where
  "DefaultAdaptiveStreamChargeBytes = DefaultAdaptiveReceiveWindowBytes + AdaptivePerStreamOverheadBytes"
definition MinimumAdaptiveStreamChargeBytes :: int where
  "MinimumAdaptiveStreamChargeBytes = InitialStreamWindowSizeBytes + AdaptivePerStreamOverheadBytes"
definition MaxStreamWindowSizeBytesLimit :: int where "MaxStreamWindowSizeBytesLimit = 1024 * MiB"
definition DefaultMaxStreamWindowSizeBytes :: int where "DefaultMaxStreamWindowSizeBytes = MaxStreamWindowSizeBytesLimit"
definition DefaultMaxConcurrentAgentRequests :: int where "DefaultMaxConcurrentAgentRequests = 64"
definition MaxConcurrentAgentRequestsLimit :: int where "MaxConcurrentAgentRequestsLimit = 2048"
definition MaxAdaptiveConcurrentStreamsLimit :: int where "MaxAdaptiveConcurrentStreamsLimit = 65536"
definition MaxUpstreamSocketBufferBytes :: int where "MaxUpstreamSocketBufferBytes = 16 * MiB"
definition AggregateSessionMetadataBytes :: int where "AggregateSessionMetadataBytes = 256 * KiB"
definition AggregatePendingStreamMetadataBytes :: int where "AggregatePendingStreamMetadataBytes = 8 * KiB"
definition NegotiatedControlStreamLimit :: int where "NegotiatedControlStreamLimit = 4"
definition AgentLegacyAcceptBacklogStreams :: int where "AgentLegacyAcceptBacklogStreams = 64"
definition AgentLegacyPendingStreams :: int where "AgentLegacyPendingStreams = AgentLegacyAcceptBacklogStreams + 1"
definition AgentLegacyRejectedStreamLimit :: int where "AgentLegacyRejectedStreamLimit = 16"

lemmas tunnel_consts = yamux_consts InitialStreamWindowSizeBytes_def AdaptivePerStreamOverheadBytes_def AdaptiveServerStreamOverheadBytes_def
  DefaultAdaptiveReceiveWindowBytes_def DefaultAdaptiveStreamChargeBytes_def MinimumAdaptiveStreamChargeBytes_def
  MaxStreamWindowSizeBytesLimit_def DefaultMaxStreamWindowSizeBytes_def DefaultMaxConcurrentAgentRequests_def
  MaxConcurrentAgentRequestsLimit_def MaxAdaptiveConcurrentStreamsLimit_def MaxUpstreamSocketBufferBytes_def
  AggregateSessionMetadataBytes_def AggregatePendingStreamMetadataBytes_def NegotiatedControlStreamLimit_def
  AgentLegacyAcceptBacklogStreams_def AgentLegacyPendingStreams_def AgentLegacyRejectedStreamLimit_def max_int64_def

datatype resource_error =
    WindowTooSmall | WindowTooLarge | SocketBufferRange | RequestsTooSmall | RequestsTooLarge
  | AccountingRange string | ChargeTooSmall | ChargeTooLarge | CountOutOfRange string | InvalidYamuxConfig

definition NormalizeMaxStreamWindowSizeBytes :: "int \<Rightarrow> resource_error + int" where
  "NormalizeMaxStreamWindowSizeBytes sizeBytes =
     (let s = (if sizeBytes = 0 then DefaultMaxStreamWindowSizeBytes else sizeBytes)
      in if s < cfg_MaxStreamWindowSize yamux_DefaultConfig then Inl WindowTooSmall
         else if s > MaxStreamWindowSizeBytesLimit then Inl WindowTooLarge
         else Inr (u32 s))"

definition NormalizeUpstreamSocketBufferBytes :: "int \<Rightarrow> resource_error + int" where
  "NormalizeUpstreamSocketBufferBytes bytes =
     (if bytes = 0 then Inr 0
      else if bytes < 16 * KiB \<or> bytes > MaxUpstreamSocketBufferBytes then Inl SocketBufferRange
      else Inr bytes)"

definition NormalizeMaxConcurrentAgentRequests :: "int \<Rightarrow> resource_error + int" where
  "NormalizeMaxConcurrentAgentRequests requests =
     (let n = (if requests = 0 then DefaultMaxConcurrentAgentRequests else requests)
      in if n < 1 then Inl RequestsTooSmall
         else if n > MaxConcurrentAgentRequestsLimit then Inl RequestsTooLarge
         else Inr n)"

definition InitialReceiveWindow :: "int \<Rightarrow> resource_error + int" where
  "InitialReceiveWindow configured =
     ebind (NormalizeMaxStreamWindowSizeBytes configured) (\<lambda>window. Inr (min window DefaultAdaptiveReceiveWindowBytes))"

section \<open>Resource models\<close>

record StreamResourceModel =
  MemoryBytes :: int
  FileDescriptors :: int

definition ServerStreamBaseResourceModel :: StreamResourceModel where
  "ServerStreamBaseResourceModel = \<lparr>MemoryBytes = AdaptiveServerStreamOverheadBytes, FileDescriptors = 0\<rparr>"

definition AgentStreamBaseResourceModel :: "int \<Rightarrow> resource_error + StreamResourceModel" where
  "AgentStreamBaseResourceModel socketBufferBytes =
     ebind (NormalizeUpstreamSocketBufferBytes socketBufferBytes) (\<lambda>b.
       let model = ServerStreamBaseResourceModel;
           buffer = (if b = 0 then 128 * KiB else b)
       in if buffer > (max_int64 - MemoryBytes model) div 4 then Inl (AccountingRange ''agent origin socket memory'')
          else Inr (model\<lparr>MemoryBytes := i64 (MemoryBytes model + i64 (4 * buffer)), FileDescriptors := 2\<rparr>))"

definition LegacyReceiveWindowSupplementBytes :: "int \<Rightarrow> resource_error + int" where
  "LegacyReceiveWindowSupplementBytes windowBytes =
     ebind (InitialReceiveWindow windowBytes) (\<lambda>window.
       let receive = ReceiveWindowMemory (u32 window)
       in if receive > max_int64 then Inl (AccountingRange ''legacy stream receive memory'') else Inr (i64 receive))"

definition ServerStreamResourceModel :: "int \<Rightarrow> resource_error + StreamResourceModel" where
  "ServerStreamResourceModel windowBytes =
     ebind (InitialReceiveWindow windowBytes) (\<lambda>window.
       let receiveBytes = ReceiveWindowMemory (u32 window)
       in if receiveBytes > max_int64 - AdaptiveServerStreamOverheadBytes then Inl (AccountingRange ''server stream receive memory'')
          else Inr \<lparr>MemoryBytes = i64 (i64 receiveBytes + AdaptiveServerStreamOverheadBytes), FileDescriptors = 0\<rparr>)"

definition AgentStreamResourceModel :: "int \<Rightarrow> int \<Rightarrow> resource_error + StreamResourceModel" where
  "AgentStreamResourceModel windowBytes socketBufferBytes =
     ebind (AgentStreamBaseResourceModel socketBufferBytes) (\<lambda>model.
       ebind (LegacyReceiveWindowSupplementBytes windowBytes) (\<lambda>receive.
         if receive > max_int64 - MemoryBytes model then Inl (AccountingRange ''agent stream receive memory'')
         else Inr (model\<lparr>MemoryBytes := i64 (MemoryBytes model + receive)\<rparr>)))"

definition StreamMemoryCharge :: "int \<Rightarrow> int \<Rightarrow> resource_error + int" where
  "StreamMemoryCharge windowBytes socketBufferBytes =
     ebind (NormalizeMaxStreamWindowSizeBytes windowBytes) (\<lambda>window.
       ebind (NormalizeUpstreamSocketBufferBytes socketBufferBytes) (\<lambda>b.
         let buffer = (if b = 0 then 128 * KiB else b);
             charge = i64 (min window DefaultAdaptiveReceiveWindowBytes + 4 * buffer + 256 * KiB)
         in Inr (max charge MinimumAdaptiveStreamChargeBytes)))"

definition AdaptiveMaxStreamWindowSizeBytes :: "int \<Rightarrow> int \<Rightarrow> resource_error + int" where
  "AdaptiveMaxStreamWindowSizeBytes configuredBytes chargedBytes =
     ebind (NormalizeMaxStreamWindowSizeBytes configuredBytes) (\<lambda>configured.
       let charged = (if chargedBytes = 0 then DefaultAdaptiveStreamChargeBytes else chargedBytes)
       in if charged < MinimumAdaptiveStreamChargeBytes then Inl ChargeTooSmall
          else if charged > MaxStreamWindowSizeBytesLimit + 4 * MaxUpstreamSocketBufferBytes + AdaptivePerStreamOverheadBytes
          then Inl ChargeTooLarge
          else (let coveredWindow = charged - AdaptivePerStreamOverheadBytes
                in if coveredWindow < configured then Inr coveredWindow else Inr configured))"

definition AggregateSessionResourceBytes :: "int \<Rightarrow> int \<Rightarrow> resource_error + int" where
  "AggregateSessionResourceBytes window pendingStreams =
     (if pendingStreams < 0 then Inl (CountOutOfRange ''aggregate pending stream count'')
      else (let pool = AggregateReceiveWindowMemory window;
                base = AggregateSessionMetadataBytes + AggregateSendMemory;
                perStream = AggregatePendingStreamMetadataBytes
            in if pendingStreams > (18446744073709551615 - base) div perStream
               then Inl (AccountingRange ''aggregate pending stream reservation'')
               else (let metadata = u64 (base + u64 (pendingStreams * perStream))
                     in if metadata > max_int64 \<or> pool > max_int64 - metadata
                        then Inl (AccountingRange ''aggregate session resource reservation'')
                        else Inr (i64 (pool + metadata)))))"

definition NegotiatedControlSessionResourceBytesForStreams :: "int \<Rightarrow> int \<Rightarrow> resource_error + int" where
  "NegotiatedControlSessionResourceBytesForStreams windowBytes streams =
     (if streams < 1 \<or> streams > NegotiatedControlStreamLimit then Inl (CountOutOfRange ''negotiated control stream count'')
      else ebind (InitialReceiveWindow windowBytes) (\<lambda>window.
        let receive = ReceiveWindowMemory (u32 window);
            perStream = u64 (receive + AggregatePendingStreamMetadataBytes);
            tot = u64 (AggregateSessionMetadataBytes + u64 (streams * perStream))
        in if tot > max_int64 then Inl (AccountingRange ''control session resource reservation'') else Inr (i64 tot)))"

definition NegotiatedControlSessionResourceBytes :: "int \<Rightarrow> resource_error + int" where
  "NegotiatedControlSessionResourceBytes windowBytes = NegotiatedControlSessionResourceBytesForStreams windowBytes NegotiatedControlStreamLimit"

definition AgentLegacySessionResourceBytes :: "int \<Rightarrow> resource_error + int" where
  "AgentLegacySessionResourceBytes windowBytes =
     ebind (LegacyReceiveWindowSupplementBytes windowBytes) (\<lambda>receive.
       let perPending = i64 (i64 (ReceiveWindowMemory (u32 InitialStreamWindowSizeBytes)) + AggregatePendingStreamMetadataBytes);
           pending = AgentLegacyAcceptBacklogStreams;
           perAccepted = i64 (receive + AggregatePendingStreamMetadataBytes);
           accepted = 1 + AgentLegacyRejectedStreamLimit
       in if perPending > (max_int64 - AggregateSessionMetadataBytes) div pending
          then Inl (AccountingRange ''legacy session pending reservation'')
          else (let tot = i64 (AggregateSessionMetadataBytes + i64 (pending * perPending))
                in if perAccepted > (max_int64 - tot) div accepted then Inl (AccountingRange ''legacy session accepted reservation'')
                   else Inr (i64 (tot + i64 (accepted * perAccepted)))))"

section \<open>Yamux configurations\<close>

definition NewYamuxConfig :: "bool \<Rightarrow> int \<Rightarrow> resource_error + yamux_Config" where
  \<comment> \<open>\<open>logger\<close> tells whether a logger is given\<close>
  "NewYamuxConfig logger maxStreamWindowSizeBytes =
     ebind (NormalizeMaxStreamWindowSizeBytes maxStreamWindowSizeBytes) (\<lambda>window.
       Inr (yamux_DefaultConfig\<lparr>AcceptBacklog := 256, EnableKeepAlive := True, KeepAliveInterval := 20 * second,
         ConnectionWriteTimeout := 10 * second, cfg_MaxStreamWindowSize := window, StreamOpenTimeout := 10 * second,
         StreamCloseTimeout := 30 * second, cfg_Logger := logger, cfg_LogOutput := \<not> logger\<rparr>))"

definition NewAggregateYamuxConfig :: "bool \<Rightarrow> int \<Rightarrow> int \<Rightarrow> resource_error + yamux_Config" where
  "NewAggregateYamuxConfig logger maxStreamWindowSizeBytes maxIncomingStreams =
     ebind (NormalizeMaxStreamWindowSizeBytes maxStreamWindowSizeBytes) (\<lambda>_.
       ebind (InitialReceiveWindow maxStreamWindowSizeBytes) (\<lambda>initialWindow.
         ebind (NewYamuxConfig logger initialWindow) (\<lambda>cfg.
           let wire = DefaultAggregateFlowControlConfig;
               cfg' = cfg\<lparr>MaxIncomingStreams := maxIncomingStreams, InitialSessionWindowSize := uint (InitialSessionWindow wire),
                 MaxSessionWindowSize := uint (MaxSessionWindow wire), MaxDataFrameSize := uint (MaxDataFrame wire),
                 InitialStreamAllocationWindowSize := uint (InitialStreamWindow wire),
                 MaxStreamAllocationWindowSize := uint (MaxStreamWindow wire)\<rparr>
           in if VerifyConfig cfg' then Inr cfg' else Inl InvalidYamuxConfig)))"

definition NewNegotiatedControlYamuxConfig :: "bool \<Rightarrow> int \<Rightarrow> int \<Rightarrow> resource_error + yamux_Config" where
  "NewNegotiatedControlYamuxConfig logger maxStreamWindowSizeBytes maxIncomingStreams =
     ebind (NewYamuxConfig logger maxStreamWindowSizeBytes) (\<lambda>cfg.
       let cfg' = cfg\<lparr>MaxIncomingStreams := maxIncomingStreams\<rparr>
       in if VerifyConfig cfg' then Inr cfg' else Inl InvalidYamuxConfig)"

definition NewAgentLegacyYamuxConfig :: "bool \<Rightarrow> int \<Rightarrow> int \<Rightarrow> resource_error + yamux_Config" where
  "NewAgentLegacyYamuxConfig logger maxStreamWindowSizeBytes admittedStreams =
     (if admittedStreams < 1 \<or> admittedStreams > MaxAdaptiveConcurrentStreamsLimit
      then Inl (CountOutOfRange ''legacy admitted stream limit'')
      else (let resident = admittedStreams + AgentLegacyPendingStreams + AgentLegacyRejectedStreamLimit
            in if resident > 2147483647 then Inl (CountOutOfRange ''legacy incoming stream bound'')
               else ebind (InitialReceiveWindow maxStreamWindowSizeBytes) (\<lambda>initial.
                 ebind (NewYamuxConfig logger initial) (\<lambda>cfg.
                   let cfg' = cfg\<lparr>AcceptBacklog := AgentLegacyAcceptBacklogStreams, MaxIncomingStreams := resident\<rparr>
                   in if VerifyConfig cfg' then Inr cfg' else Inl InvalidYamuxConfig))))"

section \<open>Stream limiter\<close>

text \<open>The limiter is a buffered channel used as a semaphore; a release closure takes one token out at its first call.\<close>

record StreamLimiter =
  slots_len :: int
  slots_cap :: int

definition NewStreamLimiter :: "int \<Rightarrow> resource_error + StreamLimiter" where
  "NewStreamLimiter limit =
     ebind (NormalizeMaxConcurrentAgentRequests limit) (\<lambda>n. Inr \<lparr>slots_len = 0, slots_cap = n\<rparr>)"

definition sl_TryAcquire :: "StreamLimiter option \<Rightarrow> bool \<times> StreamLimiter option" where
  \<comment> \<open>\<open>None\<close> is the nil limiter, which admits everything\<close>
  "sl_TryAcquire l =
     (case l of
        None \<Rightarrow> (True, None)
      | Some s \<Rightarrow> if slots_len s < slots_cap s then (True, Some (s\<lparr>slots_len := slots_len s + 1\<rparr>)) else (False, Some s))"

definition sl_release :: "StreamLimiter option \<Rightarrow> StreamLimiter option" where
  "sl_release l = map_option (\<lambda>s. s\<lparr>slots_len := slots_len s - 1\<rparr>) l"

definition sl_InUse :: "StreamLimiter option \<Rightarrow> int" where
  "sl_InUse l = (case l of None \<Rightarrow> 0 | Some s \<Rightarrow> slots_len s)"

definition sl_Capacity :: "StreamLimiter option \<Rightarrow> int" where
  "sl_Capacity l = (case l of None \<Rightarrow> 0 | Some s \<Rightarrow> slots_cap s)"

section \<open>Receive window growth\<close>

record receiveWindowGrowth =
  rg_start :: gotime
  rg_bytes :: int
  rg_rate :: float64
  rg_previous :: int
  rg_deniedUntil :: gotime

definition receiveWindowSchedulingAllowance :: duration where "receiveWindowSchedulingAllowance = 2 * millisecond"

definition round_up_chunk :: "int \<Rightarrow> int" where
  \<comment> \<open>\<open>(next + 65535) &^ 65535\<close>\<close>
  "round_up_chunk n = (n + 65535) - (n + 65535) mod 65536"

definition propose :: "int \<Rightarrow> int \<Rightarrow> int \<Rightarrow> int \<Rightarrow> int" where
  \<comment> \<open>the window proposed from two consecutive desired sizes\<close>
  "propose desired prior current maximum =
     (let threshold = u64 (current * 5) div 4
      in if desired \<le> threshold \<or> prior \<le> threshold then current
         else min (round_up_chunk (min (min desired prior) (min (current * 2) maximum))) maximum)"

definition growth_rate :: "receiveWindowGrowth \<Rightarrow> float64 \<Rightarrow> float64" where
  "growth_rate g rate = (if rg_rate g = 0 then rate else f_add (rg_rate g) (f_div (f_sub rate (rg_rate g)) 4))"

definition rg_restart :: "receiveWindowGrowth \<Rightarrow> gotime \<Rightarrow> receiveWindowGrowth" where
  "rg_restart g now = g\<lparr>rg_start := now, rg_bytes := 0, rg_previous := 0, rg_rate := 0\<rparr>"

definition rg_sample :: "receiveWindowGrowth \<Rightarrow> int \<Rightarrow> duration \<Rightarrow> int \<Rightarrow> int \<Rightarrow> duration
    \<Rightarrow> (int \<times> bool) \<times> receiveWindowGrowth" where
  \<comment> \<open>the end of an epoch: the smoothed rate, the desired window and the proposal\<close>
  "rg_sample g consumed elapsed current maximum rtt =
     (let rate = f_div (f_of_int consumed) (duration_seconds elapsed);
          smooth = growth_rate g rate;
          horizon = max rtt receiveWindowSchedulingAllowance;
          target = min (f_of_int maximum) (f_mul (f_mul 8 (min rate smooth)) (duration_seconds horizon));
          desired = u32 (f_trunc target)
      in ((propose desired (rg_previous g) current maximum, True), g\<lparr>rg_rate := smooth, rg_previous := desired\<rparr>))"

definition observe :: "receiveWindowGrowth \<Rightarrow> gotime \<Rightarrow> int \<Rightarrow> int \<Rightarrow> int \<Rightarrow> duration
    \<Rightarrow> (int \<times> bool) \<times> receiveWindowGrowth" where
  "observe g0 now n current maximum rtt =
     (let g = (if time_is_zero (rg_start g0) \<or> now < rg_start g0 then rg_restart g0 now else g0);
          elapsed = time_sub now (rg_start g)
      in if elapsed > max second (i64 (8 * rtt)) then ((current, True), rg_restart g now)
         else
           let g1 = g\<lparr>rg_bytes := u64 (rg_bytes g + min n maximum)\<rparr>
           in if elapsed < max (10 * millisecond) rtt then ((current, False), g1)
              else
                let consumed = rg_bytes g1;
                    g2 = g1\<lparr>rg_start := now, rg_bytes := 0\<rparr>
                in if rtt \<le> 0 \<or> now < rg_deniedUntil g2 then ((current, True), g2\<lparr>rg_previous := 0, rg_rate := 0\<rparr>)
                   else rg_sample g2 consumed elapsed current maximum rtt)"


section \<open>Configurations that validate\<close>

lemma norm_window:
  assumes "NormalizeMaxStreamWindowSizeBytes w = Inr v"
  shows "262144 \<le> v" "v \<le> 1073741824" "v = (if w = 0 then 1073741824 else w)"
  using assms by (auto simp: NormalizeMaxStreamWindowSizeBytes_def yamux_DefaultConfig_def tunnel_consts Let_def split: if_splits)

lemma norm_window_self: "262144 \<le> v \<Longrightarrow> v \<le> 1073741824 \<Longrightarrow> NormalizeMaxStreamWindowSizeBytes v = Inr v"
  by (simp add: NormalizeMaxStreamWindowSizeBytes_def yamux_DefaultConfig_def tunnel_consts)

lemma initial_window:
  assumes "NormalizeMaxStreamWindowSizeBytes w = Inr v"
  shows "InitialReceiveWindow w = Inr (min v 524288)"
  using assms by (simp add: InitialReceiveWindow_def tunnel_consts)

lemma receive_memory:
  assumes "0 < v" "v \<le> 1073741824"
  shows "ReceiveWindowMemory v = ((v + 65535) div 65536 + 2) * 65600"
proof -
  have "0 \<le> (v + 65535) div 65536" "(v + 65535) div 65536 \<le> 20000" using assms by auto
  then show ?thesis using assms by (simp add: ReceiveWindowMemory_def tunnel_consts)
qed

lemma receive_memory_bound:
  assumes "0 < v" "v \<le> 524288"
  shows "0 \<le> ReceiveWindowMemory v" "ReceiveWindowMemory v \<le> 656000"
proof -
  have "0 \<le> (v + 65535) div 65536" "(v + 65535) div 65536 \<le> 8" using assms by auto
  then show "0 \<le> ReceiveWindowMemory v" "ReceiveWindowMemory v \<le> 656000" using assms by (simp_all add: receive_memory)
qed

lemma norm_buffer:
  assumes "NormalizeUpstreamSocketBufferBytes b = Inr u"
  shows "u = b" "0 \<le> u" "u \<le> 16777216"
  using assms by (auto simp: NormalizeUpstreamSocketBufferBytes_def tunnel_consts split: if_splits)

lemma agent_base:
  assumes "NormalizeUpstreamSocketBufferBytes b = Inr u"
  shows "AgentStreamBaseResourceModel b = Inr \<lparr>MemoryBytes = 262144 + 4 * (if u = 0 then 131072 else u), FileDescriptors = 2\<rparr>"
  using assms norm_buffer [OF assms] by (simp add: AgentStreamBaseResourceModel_def ServerStreamBaseResourceModel_def tunnel_consts)

lemma legacy_supplement:
  assumes "NormalizeMaxStreamWindowSizeBytes w = Inr v"
  shows "LegacyReceiveWindowSupplementBytes w = Inr (ReceiveWindowMemory (min v 524288))"
  using norm_window [OF assms] receive_memory_bound [of "min v 524288"]
  by (simp add: LegacyReceiveWindowSupplementBytes_def initial_window [OF assms] tunnel_consts)

text \<open>Every operator configuration that validates can be accounted: for a receive window and a socket buffer the normalisation accepts,
  the resource models of a stream and of the legacy and control sessions return a result, so that their accounting-range errors are unreachable, and the
  result is the exact sum without wrap-around.\<close>
theorem stream_models_exact:
  assumes w: "NormalizeMaxStreamWindowSizeBytes w = Inr win" and b: "NormalizeUpstreamSocketBufferBytes b = Inr buf" and n: "1 \<le> n" "n \<le> 4"
  shows "AgentStreamResourceModel w b =
      Inr \<lparr>MemoryBytes = 262144 + 4 * (if buf = 0 then 131072 else buf) + ReceiveWindowMemory (min win 524288), FileDescriptors = 2\<rparr> \<and>
    ServerStreamResourceModel w = Inr \<lparr>MemoryBytes = ReceiveWindowMemory (min win 524288) + 262144, FileDescriptors = 0\<rparr> \<and>
    NegotiatedControlSessionResourceBytesForStreams w n = Inr (262144 + n * (ReceiveWindowMemory (min win 524288) + 8192)) \<and>
    AgentLegacySessionResourceBytes w = Inr (262144 + 64 * (ReceiveWindowMemory 262144 + 8192) + 17 * (ReceiveWindowMemory (min win 524288) + 8192))"
proof -
  note nw = norm_window [OF w] and nb = norm_buffer [OF b]
  have r: "0 \<le> ReceiveWindowMemory (min win 524288)" "ReceiveWindowMemory (min win 524288) \<le> 656000"
    using nw by (auto intro!: receive_memory_bound)
  have i: "ReceiveWindowMemory 262144 = 393600" by (simp add: receive_memory)
  have m: "u32 (min win 524288) = min win 524288" using nw by simp
  have "AgentStreamResourceModel w b =
      Inr \<lparr>MemoryBytes = 262144 + 4 * (if buf = 0 then 131072 else buf) + ReceiveWindowMemory (min win 524288), FileDescriptors = 2\<rparr>"
    using r nb by (simp add: AgentStreamResourceModel_def agent_base [OF b] legacy_supplement [OF w] max_int64_def)
  moreover have "ServerStreamResourceModel w = Inr \<lparr>MemoryBytes = ReceiveWindowMemory (min win 524288) + 262144, FileDescriptors = 0\<rparr>"
    using r by (simp add: ServerStreamResourceModel_def initial_window [OF w] m tunnel_consts)
  moreover have "0 \<le> n * (ReceiveWindowMemory (min win 524288) + 8192)" "n * (ReceiveWindowMemory (min win 524288) + 8192) \<le> 4 * 700000"
    using r n by (simp, intro mult_mono) auto
  then have "NegotiatedControlSessionResourceBytesForStreams w n = Inr (262144 + n * (ReceiveWindowMemory (min win 524288) + 8192))"
    using r n by (simp add: NegotiatedControlSessionResourceBytesForStreams_def initial_window [OF w] m tunnel_consts)
  moreover have "AgentLegacySessionResourceBytes w = Inr (262144 + 64 * (ReceiveWindowMemory 262144 + 8192) + 17 * (ReceiveWindowMemory (min win 524288) + 8192))"
    using r by (simp add: AgentLegacySessionResourceBytes_def legacy_supplement [OF w] tunnel_consts i)
  ultimately show ?thesis by blast
qed

theorem stream_models_exact_witness:
  "AgentStreamResourceModel 0 0 = Inr \<lparr>MemoryBytes = 1442432, FileDescriptors = 2\<rparr>"
proof -
  have "NormalizeMaxStreamWindowSizeBytes 0 = Inr 1073741824" "NormalizeUpstreamSocketBufferBytes 0 = Inr 0"
    by (simp_all add: NormalizeMaxStreamWindowSizeBytes_def NormalizeUpstreamSocketBufferBytes_def yamux_DefaultConfig_def tunnel_consts)
  from stream_models_exact [OF this, of 1] show ?thesis by (simp add: receive_memory)
qed

lemma default_windows:
  "uint (InitialSessionWindow DefaultAggregateFlowControlConfig) = 2097152" "uint (MaxSessionWindow DefaultAggregateFlowControlConfig) = 1073741824"
  "uint (InitialStreamWindow DefaultAggregateFlowControlConfig) = 524288" "uint (MaxStreamWindow DefaultAggregateFlowControlConfig) = 268435456"
  "uint (MaxDataFrame DefaultAggregateFlowControlConfig) = 32768"
  by (simp_all add: DefaultAggregateFlowControlConfig_def AggregateInitialSessionWindowBytes_def AggregateMaxSessionWindowBytes_def
      AggregateInitialStreamWindowBytes_def AggregateMaxStreamWindowBytes_def AggregateMaxDataFrameBytes_def)

definition base_config :: "bool \<Rightarrow> int \<Rightarrow> yamux_Config" where
  "base_config logger window = yamux_DefaultConfig\<lparr>AcceptBacklog := 256, EnableKeepAlive := True, KeepAliveInterval := 20 * second,
     ConnectionWriteTimeout := 10 * second, cfg_MaxStreamWindowSize := window, StreamOpenTimeout := 10 * second,
     StreamCloseTimeout := 30 * second, cfg_Logger := logger, cfg_LogOutput := \<not> logger\<rparr>"

lemma new_config: "NormalizeMaxStreamWindowSizeBytes w = Inr v \<Longrightarrow> NewYamuxConfig logger w = Inr (base_config logger v)"
  by (simp add: NewYamuxConfig_def base_config_def)

lemma base_config_simps [simp]:
  "AcceptBacklog (base_config l v) = 256" "KeepAliveInterval (base_config l v) = 20 * second" "cfg_MaxStreamWindowSize (base_config l v) = v"
  "AggregateReceivePressureTimeout (base_config l v) = 0" "InitialSessionWindowSize (base_config l v) = 0" "MaxSessionWindowSize (base_config l v) = 0"
  "MaxDataFrameSize (base_config l v) = 0" "InitialStreamAllocationWindowSize (base_config l v) = 0"
  "MaxStreamAllocationWindowSize (base_config l v) = 0" "cfg_LogOutput (base_config l v) = (\<not> cfg_Logger (base_config l v))"
  by (simp_all add: base_config_def yamux_DefaultConfig_def)

text \<open>The negotiated contract and the vendored library agree: for every window that validates the aggregate, control and legacy
  session configurations pass \<open>VerifyConfig\<close>, so a session is never refused for its configuration, an aggregate session starts with at most 512 KiB of byte
  credit per stream, and an adaptive window is never larger than what the charge of its stream reserves.\<close>
theorem yamux_configs_accepted:
  assumes w: "NormalizeMaxStreamWindowSizeBytes w = Inr win" and inc: "- 1 \<le> incoming" and adm: "1 \<le> n" "n \<le> 65536"
  shows "(\<exists>c. NewAggregateYamuxConfig logger w incoming = Inr c \<and> VerifyConfig c \<and> cfg_MaxStreamWindowSize c \<le> 524288) \<and>
    (\<exists>c. NewNegotiatedControlYamuxConfig logger w incoming = Inr c \<and> VerifyConfig c) \<and>
    (\<exists>c. NewAgentLegacyYamuxConfig logger w n = Inr c \<and> VerifyConfig c \<and> MaxIncomingStreams c = n + 81) \<and>
    (\<forall>charge grant. AdaptiveMaxStreamWindowSizeBytes w charge = Inr grant \<longrightarrow>
       grant + AdaptivePerStreamOverheadBytes \<le> (if charge = 0 then DefaultAdaptiveStreamChargeBytes else charge) \<and>
       InitialStreamWindowSizeBytes \<le> grant \<and> grant \<le> win)"
proof -
  note nw = norm_window [OF w]
  have m: "NormalizeMaxStreamWindowSizeBytes (min win 524288) = Inr (min win 524288)" using nw by (intro norm_window_self) auto
  let ?d = DefaultAggregateFlowControlConfig
  let ?a = "(base_config logger (min win 524288))\<lparr>MaxIncomingStreams := incoming, InitialSessionWindowSize := uint (InitialSessionWindow ?d),
      MaxSessionWindowSize := uint (MaxSessionWindow ?d), MaxDataFrameSize := uint (MaxDataFrame ?d),
      InitialStreamAllocationWindowSize := uint (InitialStreamWindow ?d), MaxStreamAllocationWindowSize := uint (MaxStreamWindow ?d)\<rparr>"
  have "VerifyConfig ?a" using nw inc by (simp add: VerifyConfig_def aggregate_ok_def default_windows yamux_consts)
  moreover from this have "NewAggregateYamuxConfig logger w incoming = Inr ?a"
    by (simp add: NewAggregateYamuxConfig_def w initial_window [OF w] new_config [OF m] del: ebind_Inr)
  ultimately have "\<exists>c. NewAggregateYamuxConfig logger w incoming = Inr c \<and> VerifyConfig c \<and> cfg_MaxStreamWindowSize c \<le> 524288"
    by (intro exI [of _ ?a]) simp
  moreover have v: "VerifyConfig ((base_config logger win)\<lparr>MaxIncomingStreams := incoming\<rparr>)"
    using nw inc by (simp add: VerifyConfig_def yamux_consts)
  then have "\<exists>c. NewNegotiatedControlYamuxConfig logger w incoming = Inr c \<and> VerifyConfig c"
    by (simp add: NewNegotiatedControlYamuxConfig_def new_config [OF w] del: ebind_Inr)
  moreover have "VerifyConfig ((base_config logger (min win 524288))\<lparr>AcceptBacklog := 64, MaxIncomingStreams := n + 81\<rparr>)"
    using nw adm by (simp add: VerifyConfig_def yamux_consts)
  then have "NewAgentLegacyYamuxConfig logger w n = Inr ((base_config logger (min win 524288))\<lparr>AcceptBacklog := 64, MaxIncomingStreams := n + 81\<rparr>)"
    using adm by (simp add: NewAgentLegacyYamuxConfig_def initial_window [OF w] new_config [OF m] tunnel_consts Let_def add.commute del: ebind_Inr)
  then have "\<exists>c. NewAgentLegacyYamuxConfig logger w n = Inr c \<and> VerifyConfig c \<and> MaxIncomingStreams c = n + 81"
    using \<open>VerifyConfig ((base_config logger (min win 524288))\<lparr>AcceptBacklog := 64, MaxIncomingStreams := n + 81\<rparr>)\<close> by simp
  moreover have "grant + AdaptivePerStreamOverheadBytes \<le> (if charge = 0 then DefaultAdaptiveStreamChargeBytes else charge) \<and>
       InitialStreamWindowSizeBytes \<le> grant \<and> grant \<le> win" if "AdaptiveMaxStreamWindowSizeBytes w charge = Inr grant" for charge grant
    using that nw w by (auto simp: AdaptiveMaxStreamWindowSizeBytes_def tunnel_consts Let_def split: if_splits)
  ultimately show ?thesis by blast
qed

theorem yamux_configs_accepted_witness:
  "\<exists>c. NewAgentLegacyYamuxConfig True 262144 100 = Inr c \<and> VerifyConfig c \<and> MaxIncomingStreams c = 181"
  using yamux_configs_accepted [OF norm_window_self [of 262144], of 0 100 True] by simp

section \<open>Growth proposals\<close>

lemma round_up_chunk_bounds: "n \<le> round_up_chunk n" "round_up_chunk n \<le> n + 65535" "round_up_chunk n mod 65536 = 0"
proof -
  have "0 \<le> (n + 65535) mod 65536" "(n + 65535) mod 65536 \<le> 65535" by simp_all
  then show "n \<le> round_up_chunk n" "round_up_chunk n \<le> n + 65535" by (simp_all add: round_up_chunk_def)
  show "round_up_chunk n mod 65536 = 0" by (simp add: round_up_chunk_def minus_mod_eq_mult_div)
qed

lemma propose_bounds:
  assumes "0 < current" "current \<le> maximum" "maximum < 4294967296"
  shows "current \<le> propose desired prior current maximum \<and> propose desired prior current maximum \<le> maximum \<and>
    propose desired prior current maximum \<le> 2 * current + 65535 \<and>
    (current < propose desired prior current maximum \<longrightarrow> 5 * current div 4 < desired \<and> 5 * current div 4 < prior)"
proof -
  let ?m = "min (min desired prior) (min (current * 2) maximum)"
  have "u64 (current * 5) div 4 = 5 * current div 4" using assms by (simp add: mult.commute)
  moreover have "current \<le> 5 * current div 4" using assms(1) by auto
  ultimately show ?thesis
    using assms round_up_chunk_bounds(1,2) [of ?m] unfolding propose_def Let_def by (auto simp: min_def split: if_splits)
qed

lemma rg_sample_result:
  assumes "rg_sample g c e current maximum rtt = ((x, s), g')"
  shows "\<exists>d. x = propose d (rg_previous g) current maximum \<and> s \<and> rg_start g' = rg_start g"
proof -
  have "x = propose (rg_previous g') (rg_previous g) current maximum" "s" "rg_start g' = rg_start g"
    using assms unfolding rg_sample_def Let_def by auto
  then show ?thesis by blast
qed

lemma guard_chain:
  "(if a then ((c, True), g1) else if b then ((c, False), g2) else if d then ((c, True), g3) else r) = ((x, s), g') \<Longrightarrow>
     x = c \<or> r = ((x, s), g')"
  by (auto split: if_splits)

lemma observe_result:
  assumes "observe g now n current maximum rtt = ((x, sampled), g')"
    and "h = (if time_is_zero (rg_start g) \<or> now < rg_start g then rg_restart g now else g)"
  shows "x = current \<or> (\<exists>d. x = propose d (rg_previous h) current maximum \<and> sampled \<and> rg_start g' = now)"
proof -
  have "x = current \<or> rg_sample (h\<lparr>rg_bytes := u64 (rg_bytes h + min n maximum), rg_start := now, rg_bytes := 0\<rparr>)
      (rg_bytes (h\<lparr>rg_bytes := u64 (rg_bytes h + min n maximum)\<rparr>)) (time_sub now (rg_start h)) current maximum rtt = ((x, sampled), g')"
    using assms(1) unfolding observe_def assms(2) [symmetric] Let_def by (rule guard_chain)
  then show ?thesis using rg_sample_result by fastforce
qed



end
