(* ===== verification/WaitingRoom.thy ===== *)
theory WaitingRoom
  imports Prelude GoStrings Float64
begin

text \<open>
  The waiting room of the public WAF (\<open>internal/server/public_waf_waiting_room.go\<close>). Sessions wait in a slice with
  a moving head, a map from a session to its slice index and a map from a session to its enqueue time; the three are
  kept consistent by hand in the source. The contract is a plain FIFO of sessions with their enqueue times
  (locale \<open>session_fifo\<close>), which the runtime refines. Cookie verification and signing, the random session identity and the redirect
  target are inputs of \<open>evaluateLocked\<close>.
\<close>

section \<open>The FIFO contract\<close>

lemma length_takeWhile_found: "e \<in> set xs \<Longrightarrow> \<not> P e \<Longrightarrow> length (takeWhile P xs) < length xs"
  by (induction xs) auto

locale session_fifo =
  fixes inv :: "'q \<Rightarrow> bool"
    and content :: "'q \<Rightarrow> (string \<times> gotime) list"
    and enqueue :: "'q \<Rightarrow> string \<Rightarrow> gotime \<Rightarrow> 'q"
    and leave :: "'q \<Rightarrow> string \<Rightarrow> 'q"
    and expire :: "'q \<Rightarrow> gotime \<Rightarrow> duration \<Rightarrow> 'q"
    and position :: "'q \<Rightarrow> string \<Rightarrow> int"
  assumes sessions_distinct: "inv q \<Longrightarrow> distinct (map fst (content q))"
    and enqueue_inv: "inv q \<Longrightarrow> s \<notin> fst ` set (content q) \<Longrightarrow> inv (enqueue q s now)"
    and enqueue_content: "inv q \<Longrightarrow> s \<notin> fst ` set (content q) \<Longrightarrow> content (enqueue q s now) = content q @ [(s, now)]"
    and leave_inv: "inv q \<Longrightarrow> inv (leave q s)"
    and leave_content: "inv q \<Longrightarrow> content (leave q s) = filter (\<lambda>e. fst e \<noteq> s) (content q)"
    and expire_inv: "inv q \<Longrightarrow> inv (expire q now timeout)"
    and expire_content: "inv q \<Longrightarrow> content (expire q now timeout) = dropWhile (\<lambda>e. time_sub now (snd e) > timeout) (content q)"
    and position_queued: "inv q \<Longrightarrow> i < length (content q) \<Longrightarrow> position q (fst (content q ! i)) = int i + 1"
    and position_other: "inv q \<Longrightarrow> s \<notin> fst ` set (content q) \<Longrightarrow> position q s = int (length (content q)) + 1"
begin

lemma position_takeWhile:
  assumes "inv q" "s \<in> fst ` set (content q)"
  shows "position q s = int (length (takeWhile (\<lambda>e. fst e \<noteq> s) (content q))) + 1"
proof -
  let ?n = "length (takeWhile (\<lambda>e. fst e \<noteq> s) (content q))"
  have n: "?n < length (content q)"
    using assms(2) by (auto intro: length_takeWhile_found)
  then have "fst (content q ! ?n) = s" using nth_length_takeWhile [of "\<lambda>e. fst e \<noteq> s" "content q"] by blast
  then show ?thesis using position_queued [OF assms(1) n] by simp
qed

lemma position_content:
  assumes "inv q" "s \<in> fst ` set (content q)"
  shows "fst (content q ! nat (position q s - 1)) = s"
proof -
  obtain i where "i < length (content q)" "fst (content q ! i) = s" using assms(2) by (auto simp: in_set_conv_nth)
  then show ?thesis using position_queued [OF assms(1)] by force
qed

lemma length_takeWhile_filter: "P s \<Longrightarrow> length (takeWhile (\<lambda>e. fst e \<noteq> fst s) (filter P xs)) \<le> length (takeWhile (\<lambda>e. fst e \<noteq> fst s) xs)"
  if "\<And>e. e \<in> set xs \<Longrightarrow> fst e = fst s \<Longrightarrow> P e" for P :: "string \<times> gotime \<Rightarrow> bool" and s xs
  using that by (induction xs) auto

lemma no_overtaking_leave:
  assumes "inv q" "s \<in> fst ` set (content q)" "t \<noteq> s"
  shows "position (leave q t) s \<le> position q s"
proof -
  obtain e where e: "fst e = s" "e \<in> set (content q)" using assms(2) by auto
  then have "s \<in> fst ` set (content (leave q t))" using assms by (force simp: leave_content)
  then show ?thesis
    using assms length_takeWhile_filter [of "content q" e "\<lambda>e. fst e \<noteq> t"] e
    by (simp add: position_takeWhile leave_inv leave_content)
qed

lemma no_overtaking_enqueue:
  assumes "inv q" "s \<in> fst ` set (content q)" "t \<notin> fst ` set (content q)"
  shows "position (enqueue q t now) s = position q s"
proof -
  obtain e where "e \<in> set (content q)" "fst e = s" using assms(2) by auto
  then have "takeWhile (\<lambda>e. fst e \<noteq> s) (content q @ [(t, now)]) = takeWhile (\<lambda>e. fst e \<noteq> s) (content q)"
    by (simp add: takeWhile_append1)
  then show ?thesis using assms by (simp add: position_takeWhile enqueue_inv enqueue_content)
qed

lemma expire_exact:
  assumes "inv q" "sorted (map snd (content q))" "min_int64 \<le> timeout" "timeout < max_int64"
  shows "content (expire q now timeout) = filter (\<lambda>e. now - snd e \<le> timeout) (content q)"
proof -
  have "dropWhile (\<lambda>e. timeout < now - snd e) xs = filter (\<lambda>e. now - snd e \<le> timeout) xs"
    if "sorted (map snd xs)" for xs :: "(string \<times> gotime) list"
    using that by (induction xs) (auto simp: filter_id_conv not_less intro!: filter_True [symmetric] split: if_splits)
  then show ?thesis using assms by (simp add: expire_content time_sub_gt_iff)
qed

end

section \<open>State\<close>

definition defaultWafWaitingRoomMaxAdmitted :: int where "defaultWafWaitingRoomMaxAdmitted = 50"
definition defaultWafWaitingRoomAdmissionRate :: int where "defaultWafWaitingRoomAdmissionRate = 10"
definition defaultWafWaitingRoomAdmissionTTL :: duration where "defaultWafWaitingRoomAdmissionTTL = 10 * minute"
definition defaultWafWaitingRoomPollInterval :: duration where "defaultWafWaitingRoomPollInterval = 5 * second"
definition defaultWafWaitingRoomQueueTimeout :: duration where "defaultWafWaitingRoomQueueTimeout = 30 * minute"
definition maxWafWaitingRoomQueuedSessions :: nat where "maxWafWaitingRoomQueuedSessions = 100000"

record publicWafWaitingRoomConfig =
  MaxAdmittedSessions :: int
  AdmissionRatePerSecond :: int
  AdmissionSessionTTLMillis :: int
  QueuePollIntervalMillis :: int
  QueueTimeoutMillis :: int

record publicWaitingRoomRuntime =
  wr_queue :: "string list"
  wr_queueHead :: nat
  wr_queueIndex :: "(string, nat) gomap"
  wr_queued :: "(string, gotime) gomap"
  wr_admitted :: "(string, gotime) gomap"
  wr_admissionTokens :: float64
  wr_lastRefillAt :: gotime

definition newPublicWaitingRoomRuntime :: publicWaitingRoomRuntime where
  "newPublicWaitingRoomRuntime = \<lparr>wr_queue = [], wr_queueHead = 0, wr_queueIndex = [], wr_queued = [], wr_admitted = [],
     wr_admissionTokens = 0, wr_lastRefillAt = 0\<rparr>"

definition queueLenLocked :: "publicWaitingRoomRuntime \<Rightarrow> nat" where
  "queueLenLocked rt = length (wr_queue rt) - wr_queueHead rt"

definition positionLocked :: "publicWaitingRoomRuntime \<Rightarrow> string \<Rightarrow> int" where
  "positionLocked rt sessionID =
     (case map_of (wr_queueIndex rt) sessionID of
        Some idx \<Rightarrow> if idx \<ge> wr_queueHead rt \<and> idx < length (wr_queue rt) then int idx - int (wr_queueHead rt) + 1
                   else int (queueLenLocked rt) + 1
      | None \<Rightarrow> int (queueLenLocked rt) + 1)"

definition reindex :: "nat \<Rightarrow> string list \<Rightarrow> (string, nat) gomap \<Rightarrow> (string, nat) gomap" where
  \<comment> \<open>the loops that store the index of every session from a position on\<close>
  "reindex i q m = foldl (\<lambda>m (k, s). AList.update s k m) m (enumerate i q)"

definition compactQueueLocked :: "publicWaitingRoomRuntime \<Rightarrow> publicWaitingRoomRuntime" where
  "compactQueueLocked rt =
     (if wr_queueHead rt = 0 then rt
      else if wr_queueHead rt = length (wr_queue rt)
      then rt\<lparr>wr_queueIndex := [], wr_queue := [], wr_queueHead := 0\<rparr>
      else if wr_queueHead rt < 1024 \<and> wr_queueHead rt * 2 < length (wr_queue rt) then rt
      else (let active = drop (wr_queueHead rt) (wr_queue rt)
            in rt\<lparr>wr_queue := active, wr_queueHead := 0, wr_queueIndex := reindex 0 active (wr_queueIndex rt)\<rparr>))"

definition pop_head :: "publicWaitingRoomRuntime \<Rightarrow> publicWaitingRoomRuntime" where
  \<comment> \<open>drop the session at the head from the slice and the index\<close>
  "pop_head rt = rt\<lparr>wr_queueIndex := AList.delete (wr_queue rt ! wr_queueHead rt) (wr_queueIndex rt),
     wr_queue := (wr_queue rt)[wr_queueHead rt := ''''], wr_queueHead := Suc (wr_queueHead rt)\<rparr>"

definition removeFromQueueLocked :: "publicWaitingRoomRuntime \<Rightarrow> string \<Rightarrow> publicWaitingRoomRuntime" where
  "removeFromQueueLocked rt sessionID =
     (case map_of (wr_queueIndex rt) sessionID of
        None \<Rightarrow> rt
      | Some idx \<Rightarrow>
          if idx < wr_queueHead rt \<or> idx \<ge> length (wr_queue rt) then rt
          else (let rt1 = rt\<lparr>wr_queueIndex := AList.delete sessionID (wr_queueIndex rt)\<rparr>
                in if idx = wr_queueHead rt
                   then compactQueueLocked (rt1\<lparr>wr_queue := (wr_queue rt)[idx := ''''], wr_queueHead := Suc (wr_queueHead rt)\<rparr>)
                   else (let q = take idx (wr_queue rt) @ drop (Suc idx) (wr_queue rt)
                         in rt1\<lparr>wr_queue := q, wr_queueIndex := reindex idx (drop idx q) (wr_queueIndex rt1)\<rparr>)))"

definition enqueueLocked :: "publicWaitingRoomRuntime \<Rightarrow> string \<Rightarrow> gotime \<Rightarrow> publicWaitingRoomRuntime" where
  "enqueueLocked rt sessionID now =
     rt\<lparr>wr_queued := AList.update sessionID now (wr_queued rt),
        wr_queueIndex := AList.update sessionID (length (wr_queue rt)) (wr_queueIndex rt),
        wr_queue := wr_queue rt @ [sessionID]\<rparr>"

function prune_head :: "publicWaitingRoomRuntime \<Rightarrow> gotime \<Rightarrow> duration \<Rightarrow> publicWaitingRoomRuntime" where
  \<comment> \<open>the loop of \<open>pruneLocked\<close> over the front of the queue\<close>
  "prune_head rt now queueTimeout =
     (if wr_queueHead rt < length (wr_queue rt)
      then (let sessionID = wr_queue rt ! wr_queueHead rt
            in case map_of (wr_queued rt) sessionID of
                 None \<Rightarrow> prune_head (pop_head rt) now queueTimeout
               | Some enqueuedAt \<Rightarrow>
                   if time_sub now enqueuedAt \<le> queueTimeout then rt
                   else prune_head ((pop_head rt)\<lparr>wr_queued := AList.delete sessionID (wr_queued rt)\<rparr>) now queueTimeout)
      else rt)"
  by pat_completeness auto
termination
  by (relation "measure (\<lambda>(rt, _, _). length (wr_queue rt) - wr_queueHead rt)") (auto simp: pop_head_def)

declare prune_head.simps [simp del]

definition wr_pruneLocked :: "publicWaitingRoomRuntime \<Rightarrow> gotime \<Rightarrow> duration \<Rightarrow> publicWaitingRoomRuntime" where
  "wr_pruneLocked rt now queueTimeout =
     (let rt1 = rt\<lparr>wr_admitted := filter (\<lambda>e. snd e > now) (wr_admitted rt)\<rparr>;
          timeout = (if queueTimeout \<le> 0 then defaultWafWaitingRoomQueueTimeout else queueTimeout)
      in compactQueueLocked (prune_head rt1 now timeout))"

definition effective_rate :: "publicWafWaitingRoomConfig \<Rightarrow> int" where
  "effective_rate c = (if AdmissionRatePerSecond c \<le> 0 then defaultWafWaitingRoomAdmissionRate else AdmissionRatePerSecond c)"

definition effective_max :: "publicWafWaitingRoomConfig \<Rightarrow> int" where
  "effective_max c = (if MaxAdmittedSessions c \<le> 0 then defaultWafWaitingRoomMaxAdmitted else MaxAdmittedSessions c)"

definition refill :: "publicWaitingRoomRuntime \<Rightarrow> int \<Rightarrow> gotime \<Rightarrow> publicWaitingRoomRuntime" where
  "refill rt rate now =
     (let rt1 = (if time_is_zero (wr_lastRefillAt rt)
                 then rt\<lparr>wr_lastRefillAt := now, wr_admissionTokens := f_of_int rate\<rparr> else rt);
          elapsed = duration_seconds (time_sub now (wr_lastRefillAt rt1))
      in if elapsed > 0
         then rt1\<lparr>wr_admissionTokens := min (f_add (wr_admissionTokens rt1) (f_mul elapsed (f_of_int rate))) (f_of_int rate),
                  wr_lastRefillAt := now\<rparr>
         else rt1)"

definition canAdmitLocked :: "publicWaitingRoomRuntime \<Rightarrow> publicWafWaitingRoomConfig \<Rightarrow> gotime \<Rightarrow> string
    \<Rightarrow> bool \<times> publicWaitingRoomRuntime" where
  "canAdmitLocked rt c now sessionID =
     (if queueLenLocked rt = 0 \<or> wr_queue rt ! wr_queueHead rt \<noteq> sessionID then (False, rt)
      else if int (length (wr_admitted rt)) \<ge> effective_max c then (False, rt)
      else (let rt1 = refill rt (effective_rate c) now
            in if wr_admissionTokens rt1 < 1 then (False, rt1)
               else (True, rt1\<lparr>wr_admissionTokens := f_sub (wr_admissionTokens rt1) 1\<rparr>)))"

section \<open>Evaluation of a request\<close>

record waiting_request =
  rq_admissionCookie :: bool \<comment> \<open>\<open>validRuleCookieLocked\<close> for the admission cookie\<close>
  rq_queueSession :: string \<comment> \<open>session of a valid queue cookie, empty without one\<close>
  rq_random :: string \<comment> \<open>\<open>randomWAFSessionID\<close>\<close>
  rq_returnTo :: string \<comment> \<open>\<open>sanitizeWAFReturnTo\<close> of the request URI\<close>

datatype cookie_kind = QueueCookie | AdmissionCookie

record waiting_decision =
  wd_StatusCode :: int
  wd_ErrorKind :: string
  wd_RetryAfter :: duration
  wd_QueuePosition :: int
  wd_RedirectLocation :: string
  wd_Cookies :: "(cookie_kind \<times> string \<times> duration) list"
  wd_AutomaticActive :: bool

definition no_decision :: waiting_decision where
  "no_decision = \<lparr>wd_StatusCode = 0, wd_ErrorKind = '''', wd_RetryAfter = 0, wd_QueuePosition = 0, wd_RedirectLocation = '''',
     wd_Cookies = [], wd_AutomaticActive = False\<rparr>"

definition millis_or :: "int \<Rightarrow> duration \<Rightarrow> duration" where
  \<comment> \<open>\<open>time.Duration(x) * time.Millisecond\<close> with a default for a non-positive result\<close>
  "millis_or x d = (let v = i64 (x * millisecond) in if v \<le> 0 then d else v)"

definition session_of :: "waiting_request \<Rightarrow> string" where
  "session_of r = (if rq_queueSession r = '''' then rq_random r else rq_queueSession r)"

definition admit_session :: "publicWaitingRoomRuntime \<Rightarrow> string \<Rightarrow> gotime \<Rightarrow> publicWaitingRoomRuntime" where
  \<comment> \<open>\<open>delete(rt.queued, ...)\<close>, \<open>removeFromQueueLocked\<close> and the admission entry\<close>
  "admit_session rt sessionID expires =
     (let rt1 = removeFromQueueLocked (rt\<lparr>wr_queued := AList.delete sessionID (wr_queued rt)\<rparr>) sessionID
      in rt1\<lparr>wr_admitted := AList.update sessionID expires (wr_admitted rt1)\<rparr>)"

definition decide :: "publicWaitingRoomRuntime \<Rightarrow> publicWafWaitingRoomConfig \<Rightarrow> waiting_request \<Rightarrow> gotime \<Rightarrow> bool
    \<Rightarrow> (waiting_decision \<times> bool) \<times> publicWaitingRoomRuntime" where
  \<comment> \<open>\<open>evaluateLocked\<close> once the session is in the queue\<close>
  "decide rt c r now automaticActive =
     (let sessionID = session_of r;
          queueTimeout = millis_or (QueueTimeoutMillis c) defaultWafWaitingRoomQueueTimeout;
          position = positionLocked rt sessionID;
          (ok, rt3) = canAdmitLocked rt c now sessionID
      in if ok
         then (let admissionTTL = millis_or (AdmissionSessionTTLMillis c) defaultWafWaitingRoomAdmissionTTL
               in ((no_decision\<lparr>wd_StatusCode := 303, wd_RedirectLocation := rq_returnTo r,
                     wd_Cookies := [(QueueCookie, sessionID, queueTimeout), (AdmissionCookie, sessionID, admissionTTL)],
                     wd_AutomaticActive := automaticActive, wd_QueuePosition := position\<rparr>, False),
                   admit_session rt3 sessionID (now + admissionTTL)))
         else ((no_decision\<lparr>wd_StatusCode := 503, wd_ErrorKind := ''waf_waiting_room'',
                  wd_Cookies := [(QueueCookie, sessionID, queueTimeout)],
                  wd_RetryAfter := millis_or (QueuePollIntervalMillis c) defaultWafWaitingRoomPollInterval,
                  wd_AutomaticActive := automaticActive, wd_QueuePosition := position\<rparr>, False), rt3))"

definition evaluateLocked :: "publicWaitingRoomRuntime \<Rightarrow> publicWafWaitingRoomConfig \<Rightarrow> waiting_request \<Rightarrow> gotime \<Rightarrow> bool
    \<Rightarrow> (waiting_decision \<times> bool) \<times> publicWaitingRoomRuntime" where
  "evaluateLocked rt c r now automaticActive =
     (if rq_admissionCookie r then ((no_decision, True), rt)
      else
        let sessionID = session_of r;
            rt1 = wr_pruneLocked rt now (millis_or (QueueTimeoutMillis c) defaultWafWaitingRoomQueueTimeout)
        in if map_of (wr_queued rt1) sessionID \<noteq> None then decide rt1 c r now automaticActive
           else if length (wr_queued rt1) \<ge> maxWafWaitingRoomQueuedSessions
           then ((no_decision\<lparr>wd_StatusCode := 503, wd_ErrorKind := ''waf_waiting_room_queue_full'',
                    wd_RetryAfter := millis_or (QueuePollIntervalMillis c) defaultWafWaitingRoomPollInterval,
                    wd_AutomaticActive := automaticActive, wd_QueuePosition := int (queueLenLocked rt1) + 1\<rparr>, False), rt1)
           else decide (enqueueLocked rt1 sessionID now) c r now automaticActive)"


section \<open>The status endpoint\<close>

datatype status_response =
    StatusNotFound
  | StatusRedirect string
  | StatusPage int duration \<comment> \<open>queue position and retry delay of the waiting page\<close>

definition find_waiting_rule :: "(int \<times> string \<times> publicWafWaitingRoomConfig) list \<Rightarrow> int \<Rightarrow> publicWafWaitingRoomConfig option" where
  \<comment> \<open>the first rule with this identity and the waiting room action\<close>
  "find_waiting_rule rules ruleID =
     map_option (snd \<circ> snd) (List.find (\<lambda>(i, action, _). i = ruleID \<and> action = ''waiting_room'') rules)"

definition servePublicWAFWaitingRoomStatusWithSnapshot :: "(int \<times> string \<times> publicWafWaitingRoomConfig) list option \<Rightarrow> bool \<Rightarrow> string
    \<Rightarrow> waiting_request \<Rightarrow> (string \<Rightarrow> string option) \<Rightarrow> publicWaitingRoomRuntime \<Rightarrow> status_response" where
  \<comment> \<open>\<open>raw\<close> is the query parameter \<open>rule_id\<close>; \<open>local_url\<close> is \<open>url.Parse\<close> restricted to targets without a host\<close>
  "servePublicWAFWaitingRoomStatusWithSnapshot snap wafEnabled raw r local_url room =
     (let ruleID = (case parse_int raw of None \<Rightarrow> 0 | Some i \<Rightarrow> i)
      in case snap of
           None \<Rightarrow> StatusNotFound
         | Some rules \<Rightarrow>
             if \<not> wafEnabled \<or> ruleID \<le> 0 then StatusNotFound
             else (case find_waiting_rule rules ruleID of
                     None \<Rightarrow> StatusNotFound
                   | Some c \<Rightarrow>
                       if rq_admissionCookie r
                       then (case local_url (map (\<lambda>ch. if ch = CHR 0x5C then CHR ''/'' else ch) (rq_returnTo r)) of
                               Some target \<Rightarrow> StatusRedirect target | None \<Rightarrow> StatusRedirect ''/'')
                       else StatusPage (if rq_queueSession r = '''' then 0 else positionLocked room (rq_queueSession r))
                              (i64 (QueuePollIntervalMillis c * millisecond))))"

section \<open>The representation\<close>

definition wr_active :: "publicWaitingRoomRuntime \<Rightarrow> string list" where
  "wr_active rt = drop (wr_queueHead rt) (wr_queue rt)"

definition wr_content :: "publicWaitingRoomRuntime \<Rightarrow> (string \<times> gotime) list" where
  \<comment> \<open>abstraction: the waiting sessions in order, with their enqueue times\<close>
  "wr_content rt = map (\<lambda>s. (s, gm_val (wr_queued rt) s)) (wr_active rt)"

definition indexed :: "nat \<Rightarrow> string list \<Rightarrow> (string, nat) gomap \<Rightarrow> bool" where
  "indexed h q m \<longleftrightarrow> gm_wf m \<and> gm_keys m = set q \<and> (\<forall>i<length q. map_of m (q ! i) = Some (h + i))"

definition wr_inv :: "publicWaitingRoomRuntime \<Rightarrow> bool" where
  "wr_inv rt \<longleftrightarrow> wr_queueHead rt \<le> length (wr_queue rt) \<and> distinct (wr_active rt) \<and>
     gm_wf (wr_queued rt) \<and> gm_keys (wr_queued rt) = set (wr_active rt) \<and>
     indexed (wr_queueHead rt) (wr_active rt) (wr_queueIndex rt)"

lemma reindex_Nil [simp]: "reindex i [] m = m"
  by (simp add: reindex_def)

lemma reindex_Cons [simp]: "reindex i (x # xs) m = reindex (Suc i) xs (AList.update x i m)"
  by (simp add: reindex_def)

lemma reindex_other: "s \<notin> set q \<Longrightarrow> map_of (reindex i q m) s = map_of m s"
  by (induction q arbitrary: i m) simp_all

lemma reindex_at: "distinct q \<Longrightarrow> j < length q \<Longrightarrow> map_of (reindex i q m) (q ! j) = Some (i + j)"
proof (induction q arbitrary: i m j)
  case (Cons x xs)
  then show ?case by (cases j) (simp_all add: reindex_other)
qed simp

lemma reindex_wf: "gm_wf m \<Longrightarrow> gm_wf (reindex i q m)"
  by (induction q arbitrary: i m) simp_all

lemma reindex_keys: "gm_keys (reindex i q m) = gm_keys m \<union> set q"
proof (induction q arbitrary: i m)
  case (Cons x xs)
  show ?case using Cons.IH [of "Suc i" "AList.update x i m"] by auto
qed simp

lemma indexed_tl:
  assumes "indexed h (x # xs) m" "distinct (x # xs)"
  shows "indexed (Suc h) xs (AList.delete x m)"
proof -
  have "map_of m (xs ! i) = Some (Suc h + i)" if "i < length xs" for i
    using assms(1) that unfolding indexed_def by (metis Suc_less_eq add_Suc_shift length_Cons nth_Cons_Suc)
  moreover have "xs ! i \<noteq> x" if "i < length xs" for i using assms(2) that nth_mem by fastforce
  ultimately show ?thesis using assms by (auto simp: indexed_def)
qed

lemma indexed_reindex: "gm_wf m \<Longrightarrow> gm_keys m \<subseteq> set q \<Longrightarrow> distinct q \<Longrightarrow> indexed i q (reindex i q m)"
  by (auto simp: indexed_def reindex_wf reindex_keys reindex_at)

lemma indexed_remove:
  assumes "indexed h q m" "distinct q" "j < length q"
  shows "indexed h (take j q @ drop (Suc j) q) (reindex (h + j) (drop (Suc j) q) (AList.delete (q ! j) m))"
proof -
  let ?m = "AList.delete (q ! j) m" and ?d = "drop (Suc j) q"
  have q: "q = take j q @ q ! j # ?d" by (rule id_take_nth_drop [OF assms(3)])
  have dist: "distinct (take j q @ q ! j # ?d)" using assms(2) q by metis
  have "set q = insert (q ! j) (set (take j q) \<union> set ?d)" by (subst q) (simp only: set_append list.set Un_insert_right)
  then have keys: "gm_keys (reindex (h + j) ?d ?m) = set (take j q @ ?d)"
    using assms(1) dist by (auto simp: reindex_keys indexed_def)
  have "map_of (reindex (h + j) ?d ?m) ((take j q @ ?d) ! i) = Some (h + i)" if i: "i < length (take j q @ ?d)" for i
  proof (cases "i < j")
    case True
    then have e: "(take j q @ ?d) ! i = q ! i" "q ! i \<in> set (take j q)" using assms(3)
      by (simp_all add: nth_append, metis in_set_conv_nth length_take less_imp_le_nat less_trans min.absorb2 nth_take)
    then have "q ! i \<notin> set ?d" "q ! i \<noteq> q ! j" using dist by auto
    then show ?thesis using e(1) assms(1,3) True by (simp add: reindex_other indexed_def)
  next
    case False
    then have "(take j q @ ?d) ! i = ?d ! (i - j)" "i - j < length ?d" using i assms(3) by (auto simp: nth_append)
    then show ?thesis using reindex_at [of ?d "i - j" "h + j"] assms(2) False by simp
  qed
  then show ?thesis using assms(1) keys by (simp add: indexed_def reindex_wf)
qed

lemma compact_active [simp]: "wr_queueHead rt \<le> length (wr_queue rt) \<Longrightarrow> wr_active (compactQueueLocked rt) = wr_active rt"
  by (simp add: compactQueueLocked_def wr_active_def Let_def)

lemma compact_fields [simp]:
  "wr_queued (compactQueueLocked rt) = wr_queued rt" "wr_admitted (compactQueueLocked rt) = wr_admitted rt"
  "wr_admissionTokens (compactQueueLocked rt) = wr_admissionTokens rt" "wr_lastRefillAt (compactQueueLocked rt) = wr_lastRefillAt rt"
  by (simp_all add: compactQueueLocked_def Let_def)

lemma compact_inv:
  assumes "wr_inv rt"
  shows "wr_inv (compactQueueLocked rt)"
proof -
  have act: "wr_active (compactQueueLocked rt) = wr_active rt" using assms by (simp add: wr_inv_def)
  have "indexed (wr_queueHead (compactQueueLocked rt)) (wr_active rt) (wr_queueIndex (compactQueueLocked rt))"
    using assms indexed_reindex [of "wr_queueIndex rt" "wr_active rt" 0]
    by (auto simp: compactQueueLocked_def wr_inv_def wr_active_def Let_def indexed_def)
  moreover have "wr_queueHead (compactQueueLocked rt) \<le> length (wr_queue (compactQueueLocked rt))"
    using assms by (auto simp: compactQueueLocked_def wr_inv_def Let_def)
  ultimately show ?thesis using assms act by (simp add: wr_inv_def)
qed

lemma compact_content: "wr_inv rt \<Longrightarrow> wr_content (compactQueueLocked rt) = wr_content rt"
  by (simp add: wr_content_def wr_inv_def)

lemma wr_invD:
  assumes "wr_inv rt"
  shows "wr_queueHead rt \<le> length (wr_queue rt)" "distinct (wr_active rt)" "gm_wf (wr_queued rt)"
    "gm_keys (wr_queued rt) = set (wr_active rt)" "indexed (wr_queueHead rt) (wr_active rt) (wr_queueIndex rt)"
  using assms by (simp_all add: wr_inv_def)

lemma content_sessions [simp]: "map fst (wr_content rt) = wr_active rt" "fst ` set (wr_content rt) = set (wr_active rt)"
  by (simp_all add: wr_content_def comp_def image_image)

lemma length_content: "length (wr_content rt) = length (wr_active rt)"
  by (simp add: wr_content_def)

lemma index_lookup:
  assumes "wr_inv rt"
  shows "map_of (wr_queueIndex rt) s = Some k \<longleftrightarrow> (\<exists>i<length (wr_active rt). wr_active rt ! i = s \<and> k = wr_queueHead rt + i)"
proof
  assume a: "map_of (wr_queueIndex rt) s = Some k"
  then have "s \<in> set (wr_active rt)" using map_of_Some_key wr_invD(5) [OF assms] unfolding indexed_def by metis
  then obtain i where "i < length (wr_active rt)" "wr_active rt ! i = s" by (auto simp: in_set_conv_nth)
  with a wr_invD(5) [OF assms] show "\<exists>i<length (wr_active rt). wr_active rt ! i = s \<and> k = wr_queueHead rt + i"
    unfolding indexed_def by (metis option.inject)
qed (use wr_invD(5) [OF assms] in \<open>auto simp: indexed_def\<close>)

lemma index_none: "wr_inv rt \<Longrightarrow> s \<notin> set (wr_active rt) \<Longrightarrow> map_of (wr_queueIndex rt) s = None"
  using wr_invD(5) by (simp add: indexed_def map_of_eq_None_iff)

lemma length_active: "length (wr_active rt) = queueLenLocked rt"
  by (simp add: wr_active_def queueLenLocked_def)

lemma active_Cons:
  assumes "wr_active rt = x # xs"
  shows "wr_queueHead rt < length (wr_queue rt)" "wr_queue rt ! wr_queueHead rt = x" "drop (Suc (wr_queueHead rt)) (wr_queue rt) = xs"
proof -
  show h: "wr_queueHead rt < length (wr_queue rt)" using assms by (metis drop_eq_Nil2 leI list.distinct(1) wr_active_def)
  have "wr_queue rt ! wr_queueHead rt # drop (Suc (wr_queueHead rt)) (wr_queue rt) = x # xs"
    using assms h by (simp add: wr_active_def Cons_nth_drop_Suc)
  then show "wr_queue rt ! wr_queueHead rt = x" "drop (Suc (wr_queueHead rt)) (wr_queue rt) = xs" by simp_all
qed

lemma enqueue_refines:
  assumes inv: "wr_inv rt" and s: "s \<notin> set (wr_active rt)"
  shows "wr_inv (enqueueLocked rt s now)" "wr_content (enqueueLocked rt s now) = wr_content rt @ [(s, now)]"
proof -
  let ?r = "enqueueLocked rt s now"
  have act: "wr_active ?r = wr_active rt @ [s]"
    using wr_invD(1) [OF inv] by (simp add: enqueueLocked_def wr_active_def)
  have len: "length (wr_queue rt) = wr_queueHead rt + length (wr_active rt)"
    using wr_invD(1) [OF inv] by (simp add: wr_active_def)
  have "map_of (wr_queueIndex ?r) ((wr_active rt @ [s]) ! i) = Some (wr_queueHead rt + i)" if "i < Suc (length (wr_active rt))" for i
    using that wr_invD(5) [OF inv] s len nth_mem [of i "wr_active rt"]
    by (auto simp: enqueueLocked_def indexed_def nth_append less_Suc_eq)
  then have "indexed (wr_queueHead ?r) (wr_active ?r) (wr_queueIndex ?r)"
    using wr_invD(5) [OF inv] unfolding act by (auto simp: indexed_def enqueueLocked_def)
  then show "wr_inv ?r"
    using wr_invD [OF inv] s unfolding wr_inv_def act by (simp add: enqueueLocked_def dom_update)
  show "wr_content ?r = wr_content rt @ [(s, now)]"
    using s unfolding wr_content_def act by (auto simp: enqueueLocked_def)
qed

lemma pop_refines:
  assumes inv: "wr_inv rt" and act: "wr_active rt = x # xs"
  defines "r \<equiv> (pop_head rt)\<lparr>wr_queued := AList.delete x (wr_queued rt)\<rparr>"
  shows "wr_inv r" "wr_active r = xs" "wr_content rt = (x, gm_val (wr_queued rt) x) # wr_content r"
proof -
  note h = active_Cons(1) [OF act] and x = active_Cons(2,3) [OF act]
  show a: "wr_active r = xs" using x by (simp add: r_def pop_head_def wr_active_def)
  have dist: "distinct (x # xs)" using wr_invD(2) [OF inv] act by simp
  have "indexed (wr_queueHead r) xs (wr_queueIndex r)"
    using indexed_tl [of "wr_queueHead rt" x xs] wr_invD(5) [OF inv] act dist x(1) by (simp add: r_def pop_head_def)
  moreover have "gm_keys (wr_queued r) = set xs"
    using wr_invD(4) [OF inv] act dist unfolding r_def by (simp add: gm_keys_delete)
  ultimately show "wr_inv r"
    using wr_invD(3) [OF inv] dist h unfolding wr_inv_def a by (simp add: r_def pop_head_def)
  have "gm_val (AList.delete x (wr_queued rt)) y = gm_val (wr_queued rt) y" if "y \<noteq> x" for y
    using that by (simp add: gm_val_def)
  then show "wr_content rt = (x, gm_val (wr_queued rt) x) # wr_content r"
    using dist unfolding wr_content_def a act by (simp add: r_def) (metis (mono_tags, lifting) map_eq_conv)
qed

lemma prune_head_refines:
  assumes "wr_inv rt"
  shows "wr_inv (prune_head rt now timeout) \<and>
    wr_content (prune_head rt now timeout) = dropWhile (\<lambda>e. time_sub now (snd e) > timeout) (wr_content rt)"
  using assms
proof (induction rt now timeout rule: prune_head.induct)
  case (1 rt now timeout)
  show ?case
  proof (cases "wr_active rt")
    case Nil
    then have "\<not> wr_queueHead rt < length (wr_queue rt)" by (auto simp: wr_active_def)
    then show ?thesis using 1(3) Nil by (simp add: prune_head.simps [of rt] wr_content_def)
  next
    case (Cons x xs)
    let ?r = "(pop_head rt)\<lparr>wr_queued := AList.delete x (wr_queued rt)\<rparr>"
    note pop = pop_refines [OF 1(3) Cons]
    note h = active_Cons(1,2) [OF Cons]
    have "x \<in> gm_keys (wr_queued rt)" using wr_invD(4) [OF 1(3)] Cons by simp
    then obtain t where t: "map_of (wr_queued rt) x = Some t" by (metis map_of_eq_None_keys not_None_eq)
    then have v: "gm_val (wr_queued rt) x = t" by (simp add: gm_val_def)
    show ?thesis
    proof (cases "time_sub now t \<le> timeout")
      case True
      then show ?thesis using 1(3) h t v by (simp add: prune_head.simps [of rt] pop(3))
    next
      case False
      then have "prune_head rt now timeout = prune_head ?r now timeout" using h t by (simp add: prune_head.simps [of rt])
      moreover have "wr_inv (prune_head ?r now timeout) \<and>
          wr_content (prune_head ?r now timeout) = dropWhile (\<lambda>e. time_sub now (snd e) > timeout) (wr_content ?r)"
        using 1(2) [OF h(1) refl] h(2) t False pop(1) by simp
      ultimately show ?thesis using pop(3) v False by simp
    qed
  qed
qed

definition expire_queue :: "publicWaitingRoomRuntime \<Rightarrow> gotime \<Rightarrow> duration \<Rightarrow> publicWaitingRoomRuntime" where
  \<comment> \<open>the queue part of \<open>pruneLocked\<close>\<close>
  "expire_queue rt now timeout = compactQueueLocked (prune_head rt now timeout)"

definition leave_queue :: "publicWaitingRoomRuntime \<Rightarrow> string \<Rightarrow> publicWaitingRoomRuntime" where
  \<comment> \<open>the queue part of an admission\<close>
  "leave_queue rt s = removeFromQueueLocked (rt\<lparr>wr_queued := AList.delete s (wr_queued rt)\<rparr>) s"

lemma expire_refines:
  assumes "wr_inv rt"
  shows "wr_inv (expire_queue rt now timeout)"
    "wr_content (expire_queue rt now timeout) = dropWhile (\<lambda>e. time_sub now (snd e) > timeout) (wr_content rt)"
  using prune_head_refines [OF assms] by (simp_all add: expire_queue_def compact_inv compact_content)

lemma leave_absent:
  assumes "wr_inv rt" "s \<notin> set (wr_active rt)"
  shows "leave_queue rt s = rt"
proof -
  have "AList.delete s (wr_queued rt) = wr_queued rt" using assms wr_invD(4) by (simp add: delete_id)
  then show ?thesis using index_none [OF assms] by (simp add: leave_queue_def removeFromQueueLocked_def)
qed

lemma filter_nth_delete:
  assumes "distinct xs" "j < length xs"
  shows "filter (\<lambda>y. y \<noteq> xs ! j) xs = take j xs @ drop (Suc j) xs"
proof -
  have d: "distinct (take j xs @ xs ! j # drop (Suc j) xs)" using assms id_take_nth_drop by metis
  have "filter (\<lambda>y. y \<noteq> xs ! j) (take j xs) = take j xs" "filter (\<lambda>y. y \<noteq> xs ! j) (drop (Suc j) xs) = drop (Suc j) xs"
    using d by (intro filter_True, auto)+
  then have "filter (\<lambda>y. y \<noteq> xs ! j) (take j xs @ xs ! j # drop (Suc j) xs) = take j xs @ drop (Suc j) xs" by simp
  then show ?thesis using id_take_nth_drop [OF assms(2)] by metis
qed

lemma leave_at:
  assumes inv: "wr_inv rt" and j: "j < length (wr_active rt)" "wr_active rt ! j = s"
  shows "wr_inv (leave_queue rt s)" "wr_active (leave_queue rt s) = take j (wr_active rt) @ drop (Suc j) (wr_active rt)"
    "wr_queued (leave_queue rt s) = AList.delete s (wr_queued rt)"
proof -
  let ?q = "wr_queue rt" and ?h = "wr_queueHead rt" and ?a = "wr_active rt"
  have idx: "map_of (wr_queueIndex rt) s = Some (?h + j)" using index_lookup [OF inv] j by blast
  have len: "?h + j < length ?q" using j(1) by (simp add: wr_active_def)
  have set_rest: "set (take j ?a @ drop (Suc j) ?a) = set ?a - {s}" and dist: "distinct (take j ?a @ drop (Suc j) ?a)"
    using wr_invD(2) [OF inv] j(2) unfolding filter_nth_delete [OF wr_invD(2) [OF inv] j(1), symmetric] by auto
  show "wr_queued (leave_queue rt s) = AList.delete s (wr_queued rt)"
    by (simp add: leave_queue_def removeFromQueueLocked_def Let_def split: option.split)
  have "wr_inv (leave_queue rt s) \<and> wr_active (leave_queue rt s) = take j ?a @ drop (Suc j) ?a"
  proof (cases "j = 0")
    case True
    then obtain xs where a: "?a = s # xs" using j by (cases ?a) auto
    have "leave_queue rt s = compactQueueLocked ((pop_head rt)\<lparr>wr_queued := AList.delete s (wr_queued rt)\<rparr>)"
      using idx len True active_Cons(2) [OF a] by (cases rt) (simp add: leave_queue_def removeFromQueueLocked_def pop_head_def)
    then show ?thesis
      using pop_refines(1,2) [OF inv a] True a compact_inv compact_active wr_invD(1) [OF pop_refines(1) [OF inv a]] by simp_all
  next
    case False
    let ?q' = "take (?h + j) ?q @ drop (Suc (?h + j)) ?q"
    have r: "leave_queue rt s = rt\<lparr>wr_queued := AList.delete s (wr_queued rt), wr_queue := ?q',
        wr_queueIndex := reindex (?h + j) (drop (Suc j) ?a) (AList.delete s (wr_queueIndex rt))\<rparr>"
      using idx len False by (simp add: leave_queue_def removeFromQueueLocked_def wr_active_def Let_def add.commute)
    have act: "wr_active (leave_queue rt s) = take j ?a @ drop (Suc j) ?a"
      using len by (simp add: r wr_active_def take_drop add.commute min_def)
    have "indexed ?h (take j ?a @ drop (Suc j) ?a) (wr_queueIndex (leave_queue rt s))"
      using indexed_remove [OF wr_invD(5,2) [OF inv] j(1)] j(2) by (simp add: r)
    moreover have "gm_keys (AList.delete s (wr_queued rt)) = set (take j ?a @ drop (Suc j) ?a)"
      using wr_invD(4) [OF inv] set_rest by (simp only: gm_keys_delete)
    ultimately show ?thesis
      using wr_invD(3) [OF inv] len dist unfolding wr_inv_def act by (simp add: r)
  qed
  then show "wr_inv (leave_queue rt s)" "wr_active (leave_queue rt s) = take j ?a @ drop (Suc j) ?a" by simp_all
qed

lemma leave_refines:
  assumes inv: "wr_inv rt"
  shows "wr_inv (leave_queue rt s)" "wr_content (leave_queue rt s) = filter (\<lambda>e. fst e \<noteq> s) (wr_content rt)"
proof -
  consider "s \<notin> set (wr_active rt)" | j where "j < length (wr_active rt)" "wr_active rt ! j = s" by (auto simp: in_set_conv_nth)
  then have "wr_inv (leave_queue rt s) \<and> wr_content (leave_queue rt s) = filter (\<lambda>e. fst e \<noteq> s) (wr_content rt)"
  proof cases
    case 1
    then show ?thesis using inv leave_absent [OF inv 1] by (auto simp: wr_content_def filter_id_conv intro!: filter_True [symmetric])
  next
    case 2
    have a: "wr_active (leave_queue rt s) = filter (\<lambda>y. y \<noteq> s) (wr_active rt)"
      using leave_at(2) [OF inv 2] filter_nth_delete [OF wr_invD(2) [OF inv] 2(1)] 2(2) by simp
    have "gm_val (AList.delete s (wr_queued rt)) y = gm_val (wr_queued rt) y" if "y \<noteq> s" for y
      using that by (simp add: gm_val_def)
    then show ?thesis using leave_at(1) [OF inv 2] unfolding wr_content_def a leave_at(3) [OF inv 2] by (auto simp: filter_map comp_def)
  qed
  then show "wr_inv (leave_queue rt s)" "wr_content (leave_queue rt s) = filter (\<lambda>e. fst e \<noteq> s) (wr_content rt)" by simp_all
qed

interpretation wq: session_fifo wr_inv wr_content enqueueLocked leave_queue expire_queue positionLocked
proof
  fix q s i and now timeout :: int
  assume inv: "wr_inv q"
  show "distinct (map fst (wr_content q))" using wr_invD(2) [OF inv] by simp
  show "wr_inv (leave_queue q s)" "wr_content (leave_queue q s) = filter (\<lambda>e. fst e \<noteq> s) (wr_content q)"
    by (rule leave_refines [OF inv])+
  show "wr_inv (expire_queue q now timeout)"
    "wr_content (expire_queue q now timeout) = dropWhile (\<lambda>e. time_sub now (snd e) > timeout) (wr_content q)"
    by (rule expire_refines [OF inv])+
  show "i < length (wr_content q) \<Longrightarrow> positionLocked q (fst (wr_content q ! i)) = int i + 1"
    using wr_invD(5) [OF inv] by (auto simp: wr_content_def indexed_def positionLocked_def wr_active_def)
  show "s \<notin> fst ` set (wr_content q) \<Longrightarrow> positionLocked q s = int (length (wr_content q)) + 1"
    using index_none [OF inv] by (simp add: positionLocked_def length_content length_active)
qed (simp_all add: enqueue_refines)

section \<open>Evaluation\<close>

lemma frame_inv:
  "wr_inv (rt\<lparr>wr_admitted := a\<rparr>) = wr_inv rt" "wr_content (rt\<lparr>wr_admitted := a\<rparr>) = wr_content rt"
  "wr_inv (rt\<lparr>wr_admissionTokens := x\<rparr>) = wr_inv rt" "wr_content (rt\<lparr>wr_admissionTokens := x\<rparr>) = wr_content rt"
  "wr_inv (rt\<lparr>wr_lastRefillAt := t\<rparr>) = wr_inv rt" "wr_content (rt\<lparr>wr_lastRefillAt := t\<rparr>) = wr_content rt"
  by (simp_all add: wr_inv_def wr_content_def wr_active_def)

lemma refill_frame: "wr_inv (refill rt rate now) = wr_inv rt" "wr_content (refill rt rate now) = wr_content rt"
  "wr_admitted (refill rt rate now) = wr_admitted rt" "wr_queued (refill rt rate now) = wr_queued rt"
  by (simp_all add: refill_def Let_def frame_inv)

lemma canAdmit_frame:
  assumes "canAdmitLocked rt c now s = (ok, rt')"
  shows "wr_inv rt' = wr_inv rt" "wr_content rt' = wr_content rt" "wr_admitted rt' = wr_admitted rt" "wr_queued rt' = wr_queued rt"
    "ok \<Longrightarrow> int (length (wr_admitted rt)) < effective_max c"
    "ok \<Longrightarrow> \<exists>xs. wr_active rt = s # xs"
proof -
  show "wr_inv rt' = wr_inv rt" "wr_content rt' = wr_content rt" "wr_admitted rt' = wr_admitted rt" "wr_queued rt' = wr_queued rt"
    "ok \<Longrightarrow> int (length (wr_admitted rt)) < effective_max c"
    using assms by (auto simp: canAdmitLocked_def refill_frame frame_inv Let_def split: if_splits)
  assume ok
  then have "queueLenLocked rt \<noteq> 0" "wr_queue rt ! wr_queueHead rt = s"
    using assms by (auto simp: canAdmitLocked_def split: if_splits)
  then show "\<exists>xs. wr_active rt = s # xs"
    by (metis Cons_nth_drop_Suc diff_is_0_eq leI queueLenLocked_def wr_active_def)
qed

lemma pop_head_frame [simp]:
  "wr_admitted (pop_head rt) = wr_admitted rt" "wr_lastRefillAt (pop_head rt) = wr_lastRefillAt rt"
  "wr_admissionTokens (pop_head rt) = wr_admissionTokens rt"
  by (simp_all add: pop_head_def)

lemma prune_frames: "wr_admitted (prune_head rt now timeout) = wr_admitted rt \<and>
    wr_lastRefillAt (prune_head rt now timeout) = wr_lastRefillAt rt \<and>
    wr_admissionTokens (prune_head rt now timeout) = wr_admissionTokens rt"
proof (induction rt now timeout rule: prune_head.induct)
  case (1 rt now timeout)
  note unfold = prune_head.simps [of rt now timeout]
  let ?s = "wr_queue rt ! wr_queueHead rt"
  consider "\<not> wr_queueHead rt < length (wr_queue rt)" | "wr_queueHead rt < length (wr_queue rt)" "map_of (wr_queued rt) ?s = None"
    | t where "wr_queueHead rt < length (wr_queue rt)" "map_of (wr_queued rt) ?s = Some t" by force
  then show ?case
  proof cases
    case 2
    then show ?thesis using 1(1) [OF 2(1) refl 2(2)] unfolding unfold by simp
  next
    case 3
    then show ?thesis using 1(2) [OF 3(1) refl 3(2)] unfolding unfold by simp
  qed (simp add: unfold)
qed

lemmas prune_frame = prune_frames [THEN conjunct1]
  and prune_frame2 = prune_frames [THEN conjunct2, THEN conjunct1] prune_frames [THEN conjunct2, THEN conjunct2]

lemma pruneLocked_expire:
  "0 < timeout \<Longrightarrow> wr_pruneLocked rt now timeout = expire_queue (rt\<lparr>wr_admitted := filter (\<lambda>e. snd e > now) (wr_admitted rt)\<rparr>) now timeout"
  by (simp add: wr_pruneLocked_def expire_queue_def)

lemma millis_or_pos: "0 < d \<Longrightarrow> 0 < millis_or x d"
  by (simp add: millis_or_def Let_def)

lemma millis_or_less: "d < max_int64 \<Longrightarrow> millis_or x d < max_int64"
proof -
  have "i64 (x * millisecond) \<le> max_int64" using in_i64_i64 by (simp add: in_i64_def)
  moreover have "i64 (x * 1000000) \<noteq> 9223372036854775807"
  proof
    assume a: "i64 (x * 1000000) = 9223372036854775807"
    then have "(x * 1000000 + 9223372036854775808) mod 18446744073709551616 = 18446744073709551615"
      by (simp add: i64_def)
    then have "odd ((x * 1000000 + 9223372036854775808) mod 18446744073709551616)" by simp
    moreover have "even ((x * 1000000 + 9223372036854775808) mod 18446744073709551616) \<longleftrightarrow> even (x * 1000000 + 9223372036854775808)"
      by (rule dvd_mod_iff) simp
    ultimately show False by simp
  qed
  moreover assume "d < max_int64"
  ultimately show ?thesis by (auto simp: millis_or_def Let_def max_int64_def)
qed

definition room_inv :: "publicWaitingRoomRuntime \<Rightarrow> gotime \<Rightarrow> bool" where
  \<comment> \<open>consistency of the queue, enqueue times in order and not in the future, size bound\<close>
  "room_inv rt now \<longleftrightarrow> wr_inv rt \<and> sorted (map snd (wr_content rt)) \<and> (\<forall>e\<in>set (wr_content rt). snd e \<le> now) \<and>
     length (wr_content rt) \<le> maxWafWaitingRoomQueuedSessions \<and> gm_wf (wr_admitted rt)"

definition waiting :: "publicWaitingRoomRuntime \<Rightarrow> publicWafWaitingRoomConfig \<Rightarrow> gotime \<Rightarrow> (string \<times> gotime) list" where
  \<comment> \<open>specification: the sessions that have waited no longer than the configured timeout\<close>
  "waiting rt c now = filter (\<lambda>e. now - snd e \<le> millis_or (QueueTimeoutMillis c) defaultWafWaitingRoomQueueTimeout) (wr_content rt)"

lemma prune_waiting:
  fixes c :: publicWafWaitingRoomConfig
  assumes "room_inv rt now0" "now0 \<le> now"
  defines "rt1 \<equiv> wr_pruneLocked rt now (millis_or (QueueTimeoutMillis c) defaultWafWaitingRoomQueueTimeout)"
  shows "room_inv rt1 now" "wr_content rt1 = waiting rt c now" "wr_admitted rt1 = filter (\<lambda>e. snd e > now) (wr_admitted rt)"
    "length (wr_queued rt1) = length (wr_content rt1)"
proof -
  let ?t = "millis_or (QueueTimeoutMillis c) defaultWafWaitingRoomQueueTimeout"
  let ?r = "rt\<lparr>wr_admitted := filter (\<lambda>e. snd e > now) (wr_admitted rt)\<rparr>"
  have t: "0 < ?t" "?t < max_int64" "min_int64 \<le> ?t"
    using millis_or_pos [of defaultWafWaitingRoomQueueTimeout "QueueTimeoutMillis c"]
      millis_or_less [of defaultWafWaitingRoomQueueTimeout "QueueTimeoutMillis c"]
    by (simp_all add: defaultWafWaitingRoomQueueTimeout_def max_int64_def min_int64_def)
  have r: "wr_inv ?r" "wr_content ?r = wr_content rt" using assms(1) by (simp_all add: room_inv_def frame_inv)
  have rt1: "rt1 = expire_queue ?r now ?t" using t(1) by (simp add: rt1_def pruneLocked_expire)
  show c: "wr_content rt1 = waiting rt c now"
    using wq.expire_exact [OF r(1) _ t(3,2)] assms(1) r(2) by (simp add: rt1 waiting_def room_inv_def)
  show adm: "wr_admitted rt1 = filter (\<lambda>e. snd e > now) (wr_admitted rt)"
    by (simp add: rt1 expire_queue_def prune_frame)
  have inv1: "wr_inv rt1" using wq.expire_inv [OF r(1)] by (simp add: rt1)
  show "length (wr_queued rt1) = length (wr_content rt1)"
    using wr_invD(2-4) [OF inv1] by (simp add: length_gm length_content distinct_card)
  have "sorted (map snd (waiting rt c now))" "length (waiting rt c now) \<le> length (wr_content rt)"
    using assms(1) unfolding waiting_def room_inv_def by (simp_all add: sorted_filter)
  moreover have "\<forall>e\<in>set (waiting rt c now). snd e \<le> now" using assms(1,2) by (auto simp: waiting_def room_inv_def)
  ultimately show "room_inv rt1 now" using inv1 assms(1) unfolding room_inv_def c adm by simp
qed

definition joined :: "(string \<times> gotime) list \<Rightarrow> string \<Rightarrow> gotime \<Rightarrow> (string \<times> gotime) list" where
  "joined w s now = (if s \<in> fst ` set w then w else w @ [(s, now)])"

definition fifo_step :: "(string \<times> gotime) list \<Rightarrow> string \<Rightarrow> gotime \<Rightarrow> bool \<Rightarrow> (string \<times> gotime) list" where
  \<comment> \<open>specification of one visit: a full room turns newcomers away, otherwise the session joins, and an admitted one leaves from the front\<close>
  "fifo_step w s now admit =
     (if s \<notin> fst ` set w \<and> length w \<ge> maxWafWaitingRoomQueuedSessions then w
      else if admit then tl (joined w s now) else joined w s now)"

lemma evaluate_full:
  assumes inv: "room_inv rt now0" "now0 \<le> now" and cookie: "\<not> rq_admissionCookie r"
    and full: "session_of r \<notin> fst ` set (waiting rt c now)" "length (waiting rt c now) \<ge> maxWafWaitingRoomQueuedSessions"
    and ev: "evaluateLocked rt c r now auto = ((d, pass), rt')"
  shows "\<not> pass" "wd_StatusCode d = 503" "wd_Cookies d = []" "wr_content rt' = waiting rt c now" "room_inv rt' now"
    "wr_admitted rt' = filter (\<lambda>e. snd e > now) (wr_admitted rt)"
proof -
  let ?rt1 = "wr_pruneLocked rt now (millis_or (QueueTimeoutMillis c) defaultWafWaitingRoomQueueTimeout)"
  note p = prune_waiting [OF inv, of c]
  have "gm_keys (wr_queued ?rt1) = fst ` set (waiting rt c now)"
    using p(1,2) wr_invD(4) content_sessions(2) unfolding room_inv_def by metis
  then have "map_of (wr_queued ?rt1) (session_of r) = None" "length (wr_queued ?rt1) \<ge> maxWafWaitingRoomQueuedSessions"
    using full p(2,4) by (simp_all add: map_of_eq_None_iff)
  then show "\<not> pass" "wd_StatusCode d = 503" "wd_Cookies d = []" "wr_content rt' = waiting rt c now" "room_inv rt' now"
      "wr_admitted rt' = filter (\<lambda>e. snd e > now) (wr_admitted rt)"
    using ev cookie p by (auto simp: evaluateLocked_def Let_def no_decision_def)
qed

lemma evaluate_joined:
  assumes inv: "room_inv rt now0" "now0 \<le> now" and cookie: "\<not> rq_admissionCookie r"
    and room: "session_of r \<in> fst ` set (waiting rt c now) \<or> length (waiting rt c now) < maxWafWaitingRoomQueuedSessions"
    and ev: "evaluateLocked rt c r now auto = ((d, pass), rt')"
  obtains rt2 ok rt3 where "room_inv rt2 now" "wr_content rt2 = joined (waiting rt c now) (session_of r) now"
    "wr_admitted rt2 = filter (\<lambda>e. snd e > now) (wr_admitted rt)" "canAdmitLocked rt2 c now (session_of r) = (ok, rt3)"
    "\<not> pass" "wd_StatusCode d = (if ok then 303 else 503)" "wd_QueuePosition d = positionLocked rt2 (session_of r)"
    "rt' = (if ok then admit_session rt3 (session_of r) (now + millis_or (AdmissionSessionTTLMillis c) defaultWafWaitingRoomAdmissionTTL) else rt3)"
    "wr_lastRefillAt rt2 = wr_lastRefillAt rt" "wr_admissionTokens rt2 = wr_admissionTokens rt"
proof -
  let ?rt1 = "wr_pruneLocked rt now (millis_or (QueueTimeoutMillis c) defaultWafWaitingRoomQueueTimeout)" and ?s = "session_of r"
  define rt2 where "rt2 = (if map_of (wr_queued ?rt1) ?s = None then enqueueLocked ?rt1 ?s now else ?rt1)"
  obtain ok rt3 where can: "canAdmitLocked rt2 c now ?s = (ok, rt3)" by force
  note p = prune_waiting [OF inv, of c]
  have inv1: "wr_inv ?rt1" using p(1) by (simp add: room_inv_def)
  have keys: "gm_keys (wr_queued ?rt1) = fst ` set (waiting rt c now)"
    using inv1 p(2) wr_invD(4) content_sessions(2) by metis
  then have new: "map_of (wr_queued ?rt1) ?s = None \<longleftrightarrow> ?s \<notin> fst ` set (waiting rt c now)" by (simp add: map_of_eq_None_iff)
  have enq: "wr_inv (enqueueLocked ?rt1 ?s now)" "wr_content (enqueueLocked ?rt1 ?s now) = waiting rt c now @ [(?s, now)]"
    if "?s \<notin> fst ` set (waiting rt c now)"
    using that p(2) wq.enqueue_inv [OF inv1] wq.enqueue_content [OF inv1] by metis+
  have adm: "wr_admitted rt2 = filter (\<lambda>e. snd e > now) (wr_admitted rt)"
    using p(3) by (simp add: rt2_def enqueueLocked_def)
  have cont: "wr_content rt2 = joined (waiting rt c now) ?s now" using enq(2) p(2) new by (simp add: rt2_def joined_def)
  have "wr_inv rt2" using inv1 enq(1) new by (simp add: rt2_def)
  moreover have "sorted (map snd (joined (waiting rt c now) ?s now))" "\<forall>e\<in>set (joined (waiting rt c now) ?s now). snd e \<le> now"
      "length (joined (waiting rt c now) ?s now) \<le> maxWafWaitingRoomQueuedSessions" "gm_wf (wr_admitted rt2)"
    using p(1) room unfolding room_inv_def p(2) adm p(3) joined_def by (auto simp: sorted_append)
  ultimately have "room_inv rt2 now" unfolding room_inv_def cont by blast
  moreover have "wr_lastRefillAt rt2 = wr_lastRefillAt rt" "wr_admissionTokens rt2 = wr_admissionTokens rt"
    by (simp_all add: rt2_def enqueueLocked_def wr_pruneLocked_def Let_def prune_frame2)
  moreover have "decide rt2 c r now auto = ((d, pass), rt')"
    using ev cookie room new p(2,4) by (auto simp: evaluateLocked_def Let_def rt2_def split: if_splits)
  then have "\<not> pass" "wd_StatusCode d = (if ok then 303 else 503)" "wd_QueuePosition d = positionLocked rt2 ?s"
      "rt' = (if ok then admit_session rt3 ?s (now + millis_or (AdmissionSessionTTLMillis c) defaultWafWaitingRoomAdmissionTTL) else rt3)"
    using can by (auto simp: decide_def Let_def no_decision_def split: if_splits)
  ultimately show ?thesis using that cont adm can by blast
qed

lemma admit_session_frame:
  "wr_content (admit_session rt s e) = wr_content (leave_queue rt s)" "wr_inv (admit_session rt s e) = wr_inv (leave_queue rt s)"
  "wr_admitted (admit_session rt s e) = AList.update s e (wr_admitted (leave_queue rt s))"
  by (simp_all add: admit_session_def leave_queue_def frame_inv Let_def)

lemma leave_admitted [simp]: "wr_admitted (leave_queue rt s) = wr_admitted rt"
  by (simp add: leave_queue_def removeFromQueueLocked_def Let_def split: option.split)

text \<open>C7: The waiting room refines a FIFO of sessions. One evaluation at a time not before the previous one, seen through the abstraction
  that maps the slice, its head and the two maps to the list of waiting sessions with their enqueue times, first drops
  exactly the sessions that waited longer than the timeout, wherever they stand, and then does the specification step:
  a full room turns a newcomer away, otherwise the session joins at the end, and only the session at
  the front can be admitted, upon which it leaves; the representation invariant, the order of the times and the
  size bound are kept, and the position reported to a waiting session is its place in that list.\<close>
theorem waiting_room_refines_fifo:
  assumes "room_inv rt now0" "now0 \<le> now" "\<not> rq_admissionCookie r" "evaluateLocked rt c r now auto = ((d, pass), rt')"
  shows "room_inv rt' now \<and>
    wr_content rt' = fifo_step (waiting rt c now) (session_of r) now (wd_StatusCode d = 303) \<and>
    (wd_StatusCode d = 303 \<longrightarrow> fst (hd (joined (waiting rt c now) (session_of r) now)) = session_of r) \<and>
    (wd_Cookies d \<noteq> [] \<longrightarrow> fst (joined (waiting rt c now) (session_of r) now ! nat (wd_QueuePosition d - 1)) = session_of r)"
proof (cases "session_of r \<notin> fst ` set (waiting rt c now) \<and> length (waiting rt c now) \<ge> maxWafWaitingRoomQueuedSessions")
  case True
  then show ?thesis using evaluate_full [OF assms(1-3) _ _ assms(4)] by (auto simp: fifo_step_def)
next
  case False
  let ?s = "session_of r" and ?w = "joined (waiting rt c now) (session_of r) now"
  have "?s \<in> fst ` set (waiting rt c now) \<or> length (waiting rt c now) < maxWafWaitingRoomQueuedSessions" using False by auto
  from evaluate_joined [OF assms(1-3) this assms(4)] obtain rt2 ok rt3 where e: "room_inv rt2 now" "wr_content rt2 = ?w"
      "canAdmitLocked rt2 c now ?s = (ok, rt3)" "wd_StatusCode d = (if ok then 303 else 503)" "wd_QueuePosition d = positionLocked rt2 ?s"
      "rt' = (if ok then admit_session rt3 ?s (now + millis_or (AdmissionSessionTTLMillis c) defaultWafWaitingRoomAdmissionTTL) else rt3)"
    by metis
  note can = canAdmit_frame [OF e(3)]
  have inv2: "wr_inv rt2" and inv3: "wr_inv rt3" and wf3: "gm_wf (wr_admitted rt3)"
    using e(1) can(1,3) by (simp_all add: room_inv_def)
  have mem: "?s \<in> fst ` set (wr_content rt2)" unfolding e(2) by (auto simp: joined_def)
  have pos: "fst (?w ! nat (positionLocked rt2 ?s - 1)) = ?s"
    using wq.position_content [OF inv2 mem] unfolding e(2) .
  have "room_inv rt' now \<and> wr_content rt' = (if ok then tl ?w else ?w) \<and> (ok \<longrightarrow> fst (hd ?w) = ?s)"
  proof (cases ok)
    case True
    obtain xs where act: "wr_active rt2 = ?s # xs" using can(6) True by blast
    then have hd: "?w = (?s, gm_val (wr_queued rt2) ?s) # tl ?w" "fst (hd ?w) = ?s" "map fst (tl ?w) = xs"
      unfolding e(2) [symmetric] by (simp_all add: wr_content_def comp_def)
    have "?s \<notin> fst ` set (tl ?w)" using wr_invD(2) [OF inv2] act hd(3) by (metis distinct.simps(2) set_map)
    then have "filter (\<lambda>e. fst e \<noteq> ?s) (tl ?w) = tl ?w" by (intro filter_True) force
    then have "filter (\<lambda>e. fst e \<noteq> ?s) ?w = tl ?w" by (subst hd(1)) simp
    then have tl: "wr_content rt' = tl ?w"
      using True e(2,6) can(2) wq.leave_content [OF inv3] by (simp add: admit_session_frame)
    have "wr_inv rt'" using True e(6) wq.leave_inv [OF inv3] by (simp add: admit_session_frame)
    moreover have "sorted (map snd (tl ?w))" "\<forall>e\<in>set (tl ?w). snd e \<le> now" "length (tl ?w) \<le> maxWafWaitingRoomQueuedSessions"
      using e(1) unfolding room_inv_def e(2) by (cases ?w; auto)+
    moreover have "gm_wf (wr_admitted rt')" using True e(6) wf3 by (simp add: admit_session_frame)
    ultimately show ?thesis using True hd(2) tl unfolding room_inv_def by simp
  next
    case False
    then show ?thesis using e(1,2,6) can by (simp add: room_inv_def)
  qed
  then show ?thesis using False e(4,5) pos by (auto simp: fifo_step_def)
qed

text \<open>C38: Admission is bounded: whenever a session is admitted, the sessions whose admission has not expired, the new one included, are at most
  the configured maximum.\<close>
theorem waiting_room_capacity:
  assumes "room_inv rt now0" "now0 \<le> now" "evaluateLocked rt c r now auto = ((d, pass), rt')" "wd_StatusCode d = 303"
  shows "int (length (filter (\<lambda>e. snd e > now) (wr_admitted rt'))) \<le> effective_max c"
proof -
  have cookie: "\<not> rq_admissionCookie r" using assms(3,4) by (auto simp: evaluateLocked_def no_decision_def)
  have room: "session_of r \<in> fst ` set (waiting rt c now) \<or> length (waiting rt c now) < maxWafWaitingRoomQueuedSessions"
    using evaluate_full(2) [OF assms(1,2) cookie _ _ assms(3)] assms(4) by force
  from evaluate_joined [OF assms(1,2) cookie room assms(3)] obtain rt2 ok rt3 where e0: "room_inv rt2 now"
      "canAdmitLocked rt2 c now (session_of r) = (ok, rt3)" "wd_StatusCode d = (if ok then 303 else 503)"
      "rt' = (if ok then admit_session rt3 (session_of r) (now + millis_or (AdmissionSessionTTLMillis c) defaultWafWaitingRoomAdmissionTTL) else rt3)"
    by metis
  have ok using e0(3) assms(4) by (cases ok) simp_all
  then have e: "room_inv rt2 now" "canAdmitLocked rt2 c now (session_of r) = (True, rt3)"
      "rt' = admit_session rt3 (session_of r) (now + millis_or (AdmissionSessionTTLMillis c) defaultWafWaitingRoomAdmissionTTL)"
    using e0 by simp_all
  have "length (wr_admitted rt') \<le> Suc (length (wr_admitted rt2))"
    using canAdmit_frame(3) [OF e(2)] by (simp add: e(3) admit_session_frame length_update)
  then have "int (length (wr_admitted rt')) \<le> effective_max c" using canAdmit_frame(5) [OF e(2) TrueI] by linarith
  then show ?thesis using length_filter_le [of "\<lambda>e. snd e > now" "wr_admitted rt'"] by linarith
qed

lemma seconds_ge_one: "second \<le> d \<Longrightarrow> in_i64 d \<Longrightarrow> 1 \<le> duration_seconds d"
proof -
  assume d: "second \<le> d" "in_i64 d"
  have q: "1 \<le> d div second" "d div second \<le> 9223372036" "0 \<le> d mod second"
    using d by (simp_all add: in_i64_def max_int64_def) (use zdiv_mono1 [of second d second] in simp, linarith)
  then have "f_of_int (go_div d second) = of_int (d div second)" using d by (simp add: go_div_nonneg)
  moreover have "0 \<le> f_div (f_of_int (go_mod d second)) 1000000000"
    using d q(3) by (simp add: f_div_def f_of_int_def fround_nonneg)
  ultimately have "1 \<le> f_of_int (go_div d second) + f_div (f_of_int (go_mod d second)) 1000000000" using q(1) by (simp add: of_int_1_le_iff)
  then have "fround 1 \<le> duration_seconds d" unfolding duration_seconds_def f_add_def by (intro fround_mono) auto
  then show ?thesis using fround_id [of 1] representable_of_int [of 1] by simp
qed

lemma refill_after_second:
  assumes "1 \<le> rate" "0 \<le> wr_admissionTokens rt" "second \<le> now - wr_lastRefillAt rt"
  shows "1 \<le> wr_admissionTokens (refill rt rate now)"
proof -
  have fr: "fround 1 = 1" using fround_id [of 1] representable_of_int [of 1] by simp
  have rate: "1 \<le> f_of_int rate" using fround_mono [of 1 "of_int rate"] assms(1) fr by (simp add: f_of_int_def)
  let ?r = "if time_is_zero (wr_lastRefillAt rt) then rt\<lparr>wr_lastRefillAt := now, wr_admissionTokens := f_of_int rate\<rparr> else rt"
  show ?thesis
  proof (cases "time_is_zero (wr_lastRefillAt rt)")
    case True
    have "duration_seconds 0 = 0" by (simp add: duration_seconds_def f_defs go_div_def go_mod_def)
    then show ?thesis using True rate by (simp add: refill_def Let_def time_sub_def sat64_def min_int64_def max_int64_def)
  next
    case False
    let ?e = "duration_seconds (time_sub now (wr_lastRefillAt rt))"
    have "second \<le> time_sub now (wr_lastRefillAt rt)" "in_i64 (time_sub now (wr_lastRefillAt rt))"
      using assms(3) by (auto simp: time_sub_def sat64_def in_i64_def min_int64_def max_int64_def)
    then have e: "1 \<le> ?e" by (rule seconds_ge_one)
    then have "1 \<le> ?e * f_of_int rate" using rate by (metis mult_mono' mult_1 zero_le_one)
    then have "1 \<le> f_mul ?e (f_of_int rate)" using fround_mono [of 1] fr by (simp add: f_mul_def)
    then have "1 \<le> f_add (wr_admissionTokens rt) (f_mul ?e (f_of_int rate))"
      using fround_mono [of 1] fr assms(2) by (simp add: f_add_def)
    then show ?thesis using False e rate by (simp add: refill_def Let_def)
  qed
qed

text \<open>C39: The room keeps moving: a session that is first among those still waiting, or arrives at an empty room, is admitted at its next
  visit if fewer than the maximum are admitted and at least one second has passed since the bucket was last
  refilled.\<close>
theorem waiting_room_head_admitted:
  assumes "room_inv rt now0" "now0 \<le> now" "\<not> rq_admissionCookie r"
    and first: "fst (hd (joined (waiting rt c now) (session_of r) now)) = session_of r"
    and room: "int (length (filter (\<lambda>e. snd e > now) (wr_admitted rt))) < effective_max c"
    and bucket: "0 \<le> wr_admissionTokens rt" "second \<le> now - wr_lastRefillAt rt"
  shows "wd_StatusCode (fst (fst (evaluateLocked rt c r now auto))) = 303"
proof -
  let ?s = "session_of r"
  obtain d pass rt' where ev: "evaluateLocked rt c r now auto = ((d, pass), rt')" by (metis surj_pair)
  have "?s \<in> fst ` set (waiting rt c now)" if "waiting rt c now \<noteq> []"
    using first that by (cases "waiting rt c now") (auto simp: joined_def split: if_splits)
  then have "?s \<in> fst ` set (waiting rt c now) \<or> length (waiting rt c now) < maxWafWaitingRoomQueuedSessions"
    by (cases "waiting rt c now = []") (simp_all add: maxWafWaitingRoomQueuedSessions_def)
  from evaluate_joined [OF assms(1-3) this ev] obtain rt2 ok rt3 where e: "room_inv rt2 now"
      "wr_content rt2 = joined (waiting rt c now) ?s now" "wr_admitted rt2 = filter (\<lambda>e. snd e > now) (wr_admitted rt)"
      "canAdmitLocked rt2 c now ?s = (ok, rt3)" "wd_StatusCode d = (if ok then 303 else 503)"
      "wr_lastRefillAt rt2 = wr_lastRefillAt rt" "wr_admissionTokens rt2 = wr_admissionTokens rt" by metis
  have ne: "joined (waiting rt c now) ?s now \<noteq> []" by (auto simp: joined_def)
  then have "wr_active rt2 \<noteq> []" "hd (wr_active rt2) = ?s"
    using first content_sessions(1) [of rt2, symmetric] unfolding e(2) by (simp_all add: hd_map)
  then obtain xs where act: "wr_active rt2 = ?s # xs" by (cases "wr_active rt2") auto
  have "1 \<le> effective_rate c" by (auto simp: effective_rate_def defaultWafWaitingRoomAdmissionRate_def)
  then have "1 \<le> wr_admissionTokens (refill rt2 (effective_rate c) now)" using bucket e(6,7) by (intro refill_after_second) auto
  then have ok using e(3,4) room active_Cons(1,2) [OF act]
    by (auto simp: canAdmitLocked_def queueLenLocked_def Let_def)
  then show ?thesis using ev e(5) by simp
qed

section \<open>A concrete room\<close>

definition ex_config :: publicWafWaitingRoomConfig where
  "ex_config = \<lparr>MaxAdmittedSessions = 1, AdmissionRatePerSecond = 1, AdmissionSessionTTLMillis = 0, QueuePollIntervalMillis = 0,
     QueueTimeoutMillis = 0\<rparr>"

definition ex_request_of :: "string \<Rightarrow> waiting_request" where
  "ex_request_of s = \<lparr>rq_admissionCookie = False, rq_queueSession = s, rq_random = ''r'', rq_returnTo = ''/''\<rparr>"

lemma new_room_inv: "room_inv newPublicWaitingRoomRuntime now"
  by (simp add: room_inv_def newPublicWaitingRoomRuntime_def wr_inv_def wr_active_def wr_content_def indexed_def)

lemma new_room_waiting: "waiting newPublicWaitingRoomRuntime c now = []"
  by (simp add: waiting_def wr_content_def wr_active_def newPublicWaitingRoomRuntime_def)

theorem waiting_room_head_admitted_witness:
  "wd_StatusCode (fst (fst (evaluateLocked newPublicWaitingRoomRuntime ex_config (ex_request_of ''a'') 5000000000 False))) = 303"
proof (rule waiting_room_head_admitted [OF new_room_inv order_refl])
  show "fst (hd (joined (waiting newPublicWaitingRoomRuntime ex_config 5000000000) (session_of (ex_request_of ''a'')) 5000000000)) =
      session_of (ex_request_of ''a'')" by (simp add: new_room_waiting joined_def)
qed (simp_all add: effective_max_def ex_config_def newPublicWaitingRoomRuntime_def ex_request_of_def)

lemma new_room_303:
  "wd_StatusCode (fst (fst (evaluateLocked newPublicWaitingRoomRuntime ex_config (ex_request_of ''a'') 5000000000 False))) = 303"
proof -
  let ?t = defaultWafWaitingRoomQueueTimeout
  have "duration_seconds 0 = 0" by (simp add: duration_seconds_def f_defs go_div_def go_mod_def)
  then have "canAdmitLocked (enqueueLocked newPublicWaitingRoomRuntime ''a'' 5000000000) ex_config 5000000000 ''a'' =
      (True, (enqueueLocked newPublicWaitingRoomRuntime ''a'' 5000000000)\<lparr>wr_lastRefillAt := 5000000000, wr_admissionTokens := f_sub 1 1\<rparr>)"
    by (simp add: canAdmitLocked_def enqueueLocked_def newPublicWaitingRoomRuntime_def queueLenLocked_def effective_max_def effective_rate_def
        ex_config_def refill_def time_is_zero_def Let_def time_sub_def sat64_def min_int64_def max_int64_def)
  moreover have "wr_pruneLocked newPublicWaitingRoomRuntime now t = newPublicWaitingRoomRuntime" for now t
    by (simp add: wr_pruneLocked_def newPublicWaitingRoomRuntime_def prune_head.simps compactQueueLocked_def)
  moreover have "session_of (ex_request_of ''a'') = ''a''" "\<not> rq_admissionCookie (ex_request_of ''a'')"
    by (simp_all add: session_of_def ex_request_of_def)
  ultimately show ?thesis
    by (simp add: evaluateLocked_def decide_def maxWafWaitingRoomQueuedSessions_def Let_def) (simp add: newPublicWaitingRoomRuntime_def no_decision_def)
qed

theorem waiting_room_capacity_witness:
  "wd_StatusCode (fst (fst (evaluateLocked newPublicWaitingRoomRuntime ex_config (ex_request_of ''a'') 5000000000 False))) = 303 \<and>
   int (length (filter (\<lambda>e. snd e > 5000000000)
     (wr_admitted (snd (evaluateLocked newPublicWaitingRoomRuntime ex_config (ex_request_of ''a'') 5000000000 False))))) \<le> 1"
proof -
  obtain d pass rt' where ev: "evaluateLocked newPublicWaitingRoomRuntime ex_config (ex_request_of ''a'') 5000000000 False = ((d, pass), rt')"
    by (metis surj_pair)
  then show ?thesis
    using waiting_room_capacity [OF new_room_inv order_refl ev] new_room_303 by (simp add: effective_max_def ex_config_def)
qed

definition ex_room :: publicWaitingRoomRuntime where
  "ex_room = newPublicWaitingRoomRuntime\<lparr>wr_queue := ['''', ''b'', ''a''], wr_queueHead := 1, wr_queueIndex := [(''b'', 1), (''a'', 2)],
     wr_queued := [(''b'', 2000000000000), (''a'', 3000000000000)], wr_lastRefillAt := 3000000000000\<rparr>"

lemma ex_room_content: "wr_content ex_room = [(''b'', 2000000000000), (''a'', 3000000000000)]"
  by (simp add: wr_content_def wr_active_def ex_room_def gm_val_def)

lemma ex_room_inv: "room_inv ex_room 3000000000000"
proof -
  have "wr_inv ex_room"
    by (auto simp: wr_inv_def indexed_def wr_active_def ex_room_def newPublicWaitingRoomRuntime_def gm_wf_def less_Suc_eq)
  then show ?thesis
    by (simp add: room_inv_def ex_room_content maxWafWaitingRoomQueuedSessions_def) (simp add: ex_room_def newPublicWaitingRoomRuntime_def)
qed

lemma ex_room_waiting: "waiting ex_room ex_config 3801000000000 = [(''a'', 3000000000000)]"
  by (simp add: waiting_def ex_room_content ex_config_def millis_or_def i64_def defaultWafWaitingRoomQueueTimeout_def)

theorem waiting_room_refines_fifo_witness:
  "room_inv (snd (evaluateLocked ex_room ex_config (ex_request_of ''a'') 3801000000000 False)) 3801000000000 \<and>
   wr_content (snd (evaluateLocked ex_room ex_config (ex_request_of ''a'') 3801000000000 False)) =
     (if wd_StatusCode (fst (fst (evaluateLocked ex_room ex_config (ex_request_of ''a'') 3801000000000 False))) = 303
      then [] else [(''a'', 3000000000000)])"
proof -
  obtain d pass rt' where ev: "evaluateLocked ex_room ex_config (ex_request_of ''a'') 3801000000000 False = ((d, pass), rt')"
    by (metis surj_pair)
  have "\<not> rq_admissionCookie (ex_request_of ''a'')" "session_of (ex_request_of ''a'') = ''a''"
    by (simp_all add: ex_request_of_def session_of_def)
  then show ?thesis
    using waiting_room_refines_fifo [OF ex_room_inv _ _ ev] unfolding ev ex_room_waiting
    by (simp add: fifo_step_def joined_def)
qed

end
