(* ===== verification/DestinationAllowlist.thy ===== *)
theory DestinationAllowlist
  imports Prelude GoStrings "HOL-Library.Word"
begin

text \<open>
  The agent's destination allowlist (\<open>internal/agent/destination_allowlist.go\<close>): the rules an operator gives the agent, and the decision
  which address the agent dials for a tunnel request. Addresses and prefixes are \<open>net/netip\<close> values; prefix containment, masking and
  unmapping are defined on words, while the textual parsers and printers of \<open>net/netip\<close> and the resolver are the fields of a record
  of functions, over which all theorems are quantified.
\<close>

unbundle bit_operations_syntax

section \<open>Addresses\<close>

datatype netip_addr = Addr4 "32 word" | Addr6 "128 word" string \<comment> \<open>value and zone\<close>

fun Is4 :: "netip_addr \<Rightarrow> bool" where
  "Is4 (Addr4 _) = True" | "Is4 (Addr6 _ _) = False"

fun Is4In6 :: "netip_addr \<Rightarrow> bool" where
  "Is4In6 (Addr4 _) = False"
| "Is4In6 (Addr6 w _) = (drop_bit 32 w = 0xFFFF)"

fun Unmap :: "netip_addr \<Rightarrow> netip_addr" where
  "Unmap (Addr4 w) = Addr4 w"
| "Unmap (Addr6 w z) = (if drop_bit 32 w = 0xFFFF then Addr4 (ucast w) else Addr6 w z)"

fun WithoutZone :: "netip_addr \<Rightarrow> netip_addr" where
  "WithoutZone (Addr4 w) = Addr4 w" | "WithoutZone (Addr6 w _) = Addr6 w ''''"

record netip_prefix =
  pf_addr :: netip_addr
  pf_bits :: nat

definition bit_len :: "netip_addr \<Rightarrow> nat" where
  "bit_len a = (if Is4 a then 32 else 128)"

fun mask_addr :: "nat \<Rightarrow> netip_addr \<Rightarrow> netip_addr" where
  "mask_addr bits (Addr4 w) = Addr4 (push_bit (32 - bits) (drop_bit (32 - bits) w))"
| "mask_addr bits (Addr6 w z) = Addr6 (push_bit (128 - bits) (drop_bit (128 - bits) w)) z"

definition PrefixFrom :: "netip_addr \<Rightarrow> int \<Rightarrow> netip_prefix option" where
  \<comment> \<open>\<open>netip.PrefixFrom\<close>: \<open>None\<close> is the invalid prefix; a zone is dropped\<close>
  "PrefixFrom a bits =
     (if bits < 0 \<or> bits > int (bit_len a) then None else Some \<lparr>pf_addr = WithoutZone a, pf_bits = nat bits\<rparr>)"

definition Masked :: "netip_prefix option \<Rightarrow> netip_prefix option" where
  "Masked p = map_option (\<lambda>q. q\<lparr>pf_addr := mask_addr (pf_bits q) (pf_addr q)\<rparr>) p"

fun same_high_bits :: "nat \<Rightarrow> netip_addr \<Rightarrow> netip_addr \<Rightarrow> bool" where
  "same_high_bits bits (Addr4 v) (Addr4 w) = (drop_bit (32 - bits) (v XOR w) = 0)"
| "same_high_bits bits (Addr6 v _) (Addr6 w _) = (drop_bit (128 - bits) (v XOR w) = 0)"
| "same_high_bits bits _ _ = False"

fun has_zone :: "netip_addr \<Rightarrow> bool" where
  "has_zone (Addr4 _) = False" | "has_zone (Addr6 _ z) = (z \<noteq> '''')"

definition prefix_Contains :: "netip_prefix option \<Rightarrow> netip_addr \<Rightarrow> bool" where
  \<comment> \<open>\<open>Prefix.Contains\<close>: never for an invalid prefix, a zoned address or another family\<close>
  "prefix_Contains p a = (case p of None \<Rightarrow> False | Some q \<Rightarrow> \<not> has_zone a \<and> same_high_bits (pf_bits q) (pf_addr q) a)"

datatype lookup_error = LookupCanceled | LookupTimeout | LookupFailed

record netip_fns =
  ParseAddr :: "string \<Rightarrow> netip_addr option"
  ParsePrefix :: "string \<Rightarrow> netip_prefix option" \<comment> \<open>a valid prefix or an error\<close>
  AddrString :: "netip_addr \<Rightarrow> string"
  JoinHostPort :: "string \<Rightarrow> string \<Rightarrow> string"
  LookupIPAddr :: "string \<Rightarrow> lookup_error + 8 word list list" \<comment> \<open>the resolver: one \<open>net.IP\<close> byte slice per address\<close>

definition AddrFromSlice :: "8 word list \<Rightarrow> netip_addr option" where
  "AddrFromSlice bs =
     (if length bs = 4 then Some (Addr4 (foldl (\<lambda>acc b. push_bit 8 acc OR ucast b) 0 bs))
      else if length bs = 16 then Some (Addr6 (foldl (\<lambda>acc b. push_bit 8 acc OR ucast b) 0 bs) '''')
      else None)"

section \<open>Rules\<close>

record agentDestinationPortRange =
  pr_any :: bool
  pr_min :: int
  pr_max :: int

record agentDestinationRule =
  dr_hostname :: string
  dr_prefix :: "netip_prefix option"
  dr_hasPrefix :: bool
  dr_ports :: agentDestinationPortRange

record agentDestinationPolicy =
  dp_rules :: "agentDestinationRule list"
  dp_hasPrefixRules :: bool
  dp_allowAny :: bool

definition normalizeAgentDestinationHost :: "string \<Rightarrow> string" where
  "normalizeAgentDestinationHost host = trim_suffix_char CHR ''.'' (to_lower (trim_space host))"

definition normalizeAgentDestinationAddr :: "netip_addr \<Rightarrow> netip_addr" where
  "normalizeAgentDestinationAddr a = WithoutZone (Unmap a)"

definition normalizeAgentDestinationPrefix :: "netip_prefix \<Rightarrow> netip_prefix option" where
  "normalizeAgentDestinationPrefix p =
     (let addr = normalizeAgentDestinationAddr (pf_addr p);
          bits = int (pf_bits p);
          bits = (if Is4In6 (pf_addr p) \<and> Is4 addr then bits - 96 else bits);
          bits = (if Is4 addr \<and> bits > 32 then 32 else bits);
          bits = (if bits < 0 then 0 else bits)
      in Masked (PrefixFrom addr bits))"

definition prefixForAgentDestinationAddr :: "netip_addr \<Rightarrow> netip_prefix option" where
  "prefixForAgentDestinationAddr a0 =
     (let a = normalizeAgentDestinationAddr a0 in if Is4 a then PrefixFrom a 32 else PrefixFrom a 128)"

definition parseAgentDestinationPort :: "string \<Rightarrow> int option" where
  "parseAgentDestinationPort spec0 =
     (let spec = trim_space spec0
      in if spec = '''' \<or> \<not> list_all is_digit spec then None
         else (case parse_int spec of
                 None \<Rightarrow> None
               | Some port \<Rightarrow> if port < 1 \<or> port > 65535 then None else Some port))"

definition parseAgentDestinationPortRange :: "string \<Rightarrow> agentDestinationPortRange option" where
  "parseAgentDestinationPortRange spec0 =
     (let spec = trim_space spec0
      in if spec = '''' then None
         else (case cut_char CHR ''-'' spec of
                 Some (startText, endText) \<Rightarrow>
                   (case parseAgentDestinationPort startText of
                      None \<Rightarrow> None
                    | Some start \<Rightarrow>
                        (case parseAgentDestinationPort endText of
                           None \<Rightarrow> None
                         | Some end' \<Rightarrow> if start > end' then None else Some \<lparr>pr_any = False, pr_min = start, pr_max = end'\<rparr>))
               | None \<Rightarrow>
                   (case parseAgentDestinationPort spec of
                      None \<Rightarrow> None
                    | Some port \<Rightarrow> Some \<lparr>pr_any = False, pr_min = port, pr_max = port\<rparr>)))"

definition splitAgentAllowTarget :: "string \<Rightarrow> (string \<times> string \<times> bool) option" where
  "splitAgentAllowTarget raw =
     (let v = trim_space raw
      in if v = '''' then None
         else if v ! 0 = CHR ''['' then
           (case last_index_char CHR '']'' v of
              None \<Rightarrow> None
            | Some e \<Rightarrow>
                let host = take (e - 1) (drop 1 v); rest = drop (Suc e) v
                in if rest = '''' then Some (host, '''', False)
                   else if rest ! 0 = CHR '':'' \<and> length rest > 1 then Some (host, drop 1 rest, True)
                   else None)
         else if length (filter (\<lambda>c. c = CHR '':'') v) = 1 then
           (case cut_char CHR '':'' v of
              None \<Rightarrow> None
            | Some (before, after) \<Rightarrow> if before = '''' then None else if after = '''' then None else Some (before, after, True))
         else Some (v, '''', False))"

definition contains_any :: "string \<Rightarrow> string \<Rightarrow> bool" where
  "contains_any s cs \<longleftrightarrow> list_ex (List.member cs) s"

definition parseAgentAllowTarget :: "netip_fns \<Rightarrow> string \<Rightarrow> agentDestinationRule option" where
  "parseAgentAllowTarget N raw =
     (case splitAgentAllowTarget raw of
        None \<Rightarrow> None
      | Some (host0, portSpec, hasPort) \<Rightarrow>
          (case (if hasPort then parseAgentDestinationPortRange portSpec else Some \<lparr>pr_any = True, pr_min = 0, pr_max = 0\<rparr>) of
             None \<Rightarrow> None
           | Some ports \<Rightarrow>
               let host = trim_space host0;
                   rule = \<lparr>dr_hostname = '''', dr_prefix = None, dr_hasPrefix = False, dr_ports = ports\<rparr>
               in if host = '''' then None
                  else if contains_any host [CHR 0x20, CHR 0x09, CHR 0x0D, CHR 0x0A] then None
                  else (case ParsePrefix N host of
                          Some prefix \<Rightarrow> Some (rule\<lparr>dr_prefix := normalizeAgentDestinationPrefix prefix, dr_hasPrefix := True\<rparr>)
                        | None \<Rightarrow>
                            if contains_any host ''/'' then None
                            else (case ParseAddr N host of
                                    Some a \<Rightarrow> Some (rule\<lparr>dr_prefix := prefixForAgentDestinationAddr a, dr_hasPrefix := True\<rparr>)
                                  | None \<Rightarrow>
                                      let hostname = normalizeAgentDestinationHost host
                                      in if hostname = '''' then None
                                         else if contains_any hostname ''*'' then None
                                         else if contains_any hostname ''[]/:'' then None
                                         else Some (rule\<lparr>dr_hostname := hostname\<rparr>)))))"

definition defaultAgentDestinationRules :: "string list" where
  "defaultAgentDestinationRules = [''127.0.0.0/8'', ''::1/128'']"

definition hasNonEmptyAgentDestinationRule :: "string list \<Rightarrow> bool" where
  "hasNonEmptyAgentDestinationRule rawRules \<longleftrightarrow> list_ex (\<lambda>raw. trim_space raw \<noteq> '''') rawRules"

fun collect_rules :: "netip_fns \<Rightarrow> string list \<Rightarrow> agentDestinationRule list option" where
  \<comment> \<open>the loop of \<open>newAgentDestinationPolicy\<close>: blank entries are skipped, the first invalid one is an error\<close>
  "collect_rules N [] = Some []"
| "collect_rules N (raw # rest) =
     (if trim_space raw = '''' then collect_rules N rest
      else (case parseAgentAllowTarget N (trim_space raw) of
              None \<Rightarrow> None
            | Some rule \<Rightarrow> map_option (\<lambda>rules. rule # rules) (collect_rules N rest)))"

definition newAgentDestinationPolicy :: "netip_fns \<Rightarrow> string list \<Rightarrow> bool \<Rightarrow> agentDestinationPolicy option" where
  "newAgentDestinationPolicy N rawRules0 allowAny =
     (let rawRules = (if \<not> allowAny \<and> \<not> hasNonEmptyAgentDestinationRule rawRules0 then defaultAgentDestinationRules else rawRules0)
      in case collect_rules N rawRules of
           None \<Rightarrow> None
         | Some rules \<Rightarrow>
             if allowAny \<and> rules \<noteq> [] then None
             else Some \<lparr>dp_rules = rules, dp_hasPrefixRules = list_ex dr_hasPrefix rules, dp_allowAny = allowAny\<rparr>)"

section \<open>Decision\<close>

definition ports_matches :: "agentDestinationPortRange \<Rightarrow> int \<Rightarrow> bool" where
  "ports_matches r port \<longleftrightarrow> pr_any r \<or> (port \<ge> pr_min r \<and> port \<le> pr_max r)"

definition matchesHostname :: "agentDestinationPolicy \<Rightarrow> string \<Rightarrow> int \<Rightarrow> bool" where
  "matchesHostname p hostname port \<longleftrightarrow>
     list_ex (\<lambda>rule. dr_hostname rule \<noteq> '''' \<and> dr_hostname rule = hostname \<and> ports_matches (dr_ports rule) port) (dp_rules p)"

definition matchesAddr :: "agentDestinationPolicy \<Rightarrow> netip_addr \<Rightarrow> int \<Rightarrow> bool" where
  "matchesAddr p a port \<longleftrightarrow>
     list_ex (\<lambda>rule. dr_hasPrefix rule \<and> prefix_Contains (dr_prefix rule) a \<and> ports_matches (dr_ports rule) port) (dp_rules p)"

definition agentDestinationAddrMatchesNetwork :: "netip_addr \<Rightarrow> string \<Rightarrow> bool" where
  "agentDestinationAddrMatchesNetwork a network =
     (let n = to_lower (trim_space network)
      in if n = ''tcp4'' then Is4 a else if n = ''tcp6'' then \<not> Is4 a else True)"

definition lookupAgentDestinationIP :: "netip_fns \<Rightarrow> string \<Rightarrow> lookup_error + netip_addr list" where
  \<comment> \<open>an \<open>IP\<close> that is nil or has another length is skipped\<close>
  "lookupAgentDestinationIP N host =
     (case LookupIPAddr N host of
        Inl e \<Rightarrow> Inl e
      | Inr ips \<Rightarrow>
          let addrs = map normalizeAgentDestinationAddr (List.map_filter AddrFromSlice ips)
          in if addrs = [] then Inl LookupFailed else Inr addrs)"

datatype dial_error = Forbidden string | LookupAborted lookup_error

definition dialAddress :: "netip_fns \<Rightarrow> bool \<Rightarrow> agentDestinationPolicy option \<Rightarrow> string \<Rightarrow> string \<Rightarrow> dial_error + string" where
  \<comment> \<open>\<open>None\<close> is the nil policy; \<open>ctxDone\<close> says that the context is cancelled or past its deadline after the lookup\<close>
  "dialAddress N ctxDone p network address =
     (case p of
        None \<Rightarrow> Inl (Forbidden ''no destinations are allowed by the local agent policy'')
      | Some q \<Rightarrow>
          if dp_allowAny q then Inr address
          else if dp_rules q = [] then Inl (Forbidden ''no destinations are allowed by the local agent policy'')
          else (case split_host_port (trim_space address) of
                  None \<Rightarrow> Inl (Forbidden ''requested address must be host:port'')
                | Some (host0, portText) \<Rightarrow>
                    (case parseAgentDestinationPort portText of
                       None \<Rightarrow> Inl (Forbidden ''requested address port is invalid'')
                     | Some port \<Rightarrow>
                         let host = trim_space host0
                         in if host = '''' then Inl (Forbidden ''requested address host is required'')
                            else (case ParseAddr N host of
                                    Some a \<Rightarrow>
                                      if matchesAddr q (normalizeAgentDestinationAddr a) port then Inr address
                                      else Inl (Forbidden ''requested IP address is not allowed'')
                                  | None \<Rightarrow>
                                      let hostname = normalizeAgentDestinationHost host
                                      in if hostname = '''' \<or> contains_any hostname ''[]/:''
                                         then Inl (Forbidden ''requested hostname is invalid'')
                                         else if matchesHostname q hostname port then Inr address
                                         else if \<not> dp_hasPrefixRules q then Inl (Forbidden ''requested hostname is not allowed'')
                                         else (case lookupAgentDestinationIP N host of
                                                 Inl e \<Rightarrow>
                                                   if e \<noteq> LookupFailed \<or> ctxDone then Inl (LookupAborted e)
                                                   else Inl (Forbidden ''requested hostname did not resolve to an allowed address'')
                                               | Inr addrs \<Rightarrow>
                                                   (case List.find (\<lambda>a. agentDestinationAddrMatchesNetwork a network \<and> matchesAddr q a port)
                                                           (map normalizeAgentDestinationAddr addrs) of
                                                      Some a \<Rightarrow> Inr (JoinHostPort N (AddrString N a) (format_uint (nat port)))
                                                    | None \<Rightarrow> Inl (Forbidden ''requested hostname resolved outside the allowlist'')))))))"


section \<open>Prefixes denote blocks of addresses\<close>

text \<open>The reference: every address is a 128-bit number, an IPv4 address the number of its IPv4-mapped form, and a prefix is the block of the
  numbers that agree with it after dividing away the host bits.\<close>

fun embed :: "netip_addr \<Rightarrow> nat" where
  "embed (Addr4 w) = 0xFFFF * 2 ^ 32 + unat w"
| "embed (Addr6 w _) = unat w"

definition block_bits :: "netip_prefix \<Rightarrow> nat" where
  "block_bits p = (if Is4 (pf_addr p) then 96 + pf_bits p else pf_bits p)"

definition in_block :: "netip_prefix \<Rightarrow> netip_addr \<Rightarrow> bool" where
  "in_block p a \<longleftrightarrow> embed (pf_addr p) div 2 ^ (128 - block_bits p) = embed a div 2 ^ (128 - block_bits p)"

definition prefix_valid :: "netip_prefix \<Rightarrow> bool" where
  "prefix_valid p \<longleftrightarrow> pf_bits p \<le> bit_len (pf_addr p)"

lemma unat_drop: "unat (drop_bit k w) = unat w div 2 ^ k" for w :: "'a :: len word"
  by (subst unat_drop_bit_eq) (rule drop_bit_eq_div)

lemma drop_xor_zero: "drop_bit k (x XOR y) = 0 \<longleftrightarrow> unat x div 2 ^ k = unat y div 2 ^ k" for x y :: "'a :: len word"
proof -
  have "drop_bit k (x XOR y) = 0 \<longleftrightarrow> drop_bit k x = drop_bit k y"
    by (auto simp: bit_eq_iff bit_simps)
  also have "\<dots> \<longleftrightarrow> unat (drop_bit k x) = unat (drop_bit k y)"
    by (simp only: word_unat_eq_iff)
  finally show ?thesis
    by (simp only: unat_drop)
qed

lemma mask_div: "unat (push_bit k (drop_bit k w)) div 2 ^ k = unat w div 2 ^ k" for w :: "'a :: len word"
proof -
  have "drop_bit k (push_bit k (drop_bit k w)) = drop_bit k w"
    by (rule bit_word_eqI) (auto simp: bit_simps dest: bit_imp_le_length)
  then show ?thesis
    by (metis unat_drop)
qed

lemma mapped_iff: "drop_bit 32 w = 0xFFFF \<longleftrightarrow> unat w div 2 ^ 32 = 0xFFFF" for w :: "128 word"
proof -
  have "drop_bit 32 w = 0xFFFF \<longleftrightarrow> unat (drop_bit 32 w) = unat (0xFFFF :: 128 word)"
    by (simp only: word_unat_eq_iff)
  then show ?thesis by (simp add: unat_drop del: drop_bit_eq_div)
qed

lemma embed_normalize: "embed (normalizeAgentDestinationAddr a) = embed a"
proof (cases a)
  case (Addr6 w z)
  show ?thesis
  proof (cases "drop_bit 32 w = 0xFFFF")
    case True
    then have "unat w div 2 ^ 32 = 0xFFFF" by (simp only: mapped_iff)
    moreover have "unat (ucast w :: 32 word) = unat w mod 2 ^ 32"
      by (simp add: unsigned_ucast_eq take_bit_eq_mod)
    ultimately have "embed (Addr4 (ucast w)) = unat w"
      using div_mult_mod_eq [of "unat w" "2 ^ 32"] by simp
    with True Addr6 show ?thesis by (simp add: normalizeAgentDestinationAddr_def)
  qed (simp add: Addr6 normalizeAgentDestinationAddr_def)
qed (simp add: normalizeAgentDestinationAddr_def)

lemma normalize_no_zone [simp]: "\<not> has_zone (normalizeAgentDestinationAddr a)"
  by (cases a) (auto simp: normalizeAgentDestinationAddr_def)

lemma mapped_div_le: "k \<le> 32 \<Longrightarrow> (0xFFFF * 2 ^ 32 + (v :: nat)) div 2 ^ k = 0xFFFF * 2 ^ (32 - k) + v div 2 ^ k"
proof -
  assume "k \<le> 32"
  then have "(2 :: nat) ^ 32 = 2 ^ (32 - k) * 2 ^ k"
    by (simp flip: power_add)
  then have eq: "0xFFFF * 2 ^ 32 + v = (0xFFFF * 2 ^ (32 - k)) * 2 ^ k + v"
    by (simp only: mult.assoc)
  show ?thesis unfolding eq by (rule div_mult_self3) simp
qed

lemma mapped_div_ge: "32 \<le> k \<Longrightarrow> v < 2 ^ 32 \<Longrightarrow> (0xFFFF * 2 ^ 32 + (v :: nat)) div 2 ^ k = 0xFFFF div 2 ^ (k - 32)"
proof -
  assume k: "32 \<le> k" and v: "v < 2 ^ 32"
  have "(2 :: nat) ^ k = 2 ^ 32 * 2 ^ (k - 32)"
    using k by (metis le_add_diff_inverse power_add)
  then have "(0xFFFF * 2 ^ 32 + v) div 2 ^ k = (0xFFFF * 2 ^ 32 + v) div 2 ^ 32 div 2 ^ (k - 32)"
    by (simp only: div_mult2_eq)
  moreover have "(0xFFFF * 2 ^ 32 + v) div 2 ^ 32 = 0xFFFF"
    using v by (subst div_mult_self3) simp_all
  ultimately show ?thesis by (simp only:)
qed

lemma contains4:
  assumes "0 \<le> b" "b \<le> 32"
  shows "prefix_Contains (Masked (PrefixFrom (Addr4 v) b)) (Addr4 w) \<longleftrightarrow> unat v div 2 ^ (32 - nat b) = unat w div 2 ^ (32 - nat b)"
  using assms by (simp add: prefix_Contains_def Masked_def PrefixFrom_def bit_len_def drop_xor_zero mask_div del: drop_bit_xor)

lemma contains6:
  assumes "0 \<le> b" "b \<le> 128"
  shows "prefix_Contains (Masked (PrefixFrom (Addr6 v z) b)) (Addr6 w []) \<longleftrightarrow> unat v div 2 ^ (128 - nat b) = unat w div 2 ^ (128 - nat b)"
  using assms by (simp add: prefix_Contains_def Masked_def PrefixFrom_def bit_len_def drop_xor_zero mask_div del: drop_bit_xor)

lemma contains_family: "Is4 a \<noteq> Is4 c \<Longrightarrow> \<not> prefix_Contains (Masked (PrefixFrom a b)) c"
  by (cases a; cases c) (simp_all add: prefix_Contains_def Masked_def PrefixFrom_def)

lemma normalize_prefix4:
  assumes "normalizeAgentDestinationAddr (pf_addr p) = Addr4 v" and "prefix_valid p"
  shows "normalizeAgentDestinationPrefix p =
    Masked (PrefixFrom (Addr4 v) (int (if Is4 (pf_addr p) then pf_bits p else pf_bits p - 96)))"
proof (cases "pf_addr p")
  case (Addr4 u)
  with assms show ?thesis
    by (simp add: normalizeAgentDestinationPrefix_def prefix_valid_def bit_len_def)
next
  case (Addr6 u z)
  with assms(1) have "drop_bit 32 u = 0xFFFF"
    by (auto simp: normalizeAgentDestinationAddr_def split: if_splits)
  moreover have "(if (if int n - 96 > 32 then 32 else int n - 96) < 0 then 0 else (if int n - 96 > 32 then 32 else int n - 96)) = int (n - 96)"
    if "n \<le> 128" for n using that by auto
  ultimately show ?thesis
    using assms Addr6 by (simp add: normalizeAgentDestinationPrefix_def prefix_valid_def bit_len_def)
qed

lemma normalize_prefix6:
  assumes "normalizeAgentDestinationAddr (pf_addr p) = Addr6 v z"
  shows "normalizeAgentDestinationPrefix p = Masked (PrefixFrom (Addr6 v z) (int (pf_bits p)))"
    and "\<not> Is4 (pf_addr p)"
  using assms
  by (cases "pf_addr p"; simp add: normalizeAgentDestinationPrefix_def normalizeAgentDestinationAddr_def split: if_splits)+

lemma block4:
  assumes "normalizeAgentDestinationAddr (pf_addr p) = Addr4 v" and "prefix_valid p"
  defines "b \<equiv> (if Is4 (pf_addr p) then pf_bits p else pf_bits p - 96)"
  shows "unat v div 2 ^ (32 - b) = unat w div 2 ^ (32 - b) \<longleftrightarrow>
    embed (pf_addr p) div 2 ^ (128 - block_bits p) = embed (Addr4 w) div 2 ^ (128 - block_bits p)"
proof -
  let ?k = "128 - block_bits p"
  have e: "embed (pf_addr p) = 0xFFFF * 2 ^ 32 + unat v" "embed (Addr4 w) = 0xFFFF * 2 ^ 32 + unat w"
    using embed_normalize [of "pf_addr p"] assms(1) by simp_all
  have small: "unat u < 2 ^ 32" for u :: "32 word"
    using unsigned_less [of u] by simp
  show ?thesis
  proof (cases "?k \<le> 32")
    case True
    then have "32 - b = ?k"
      using assms(2) by (auto simp: b_def block_bits_def prefix_valid_def bit_len_def split: if_splits)
    then show ?thesis unfolding e mapped_div_le [OF True] by simp
  next
    case False
    then have "b = 0" and k: "32 \<le> ?k"
      by (auto simp: b_def block_bits_def split: if_splits)
    then show ?thesis unfolding e mapped_div_ge [OF k small]
      using small [of v] small [of w] by simp
  qed
qed

lemma normalize_prefix_contains:
  assumes "prefix_valid p"
  shows "prefix_Contains (normalizeAgentDestinationPrefix p) (normalizeAgentDestinationAddr a) \<longleftrightarrow>
    Is4 (normalizeAgentDestinationAddr (pf_addr p)) = Is4 (normalizeAgentDestinationAddr a) \<and> in_block p a"
proof -
  let ?A = "normalizeAgentDestinationAddr (pf_addr p)" and ?a = "normalizeAgentDestinationAddr a"
  have blk: "in_block p a = in_block p ?a" by (simp add: in_block_def embed_normalize)
  have nz: "\<not> has_zone ?a" by simp
  show ?thesis
  proof (cases "Is4 ?A = Is4 ?a")
    case False
    then have "\<not> prefix_Contains (normalizeAgentDestinationPrefix p) ?a"
      unfolding normalizeAgentDestinationPrefix_def Let_def by (rule contains_family)
    with False show ?thesis by simp
  next
    case same: True
    show ?thesis
    proof (cases ?A)
      case (Addr4 v)
      with same obtain w where w: "?a = Addr4 w" by (cases ?a) auto
      have "(if Is4 (pf_addr p) then pf_bits p else pf_bits p - 96) \<le> 32"
        using assms by (auto simp: prefix_valid_def bit_len_def)
      with block4 [OF Addr4 assms, of w] show ?thesis
        unfolding blk using same w by (simp add: normalize_prefix4 [OF Addr4 assms] contains4 in_block_def)
    next
      case (Addr6 v z)
      with same nz obtain w where w: "?a = Addr6 w []" by (cases ?a) auto
      have "embed (pf_addr p) = unat v"
        using embed_normalize [of "pf_addr p"] Addr6 by simp
      with normalize_prefix6 [OF Addr6] assms show ?thesis
        unfolding blk using same w by (simp add: contains6 in_block_def block_bits_def prefix_valid_def bit_len_def)
    qed
  qed
qed

text \<open>C18: The prefix the allowlist stores for a CIDR rule covers exactly the block of addresses the rule names: for every valid parsed
  prefix (IPv4, IPv6, or IPv4 written in its IPv6-mapped form, also with fewer than 96 bits) and every requested address, after
  normalisation of both, containment holds iff both normalise to the same family and the address lies in the block, read on the 128-bit numbers the two denote.
  The normalisation (unmapping, the 96-bit shift, clamping, masking) neither widens nor narrows a rule within a family.\<close>
theorem allow_prefix_exact:
  assumes "prefix_valid p"
  shows "prefix_Contains (normalizeAgentDestinationPrefix p) (normalizeAgentDestinationAddr a) \<longleftrightarrow>
    Is4 (normalizeAgentDestinationAddr (pf_addr p)) = Is4 (normalizeAgentDestinationAddr a) \<and> in_block p a"
  by (rule normalize_prefix_contains [OF assms])

theorem allow_prefix_exact_witness:
  "prefix_Contains (normalizeAgentDestinationPrefix \<lparr>pf_addr = Addr6 0xFFFF0A010000 [], pf_bits = 112\<rparr>)
     (normalizeAgentDestinationAddr (Addr4 0x0A010203))
   \<and> \<not> prefix_Contains (normalizeAgentDestinationPrefix \<lparr>pf_addr = Addr6 0xFFFF0A010000 [], pf_bits = 112\<rparr>)
     (normalizeAgentDestinationAddr (Addr4 0x0A020203))"
proof -
  let ?p = "\<lparr>pf_addr = Addr6 0xFFFF0A010000 [], pf_bits = 112\<rparr> :: netip_prefix"
  have v: "prefix_valid ?p" by (simp add: prefix_valid_def bit_len_def)
  have fam: "Is4 (normalizeAgentDestinationAddr (pf_addr ?p))" by (simp add: normalizeAgentDestinationAddr_def mapped_iff)
  show ?thesis
    using allow_prefix_exact [OF v, of "Addr4 0x0A010203"] allow_prefix_exact [OF v, of "Addr4 0x0A020203"] fam
    by (simp add: normalizeAgentDestinationAddr_def in_block_def block_bits_def)
qed

section \<open>What the agent dials\<close>

definition effective_rules :: "string list \<Rightarrow> string list" where
  "effective_rules raws = (if hasNonEmptyAgentDestinationRule raws then raws else defaultAgentDestinationRules)"

definition configured :: "netip_fns \<Rightarrow> string list \<Rightarrow> agentDestinationRule \<Rightarrow> bool" where
  \<comment> \<open>the operator configured this rule (or it is one of the defaults)\<close>
  "configured N raws r \<longleftrightarrow> list_ex (\<lambda>raw. parseAgentAllowTarget N (trim_space raw) = Some r) (effective_rules raws)"

lemma collect_rules_mem:
  "collect_rules N raws = Some rules \<Longrightarrow> r \<in> set rules \<Longrightarrow> \<exists>raw\<in>set raws. parseAgentAllowTarget N (trim_space raw) = Some r"
  by (induction raws arbitrary: rules) (auto split: if_splits option.splits)

lemma policy_rules_configured:
  "newAgentDestinationPolicy N raws False = Some q \<Longrightarrow> r \<in> set (dp_rules q) \<Longrightarrow> configured N raws r"
  by (auto simp: newAgentDestinationPolicy_def configured_def effective_rules_def list_ex_iff Let_def
      split: if_splits option.splits dest: collect_rules_mem)

lemma policy_not_any: "newAgentDestinationPolicy N raws False = Some q \<Longrightarrow> \<not> dp_allowAny q"
  by (auto simp: newAgentDestinationPolicy_def Let_def split: option.splits)

lemma port_range: "parseAgentDestinationPort s = Some port \<Longrightarrow> 1 \<le> port \<and> port \<le> 65535"
  by (auto simp: parseAgentDestinationPort_def Let_def split: if_splits option.splits)

definition admits_addr :: "agentDestinationRule \<Rightarrow> netip_addr \<Rightarrow> int \<Rightarrow> bool" where
  "admits_addr r a port \<longleftrightarrow> dr_hasPrefix r \<and> prefix_Contains (dr_prefix r) a \<and> ports_matches (dr_ports r) port"

definition admits_name :: "agentDestinationRule \<Rightarrow> string \<Rightarrow> int \<Rightarrow> bool" where
  "admits_name r name port \<longleftrightarrow> dr_hostname r \<noteq> '''' \<and> dr_hostname r = name \<and> ports_matches (dr_ports r) port"

lemma matchesAddr_iff: "matchesAddr q a port \<longleftrightarrow> (\<exists>r\<in>set (dp_rules q). admits_addr r a port)"
  by (auto simp: matchesAddr_def admits_addr_def list_ex_iff)

lemma matchesHostname_iff: "matchesHostname q n port \<longleftrightarrow> (\<exists>r\<in>set (dp_rules q). admits_name r n port)"
  by (auto simp: matchesHostname_def admits_name_def list_ex_iff)

lemma normalize_idem [simp]: "normalizeAgentDestinationAddr (normalizeAgentDestinationAddr a) = normalizeAgentDestinationAddr a"
  by (cases a) (auto simp: normalizeAgentDestinationAddr_def)

lemma lookup_members:
  "lookupAgentDestinationIP N host = Inr addrs \<Longrightarrow> a \<in> set addrs \<Longrightarrow>
   \<exists>ips ip a0. LookupIPAddr N host = Inr ips \<and> ip \<in> set ips \<and> AddrFromSlice ip = Some a0 \<and> a = normalizeAgentDestinationAddr a0"
  by (auto simp: lookupAgentDestinationIP_def Let_def List.map_filter_def split: sum.splits if_splits) blast

lemma find_member: "List.find P xs = Some a \<Longrightarrow> a \<in> set xs \<and> P a"
  by (auto simp: find_Some_iff)

lemma dial_cases:
  assumes "dialAddress N ctxDone (Some q) network address = Inr target" and "\<not> dp_allowAny q"
  obtains host portText port where
    "split_host_port (trim_space address) = Some (host, portText)" "parseAgentDestinationPort portText = Some port"
    "(\<exists>a. ParseAddr N (trim_space host) = Some a \<and> matchesAddr q (normalizeAgentDestinationAddr a) port \<and> target = address) \<or>
     (ParseAddr N (trim_space host) = None \<and> matchesHostname q (normalizeAgentDestinationHost (trim_space host)) port \<and> target = address) \<or>
     (\<exists>addrs a. ParseAddr N (trim_space host) = None \<and> lookupAgentDestinationIP N (trim_space host) = Inr addrs \<and>
        a \<in> normalizeAgentDestinationAddr ` set addrs \<and> matchesAddr q a port \<and> agentDestinationAddrMatchesNetwork a network \<and>
        target = JoinHostPort N (AddrString N a) (format_uint (nat port)))"
proof -
  from assms obtain host portText where s: "split_host_port (trim_space address) = Some (host, portText)"
    by (auto simp: dialAddress_def split: if_splits option.splits)
  with assms obtain port where p: "parseAgentDestinationPort portText = Some port"
    by (auto simp: dialAddress_def split: if_splits option.splits)
  show thesis
  proof (cases "ParseAddr N (trim_space host)")
    case None
    show thesis
    proof (cases "matchesHostname q (normalizeAgentDestinationHost (trim_space host)) port")
      case True
      with assms s p None show thesis
        by (intro that [OF s p]) (auto simp: dialAddress_def Let_def split: if_splits)
    next
      case False
      with assms s p None show thesis
        by (intro that [OF s p]) (auto simp: dialAddress_def Let_def
          split: if_splits option.splits sum.splits dest!: find_member)
    qed
  next
    case (Some a)
    with assms s p show thesis
      by (intro that [OF s p]) (auto simp: dialAddress_def Let_def split: if_splits)
  qed
qed

text \<open>C13: The agent dials only what its operator allowed. For a policy built from the configured rules (the loopback defaults when none is
  given) without the allow-any switch, whatever address \<open>dialAddress\<close> returns has a port in 1..65535 and a configured rule that
  admits that port and either (1) covers the literal address of the request, which is then dialled unchanged, or (2) names the
  request's normalised hostname, or (3) covers one of the addresses the resolver returned for the host, and then the text that is dialled is that very
  address, so that a second resolution cannot lead the agent anywhere else.\<close>
theorem agent_dials_only_allowed:
  assumes "newAgentDestinationPolicy N raws False = Some q"
    and "dialAddress N ctxDone (Some q) network address = Inr target"
  shows "\<exists>host portText port r. split_host_port (trim_space address) = Some (host, portText) \<and>
    parseAgentDestinationPort portText = Some port \<and> 1 \<le> port \<and> port \<le> 65535 \<and> configured N raws r \<and>
    ((\<exists>a. ParseAddr N (trim_space host) = Some a \<and> admits_addr r (normalizeAgentDestinationAddr a) port \<and> target = address) \<or>
     (ParseAddr N (trim_space host) = None \<and> admits_name r (normalizeAgentDestinationHost (trim_space host)) port \<and> target = address) \<or>
     (\<exists>ips ip a. LookupIPAddr N (trim_space host) = Inr ips \<and> ip \<in> set ips \<and> AddrFromSlice ip = Some a \<and>
        admits_addr r (normalizeAgentDestinationAddr a) port \<and>
        agentDestinationAddrMatchesNetwork (normalizeAgentDestinationAddr a) network \<and>
        target = JoinHostPort N (AddrString N (normalizeAgentDestinationAddr a)) (format_uint (nat port))))"
proof -
  note rules = policy_rules_configured [OF assms(1)]
  show ?thesis
    using assms(2) policy_not_any [OF assms(1)]
  proof (cases rule: dial_cases)
    case (1 host portText port)
    note port = 1(1,2) port_range [OF 1(2)]
    from 1(3) show ?thesis
    proof (elim disjE exE conjE)
      fix a
      assume "ParseAddr N (trim_space host) = Some a" "matchesAddr q (normalizeAgentDestinationAddr a) port" "target = address"
      then show ?thesis using port rules unfolding matchesAddr_iff by blast
    next
      assume "ParseAddr N (trim_space host) = None" "target = address"
        "matchesHostname q (normalizeAgentDestinationHost (trim_space host)) port"
      then show ?thesis using port rules unfolding matchesHostname_iff by blast
    next
      fix addrs a
      assume l: "lookupAgentDestinationIP N (trim_space host) = Inr addrs" and a: "a \<in> normalizeAgentDestinationAddr ` set addrs"
        and m: "matchesAddr q a port" and rest: "agentDestinationAddrMatchesNetwork a network"
          "target = JoinHostPort N (AddrString N a) (format_uint (nat port))"
      from m rules obtain r where r: "configured N raws r" "admits_addr r a port"
        unfolding matchesAddr_iff by blast
      from a lookup_members [OF l] obtain ips ip a0 where
        "LookupIPAddr N (trim_space host) = Inr ips" "ip \<in> set ips" "AddrFromSlice ip = Some a0" "a = normalizeAgentDestinationAddr a0"
        by force
      with port r rest show ?thesis by blast
    qed
  qed
qed

definition sample_netip :: netip_fns where
  \<comment> \<open>the values \<open>net/netip\<close> and a resolver give on the strings of the witnesses\<close>
  "sample_netip = \<lparr>ParseAddr = (\<lambda>s. if s = ''127.0.0.9'' then Some (Addr4 0x7F000009) else if s = ''10.0.0.1'' then Some (Addr4 0x0A000001) else None),
     ParsePrefix = (\<lambda>s. if s = ''127.0.0.0/8'' then Some \<lparr>pf_addr = Addr4 0x7F000000, pf_bits = 8\<rparr>
       else if s = ''::1/128'' then Some \<lparr>pf_addr = Addr6 1 '''', pf_bits = 128\<rparr>
       else if s = ''10.1.0.0/16'' then Some \<lparr>pf_addr = Addr4 0x0A010000, pf_bits = 16\<rparr> else None),
     AddrString = (\<lambda>a. if a = Addr4 0x0A010203 then ''10.1.2.3'' else ''''),
     JoinHostPort = (\<lambda>h p. h @ '':'' @ p),
     LookupIPAddr = (\<lambda>h. if h = ''db.local'' then Inr [[192, 168, 0, 1], [10, 1, 2, 3]] else Inl LookupFailed)\<rparr>"

theorem agent_dials_only_allowed_witness:
  "\<exists>q. newAgentDestinationPolicy sample_netip [''10.1.0.0/16''] False = Some q
     \<and> dialAddress sample_netip False (Some q) ''tcp'' ''db.local:80'' = Inr ''10.1.2.3:80''
     \<and> (\<exists>host portText port r. split_host_port (trim_space ''db.local:80'') = Some (host, portText) \<and>
          parseAgentDestinationPort portText = Some port \<and> configured sample_netip [''10.1.0.0/16''] r)"
proof -
  let ?r = "\<lparr>dr_hostname = '''', dr_prefix = Some \<lparr>pf_addr = Addr4 0x0A010000, pf_bits = 16\<rparr>, dr_hasPrefix = True,
    dr_ports = \<lparr>pr_any = True, pr_min = 0, pr_max = 0\<rparr>\<rparr> :: agentDestinationRule"
  let ?q = "\<lparr>dp_rules = [?r], dp_hasPrefixRules = True, dp_allowAny = False\<rparr> :: agentDestinationPolicy"
  have q: "newAgentDestinationPolicy sample_netip [''10.1.0.0/16''] False = Some ?q"
    by code_simp
  have d: "dialAddress sample_netip False (Some ?q) ''tcp'' ''db.local:80'' = Inr ''10.1.2.3:80''"
    by code_simp
  from agent_dials_only_allowed [OF q d] q d show ?thesis by blast
qed

definition loopback :: "netip_addr \<Rightarrow> bool" where
  "loopback a \<longleftrightarrow> (case normalizeAgentDestinationAddr a of Addr4 w \<Rightarrow> unat w div 2 ^ 24 = 127 | Addr6 w _ \<Rightarrow> w = 1)"

lemma split_defaults:
  "splitAgentAllowTarget ''127.0.0.0/8'' = Some (''127.0.0.0/8'', '''', False)"
  "splitAgentAllowTarget ''::1/128'' = Some (''::1/128'', '''', False)"
  "contains_any ''127.0.0.0/8'' [CHR 0x20, CHR 0x09, CHR 0x0D, CHR 0x0A] = False"
  "contains_any ''::1/128'' [CHR 0x20, CHR 0x09, CHR 0x0D, CHR 0x0A] = False"
  "trim_space ''127.0.0.0/8'' = ''127.0.0.0/8''" "trim_space ''::1/128'' = ''::1/128''"
  by code_simp+

definition prefix_rule :: "netip_prefix \<Rightarrow> agentDestinationRule" where
  "prefix_rule p = \<lparr>dr_hostname = '''', dr_prefix = normalizeAgentDestinationPrefix p, dr_hasPrefix = True,
     dr_ports = \<lparr>pr_any = True, pr_min = 0, pr_max = 0\<rparr>\<rparr>"

lemma default_policy:
  assumes "ParsePrefix N ''127.0.0.0/8'' = Some \<lparr>pf_addr = Addr4 0x7F000000, pf_bits = 8\<rparr>"
    and "ParsePrefix N ''::1/128'' = Some \<lparr>pf_addr = Addr6 1 '''', pf_bits = 128\<rparr>"
    and "\<not> hasNonEmptyAgentDestinationRule raws"
  shows "newAgentDestinationPolicy N raws False = Some \<lparr>dp_rules =
     [prefix_rule \<lparr>pf_addr = Addr4 0x7F000000, pf_bits = 8\<rparr>, prefix_rule \<lparr>pf_addr = Addr6 1 '''', pf_bits = 128\<rparr>],
     dp_hasPrefixRules = True, dp_allowAny = False\<rparr>"
  using assms
  by (simp add: newAgentDestinationPolicy_def defaultAgentDestinationRules_def parseAgentAllowTarget_def split_defaults prefix_rule_def)

lemma norm_addr4: "normalizeAgentDestinationAddr (Addr4 w) = Addr4 w"
  by (simp add: normalizeAgentDestinationAddr_def)

lemma default_matches:
  assumes "dp_rules q = [prefix_rule \<lparr>pf_addr = Addr4 0x7F000000, pf_bits = 8\<rparr>, prefix_rule \<lparr>pf_addr = Addr6 1 '''', pf_bits = 128\<rparr>]"
  shows "matchesAddr q (normalizeAgentDestinationAddr a) port \<longleftrightarrow> loopback a"
proof -
  have one: "normalizeAgentDestinationAddr (Addr6 1 '''') = Addr6 1 ''''"
    by (simp add: normalizeAgentDestinationAddr_def mapped_iff)
  have v4: "normalizeAgentDestinationPrefix \<lparr>pf_addr = Addr4 0x7F000000, pf_bits = 8\<rparr> = Masked (PrefixFrom (Addr4 0x7F000000) 8)"
    using normalize_prefix4 [of "\<lparr>pf_addr = Addr4 0x7F000000, pf_bits = 8\<rparr>" "0x7F000000"]
    by (simp add: norm_addr4 prefix_valid_def bit_len_def)
  have v6: "normalizeAgentDestinationPrefix \<lparr>pf_addr = Addr6 1 '''', pf_bits = 128\<rparr> = Masked (PrefixFrom (Addr6 1 '''') 128)"
    using normalize_prefix6 [of "\<lparr>pf_addr = Addr6 1 '''', pf_bits = 128\<rparr>" 1 "''''"] one by simp
  show ?thesis
  proof (cases "normalizeAgentDestinationAddr a")
    case (Addr4 w)
    then show ?thesis
      using assms by (auto simp: matchesAddr_def prefix_rule_def v4 v6 contains4 contains_family ports_matches_def loopback_def)
  next
    case (Addr6 w z)
    then have "z = ''''" using normalize_no_zone [of a] by simp
    with Addr6 show ?thesis
      using assms by (auto simp: matchesAddr_def prefix_rule_def v4 v6 contains6 contains_family ports_matches_def loopback_def word_unat_eq_iff)
  qed
qed

text \<open>An agent without configured rules reaches only its own host. Given what \<open>net/netip\<close> documents for the two default prefix strings, a
  policy built from no rule, or from blank ones, admits a literal address, with any valid port, exactly when it is an IPv4
  loopback address (127.0.0.0/8, also written as an IPv6-mapped address) or \<open>::1\<close>; every other literal is rejected as forbidden.\<close>
theorem default_policy_loopback_only:
  assumes "ParsePrefix N ''127.0.0.0/8'' = Some \<lparr>pf_addr = Addr4 0x7F000000, pf_bits = 8\<rparr>"
    and "ParsePrefix N ''::1/128'' = Some \<lparr>pf_addr = Addr6 1 '''', pf_bits = 128\<rparr>"
    and "\<not> hasNonEmptyAgentDestinationRule raws"
    and "split_host_port (trim_space address) = Some (host, portText)" and "trim_space host \<noteq> ''''"
    and "parseAgentDestinationPort portText = Some port" and "ParseAddr N (trim_space host) = Some a"
  shows "dialAddress N ctxDone (newAgentDestinationPolicy N raws False) network address =
    (if loopback a then Inr address else Inl (Forbidden ''requested IP address is not allowed''))"
  unfolding default_policy [OF assms(1-3)] using assms(4-)
  by (simp add: dialAddress_def default_matches)

theorem default_policy_loopback_only_witness:
  "dialAddress sample_netip False (newAgentDestinationPolicy sample_netip [''  ''] False) ''tcp'' ''127.0.0.9:80'' = Inr ''127.0.0.9:80''
   \<and> dialAddress sample_netip False (newAgentDestinationPolicy sample_netip [''  ''] False) ''tcp'' ''10.0.0.1:80''
      = Inl (Forbidden ''requested IP address is not allowed'')"
proof -
  have p: "ParsePrefix sample_netip ''127.0.0.0/8'' = Some \<lparr>pf_addr = Addr4 0x7F000000, pf_bits = 8\<rparr>"
    "ParsePrefix sample_netip ''::1/128'' = Some \<lparr>pf_addr = Addr6 1 '''', pf_bits = 128\<rparr>"
    "\<not> hasNonEmptyAgentDestinationRule [''  '']" by code_simp+
  have a: "split_host_port (trim_space ''127.0.0.9:80'') = Some (''127.0.0.9'', ''80'')" "trim_space ''127.0.0.9'' \<noteq> ''''"
    "parseAgentDestinationPort ''80'' = Some 80" "ParseAddr sample_netip (trim_space ''127.0.0.9'') = Some (Addr4 0x7F000009)" by code_simp+
  have b: "split_host_port (trim_space ''10.0.0.1:80'') = Some (''10.0.0.1'', ''80'')" "trim_space ''10.0.0.1'' \<noteq> ''''"
    "ParseAddr sample_netip (trim_space ''10.0.0.1'') = Some (Addr4 0x0A000001)" by code_simp+
  have "loopback (Addr4 0x7F000009)" "\<not> loopback (Addr4 0x0A000001)"
    by (simp_all add: loopback_def norm_addr4)
  with default_policy_loopback_only [OF p a] default_policy_loopback_only [OF p b(1,2) a(3) b(3)] show ?thesis by simp
qed

end
