(* ===== verification/MemoryPressure.thy ===== *)
theory MemoryPressure
  imports Prelude Float64 TunnelResources
begin

text \<open>
  The adaptive memory controller (\<open>internal/sysmetrics/memory_pressure.go\<close>): it turns samples of memory and file descriptor usage into a
  pressure level with hysteresis and into an admission limit. The clock and the samplers' answers of one call are the record
  \<open>resource_sample\<close>; usage percentages are \<open>float64\<close>, headroom and reservations are \<open>int64\<close>.
\<close>

section \<open>Usage and configuration\<close>

datatype MemoryPressureLevel = MemoryPressureUnknown | MemoryPressureHealthy | MemoryPressureSoft | MemoryPressureCritical

record MemoryUsage =
  UsedBytes :: int
  LimitBytes :: int
  mu_Source :: string

definition mu_Valid :: "MemoryUsage \<Rightarrow> bool" where
  "mu_Valid u \<longleftrightarrow> UsedBytes u \<ge> 0 \<and> LimitBytes u > 0"

definition mu_Percent :: "MemoryUsage \<Rightarrow> float64" where
  "mu_Percent u =
     (if \<not> mu_Valid u then 0 else f_div (f_mul (f_of_int (UsedBytes u)) 100) (f_of_int (LimitBytes u)))"

record FileDescriptorUsage =
  fd_Used :: int
  fd_Limit :: int

definition fd_Valid :: "FileDescriptorUsage \<Rightarrow> bool" where
  "fd_Valid u \<longleftrightarrow> fd_Used u \<ge> 0 \<and> fd_Limit u > 0"

definition fd_Percent :: "FileDescriptorUsage \<Rightarrow> float64" where
  "fd_Percent u =
     (if \<not> fd_Valid u then 0 else f_div (f_mul (f_of_int (fd_Used u)) 100) (f_of_int (fd_Limit u)))"

definition AdaptiveAdmissionRoleAgentStream :: string where "AdaptiveAdmissionRoleAgentStream = ''agent_stream''"
definition AdaptiveAdmissionRoleServerStream :: string where "AdaptiveAdmissionRoleServerStream = ''server_stream''"

record AdaptiveMemoryConfig =
  SoftLimitPercent :: int
  HardLimitPercent :: int
  RecoveryPercent :: int
  SampleInterval :: duration
  EstimatedBytesPerAdmission :: int
  ac_AdmissionRole :: string
  FileDescriptorsPerAdmission :: int
  MaxSampleStaleness :: duration

definition DefaultAdaptiveMemoryConfig :: AdaptiveMemoryConfig where
  "DefaultAdaptiveMemoryConfig = \<lparr>SoftLimitPercent = 80, HardLimitPercent = 90, RecoveryPercent = 75,
     SampleInterval = 100 * millisecond, EstimatedBytesPerAdmission = DefaultAdaptiveStreamChargeBytes,
     ac_AdmissionRole = AdaptiveAdmissionRoleAgentStream, FileDescriptorsPerAdmission = 2, MaxSampleStaleness = second\<rparr>"

definition minimumServerStreamAdmissionBytes :: int where
  "minimumServerStreamAdmissionBytes = MemoryBytes ServerStreamBaseResourceModel"

definition minimumAgentStreamAdmissionBytes :: int where
  "minimumAgentStreamAdmissionBytes =
     (case AgentStreamBaseResourceModel (16 * 1024) of Inl _ \<Rightarrow> max_int64 | Inr model \<Rightarrow> MemoryBytes model)"

definition config_Validate :: "AdaptiveMemoryConfig \<Rightarrow> string + unit" where
  "config_Validate c =
     (let agent = (ac_AdmissionRole c = AdaptiveAdmissionRoleAgentStream);
          server = (ac_AdmissionRole c = AdaptiveAdmissionRoleServerStream)
      in reject_if (RecoveryPercent c < 1 \<or> RecoveryPercent c \<ge> SoftLimitPercent c)
           ''memory recovery percentage must be positive and below the soft limit''
        (reject_if (SoftLimitPercent c < 1 \<or> SoftLimitPercent c \<ge> HardLimitPercent c)
           ''memory soft-limit percentage must be positive and below the hard limit''
        (reject_if (HardLimitPercent c > 99) ''memory hard-limit percentage must be at most 99''
        (reject_if (SampleInterval c \<le> 0) ''memory sample interval must be positive''
        (reject_if (\<not> agent \<and> \<not> server) ''unknown adaptive admission role''
        (reject_if (FileDescriptorsPerAdmission c < 0) ''file descriptors per admission must not be negative''
        (reject_if (agent \<and> FileDescriptorsPerAdmission c < 2)
           ''agent stream admission must reserve both peak dial file descriptors''
        (reject_if (server \<and> FileDescriptorsPerAdmission c \<noteq> 0)
           ''server logical stream admission must not reserve physical file descriptors''
        (reject_if (agent \<and> EstimatedBytesPerAdmission c < minimumAgentStreamAdmissionBytes)
           ''estimated bytes per agent admission is too small''
        (reject_if (server \<and> EstimatedBytesPerAdmission c < minimumServerStreamAdmissionBytes)
           ''estimated bytes per server admission is too small''
        (reject_if (MaxSampleStaleness c \<le> 0) ''maximum sample staleness must be positive'' (Inr ()))))))))))))"

section \<open>Snapshots\<close>

record AdaptiveMemorySnapshot =
  Generation :: int
  Usage :: MemoryUsage
  as_Level :: MemoryPressureLevel
  AdmissionLimit :: int
  MemoryAdmissionLimit :: int
  FDAdmissionLimit :: int
  as_Maximum :: int
  RejectNew :: bool
  SampledAt :: gotime
  NextSampleAt :: gotime
  SampleError :: string
  HeadroomToHardByte :: int
  ReservedStreamByte :: int
  StreamChargeByte :: int
  StreamChargeFD :: int
  as_AdmissionRole :: string
  FDUsed :: int
  FDLimit :: int
  FDHeadroomToHard :: int
  ReservedStreamFD :: int
  PressureReason :: string
  LastGoodSampleAt :: gotime

definition zero_snapshot :: AdaptiveMemorySnapshot where
  \<comment> \<open>the zero value of the struct\<close>
  "zero_snapshot = \<lparr>Generation = 0, Usage = \<lparr>UsedBytes = 0, LimitBytes = 0, mu_Source = ''''\<rparr>, as_Level = MemoryPressureUnknown,
     AdmissionLimit = 0, MemoryAdmissionLimit = 0, FDAdmissionLimit = 0, as_Maximum = 0, RejectNew = False, SampledAt = 0,
     NextSampleAt = 0, SampleError = '''', HeadroomToHardByte = 0, ReservedStreamByte = 0, StreamChargeByte = 0, StreamChargeFD = 0,
     as_AdmissionRole = '''', FDUsed = 0, FDLimit = 0, FDHeadroomToHard = 0, ReservedStreamFD = 0, PressureReason = '''',
     LastGoodSampleAt = 0\<rparr>"

definition ceil_units :: "int \<Rightarrow> int \<Rightarrow> int" where
  \<comment> \<open>\<open>cost := n / charge; if n%charge != 0 { cost++ }\<close>\<close>
  "ceil_units n charge = (let cost = go_div n charge in if go_mod n charge \<noteq> 0 then i64 (cost + 1) else cost)"

definition AdmissionLimitWithExternal :: "AdaptiveMemorySnapshot \<Rightarrow> int \<Rightarrow> int \<Rightarrow> int" where
  "AdmissionLimitWithExternal s bytes fds =
     (let (memoryLimit, fdLimit) =
            (if MemoryAdmissionLimit s = 0 \<and> FDAdmissionLimit s = 0 then (AdmissionLimit s, AdmissionLimit s)
             else (MemoryAdmissionLimit s, FDAdmissionLimit s));
          charged = StreamChargeByte s > 0 \<and> bytes > 0;
          cost = (if charged then ceil_units bytes (StreamChargeByte s) else 0)
      in if cost > memoryLimit \<and> charged then -1
         else
           let memoryLimit = memoryLimit - cost;
               fdCharge = (if as_AdmissionRole s = '''' \<and> StreamChargeFD s = 0 then 2 else StreamChargeFD s);
               fdcost = (if fds > 0 \<and> fdCharge \<noteq> 0 then ceil_units fds fdCharge else 0)
           in if fds > 0 \<and> fdCharge = 0 \<and> FDLimit s > 0 \<and> fds > FDHeadroomToHard s then -1
              else if fds > 0 \<and> fdCharge \<noteq> 0 \<and> fdcost > fdLimit then -1
              else
                let fdLimit = fdLimit - fdcost;
                    limit = min memoryLimit fdLimit;
                    limit = (if as_Maximum s > 0 then min limit (as_Maximum s) else limit)
                in max 0 limit)"

section \<open>The controller\<close>

definition percentageOf :: "int \<Rightarrow> int \<Rightarrow> int" where
  "percentageOf value percent = i64 (i64 (go_div value 100 * percent) + go_div (i64 (go_mod value 100 * percent)) 100)"

definition saturatingMultiply :: "int \<Rightarrow> int \<Rightarrow> int" where
  "saturatingMultiply left right =
     (if left \<le> 0 \<or> right \<le> 0 then 0
      else if left > go_div max_int64 right then max_int64
      else i64 (left * right))"

datatype memory_sampler = SetSampler "string + MemoryUsage list" | SingleSampler "string + MemoryUsage"

fun sampleMemoryUsages :: "memory_sampler \<Rightarrow> string + MemoryUsage list" where
  "sampleMemoryUsages (SetSampler r) = r"
| "sampleMemoryUsages (SingleSampler (Inl e)) = Inl e"
| "sampleMemoryUsages (SingleSampler (Inr u)) = Inr [u]"

record resource_sample =
  rs_now :: gotime
  rs_sampler :: memory_sampler
  rs_fd :: "(string + FileDescriptorUsage) option" \<comment> \<open>\<open>None\<close>: the sampler reports no descriptors\<close>

record AdaptiveMemoryController =
  amc_config :: AdaptiveMemoryConfig
  amc_level :: MemoryPressureLevel
  amc_snapshot :: AdaptiveMemorySnapshot
  amc_nextSampleAt :: gotime
  amc_generation :: int
  amc_lastGood :: AdaptiveMemorySnapshot

definition NewAdaptiveMemoryController :: "AdaptiveMemoryConfig \<Rightarrow> string + AdaptiveMemoryController" where
  "NewAdaptiveMemoryController config = ebind (config_Validate config) (\<lambda>_.
     Inr \<lparr>amc_config = config, amc_level = MemoryPressureUnknown, amc_snapshot = zero_snapshot, amc_nextSampleAt = 0,
          amc_generation = 0, amc_lastGood = zero_snapshot\<rparr>)"

definition zero_fd :: FileDescriptorUsage where
  "zero_fd = \<lparr>fd_Used = 0, fd_Limit = 0\<rparr>"

definition complete_sample :: "resource_sample \<Rightarrow> string + MemoryUsage list \<times> FileDescriptorUsage" where
  \<comment> \<open>the error handling of one sample: memory first, then descriptors, then every constraint has to be valid and there has to be one\<close>
  "complete_sample rs =
     ebind (sampleMemoryUsages (rs_sampler rs)) (\<lambda>usages.
     ebind (case rs_fd rs of None \<Rightarrow> Inr zero_fd | Some r \<Rightarrow> r) (\<lambda>fdUsage.
     reject_if (rs_fd rs \<noteq> None \<and> \<not> fd_Valid fdUsage) ''file descriptor usage is unavailable''
    (reject_if (\<not> list_all mu_Valid usages) ''memory usage constraint is invalid''
    (reject_if (usages = []) ''memory usage is unavailable'' (Inr (usages, fdUsage))))))"

definition base_snapshot :: "AdaptiveMemoryConfig \<Rightarrow> int \<Rightarrow> gotime \<Rightarrow> int \<Rightarrow> AdaptiveMemorySnapshot" where
  "base_snapshot cfg gen now maximum = zero_snapshot\<lparr>Generation := gen, as_Maximum := maximum, SampledAt := now,
     NextSampleAt := now + SampleInterval cfg, StreamChargeByte := EstimatedBytesPerAdmission cfg,
     StreamChargeFD := FileDescriptorsPerAdmission cfg, as_AdmissionRole := ac_AdmissionRole cfg\<rparr>"

definition failed_snapshot :: "AdaptiveMemoryController \<Rightarrow> gotime \<Rightarrow> int \<Rightarrow> int \<Rightarrow> string \<Rightarrow> AdaptiveMemorySnapshot" where
  "failed_snapshot c now maximum inUse err =
     (let lg = amc_lastGood c; gen = u64 (amc_generation c + 1);
          fresh = \<not> time_is_zero (SampledAt lg) \<and> as_Maximum lg = maximum
            \<and> time_sub now (SampledAt lg) \<le> MaxSampleStaleness (amc_config c);
          s = (if fresh then lg\<lparr>Generation := gen, SampledAt := now, NextSampleAt := now + SampleInterval (amc_config c)\<rparr>
               else base_snapshot (amc_config c) gen now maximum)
      in s\<lparr>SampleError := err, as_Level := MemoryPressureUnknown, PressureReason := ''sensor'', AdmissionLimit := inUse, RejectNew := True,
          MemoryAdmissionLimit := inUse, FDAdmissionLimit := inUse\<rparr>)"

definition headroom_of :: "AdaptiveMemoryConfig \<Rightarrow> int \<Rightarrow> int \<Rightarrow> int" where
  "headroom_of cfg limit used =
     (let headroom = i64 (percentageOf limit (HardLimitPercent cfg) - used) in if headroom < 0 then 0 else headroom)"

fun select_usage :: "AdaptiveMemoryConfig \<Rightarrow> MemoryUsage \<Rightarrow> float64 \<Rightarrow> int \<Rightarrow> MemoryUsage list \<Rightarrow> MemoryUsage \<times> float64 \<times> int" where
  \<comment> \<open>the loop over all constraints: the highest percentage and the smallest headroom\<close>
  "select_usage cfg selected pct headroom [] = (selected, pct, headroom)"
| "select_usage cfg selected pct headroom (u # us) =
     (let (selected', pct') = (if mu_Percent u > pct then (u, mu_Percent u) else (selected, pct));
          h = headroom_of cfg (LimitBytes u) (UsedBytes u)
      in select_usage cfg selected' pct' (if h < headroom then h else headroom) us)"

definition next_level :: "AdaptiveMemoryConfig \<Rightarrow> MemoryPressureLevel \<Rightarrow> float64 \<Rightarrow> MemoryPressureLevel" where
  "next_level cfg level pct =
     (if pct \<ge> f_of_int (HardLimitPercent cfg) then MemoryPressureCritical
      else if pct \<ge> f_of_int (SoftLimitPercent cfg) then MemoryPressureSoft
      else if level \<noteq> MemoryPressureUnknown \<and> level \<noteq> MemoryPressureHealthy \<and> pct \<ge> f_of_int (RecoveryPercent cfg)
      then MemoryPressureSoft
      else MemoryPressureHealthy)"

definition more_units :: "int \<Rightarrow> int \<Rightarrow> int \<Rightarrow> int" where
  \<comment> \<open>further admissions the unreserved headroom pays for\<close>
  "more_units headroom reserved charge = go_div (if i64 (headroom - reserved) < 0 then 0 else i64 (headroom - reserved)) charge"

definition limit_plus :: "int \<Rightarrow> int \<Rightarrow> int" where
  "limit_plus inUse additional = i64 (inUse + min additional (i64 (max_int64 - inUse)))"

definition good_snapshot ::
  "AdaptiveMemoryController \<Rightarrow> gotime \<Rightarrow> int \<Rightarrow> int \<Rightarrow> MemoryUsage list \<Rightarrow> FileDescriptorUsage \<Rightarrow> AdaptiveMemorySnapshot" where
  "good_snapshot c now maximum inUse usages fdUsage =
     (let cfg = amc_config c; charge = EstimatedBytesPerAdmission cfg; fdCharge = FileDescriptorsPerAdmission cfg;
          (selected, memoryPercent, memoryHeadroom) = select_usage cfg (hd usages) (mu_Percent (hd usages)) max_int64 usages;
          fdValid = fd_Valid fdUsage;
          fdHeadroom = (if fdValid then headroom_of cfg (fd_Limit fdUsage) (fd_Used fdUsage) else 0);
          (pressurePercent, reason) =
            (if fdValid \<and> fd_Percent fdUsage > memoryPercent then (fd_Percent fdUsage, ''file_descriptors'') else (memoryPercent, ''memory''));
          level = next_level cfg (amc_level c) pressurePercent;
          reserved = saturatingMultiply inUse charge;
          memAdditional = more_units memoryHeadroom reserved charge;
          fdCounted = fdValid \<and> fdCharge > 0;
          reservedFD = (if fdCounted then saturatingMultiply inUse fdCharge else 0);
          fdAdditional = more_units fdHeadroom reservedFD fdCharge;
          additional = (if fdCounted \<and> fdAdditional < memAdditional then fdAdditional else memAdditional);
          additional = (if additional > maximum - inUse then maximum - inUse else additional);
          additional = (if additional < 0 then 0 else additional);
          critical = memoryPercent \<ge> f_of_int (HardLimitPercent cfg)
            \<or> (fdValid \<and> fd_Percent fdUsage \<ge> f_of_int (HardLimitPercent cfg) \<and> fdCharge > 0)
      in (base_snapshot cfg (u64 (amc_generation c + 1)) now maximum)
         \<lparr>Usage := selected, HeadroomToHardByte := memoryHeadroom, FDUsed := fd_Used fdUsage, FDLimit := fd_Limit fdUsage,
          PressureReason := reason, FDHeadroomToHard := fdHeadroom, as_Level := level, LastGoodSampleAt := now,
          ReservedStreamByte := reserved, ReservedStreamFD := reservedFD,
          MemoryAdmissionLimit := (if critical then inUse else limit_plus inUse memAdditional),
          FDAdmissionLimit := (if critical then inUse else if fdCounted then limit_plus inUse fdAdditional else max_int64),
          AdmissionLimit := (if critical then inUse else inUse + additional),
          RejectNew := critical\<rparr>)"

definition refresh :: "AdaptiveMemoryController \<Rightarrow> resource_sample \<Rightarrow> int \<Rightarrow> int \<Rightarrow> AdaptiveMemorySnapshot \<times> AdaptiveMemoryController" where
  \<comment> \<open>the part of \<open>snapshotAt\<close> behind the cache\<close>
  "refresh c rs maximum inUse =
     (let now = rs_now rs; gen = u64 (amc_generation c + 1)
      in case complete_sample rs of
           Inl err \<Rightarrow>
             let s = failed_snapshot c now maximum inUse err
             in (s, c\<lparr>amc_level := MemoryPressureUnknown, amc_snapshot := s, amc_nextSampleAt := NextSampleAt s, amc_generation := gen\<rparr>)
         | Inr (usages, fdUsage) \<Rightarrow>
             let s = good_snapshot c now maximum inUse usages fdUsage
             in (s, c\<lparr>amc_level := as_Level s, amc_snapshot := s, amc_nextSampleAt := NextSampleAt s, amc_generation := gen, amc_lastGood := s\<rparr>))"

definition clamp_maximum :: "int \<Rightarrow> int" where
  "clamp_maximum maximum = (if maximum < 1 then 1 else maximum)"

definition clamp_inUse :: "int \<Rightarrow> int \<Rightarrow> int" where
  "clamp_inUse maximum inUse = (if inUse < 0 then 0 else if inUse > maximum then maximum else inUse)"

definition snapshotAt ::
  "AdaptiveMemoryController \<Rightarrow> resource_sample \<Rightarrow> int \<Rightarrow> int \<Rightarrow> bool \<Rightarrow> AdaptiveMemorySnapshot \<times> AdaptiveMemoryController" where
  "snapshotAt c rs maximum0 inUse0 force =
     (let maximum = clamp_maximum maximum0; inUse = clamp_inUse maximum inUse0
      in if \<not> force \<and> \<not> time_is_zero (SampledAt (amc_snapshot c)) \<and> rs_now rs < amc_nextSampleAt c \<and> as_Maximum (amc_snapshot c) = maximum
         then (amc_snapshot c, c)
         else refresh c rs maximum inUse)"

definition nil_snapshot :: "int \<Rightarrow> AdaptiveMemorySnapshot" where
  \<comment> \<open>\<open>snapshotAt\<close> on a nil controller\<close>
  "nil_snapshot maximum0 =
     (let maximum = clamp_maximum maximum0 in zero_snapshot\<lparr>as_Level := MemoryPressureUnknown, AdmissionLimit := maximum, as_Maximum := maximum\<rparr>)"

definition amc_Snapshot :: "AdaptiveMemoryController \<Rightarrow> resource_sample \<Rightarrow> int \<Rightarrow> int \<Rightarrow> AdaptiveMemorySnapshot \<times> AdaptiveMemoryController" where
  "amc_Snapshot c rs maximum inUse = snapshotAt c rs maximum inUse False"

definition amc_ForceRefresh :: "AdaptiveMemoryController \<Rightarrow> resource_sample \<Rightarrow> int \<Rightarrow> int \<Rightarrow> AdaptiveMemorySnapshot \<times> AdaptiveMemoryController" where
  "amc_ForceRefresh c rs maximum inUse = snapshotAt c rs maximum inUse True"


section \<open>Arithmetic of headroom and reservations\<close>

lemma range_max: "in_i64 x \<Longrightarrow> x \<le> max_int64"
  by (simp add: in_i64_def)

lemma in_i64_pos: "0 \<le> x \<Longrightarrow> x \<le> max_int64 \<Longrightarrow> in_i64 x"
  by (simp add: in_i64_def min_int64_def max_int64_def)

lemma percentageOf_exact:
  assumes "0 \<le> v" "v \<le> max_int64" "0 \<le> p" "p \<le> 99"
  shows "percentageOf v p = v * p div 100"
proof -
  have split: "v * p = 100 * (v div 100 * p) + v mod 100 * p"
    using div_mult_mod_eq [of v 100] by (metis distrib_right mult.assoc mult.commute)
  then have eq: "v * p div 100 = v div 100 * p + (v mod 100 * p) div 100" by simp
  have "v mod 100 \<le> 99" using pos_mod_bound [of 100 v] by linarith
  then have "v div 100 * p \<le> v div 100 * 99" "v mod 100 * p \<le> 99 * 99"
    using assms mult_mono [of "v mod 100" 99 p 99] by (auto intro: mult_left_mono)
  moreover have "(v mod 100 * p) div 100 \<le> 99 * 99" "0 \<le> v div 100 * p" "0 \<le> v mod 100 * p"
    using assms calculation(2) by (auto simp: div_le_dividend intro: order_trans [OF zdiv_mono1 [of _ "99 * 99"]])
  moreover have "v div 100 * 99 + 98 * 99 \<le> max_int64"
    using assms(2) by (simp add: max_int64_def)
  moreover have "(v mod 100 * p) div 100 \<le> 98"
    using calculation(2) zdiv_mono1 [of "v mod 100 * p" "99 * 99" 100] by simp
  ultimately show ?thesis
    using assms unfolding eq percentageOf_def
    by (simp add: in_i64_pos pos_imp_zdiv_nonneg_iff max_int64_def)
qed

lemma percentageOf_bounds:
  assumes "0 \<le> v" "v \<le> max_int64" "0 \<le> p" "p \<le> 99"
  shows "0 \<le> percentageOf v p" "percentageOf v p \<le> v" "100 * percentageOf v p \<le> p * v"
proof -
  have "v * p \<le> v * 100" using assms by (intro mult_left_mono) auto
  then have "v * p div 100 \<le> v" using zdiv_mono1 [of "v * p" "v * 100" 100] by simp
  moreover have "v * p div 100 * 100 \<le> v * p" using div_mult_mod_eq [of "v * p" 100] pos_mod_sign [of 100 "v * p"] by linarith
  ultimately show "0 \<le> percentageOf v p" "percentageOf v p \<le> v" "100 * percentageOf v p \<le> p * v"
    using assms by (simp_all add: percentageOf_exact pos_imp_zdiv_nonneg_iff mult.commute)
qed

lemma headroom_of_exact:
  assumes "0 \<le> limit" "limit \<le> max_int64" "0 \<le> used" "used \<le> max_int64" "0 \<le> HardLimitPercent cfg" "HardLimitPercent cfg \<le> 99"
  shows "headroom_of cfg limit used = max 0 (percentageOf limit (HardLimitPercent cfg) - used)"
proof -
  note b = percentageOf_bounds [of limit "HardLimitPercent cfg"]
  have "in_i64 (percentageOf limit (HardLimitPercent cfg) - used)"
    using assms b by (simp add: in_i64_def min_int64_def max_int64_def)
  then show ?thesis by (simp add: headroom_of_def Let_def)
qed

lemma le_div_iff: "0 < c \<Longrightarrow> n \<le> m div c \<longleftrightarrow> n * c \<le> m" for c :: int
proof
  assume c: "0 < c" and "n * c \<le> m"
  then show "n \<le> m div c" using zdiv_mono1 [of "n * c" m c] by simp
next
  assume c: "0 < c" and "n \<le> m div c"
  then have "n * c \<le> m div c * c" by simp
  also have "\<dots> \<le> m" using c div_mult_mod_eq [of m c] pos_mod_sign [of c m] by linarith
  finally show "n * c \<le> m" .
qed

lemma saturatingMultiply_bounds:
  assumes "0 \<le> n" "0 < charge"
  shows "0 \<le> saturatingMultiply n charge" "saturatingMultiply n charge \<le> max_int64"
    and "saturatingMultiply n charge < max_int64 \<Longrightarrow> saturatingMultiply n charge = n * charge"
    and "n * charge \<le> max_int64 \<Longrightarrow> saturatingMultiply n charge = n * charge"
proof -
  have p: "0 \<le> max_int64" "go_div max_int64 charge = max_int64 div charge"
    using assms(2) by (simp_all add: max_int64_def)
  have iff: "n \<le> max_int64 div charge \<longleftrightarrow> n * charge \<le> max_int64"
    by (rule le_div_iff [OF assms(2)])
  have "n * charge \<le> max_int64 \<Longrightarrow> i64 (n * charge) = n * charge"
    using assms by (intro i64_id in_i64_pos) simp_all
  then show "0 \<le> saturatingMultiply n charge" "saturatingMultiply n charge \<le> max_int64"
    "saturatingMultiply n charge < max_int64 \<Longrightarrow> saturatingMultiply n charge = n * charge"
    "n * charge \<le> max_int64 \<Longrightarrow> saturatingMultiply n charge = n * charge"
    using assms p iff by (auto simp: saturatingMultiply_def)
qed

lemma more_units_exact:
  assumes "0 \<le> headroom" "headroom \<le> max_int64" "0 \<le> reserved" "reserved \<le> max_int64" "0 < charge"
  shows "more_units headroom reserved charge = max 0 (headroom - reserved) div charge"
proof -
  have "in_i64 (headroom - reserved)" using assms by (simp add: in_i64_def min_int64_def max_int64_def)
  then show ?thesis using assms by (simp add: more_units_def)
qed

lemma more_units_pays:
  assumes "0 \<le> headroom" "headroom \<le> max_int64" "0 \<le> n" "0 < charge"
    and "0 < more_units headroom (saturatingMultiply n charge) charge"
  shows "(n + more_units headroom (saturatingMultiply n charge) charge) * charge \<le> headroom"
proof -
  let ?r = "saturatingMultiply n charge"
  note sat = saturatingMultiply_bounds [OF assms(3,4)]
  have m: "more_units headroom ?r charge = max 0 (headroom - ?r) div charge"
    using assms sat by (intro more_units_exact) auto
  with assms(4,5) have pos: "?r < headroom"
    by (cases "?r < headroom") (auto simp: max_def split: if_splits)
  then have "?r = n * charge" using sat(3) assms(2) by linarith
  moreover have "(headroom - ?r) div charge * charge \<le> headroom - ?r"
    by (rule le_div_iff [OF assms(4), THEN iffD1]) simp
  ultimately show ?thesis
    using pos unfolding m by (simp add: algebra_simps)
qed

lemma more_units_nonneg:
  "0 \<le> headroom \<Longrightarrow> headroom \<le> max_int64 \<Longrightarrow> 0 \<le> reserved \<Longrightarrow> reserved \<le> max_int64 \<Longrightarrow> 0 < charge \<Longrightarrow>
   0 \<le> more_units headroom reserved charge"
  by (simp add: more_units_exact pos_imp_zdiv_nonneg_iff)

lemma limit_plus_exact: "0 \<le> inUse \<Longrightarrow> inUse \<le> max_int64 \<Longrightarrow> 0 \<le> a \<Longrightarrow> limit_plus inUse a = min (inUse + a) max_int64"
  by (auto simp: limit_plus_def min_def in_i64_pos)

lemma ceil_units_pays:
  assumes "0 \<le> n" "n \<le> max_int64" "0 < charge"
  shows "n \<le> ceil_units n charge * charge" "0 \<le> ceil_units n charge"
proof -
  have q: "0 \<le> n div charge" "n div charge \<le> n"
    using assms zdiv_mono2 [of n 1 charge] by (auto simp: pos_imp_zdiv_nonneg_iff)
  have e: "n = n div charge * charge + n mod charge" "n mod charge < charge" "0 \<le> n mod charge"
    using assms(3) by simp_all
  have "i64 (n div charge + 1) = n div charge + 1" if "n mod charge \<noteq> 0"
  proof -
    have "charge \<noteq> 1" using that by auto
    then have "n div charge < max_int64"
    proof (cases "n = 0")
      case False
      then have "n div charge < n" using assms \<open>charge \<noteq> 1\<close> by (intro int_div_less_self) auto
      with assms(2) show ?thesis by linarith
    qed (simp add: max_int64_def)
    with q show ?thesis by (intro i64_id in_i64_pos) auto
  qed
  moreover have "n \<le> (n div charge + 1) * charge" using e unfolding distrib_right by linarith
  moreover have "n mod charge = 0 \<Longrightarrow> n \<le> n div charge * charge" using e(1) by linarith
  ultimately show "n \<le> ceil_units n charge * charge" "0 \<le> ceil_units n charge"
    using assms q by (simp_all add: ceil_units_def Let_def)
qed


section \<open>Selecting the tightest constraint\<close>

definition usage_range :: "MemoryUsage \<Rightarrow> bool" where
  "usage_range u \<longleftrightarrow> in_i64 (UsedBytes u) \<and> in_i64 (LimitBytes u)"

definition pressure :: "MemoryUsage list \<Rightarrow> FileDescriptorUsage \<Rightarrow> float64" where
  \<comment> \<open>the reference: the highest percentage of all constraints\<close>
  "pressure usages fd = Max (set (map mu_Percent usages) \<union> (if fd_Valid fd then {fd_Percent fd} else {}))"

lemma Max_keep: "finite A \<Longrightarrow> Max (insert (if a < b then b else a) A) = Max (insert a (insert b A))" for a b :: "'a :: linorder"
  by (cases "A = {}") (auto simp: max_def)

lemma Min_keep: "finite A \<Longrightarrow> Min (insert (if b < a then b else a) A) = Min (insert a (insert b A))" for a b :: "'a :: linorder"
  by (cases "A = {}") (auto simp: min_def)

lemma select_usage_pct: "fst (snd (select_usage cfg sel p h us)) = Max (insert p (mu_Percent ` set us))"
proof (induction us arbitrary: sel p h)
  case (Cons u us)
  have "fst (snd (select_usage cfg sel p h (u # us))) = Max (insert (if p < mu_Percent u then mu_Percent u else p) (mu_Percent ` set us))"
    by (simp add: Let_def Cons.IH del: Max_insert)
  then show ?case by (simp only: Max_keep finite_imageI finite_set list.set image_insert)
qed simp

lemma select_usage_headroom:
  "snd (snd (select_usage cfg sel p h us)) = Min (insert h ((\<lambda>u. headroom_of cfg (LimitBytes u) (UsedBytes u)) ` set us))"
proof (induction us arbitrary: sel p h)
  case (Cons u us)
  let ?f = "\<lambda>u. headroom_of cfg (LimitBytes u) (UsedBytes u)"
  have "snd (snd (select_usage cfg sel p h (u # us))) = Min (insert (if ?f u < h then ?f u else h) (?f ` set us))"
    by (simp add: Let_def Cons.IH split_beta del: Min_insert)
  then show ?case by (simp only: Min_keep finite_imageI finite_set list.set image_insert)
qed simp

lemma select_usage_headroom_le:
  "u \<in> set us \<Longrightarrow> snd (snd (select_usage cfg sel p h us)) \<le> headroom_of cfg (LimitBytes u) (UsedBytes u)"
  unfolding select_usage_headroom by (intro Min_le) auto

lemma headroom_nonneg [simp]: "0 \<le> headroom_of cfg limit used"
  by (simp add: headroom_of_def Let_def)

lemma select_usage_headroom_range:
  "0 \<le> h \<Longrightarrow> 0 \<le> snd (snd (select_usage cfg sel p h us)) \<and> snd (snd (select_usage cfg sel p h us)) \<le> h"
  unfolding select_usage_headroom by (auto simp: Min_ge_iff)

lemma validated:
  assumes "config_Validate cfg = Inr ()"
  shows "1 \<le> RecoveryPercent cfg" "RecoveryPercent cfg < SoftLimitPercent cfg" "SoftLimitPercent cfg < HardLimitPercent cfg"
    "HardLimitPercent cfg \<le> 99" "0 \<le> FileDescriptorsPerAdmission cfg" "0 < EstimatedBytesPerAdmission cfg"
proof -
  have "minimumAgentStreamAdmissionBytes > 0" "minimumServerStreamAdmissionBytes > 0"
    by code_simp+
  with assms show "1 \<le> RecoveryPercent cfg" "RecoveryPercent cfg < SoftLimitPercent cfg" "SoftLimitPercent cfg < HardLimitPercent cfg"
    "HardLimitPercent cfg \<le> 99" "0 \<le> FileDescriptorsPerAdmission cfg" "0 < EstimatedBytesPerAdmission cfg"
    by (auto simp: config_Validate_def Let_def)
qed

lemma complete_sample_facts:
  assumes "complete_sample rs = Inr (usages, fd)"
  shows "usages \<noteq> []" "list_all mu_Valid usages" "rs_fd rs \<noteq> None \<Longrightarrow> fd_Valid fd" "rs_fd rs = None \<Longrightarrow> \<not> fd_Valid fd"
  using assms by (auto simp: complete_sample_def zero_fd_def fd_Valid_def split: option.splits)

lemma clamp_inUse_range: "1 \<le> maximum \<Longrightarrow> 0 \<le> clamp_inUse maximum n \<and> clamp_inUse maximum n \<le> maximum"
  by (simp add: clamp_inUse_def)

lemma clamp_maximum_pos: "1 \<le> clamp_maximum maximum"
  by (simp add: clamp_maximum_def)

lemma force_refresh: "amc_ForceRefresh c rs maximum inUse = refresh c rs (clamp_maximum maximum) (clamp_inUse (clamp_maximum maximum) inUse)"
  by (simp add: amc_ForceRefresh_def snapshotAt_def Let_def)

section \<open>What a good sample promises\<close>

lemma base_fields [simp]:
  "StreamChargeByte (base_snapshot cfg g t m) = EstimatedBytesPerAdmission cfg" "StreamChargeFD (base_snapshot cfg g t m) = FileDescriptorsPerAdmission cfg"
  "as_Maximum (base_snapshot cfg g t m) = m" "as_AdmissionRole (base_snapshot cfg g t m) = ac_AdmissionRole cfg"
  "SampledAt (base_snapshot cfg g t m) = t" "NextSampleAt (base_snapshot cfg g t m) = t + SampleInterval cfg"
  by (simp_all add: base_snapshot_def)

lemma good_fields:
  fixes c now maximum inUse usages fd
  defines "s \<equiv> good_snapshot c now maximum inUse usages fd" and "cfg \<equiv> amc_config c"
  shows "StreamChargeByte s = EstimatedBytesPerAdmission cfg" "StreamChargeFD s = FileDescriptorsPerAdmission cfg" "as_Maximum s = maximum"
    "HeadroomToHardByte s = snd (snd (select_usage cfg (hd usages) (mu_Percent (hd usages)) max_int64 usages))"
    "ReservedStreamByte s = saturatingMultiply inUse (EstimatedBytesPerAdmission cfg)"
    "RejectNew s \<longleftrightarrow> fst (snd (select_usage cfg (hd usages) (mu_Percent (hd usages)) max_int64 usages)) \<ge> f_of_int (HardLimitPercent cfg)
       \<or> (fd_Valid fd \<and> fd_Percent fd \<ge> f_of_int (HardLimitPercent cfg) \<and> FileDescriptorsPerAdmission cfg > 0)"
    "MemoryAdmissionLimit s = (if RejectNew s then inUse
       else limit_plus inUse (more_units (HeadroomToHardByte s) (ReservedStreamByte s) (EstimatedBytesPerAdmission cfg)))"
    "FDHeadroomToHard s = (if fd_Valid fd then headroom_of cfg (fd_Limit fd) (fd_Used fd) else 0)"
    "FDAdmissionLimit s = (if RejectNew s then inUse
       else if fd_Valid fd \<and> FileDescriptorsPerAdmission cfg > 0 then
         limit_plus inUse (more_units (FDHeadroomToHard s) (saturatingMultiply inUse (FileDescriptorsPerAdmission cfg)) (FileDescriptorsPerAdmission cfg))
       else max_int64)"
    "as_AdmissionRole s = ac_AdmissionRole cfg" "SampledAt s = now" "NextSampleAt s = now + SampleInterval cfg"
    "RejectNew s \<Longrightarrow> AdmissionLimit s = inUse"
    "\<not> RejectNew s \<Longrightarrow> AdmissionLimit s \<le> inUse + max 0 (more_units (HeadroomToHardByte s) (ReservedStreamByte s) (EstimatedBytesPerAdmission cfg))"
  unfolding s_def cfg_def by (simp_all add: good_snapshot_def Let_def split_beta)

lemma hd_insert: "usages \<noteq> [] \<Longrightarrow> insert (mu_Percent (hd usages)) (mu_Percent ` set usages) = mu_Percent ` set usages"
  by (auto intro: imageI)

lemma good_level: "usages \<noteq> [] \<Longrightarrow> as_Level (good_snapshot c now maximum inUse usages fd) = next_level (amc_config c) (amc_level c) (pressure usages fd)"
proof -
  assume ne: "usages \<noteq> []"
  then have "pressure usages fd = (if fd_Valid fd \<and> Max (mu_Percent ` set usages) < fd_Percent fd then fd_Percent fd else Max (mu_Percent ` set usages))"
    by (simp add: pressure_def max_def not_less del: Max_less_iff Max_ge_iff)
  with ne show ?thesis
    by (simp add: good_snapshot_def Let_def split_beta select_usage_pct hd_insert del: Max_less_iff)
qed

lemma external_limit:
  assumes "1 \<le> n" "n \<le> AdmissionLimitWithExternal s e 0" "0 \<le> e" "e \<le> max_int64" "0 < StreamChargeByte s"
    and "MemoryAdmissionLimit s \<noteq> 0 \<or> FDAdmissionLimit s \<noteq> 0"
  shows "n * StreamChargeByte s + e \<le> MemoryAdmissionLimit s * StreamChargeByte s" "n \<le> FDAdmissionLimit s"
proof -
  let ?cost = "if e > 0 then ceil_units e (StreamChargeByte s) else 0"
  have "n + ?cost \<le> MemoryAdmissionLimit s" and fd: "n \<le> FDAdmissionLimit s"
    using assms by (auto simp: AdmissionLimitWithExternal_def Let_def split: if_splits)
  then have "(n + ?cost) * StreamChargeByte s \<le> MemoryAdmissionLimit s * StreamChargeByte s"
    using assms(5) by (intro mult_right_mono) auto
  moreover have "e \<le> ?cost * StreamChargeByte s"
    using assms ceil_units_pays [of e] by auto
  ultimately show "n * StreamChargeByte s + e \<le> MemoryAdmissionLimit s * StreamChargeByte s"
    unfolding distrib_right by linarith
  show "n \<le> FDAdmissionLimit s" by (rule fd)
qed

lemma units_beyond:
  assumes "0 \<le> headroom" "headroom \<le> max_int64" "0 \<le> inUse" "inUse \<le> max_int64" "0 < charge"
    and "inUse < n" "n \<le> limit_plus inUse (more_units headroom (saturatingMultiply inUse charge) charge)"
  shows "limit_plus inUse (more_units headroom (saturatingMultiply inUse charge) charge) * charge \<le> headroom"
proof -
  let ?m = "more_units headroom (saturatingMultiply inUse charge) charge"
  have m: "0 \<le> ?m"
    using assms saturatingMultiply_bounds [OF assms(3,5)] by (intro more_units_nonneg) auto
  then have l: "limit_plus inUse ?m = min (inUse + ?m) max_int64"
    using assms by (intro limit_plus_exact) auto
  with assms(6,7) have "0 < ?m" by simp
  have "limit_plus inUse ?m * charge \<le> (inUse + ?m) * charge"
    unfolding l using assms(5) by (intro mult_right_mono) auto
  also have "\<dots> \<le> headroom" by (rule more_units_pays [OF assms(1-3,5) \<open>0 < ?m\<close>])
  finally show ?thesis .
qed

lemma fd_units:
  assumes "fd_Valid fd" "in_i64 (fd_Used fd)" "in_i64 (fd_Limit fd)" "0 \<le> HardLimitPercent cfg" "HardLimitPercent cfg \<le> 99"
    and "0 < x" "x \<le> headroom_of cfg (fd_Limit fd) (fd_Used fd)"
  shows "100 * (fd_Used fd + x) \<le> HardLimitPercent cfg * fd_Limit fd"
  using assms percentageOf_bounds(3) [of "fd_Limit fd" "HardLimitPercent cfg"]
  by (auto simp: headroom_of_exact fd_Valid_def range_max max_def split: if_splits)

lemma mem_units:
  assumes "mu_Valid u" "usage_range u" "0 \<le> HardLimitPercent cfg" "HardLimitPercent cfg \<le> 99"
    and "0 < x" "x \<le> headroom_of cfg (LimitBytes u) (UsedBytes u)"
  shows "100 * (UsedBytes u + x) \<le> HardLimitPercent cfg * LimitBytes u"
  using assms percentageOf_bounds(3) [of "LimitBytes u" "HardLimitPercent cfg"]
  by (auto simp: headroom_of_exact mu_Valid_def usage_range_def range_max max_def split: if_splits)

text \<open>C14: A fresh sample never promises more than every sampled constraint can pay. With a validated configuration and a complete sample, if a snapshot
  does not reject new work and allows \<open>n\<close> streams, more than are in use, next to \<open>e\<close> bytes of external owners, then for
  every memory constraint (each nested cgroup, the host, the Go limit) the sampled usage plus the full charge of all \<open>n\<close> streams plus \<open>e\<close> stays
  within the hard percentage of that constraint's limit, and likewise the descriptors. No product or sum
  overflows on the way, saturation included.\<close>
theorem admission_limit_within_headroom:
  assumes "config_Validate (amc_config c) = Inr ()" and "complete_sample rs = Inr (usages, fd)"
    and "list_all usage_range usages" "in_i64 (fd_Used fd)" "in_i64 (fd_Limit fd)" "in_i64 maximum"
    and "amc_ForceRefresh c rs maximum inUse = (s, c')" and "\<not> RejectNew s"
    and "0 \<le> e" "e \<le> max_int64" "clamp_inUse (clamp_maximum maximum) inUse < n" "n \<le> AdmissionLimitWithExternal s e 0"
  shows "list_all (\<lambda>u. 100 * (UsedBytes u + n * EstimatedBytesPerAdmission (amc_config c) + e)
      \<le> HardLimitPercent (amc_config c) * LimitBytes u) usages \<and>
    (rs_fd rs \<noteq> None \<and> FileDescriptorsPerAdmission (amc_config c) > 0 \<longrightarrow>
      100 * (fd_Used fd + n * FileDescriptorsPerAdmission (amc_config c)) \<le> HardLimitPercent (amc_config c) * fd_Limit fd)"
proof -
  let ?cfg = "amc_config c" and ?m = "clamp_maximum maximum"
  let ?i = "clamp_inUse ?m inUse" and ?charge = "EstimatedBytesPerAdmission ?cfg" and ?fdc = "FileDescriptorsPerAdmission ?cfg"
  note v = validated [OF assms(1)] and cs = complete_sample_facts [OF assms(2)]
  have s: "s = good_snapshot c (rs_now rs) ?m ?i usages fd"
    using assms(2,7) by (simp add: force_refresh refresh_def Let_def)
  note f = good_fields [of c "rs_now rs" ?m ?i usages fd, folded s]
  have i: "0 \<le> ?i" "?i \<le> max_int64"
    using clamp_inUse_range [of ?m inUse] assms(6) by (auto simp: clamp_maximum_def in_i64_def max_int64_def split: if_splits)
  have h: "0 \<le> HeadroomToHardByte s" "HeadroomToHardByte s \<le> max_int64"
    unfolding f(4) using select_usage_headroom_range [of max_int64] by (simp_all add: max_int64_def)
  have n1: "1 \<le> n" using assms(11) i by linarith
  let ?a = "more_units (HeadroomToHardByte s) (ReservedStreamByte s) ?charge"
  have a: "0 \<le> ?a"
    unfolding f(5) using h v(6) saturatingMultiply_bounds [OF i(1) v(6)] by (intro more_units_nonneg) auto
  have nz: "MemoryAdmissionLimit s \<noteq> 0 \<or> FDAdmissionLimit s \<noteq> 0"
  proof (rule ccontr)
    assume "\<not> ?thesis"
    then have z: "MemoryAdmissionLimit s = 0" "FDAdmissionLimit s = 0" by auto
    then have "?i + ?a = 0"
      using f(7) assms(8) i a by (auto simp: limit_plus_exact max_int64_def split: if_splits)
    then have "AdmissionLimit s \<le> 0" using f(14) [OF assms(8)] a by simp
    with z n1 assms(12) show False
      by (auto simp: AdmissionLimitWithExternal_def Let_def split: if_splits)
  qed
  have cpos: "0 < StreamChargeByte s" using v(6) by (simp only: f(1))
  note ext = external_limit [OF n1 assms(12,9,10) cpos nz, unfolded f(1)]
  have "n * ?charge \<le> MemoryAdmissionLimit s * ?charge" using ext(1) assms(9) by linarith
  then have le: "n \<le> MemoryAdmissionLimit s" using v(6) by simp
  then have "MemoryAdmissionLimit s * ?charge \<le> HeadroomToHardByte s"
    using units_beyond [OF h i v(6) assms(11)] assms(8) f(5,7) by simp
  then have mem: "n * ?charge + e \<le> HeadroomToHardByte s" using ext(1) by linarith
  have x: "0 < n * ?charge + e" using n1 v(6) assms(9) by (simp add: add_pos_nonneg)
  have "list_all (\<lambda>u. 100 * (UsedBytes u + (n * ?charge + e)) \<le> HardLimitPercent ?cfg * LimitBytes u) usages"
    unfolding list_all_iff
  proof
    fix u assume u: "u \<in> set usages"
    have "n * ?charge + e \<le> headroom_of ?cfg (LimitBytes u) (UsedBytes u)"
      by (rule order_trans [OF mem [unfolded f(4)] select_usage_headroom_le [OF u]])
    then show "100 * (UsedBytes u + (n * ?charge + e)) \<le> HardLimitPercent ?cfg * LimitBytes u"
      using u cs(2) assms(3) v x by (intro mem_units) (auto simp: list_all_iff)
  qed
  moreover have "100 * (fd_Used fd + n * ?fdc) \<le> HardLimitPercent ?cfg * fd_Limit fd" if fd: "rs_fd rs \<noteq> None" "?fdc > 0"
  proof -
    have valid: "fd_Valid fd" by (rule cs(3) [OF fd(1)])
    let ?h = "headroom_of ?cfg (fd_Limit fd) (fd_Used fd)"
    have hr: "0 \<le> ?h" "?h \<le> max_int64"
      using valid assms(4,5) v percentageOf_bounds(2) [of "fd_Limit fd" "HardLimitPercent ?cfg"]
      by (auto simp: headroom_of_exact fd_Valid_def in_i64_def max_int64_def)
    have eq: "FDAdmissionLimit s = limit_plus ?i (more_units ?h (saturatingMultiply ?i ?fdc) ?fdc)"
      using f(8,9) assms(8) valid fd(2) by simp
    have "n * ?fdc \<le> FDAdmissionLimit s * ?fdc" using ext(2) fd(2) by simp
    also have "\<dots> \<le> ?h" using units_beyond [OF hr i fd(2) assms(11)] ext(2) unfolding eq by simp
    finally show ?thesis using valid assms(4,5) v n1 fd(2) by (intro fd_units) auto
  qed
  ultimately show ?thesis by (simp add: add.assoc)
qed

definition sample_controller :: AdaptiveMemoryController where
  "sample_controller = \<lparr>amc_config = DefaultAdaptiveMemoryConfig, amc_level = MemoryPressureUnknown, amc_snapshot = zero_snapshot,
     amc_nextSampleAt = 0, amc_generation = 0, amc_lastGood = zero_snapshot\<rparr>"

definition sample_resources :: "int \<Rightarrow> resource_sample" where
  \<comment> \<open>a cgroup of 1000000000 bytes within a host of 8000000000, nothing used of the host or of 1000 descriptors\<close>
  "sample_resources used = \<lparr>rs_now = unix_epoch, rs_sampler = SetSampler (Inr [\<lparr>UsedBytes = used, LimitBytes = 1000000000, mu_Source = ''cgroup_v2''\<rparr>,
     \<lparr>UsedBytes = 0, LimitBytes = 8000000000, mu_Source = ''host''\<rparr>]), rs_fd = Some (Inr \<lparr>fd_Used = 0, fd_Limit = 1000\<rparr>)\<rparr>"

lemma sample_valid: "config_Validate (amc_config sample_controller) = Inr ()"
  by code_simp

lemma sample_complete: "0 \<le> used \<Longrightarrow> complete_sample (sample_resources used) =
  Inr ([\<lparr>UsedBytes = used, LimitBytes = 1000000000, mu_Source = ''cgroup_v2''\<rparr>,
     \<lparr>UsedBytes = 0, LimitBytes = 8000000000, mu_Source = ''host''\<rparr>], \<lparr>fd_Used = 0, fd_Limit = 1000\<rparr>)"
  by (simp add: complete_sample_def sample_resources_def mu_Valid_def fd_Valid_def)

lemma sample_percent: "HardLimitPercent DefaultAdaptiveMemoryConfig = 90"
  "SoftLimitPercent DefaultAdaptiveMemoryConfig = 80" "RecoveryPercent DefaultAdaptiveMemoryConfig = 75" "amc_config sample_controller = DefaultAdaptiveMemoryConfig" "amc_level sample_controller = MemoryPressureUnknown"
  by (simp_all add: sample_controller_def DefaultAdaptiveMemoryConfig_def)

theorem admission_limit_within_headroom_witness:
  "AdmissionLimitWithExternal (fst (amc_ForceRefresh sample_controller (sample_resources 0) 100 2)) 5000 0 = 100
   \<and> 100 * (0 + 100 * EstimatedBytesPerAdmission DefaultAdaptiveMemoryConfig + 5000) \<le> 90 * (1000000000 :: int)"
proof -
  let ?fd = "\<lparr>fd_Used = 0, fd_Limit = 1000\<rparr>"
  let ?us = "[\<lparr>UsedBytes = 0, LimitBytes = 1000000000, mu_Source = ''cgroup_v2''\<rparr>, \<lparr>UsedBytes = 0, LimitBytes = 8000000000, mu_Source = ''host''\<rparr>]"
  have cs: "complete_sample (sample_resources 0) = Inr (?us, ?fd)" by (simp add: sample_complete)
  have r: "list_all usage_range ?us" "in_i64 (fd_Used ?fd)" "in_i64 (fd_Limit ?fd)" "in_i64 100"
    by (simp_all add: usage_range_def in_i64_def min_int64_def max_int64_def)
  have "AdmissionLimitWithExternal (fst (amc_ForceRefresh sample_controller (sample_resources 0) 100 2)) 5000 0 = 100
    \<and> \<not> RejectNew (fst (amc_ForceRefresh sample_controller (sample_resources 0) 100 2))" by code_simp
  then have l: "AdmissionLimitWithExternal (fst (amc_ForceRefresh sample_controller (sample_resources 0) 100 2)) 5000 0 = 100"
    and nr: "\<not> RejectNew (fst (amc_ForceRefresh sample_controller (sample_resources 0) 100 2))" by simp_all
  have e: "(0 :: int) \<le> 5000" "5000 \<le> max_int64" "clamp_inUse (clamp_maximum 100) 2 < 100"
    "100 \<le> AdmissionLimitWithExternal (fst (amc_ForceRefresh sample_controller (sample_resources 0) 100 2)) 5000 0"
    unfolding l by (simp_all add: max_int64_def clamp_inUse_def clamp_maximum_def)
  from admission_limit_within_headroom [OF sample_valid cs r prod.collapse [symmetric] nr e] l show ?thesis by (simp add: sample_percent)
qed

section \<open>The hard limit and hysteresis\<close>

lemma mu_Percent_ge:
  assumes "mu_Valid u" "LimitBytes u \<le> 2 ^ 46" "0 \<le> p" "p \<le> 99" "p * LimitBytes u \<le> 100 * UsedBytes u"
  shows "f_of_int p \<le> mu_Percent u"
proof -
  let ?u = "min (UsedBytes u) (LimitBytes u)" and ?l = "LimitBytes u"
  have l: "0 < ?l" "0 \<le> UsedBytes u" using assms(1) by (auto simp: mu_Valid_def)
  have small: "0 \<le> ?u" "?u \<le> 2 ^ 46" using l assms(2) by auto
  have ge: "p * ?l \<le> 100 * ?u"
    using assms(3-5) l mult_right_mono [of p 100 ?l] by (auto simp: min_def)
  have "of_int ?u = f_of_int ?u" using small by simp
  also have "\<dots> \<le> f_of_int (UsedBytes u)"
    unfolding f_of_int_def using small by (intro fround_mono) (simp_all only: of_int_0_le_iff of_int_le_iff min.cobounded1)
  finally have "(of_int ?u :: rat) * 100 \<le> f_of_int (UsedBytes u) * 100" by simp
  then have "fround (of_int ?u * 100) \<le> f_mul (f_of_int (UsedBytes u)) 100"
    unfolding f_mul_def using small by (intro fround_mono) simp_all
  moreover have "fround (of_int ?u * 100) = of_int (?u * 100)"
    using small representable_of_int [of "?u * 100"] by (simp add: fround_id)
  ultimately have "of_int (?u * 100) \<le> f_mul (f_of_int (UsedBytes u)) 100" by simp
  moreover have "of_int p * of_int ?l \<le> (of_int (?u * 100) :: rat)"
    using ge by (metis mult.commute of_int_le_iff of_int_mult)
  ultimately have "of_int p \<le> f_mul (f_of_int (UsedBytes u)) 100 / of_int ?l"
    using l by (simp add: pos_le_divide_eq)
  then have "fround (of_int p) \<le> fround (f_mul (f_of_int (UsedBytes u)) 100 / of_int ?l)"
    using assms(3) by (intro fround_mono) simp_all
  moreover have "f_of_int ?l = of_int ?l" using assms(2) l by simp
  ultimately show ?thesis using assms(1) by (simp add: mu_Percent_def f_div_def f_of_int_def)
qed

text \<open>C19: At the hard limit nothing new is admitted, in spite of floating point: if any memory constraint of a complete sample (limits up to 64 TiB) has
  reached the hard percentage exactly, or the sample failed in any way, the fresh snapshot rejects new work and its admission limit is
  the number of streams already in use, also for a caller that adds external bytes.\<close>
theorem hard_limit_rejects:
  assumes "config_Validate (amc_config c) = Inr ()"
    and "case complete_sample rs of Inl _ \<Rightarrow> True
      | Inr (usages, fd) \<Rightarrow> list_ex (\<lambda>u. LimitBytes u \<le> 2 ^ 46 \<and> HardLimitPercent (amc_config c) * LimitBytes u \<le> 100 * UsedBytes u) usages"
    and "0 \<le> e" "e \<le> max_int64" "inUse \<le> maximum" "0 \<le> inUse" "1 \<le> maximum"
  shows "RejectNew (fst (amc_ForceRefresh c rs maximum inUse)) \<and> AdmissionLimit (fst (amc_ForceRefresh c rs maximum inUse)) = inUse
    \<and> AdmissionLimitWithExternal (fst (amc_ForceRefresh c rs maximum inUse)) e 0 \<le> inUse"
proof -
  have clamp: "clamp_inUse maximum inUse = inUse" "clamp_maximum maximum = maximum"
    using assms by (auto simp: clamp_inUse_def clamp_maximum_def)
  have key: "RejectNew s \<and> AdmissionLimit s = inUse \<and> AdmissionLimitWithExternal s e 0 \<le> inUse"
    if s: "RejectNew s" "AdmissionLimit s = inUse" "MemoryAdmissionLimit s = inUse" for s
  proof -
    have "0 < StreamChargeByte s \<Longrightarrow> 0 \<le> ceil_units e (StreamChargeByte s)"
      using assms(3,4) ceil_units_pays(2) [of e] by auto
    then show ?thesis using s assms(6) by (auto simp: AdmissionLimitWithExternal_def Let_def)
  qed
  show ?thesis
  proof (cases "complete_sample rs")
    case (Inl err)
    then have "fst (amc_ForceRefresh c rs maximum inUse) = failed_snapshot c (rs_now rs) maximum inUse err"
      by (simp add: force_refresh refresh_def clamp Let_def)
    then show ?thesis using key [of "failed_snapshot c (rs_now rs) maximum inUse err"] by (simp add: failed_snapshot_def Let_def)
  next
    case (Inr r)
    then obtain usages fd where cs: "complete_sample rs = Inr (usages, fd)" by (cases r) auto
    note facts = complete_sample_facts [OF cs] and v = validated [OF assms(1)]
    let ?s = "good_snapshot c (rs_now rs) maximum inUse usages fd"
    note f = good_fields [of c "rs_now rs" maximum inUse usages fd]
    from assms(2) cs obtain u where u: "u \<in> set usages" "LimitBytes u \<le> 2 ^ 46" "HardLimitPercent (amc_config c) * LimitBytes u \<le> 100 * UsedBytes u"
      by (auto simp: list_ex_iff)
    have "f_of_int (HardLimitPercent (amc_config c)) \<le> mu_Percent u"
      using u facts(2) v by (intro mu_Percent_ge) (auto simp: list_all_iff)
    also have "\<dots> \<le> Max (insert (mu_Percent (hd usages)) (mu_Percent ` set usages))"
      using u(1) by (intro Max_ge) auto
    finally have "RejectNew ?s" unfolding f(6) select_usage_pct by simp
    moreover have "fst (amc_ForceRefresh c rs maximum inUse) = ?s"
      using cs by (simp add: force_refresh refresh_def clamp Let_def)
    ultimately show ?thesis using key [of ?s] f(7,13) by simp
  qed
qed

theorem hard_limit_rejects_witness:
  "RejectNew (fst (amc_ForceRefresh sample_controller (sample_resources 900000000) 100 7))
   \<and> AdmissionLimit (fst (amc_ForceRefresh sample_controller (sample_resources 900000000) 100 7)) = 7"
proof -
  have "case complete_sample (sample_resources 900000000) of Inl _ \<Rightarrow> True
      | Inr (usages, fd) \<Rightarrow> list_ex (\<lambda>u. LimitBytes u \<le> 2 ^ 46 \<and> HardLimitPercent (amc_config sample_controller) * LimitBytes u \<le> 100 * UsedBytes u) usages"
    "(0 :: int) \<le> 0" "0 \<le> max_int64" "(7 :: int) \<le> 100" "(0 :: int) \<le> 7" "(1 :: int) \<le> 100"
    by (simp_all add: sample_complete sample_percent max_int64_def)
  from hard_limit_rejects [OF sample_valid this] show ?thesis by blast
qed

type_synonym refresh_call = "resource_sample \<times> int \<times> int"

definition refresh_step :: "AdaptiveMemoryController \<Rightarrow> refresh_call \<Rightarrow> AdaptiveMemoryController" where
  "refresh_step c call = (case call of (rs, maximum, inUse) \<Rightarrow> snd (amc_ForceRefresh c rs maximum inUse))"

definition call_pressure :: "refresh_call \<Rightarrow> float64" where
  "call_pressure call = (case complete_sample (fst call) of Inl _ \<Rightarrow> 0 | Inr (usages, fd) \<Rightarrow> pressure usages fd)"

definition call_complete :: "refresh_call \<Rightarrow> bool" where
  "call_complete call = (case complete_sample (fst call) of Inl _ \<Rightarrow> False | Inr _ \<Rightarrow> True)"

definition under_pressure :: "MemoryPressureLevel \<Rightarrow> bool" where
  "under_pressure l \<longleftrightarrow> l = MemoryPressureSoft \<or> l = MemoryPressureCritical"

lemma refresh_step_level:
  assumes "call_complete call"
  shows "amc_level (refresh_step c call) = next_level (amc_config c) (amc_level c) (call_pressure call)" "amc_config (refresh_step c call) = amc_config c"
proof -
  obtain rs maximum inUse where call: "call = (rs, maximum, inUse)" by (cases call)
  from assms call obtain usages fd where cs: "complete_sample rs = Inr (usages, fd)"
    by (auto simp: call_complete_def split: sum.splits)
  show "amc_level (refresh_step c call) = next_level (amc_config c) (amc_level c) (call_pressure call)" "amc_config (refresh_step c call) = amc_config c"
    using cs complete_sample_facts(1) [OF cs]
    by (simp_all add: refresh_step_def call force_refresh refresh_def call_pressure_def good_level Let_def)
qed

lemma next_level_pressure:
  assumes "config_Validate cfg = Inr ()"
  shows "under_pressure (next_level cfg l p) \<longleftrightarrow> p \<ge> f_of_int (SoftLimitPercent cfg) \<or> under_pressure l \<and> p \<ge> f_of_int (RecoveryPercent cfg)"
proof -
  note v = validated [OF assms]
  have "f_of_int (SoftLimitPercent cfg) \<le> f_of_int (HardLimitPercent cfg)" using v by simp
  then show ?thesis by (cases l) (auto simp: next_level_def under_pressure_def)
qed

lemma refresh_run_config: "list_all call_complete calls \<Longrightarrow> amc_config (foldl refresh_step c calls) = amc_config c"
  by (induction calls arbitrary: c) (simp_all add: refresh_step_level)

lemma since_snoc:
  "(\<exists>before call after. xs @ [x] = before @ call # after \<and> S call \<and> list_all R after) \<longleftrightarrow>
   S x \<or> (\<exists>before call after. xs = before @ call # after \<and> S call \<and> list_all R after) \<and> R x"
proof
  assume "\<exists>before call after. xs @ [x] = before @ call # after \<and> S call \<and> list_all R after"
  then obtain before call after where "xs @ [x] = before @ call # after" "S call" "list_all R after" by blast
  then show "S x \<or> (\<exists>before call after. xs = before @ call # after \<and> S call \<and> list_all R after) \<and> R x"
    by (cases after rule: rev_cases) auto
next
  assume "S x \<or> (\<exists>before call after. xs = before @ call # after \<and> S call \<and> list_all R after) \<and> R x"
  then show "\<exists>before call after. xs @ [x] = before @ call # after \<and> S call \<and> list_all R after"
  proof (elim disjE exE conjE)
    fix before call after
    assume "xs = before @ call # after" "S call" "list_all R after" "R x"
    then have "xs @ [x] = before @ call # (after @ [x]) \<and> S call \<and> list_all R (after @ [x])" by simp
    then show ?thesis by blast
  qed (auto intro: exI [of _ xs])
qed

text \<open>The pressure level is a hysteresis switch. After any sequence of complete samples, starting from a controller that is not under pressure, the level is soft or critical
  iff some sample reached the soft limit and no sample after it fell below the recovery percentage; here the pressure of a
  sample is the highest percentage over all its memory constraints and its descriptors. Between the two marks the level therefore never
  oscillates.\<close>
theorem pressure_hysteresis:
  assumes "config_Validate (amc_config c) = Inr ()" "\<not> under_pressure (amc_level c)" "list_all call_complete calls"
  shows "under_pressure (amc_level (foldl refresh_step c calls)) \<longleftrightarrow>
    (\<exists>before call after. calls = before @ call # after \<and> call_pressure call \<ge> f_of_int (SoftLimitPercent (amc_config c)) \<and>
      list_all (\<lambda>x. call_pressure x \<ge> f_of_int (RecoveryPercent (amc_config c))) after)"
  using assms(3)
proof (induction calls rule: rev_induct)
  case Nil
  with assms(2) show ?case by simp
next
  case (snoc x xs)
  then have xs: "list_all call_complete xs" and x: "call_complete x" by simp_all
  have cfg: "amc_config (foldl refresh_step c xs) = amc_config c" by (rule refresh_run_config [OF xs])
  show ?case
    unfolding since_snoc using snoc.IH [OF xs] next_level_pressure [OF assms(1)]
    by (simp add: refresh_step_level [OF x] cfg)
qed

lemma sample_pressure:
  assumes "0 \<le> used" "1 \<le> p" "p \<le> 99" "p * 1000000000 \<le> 100 * used"
  shows "f_of_int p \<le> call_pressure (sample_resources used, maximum, inUse)"
proof -
  let ?u = "\<lparr>UsedBytes = used, LimitBytes = 1000000000, mu_Source = ''cgroup_v2''\<rparr> :: MemoryUsage"
  have "f_of_int p \<le> mu_Percent ?u" using assms by (intro mu_Percent_ge) (simp_all add: mu_Valid_def)
  also have "\<dots> \<le> call_pressure (sample_resources used, maximum, inUse)"
    using assms(1) by (simp add: call_pressure_def sample_complete pressure_def del: Max_insert)
  finally show ?thesis .
qed

theorem pressure_hysteresis_witness:
  "under_pressure (amc_level (foldl refresh_step sample_controller [(sample_resources 850000000, 100, 0), (sample_resources 780000000, 100, 0)]))"
proof -
  let ?a = "(sample_resources 850000000, 100 :: int, 0 :: int)" and ?b = "(sample_resources 780000000, 100 :: int, 0 :: int)"
  have h: "\<not> under_pressure (amc_level sample_controller)" "list_all call_complete [?a, ?b]"
    by (simp_all add: under_pressure_def sample_percent call_complete_def sample_complete)
  have "[?a, ?b] = [] @ ?a # [?b] \<and> call_pressure ?a \<ge> f_of_int (SoftLimitPercent (amc_config sample_controller)) \<and>
      list_all (\<lambda>x. call_pressure x \<ge> f_of_int (RecoveryPercent (amc_config sample_controller))) [?b]"
    using sample_pressure [of 850000000 80 100 0] sample_pressure [of 780000000 75 100 0] by (simp add: sample_percent)
  with pressure_hysteresis [OF sample_valid h] show ?thesis by blast
qed


section \<open>The contract towards admitting components\<close>

text \<open>A component that admits work relies on three laws of its controller: the state stays well formed, the charge per admission is fixed, and
  what a snapshot allows (unless it rejects new work) is paid for by the snapshot's budget.\<close>

locale admission_controller =
  fixes snap :: "'c \<Rightarrow> 'e \<Rightarrow> int \<Rightarrow> 's \<times> 'c" and limit :: "'s \<Rightarrow> int \<Rightarrow> int" and reject :: "'s \<Rightarrow> bool"
    and budget :: "'s \<Rightarrow> int" and charge :: "'c \<Rightarrow> int" and ok :: "'c \<Rightarrow> bool"
  assumes snap_ok: "ok c \<Longrightarrow> ok (snd (snap c e n))"
    and snap_charge: "charge (snd (snap c e n)) = charge c"
    and snap_pays: "ok c \<Longrightarrow> \<not> reject (fst (snap c e n)) \<Longrightarrow> 0 \<le> x \<Longrightarrow> x \<le> max_int64 \<Longrightarrow> 0 \<le> k \<Longrightarrow>
      k \<le> limit (fst (snap c e n)) x \<Longrightarrow> k * charge c + x \<le> budget (fst (snap c e n))"
begin

lemma reserve_pays:
  assumes "ok c" "snap c e n = (s, c')" "\<not> (reject s \<or> limit s x < k)" "0 \<le> x" "x \<le> max_int64" "0 \<le> k"
  shows "k * charge c' + x \<le> budget s" "ok c'" "charge c' = charge c"
  using assms snap_pays [of c e n x k] snap_ok [of c e n] snap_charge [of c e n] by auto

lemma admit_one_pays:
  assumes "ok c" "snap c e n = (s, c')" "inUse < min (if reject s then inUse else max 0 (limit s x - slots)) y"
    and "0 \<le> x" "x \<le> max_int64" "0 \<le> inUse" "0 \<le> slots"
  shows "\<not> reject s" "(inUse + 1 + slots) * charge c' + x \<le> budget s"
proof -
  show nr: "\<not> reject s" using assms(3) by (auto split: if_splits)
  with assms have "\<not> (reject s \<or> limit s x < inUse + 1 + slots)" by auto
  then show "(inUse + 1 + slots) * charge c' + x \<le> budget s"
    using assms by (intro reserve_pays(1)) auto
qed

end

definition snapshot_budget :: "AdaptiveMemorySnapshot \<Rightarrow> int" where
  \<comment> \<open>the sampled headroom, or what was already reserved when that is more\<close>
  "snapshot_budget s = max (HeadroomToHardByte s) (ReservedStreamByte s)"

definition snapshot_good :: "AdaptiveMemoryConfig \<Rightarrow> AdaptiveMemorySnapshot \<Rightarrow> bool" where
  "snapshot_good cfg s \<longleftrightarrow> RejectNew s \<or> (StreamChargeByte s = EstimatedBytesPerAdmission cfg \<and> 0 \<le> MemoryAdmissionLimit s \<and>
     MemoryAdmissionLimit s * EstimatedBytesPerAdmission cfg \<le> snapshot_budget s \<and>
     (MemoryAdmissionLimit s = 0 \<longrightarrow> AdmissionLimit s \<le> 0))"

definition controller_ok :: "AdaptiveMemoryController \<Rightarrow> bool" where
  "controller_ok c \<longleftrightarrow> config_Validate (amc_config c) = Inr () \<and>
     EstimatedBytesPerAdmission (amc_config c) * MaxAdaptiveConcurrentStreamsLimit \<le> max_int64 \<and>
     (SampledAt (amc_snapshot c) = 0 \<or> snapshot_good (amc_config c) (amc_snapshot c))"

lemma refresh_config [simp]: "amc_config (snd (refresh c rs m n)) = amc_config c"
  by (simp add: refresh_def Let_def split: sum.splits)

lemma refresh_snapshot [simp]: "amc_snapshot (snd (refresh c rs m n)) = fst (refresh c rs m n)"
  by (simp add: refresh_def Let_def split: sum.splits)

lemma good_snapshot_good:
  assumes "config_Validate (amc_config c) = Inr ()" "EstimatedBytesPerAdmission (amc_config c) * MaxAdaptiveConcurrentStreamsLimit \<le> max_int64"
    and "0 \<le> i" "i \<le> MaxAdaptiveConcurrentStreamsLimit"
  shows "snapshot_good (amc_config c) (good_snapshot c now maximum i usages fd)"
proof -
  let ?s = "good_snapshot c now maximum i usages fd" and ?charge = "EstimatedBytesPerAdmission (amc_config c)"
  note f = good_fields [of c now maximum i usages fd] and v = validated [OF assms(1)]
  let ?H = "HeadroomToHardByte ?s" and ?R = "ReservedStreamByte ?s"
  let ?a = "more_units ?H ?R ?charge"
  have "i * ?charge \<le> MaxAdaptiveConcurrentStreamsLimit * ?charge" using assms(4) v(6) by (intro mult_right_mono) auto
  then have le: "i * ?charge \<le> max_int64" using assms(2) by (simp add: mult.commute)
  then have R: "?R = i * ?charge" unfolding f(5) using saturatingMultiply_bounds(4) [OF assms(3) v(6)] by simp
  have h: "0 \<le> ?H" "?H \<le> max_int64"
    unfolding f(4) using select_usage_headroom_range [of max_int64] by (simp_all add: max_int64_def)
  have R2: "0 \<le> ?R" "?R \<le> max_int64" using R le assms(3) v(6) by simp_all
  have a: "?a = max 0 (?H - ?R) div ?charge" by (rule more_units_exact [OF h R2 v(6)])
  have a0: "0 \<le> ?a" by (rule more_units_nonneg [OF h R2 v(6)])
  have i: "i \<le> max_int64" using assms(4) by (simp add: max_int64_def tunnel_consts)
  have "?a * ?charge \<le> max 0 (?H - ?R)" unfolding a by (rule le_div_iff [OF v(6), THEN iffD1]) simp
  then have pay: "(i + ?a) * ?charge \<le> snapshot_budget ?s" unfolding snapshot_budget_def distrib_right using R by linarith
  have lim: "limit_plus i ?a = min (i + ?a) max_int64" by (rule limit_plus_exact [OF assms(3) i a0])
  have "limit_plus i ?a * ?charge \<le> (i + ?a) * ?charge" unfolding lim using v(6) by (intro mult_right_mono) auto
  then have "limit_plus i ?a * ?charge \<le> snapshot_budget ?s" using pay by (rule order_trans)
  moreover have "0 \<le> limit_plus i ?a" unfolding lim using assms(3) a0 by (simp add: max_int64_def)
  moreover have "limit_plus i ?a = 0 \<Longrightarrow> i + ?a = 0" unfolding lim using assms(3) a0 by (auto simp: max_int64_def min_def split: if_splits)
  ultimately show ?thesis
    using f(1,7,14) assms(3) a0 by (cases "RejectNew ?s") (auto simp: snapshot_good_def)
qed

lemma refresh_good:
  assumes "controller_ok c" "0 \<le> i" "i \<le> MaxAdaptiveConcurrentStreamsLimit"
  shows "snapshot_good (amc_config c) (fst (refresh c rs m i))"
proof (cases "complete_sample rs")
  case (Inl err)
  then show ?thesis by (simp add: refresh_def Let_def snapshot_good_def failed_snapshot_def)
next
  case (Inr r)
  then show ?thesis
    using assms good_snapshot_good [of c i] by (cases r) (simp add: refresh_def Let_def controller_ok_def)
qed

definition capacity_snap :: "bool \<Rightarrow> AdaptiveMemoryController \<Rightarrow> resource_sample \<Rightarrow> int \<Rightarrow> AdaptiveMemorySnapshot \<times> AdaptiveMemoryController" where
  "capacity_snap force c rs n = snapshotAt c rs MaxAdaptiveConcurrentStreamsLimit n force"

lemma capacity_snap_facts:
  assumes "controller_ok c"
  shows "controller_ok (snd (capacity_snap force c rs n))" "snapshot_good (amc_config c) (fst (capacity_snap force c rs n))"
proof -
  let ?M = MaxAdaptiveConcurrentStreamsLimit
  have M: "clamp_maximum ?M = ?M" "1 \<le> ?M" by (simp_all add: clamp_maximum_def tunnel_consts)
  have i: "0 \<le> clamp_inUse ?M n" "clamp_inUse ?M n \<le> ?M" using clamp_inUse_range [OF M(2), of n] by auto
  note g = refresh_good [OF assms i, of rs ?M]
  show "snapshot_good (amc_config c) (fst (capacity_snap force c rs n))"
    using g assms by (auto simp: capacity_snap_def snapshotAt_def M Let_def time_is_zero_def controller_ok_def)
  show "controller_ok (snd (capacity_snap force c rs n))"
    using g assms by (auto simp: capacity_snap_def snapshotAt_def M Let_def controller_ok_def)
qed

lemma external_pays:
  assumes "snapshot_good cfg s" "\<not> RejectNew s" "0 < EstimatedBytesPerAdmission cfg" "0 \<le> x" "x \<le> max_int64" "0 \<le> k"
    "k \<le> AdmissionLimitWithExternal s x 0"
  shows "k * EstimatedBytesPerAdmission cfg + x \<le> snapshot_budget s"
proof -
  let ?charge = "EstimatedBytesPerAdmission cfg"
  have g: "StreamChargeByte s = ?charge" "0 \<le> MemoryAdmissionLimit s" "MemoryAdmissionLimit s * ?charge \<le> snapshot_budget s"
    "MemoryAdmissionLimit s = 0 \<Longrightarrow> AdmissionLimit s \<le> 0" using assms(1,2) by (auto simp: snapshot_good_def)
  let ?cost = "if x > 0 then ceil_units x ?charge else 0"
  have c: "x \<le> ?cost * ?charge" "0 \<le> ?cost" using assms(3-5) ceil_units_pays [of x ?charge] by auto
  have "k + ?cost \<le> MemoryAdmissionLimit s"
    using assms(3,6,7) c g by (auto simp: AdmissionLimitWithExternal_def Let_def split: if_splits)
  then have "(k + ?cost) * ?charge \<le> MemoryAdmissionLimit s * ?charge" using assms(3) by (intro mult_right_mono) auto
  with c(1) g(3) show ?thesis unfolding distrib_right by linarith
qed

interpretation mc: admission_controller "capacity_snap force" "\<lambda>s x. AdmissionLimitWithExternal s x 0" RejectNew snapshot_budget
  "\<lambda>c. EstimatedBytesPerAdmission (amc_config c)" controller_ok for force
proof unfold_locales
  fix c e n
  show "controller_ok c \<Longrightarrow> controller_ok (snd (capacity_snap force c e n))" by (rule capacity_snap_facts)
  show "EstimatedBytesPerAdmission (amc_config (snd (capacity_snap force c e n))) = EstimatedBytesPerAdmission (amc_config c)"
    by (simp add: capacity_snap_def snapshotAt_def Let_def)
  fix x k
  assume "controller_ok c" "\<not> RejectNew (fst (capacity_snap force c e n))" "0 \<le> x" "x \<le> max_int64" "0 \<le> k"
    "k \<le> AdmissionLimitWithExternal (fst (capacity_snap force c e n)) x 0"
  then show "k * EstimatedBytesPerAdmission (amc_config c) + x \<le> snapshot_budget (fst (capacity_snap force c e n))"
    using capacity_snap_facts(2) [of c force e n] validated(6) [of "amc_config c"]
    by (intro external_pays) (auto simp: controller_ok_def)
qed

end
