(* ===== verification/AgentCapacity.thy ===== *)
theory AgentCapacity
  imports MemoryPressure GoStrings
begin

text \<open>
  The agent's tunnel capacity runtime (\<open>internal/agent/adaptive_capacity.go\<close>): the counts of ordinary and control streams, the
  bytes promised to receive windows and sessions, and the admission of new work against the memory controller. Every method runs under
  one mutex and is one function; the closures it returns are leases, whose \<open>sync.Once\<close> is the flag of the lease. The sample a
  method's call of the controller sees is its argument.
\<close>

section \<open>State\<close>

record agentTunnelCapacitySnapshot =
  ts_Adaptive :: bool
  ts_ResourceLimited :: bool
  ts_Maximum :: int
  ts_AdmissionLimit :: int
  ts_OrdinaryAdmissionLimit :: int
  ts_InUse :: int
  ts_ControlInUse :: int
  ts_ControlReservedSlots :: int
  ts_ControlReservedBaseBytes :: int
  ts_ControlReservedBaseFDs :: int
  ts_Pressure :: MemoryPressureLevel
  ts_MemoryUsedBytes :: int
  ts_MemoryLimitBytes :: int
  ts_MemorySource :: string
  ts_FileDescriptorsUsed :: int
  ts_FileDescriptorsLimit :: int
  ts_PressureReason :: string
  ts_SampleError :: string
  ts_LastGoodSampleAt :: gotime
  ts_AdmissionRole :: string
  ts_StreamChargeBytes :: int
  ts_StreamChargeFDs :: int
  ts_ReceiveWindowBytes :: int
  ts_SessionResourceBytes :: int
  ts_AggregateInitialPoolBytes :: int
  ts_AggregateGrowthPoolBytes :: int
  ts_AggregateCurrentPoolBytes :: int
  ts_AggregateSessionMetadataBytes :: int
  ts_LegacyControlSupplementBytes :: int
  ts_LegacySessionEnvelopeBytes :: int
  ts_LegacyStreamSupplementBytes :: int
  ts_RejectedPressure :: int
  ts_RejectedFixedLimit :: int

record agentTunnelCapacityRuntime =
  cr_adaptive :: bool
  cr_maximum :: int
  cr_inUse :: int
  cr_controlInUse :: int
  cr_controlReservedSlots :: int
  cr_windowBytes :: int
  cr_sessionBytes :: int
  cr_aggregateInitialPoolBytes :: int
  cr_aggregateGrowthPoolBytes :: int
  cr_aggregateSessionMetadataBytes :: int
  cr_legacyControlSupplementBytes :: int
  cr_legacySessionEnvelopeBytes :: int
  cr_legacyStreamSupplementBytes :: int
  cr_controller :: "AdaptiveMemoryController option"
  cr_rejectedPressure :: int
  cr_rejectedFixed :: int
  cr_scavengeRunning :: bool
  cr_scavengeNeeded :: bool

definition agentTunnelCapacityMaximumInt :: "int \<Rightarrow> int" where
  "agentTunnelCapacityMaximumInt maximum =
     (if maximum < 1 then 1
      else let m = (if maximum > MaxAdaptiveConcurrentStreamsLimit then MaxAdaptiveConcurrentStreamsLimit else maximum)
           in case parse_int (format_uint (nat m)) of None \<Rightarrow> 1 | Some converted \<Rightarrow> converted)"

definition newAgentTunnelCapacityRuntime ::
  "int \<Rightarrow> bool \<Rightarrow> AdaptiveMemoryController option \<Rightarrow> agentTunnelCapacityRuntime option" where
  \<comment> \<open>\<open>None\<close> is the panic of \<open>MustNewAdaptiveMemoryController\<close>\<close>
  "newAgentTunnelCapacityRuntime maximum adaptive controller =
     (let rt = (\<lambda>ctl. \<lparr>cr_adaptive = adaptive, cr_maximum = agentTunnelCapacityMaximumInt maximum, cr_inUse = 0, cr_controlInUse = 0,
            cr_controlReservedSlots = 0, cr_windowBytes = 0, cr_sessionBytes = 0, cr_aggregateInitialPoolBytes = 0,
            cr_aggregateGrowthPoolBytes = 0, cr_aggregateSessionMetadataBytes = 0, cr_legacyControlSupplementBytes = 0,
            cr_legacySessionEnvelopeBytes = 0, cr_legacyStreamSupplementBytes = 0, cr_controller = ctl, cr_rejectedPressure = 0,
            cr_rejectedFixed = 0, cr_scavengeRunning = False, cr_scavengeNeeded = False\<rparr>)
      in if adaptive \<and> controller = None
         then (case NewAdaptiveMemoryController DefaultAdaptiveMemoryConfig of Inl _ \<Rightarrow> None | Inr c \<Rightarrow> Some (rt (Some c)))
         else Some (rt controller))"

definition setMaximum :: "agentTunnelCapacityRuntime \<Rightarrow> int \<Rightarrow> agentTunnelCapacityRuntime" where
  "setMaximum r maximum = (if maximum < 1 then r else r\<lparr>cr_maximum := agentTunnelCapacityMaximumInt maximum\<rparr>)"

definition actualInUseLocked :: "agentTunnelCapacityRuntime \<Rightarrow> int" where
  "actualInUseLocked r = cr_inUse r + cr_controlInUse r"

definition chargedAdmissionsLocked :: "agentTunnelCapacityRuntime \<Rightarrow> int" where
  "chargedAdmissionsLocked r = cr_inUse r + cr_controlReservedSlots r"

section \<open>Snapshots\<close>

definition plain_snapshot :: "agentTunnelCapacityRuntime \<Rightarrow> agentTunnelCapacitySnapshot" where
  \<comment> \<open>the struct literal of \<open>snapshotLockedWithForce\<close>\<close>
  "plain_snapshot r =
     (let maximum = (if cr_maximum r < 1 then 1 else cr_maximum r)
      in \<lparr>ts_Adaptive = cr_adaptive r, ts_ResourceLimited = False, ts_Maximum = maximum, ts_AdmissionLimit = maximum,
          ts_OrdinaryAdmissionLimit = max 0 (maximum - cr_controlInUse r), ts_InUse = actualInUseLocked r, ts_ControlInUse = cr_controlInUse r,
          ts_ControlReservedSlots = cr_controlReservedSlots r, ts_ControlReservedBaseBytes = 0, ts_ControlReservedBaseFDs = 0,
          ts_Pressure = MemoryPressureUnknown, ts_MemoryUsedBytes = 0, ts_MemoryLimitBytes = 0, ts_MemorySource = '''',
          ts_FileDescriptorsUsed = 0, ts_FileDescriptorsLimit = 0, ts_PressureReason = '''', ts_SampleError = '''', ts_LastGoodSampleAt = 0,
          ts_AdmissionRole = '''', ts_StreamChargeBytes = 0, ts_StreamChargeFDs = 0, ts_ReceiveWindowBytes = cr_windowBytes r,
          ts_SessionResourceBytes = cr_sessionBytes r, ts_AggregateInitialPoolBytes = cr_aggregateInitialPoolBytes r,
          ts_AggregateGrowthPoolBytes = cr_aggregateGrowthPoolBytes r,
          ts_AggregateCurrentPoolBytes = i64 (cr_aggregateInitialPoolBytes r + cr_aggregateGrowthPoolBytes r),
          ts_AggregateSessionMetadataBytes = cr_aggregateSessionMetadataBytes r,
          ts_LegacyControlSupplementBytes = cr_legacyControlSupplementBytes r, ts_LegacySessionEnvelopeBytes = cr_legacySessionEnvelopeBytes r,
          ts_LegacyStreamSupplementBytes = cr_legacyStreamSupplementBytes r, ts_RejectedPressure = cr_rejectedPressure r,
          ts_RejectedFixedLimit = cr_rejectedFixed r\<rparr>)"

definition resource_limits :: "agentTunnelCapacityRuntime \<Rightarrow> AdaptiveMemorySnapshot \<Rightarrow> agentTunnelCapacitySnapshot \<Rightarrow> agentTunnelCapacitySnapshot" where
  "resource_limits r resource snapshot =
     (let maximum = ts_Maximum snapshot;
          chargedLimit = AdmissionLimitWithExternal resource (i64 (cr_windowBytes r + cr_sessionBytes r)) 0;
          ordinary = (if RejectNew resource then cr_inUse r else max 0 (chargedLimit - cr_controlReservedSlots r));
          controlCapacity = min (cr_controlReservedSlots r) (min NegotiatedControlStreamLimit maximum);
          admission = (if ordinary > max_int64 - controlCapacity then maximum else min maximum (ordinary + controlCapacity));
          slots = cr_controlReservedSlots r;
          base = (\<lambda>charge. if charge > 0 \<and> slots \<le> go_div max_int64 charge then i64 (slots * charge) else 0)
      in snapshot\<lparr>ts_OrdinaryAdmissionLimit := min ordinary (max 0 (maximum - cr_controlInUse r)), ts_AdmissionLimit := admission,
          ts_ResourceLimited := RejectNew resource \<or> admission < maximum, ts_Pressure := as_Level resource,
          ts_MemoryUsedBytes := UsedBytes (Usage resource), ts_MemoryLimitBytes := LimitBytes (Usage resource),
          ts_MemorySource := mu_Source (Usage resource), ts_FileDescriptorsUsed := FDUsed resource, ts_FileDescriptorsLimit := FDLimit resource,
          ts_PressureReason := PressureReason resource, ts_SampleError := SampleError resource, ts_LastGoodSampleAt := LastGoodSampleAt resource,
          ts_AdmissionRole := as_AdmissionRole resource, ts_StreamChargeBytes := StreamChargeByte resource,
          ts_StreamChargeFDs := StreamChargeFD resource, ts_ControlReservedBaseBytes := base (StreamChargeByte resource),
          ts_ControlReservedBaseFDs := base (StreamChargeFD resource)\<rparr>)"

definition snapshotLockedWithForce ::
  "agentTunnelCapacityRuntime \<Rightarrow> resource_sample \<Rightarrow> bool \<Rightarrow> agentTunnelCapacitySnapshot \<times> agentTunnelCapacityRuntime" where
  "snapshotLockedWithForce r rs force =
     (case cr_controller r of
        None \<Rightarrow> (plain_snapshot r, r)
      | Some c \<Rightarrow>
          let charged = chargedAdmissionsLocked r;
              (resource, c') = (if force then amc_ForceRefresh c rs MaxAdaptiveConcurrentStreamsLimit charged
                                else amc_Snapshot c rs MaxAdaptiveConcurrentStreamsLimit charged)
          in (resource_limits r resource (plain_snapshot r), r\<lparr>cr_controller := Some c'\<rparr>))"

definition snapshotLocked :: "agentTunnelCapacityRuntime \<Rightarrow> resource_sample \<Rightarrow> agentTunnelCapacitySnapshot \<times> agentTunnelCapacityRuntime" where
  "snapshotLocked r rs = snapshotLockedWithForce r rs False"

section \<open>Scavenging\<close>

definition requestMemoryScavenge :: "agentTunnelCapacityRuntime \<Rightarrow> bool \<times> agentTunnelCapacityRuntime" where
  \<comment> \<open>\<open>True\<close>: a worker was started\<close>
  "requestMemoryScavenge r =
     (if cr_controller r = None \<or> cr_scavengeRunning r then (False, r) else (True, r\<lparr>cr_scavengeRunning := True\<rparr>))"

definition runScavengeAfterRelease :: "agentTunnelCapacityRuntime \<Rightarrow> bool \<Rightarrow> agentTunnelCapacityRuntime" where
  "runScavengeAfterRelease r shouldScavenge =
     (if shouldScavenge then (let (started, r1) = requestMemoryScavenge r in if started then r1 else r1\<lparr>cr_scavengeNeeded := True\<rparr>) else r)"

definition finishActiveReleaseLocked :: "agentTunnelCapacityRuntime \<Rightarrow> resource_sample \<Rightarrow> bool \<times> agentTunnelCapacityRuntime" where
  "finishActiveReleaseLocked r0 rs =
     (let shouldScavenge = cr_scavengeNeeded r0; r = r0\<lparr>cr_scavengeNeeded := False\<rparr>
      in if cr_controller r \<noteq> None \<and> actualInUseLocked r = 0 then
           (let (snap, r1) = snapshotLocked r rs; pressure = ts_Pressure snap
            in (shouldScavenge \<or> pressure = MemoryPressureSoft \<or> pressure = MemoryPressureCritical, r1))
         else (False, if shouldScavenge then r\<lparr>cr_scavengeNeeded := True\<rparr> else r))"

section \<open>Ordinary streams\<close>

definition tryAcquire :: "agentTunnelCapacityRuntime \<Rightarrow> resource_sample \<Rightarrow> (agentTunnelCapacitySnapshot \<times> bool) \<times> agentTunnelCapacityRuntime" where
  "tryAcquire r0 rs =
     (let (snapshot, r) = snapshotLocked r0 rs
      in if actualInUseLocked r \<ge> cr_maximum r \<or> cr_inUse r \<ge> ts_OrdinaryAdmissionLimit snapshot then
           let r1 = (if ts_Adaptive snapshot \<or> ts_ResourceLimited snapshot
                     then r\<lparr>cr_rejectedPressure := u64 (cr_rejectedPressure r + 1), cr_scavengeNeeded := True\<rparr>
                     else r\<lparr>cr_rejectedFixed := u64 (cr_rejectedFixed r + 1)\<rparr>)
           in ((snapshot\<lparr>ts_RejectedPressure := cr_rejectedPressure r1, ts_RejectedFixedLimit := cr_rejectedFixed r1\<rparr>, False), r1)
         else
           let r1 = r\<lparr>cr_inUse := cr_inUse r + 1\<rparr>
           in ((snapshot\<lparr>ts_InUse := actualInUseLocked r1\<rparr>, True), r1))"

definition release_ordinary :: "agentTunnelCapacityRuntime \<Rightarrow> resource_sample \<Rightarrow> agentTunnelCapacityRuntime" where
  \<comment> \<open>the body under \<open>once.Do\<close> of the closure \<open>tryAcquire\<close> returns\<close>
  "release_ordinary r0 rs =
     (let r = (if cr_inUse r0 > 0 then r0\<lparr>cr_inUse := cr_inUse r0 - 1\<rparr> else r0);
          (shouldScavenge, r1) = finishActiveReleaseLocked r rs
      in runScavengeAfterRelease r1 shouldScavenge)"

definition recordPressureRejection :: "agentTunnelCapacityRuntime \<Rightarrow> agentTunnelCapacityRuntime" where
  "recordPressureRejection r = r\<lparr>cr_rejectedPressure := u64 (cr_rejectedPressure r + 1), cr_scavengeNeeded := True\<rparr>"

definition rt_snapshot :: "agentTunnelCapacityRuntime \<Rightarrow> resource_sample \<Rightarrow> agentTunnelCapacitySnapshot \<times> agentTunnelCapacityRuntime" where
  "rt_snapshot r rs = snapshotLocked r rs"

definition forceRefresh :: "agentTunnelCapacityRuntime \<Rightarrow> resource_sample \<Rightarrow> agentTunnelCapacitySnapshot \<times> agentTunnelCapacityRuntime" where
  "forceRefresh r rs = snapshotLockedWithForce r rs True"

section \<open>Control sessions\<close>

record agentControlSessionReservation =
  rv_bytes :: int
  rv_slots :: int
  rv_active :: int
  rv_released :: bool

definition tryReserveControlSession ::
  "agentTunnelCapacityRuntime \<Rightarrow> resource_sample \<Rightarrow> int \<Rightarrow> int \<Rightarrow> agentControlSessionReservation option \<times> agentTunnelCapacityRuntime" where
  "tryReserveControlSession r rs bytes slots =
     (if bytes < 0 \<or> slots < 1 \<or> slots > NegotiatedControlStreamLimit then (None, r)
      else if cr_windowBytes r < 0 \<or> cr_sessionBytes r < 0 \<or> cr_windowBytes r > max_int64 - cr_sessionBytes r then (None, r)
      else
        let external = cr_windowBytes r + cr_sessionBytes r
        in if bytes > max_int64 - external \<or> cr_controlReservedSlots r > max_int64 - slots then (None, r)
           else
             let proposedExternal = external + bytes;
                 currentCharged = chargedAdmissionsLocked r;
                 proposedCharged = currentCharged + slots
             in if proposedCharged > MaxAdaptiveConcurrentStreamsLimit then (None, r)
                else
                  let (refused, r1) =
                        (case cr_controller r of
                           None \<Rightarrow> (False, r)
                         | Some c \<Rightarrow>
                             let (resource, c') = amc_Snapshot c rs MaxAdaptiveConcurrentStreamsLimit currentCharged
                             in (RejectNew resource \<or> AdmissionLimitWithExternal resource proposedExternal 0 < proposedCharged,
                                 r\<lparr>cr_controller := Some c'\<rparr>))
                  in if refused then (None, r1)
                     else (Some \<lparr>rv_bytes = bytes, rv_slots = slots, rv_active = 0, rv_released = False\<rparr>,
                           r1\<lparr>cr_sessionBytes := cr_sessionBytes r1 + bytes,
                              cr_legacyControlSupplementBytes := cr_legacyControlSupplementBytes r1 + bytes,
                              cr_controlReservedSlots := cr_controlReservedSlots r1 + slots\<rparr>))"

definition activate ::
  "agentTunnelCapacityRuntime \<Rightarrow> agentControlSessionReservation \<Rightarrow> int \<Rightarrow> int \<Rightarrow> int \<Rightarrow> bool \<times> agentControlSessionReservation \<times> agentTunnelCapacityRuntime" where
  "activate r s maximum bytes slots =
     (if maximum < 1 \<or> bytes < 0 \<or> slots < 1 \<or> slots > NegotiatedControlStreamLimit then (False, s, r)
      else if rv_released s \<or> rv_active s \<noteq> 0 \<or> slots > rv_slots s \<or> bytes > rv_bytes s then (False, s, r)
      else
        let converted = agentTunnelCapacityMaximumInt maximum
        in if slots > converted then (False, s, r)
           else (True, s\<lparr>rv_bytes := bytes, rv_slots := slots\<rparr>,
                 r\<lparr>cr_sessionBytes := cr_sessionBytes r - (rv_bytes s - bytes),
                   cr_legacyControlSupplementBytes := cr_legacyControlSupplementBytes r - (rv_bytes s - bytes),
                   cr_controlReservedSlots := cr_controlReservedSlots r - (rv_slots s - slots),
                   cr_maximum := converted\<rparr>))"

definition control_tryAcquire ::
  "agentTunnelCapacityRuntime \<Rightarrow> agentControlSessionReservation \<Rightarrow> bool \<times> agentControlSessionReservation \<times> agentTunnelCapacityRuntime" where
  "control_tryAcquire r s =
     (let controlLimit = min NegotiatedControlStreamLimit (cr_maximum r)
      in if rv_released s \<or> rv_active s \<ge> rv_slots s \<or> cr_controlInUse r \<ge> controlLimit \<or> actualInUseLocked r \<ge> cr_maximum r
         then (False, s, r\<lparr>cr_rejectedFixed := u64 (cr_rejectedFixed r + 1)\<rparr>)
         else (True, s\<lparr>rv_active := rv_active s + 1\<rparr>, r\<lparr>cr_controlInUse := cr_controlInUse r + 1\<rparr>))"

definition release_control ::
  "agentTunnelCapacityRuntime \<Rightarrow> resource_sample \<Rightarrow> agentControlSessionReservation \<Rightarrow> agentControlSessionReservation \<times> agentTunnelCapacityRuntime" where
  \<comment> \<open>the body under \<open>once.Do\<close> of the closure the control \<open>tryAcquire\<close> returns\<close>
  "release_control r0 rs s =
     (let s1 = (if rv_active s > 0 then s\<lparr>rv_active := rv_active s - 1\<rparr> else s);
          r = (if cr_controlInUse r0 > 0 then r0\<lparr>cr_controlInUse := cr_controlInUse r0 - 1\<rparr> else r0);
          (shouldScavenge, r1) = finishActiveReleaseLocked r rs
      in (s1, runScavengeAfterRelease r1 shouldScavenge))"

definition control_release ::
  "agentTunnelCapacityRuntime \<Rightarrow> agentControlSessionReservation \<Rightarrow> agentControlSessionReservation \<times> agentTunnelCapacityRuntime" where
  "control_release r s =
     (if rv_released s \<or> rv_active s \<noteq> 0 then (s, r)
      else (s\<lparr>rv_released := True\<rparr>,
            r\<lparr>cr_sessionBytes := cr_sessionBytes r - rv_bytes s,
              cr_legacyControlSupplementBytes := cr_legacyControlSupplementBytes r - rv_bytes s,
              cr_controlReservedSlots := cr_controlReservedSlots r - rv_slots s\<rparr>))"

section \<open>Receive resources\<close>

datatype agentReceiveResourceOwner =
    agentReceiveResourceStreamGrowth
  | agentReceiveResourceAggregateInitialPool
  | agentReceiveResourceAggregateGrowthPool
  | agentReceiveResourceAggregateSessionMetadata
  | agentReceiveResourceLegacyControlSupplement
  | agentReceiveResourceLegacySessionEnvelope
  | agentReceiveResourceLegacyStreamSupplement

fun charge_owner :: "agentReceiveResourceOwner \<Rightarrow> int \<Rightarrow> agentTunnelCapacityRuntime \<Rightarrow> agentTunnelCapacityRuntime" where
  \<comment> \<open>the two \<open>switch owner\<close> statements: \<open>+=\<close> for an acquisition, the same with \<open>- bytes\<close> for its release\<close>
  "charge_owner agentReceiveResourceStreamGrowth b r = r\<lparr>cr_windowBytes := cr_windowBytes r + b\<rparr>"
| "charge_owner agentReceiveResourceAggregateInitialPool b r =
     r\<lparr>cr_sessionBytes := cr_sessionBytes r + b, cr_aggregateInitialPoolBytes := cr_aggregateInitialPoolBytes r + b\<rparr>"
| "charge_owner agentReceiveResourceAggregateGrowthPool b r =
     r\<lparr>cr_sessionBytes := cr_sessionBytes r + b, cr_aggregateGrowthPoolBytes := cr_aggregateGrowthPoolBytes r + b\<rparr>"
| "charge_owner agentReceiveResourceAggregateSessionMetadata b r =
     r\<lparr>cr_sessionBytes := cr_sessionBytes r + b, cr_aggregateSessionMetadataBytes := cr_aggregateSessionMetadataBytes r + b\<rparr>"
| "charge_owner agentReceiveResourceLegacyControlSupplement b r =
     r\<lparr>cr_sessionBytes := cr_sessionBytes r + b, cr_legacyControlSupplementBytes := cr_legacyControlSupplementBytes r + b\<rparr>"
| "charge_owner agentReceiveResourceLegacySessionEnvelope b r =
     r\<lparr>cr_sessionBytes := cr_sessionBytes r + b, cr_legacySessionEnvelopeBytes := cr_legacySessionEnvelopeBytes r + b\<rparr>"
| "charge_owner agentReceiveResourceLegacyStreamSupplement b r =
     r\<lparr>cr_windowBytes := cr_windowBytes r + b, cr_legacyStreamSupplementBytes := cr_legacyStreamSupplementBytes r + b\<rparr>"

record receive_lease =
  ls_counted :: bool \<comment> \<open>\<open>False\<close> for the no-op lease of a runtime without a controller\<close>
  ls_owner :: agentReceiveResourceOwner
  ls_bytes :: int
  ls_done :: bool \<comment> \<open>the \<open>sync.Once\<close>\<close>

definition tryReserveOwnedReceiveResource ::
  "agentTunnelCapacityRuntime \<Rightarrow> resource_sample \<Rightarrow> int \<Rightarrow> agentReceiveResourceOwner \<Rightarrow> receive_lease option \<times> agentTunnelCapacityRuntime" where
  "tryReserveOwnedReceiveResource r rs bytes own =
     (case cr_controller r of
        None \<Rightarrow> (Some \<lparr>ls_counted = False, ls_owner = own, ls_bytes = bytes, ls_done = False\<rparr>, r)
      | Some c \<Rightarrow>
          let charged = chargedAdmissionsLocked r;
              (resource, c') = amc_Snapshot c rs MaxAdaptiveConcurrentStreamsLimit charged;
              r1 = r\<lparr>cr_controller := Some c'\<rparr>
          in if bytes < 0 \<or> cr_windowBytes r < 0 \<or> cr_sessionBytes r < 0 \<or> cr_windowBytes r > max_int64 - cr_sessionBytes r then (None, r1)
             else
               let external = cr_windowBytes r + cr_sessionBytes r
               in if bytes > max_int64 - external then (None, r1)
                  else
                    let proposed = external + bytes
                    in if RejectNew resource \<or> AdmissionLimitWithExternal resource proposed 0 < charged then (None, r1)
                       else (Some \<lparr>ls_counted = True, ls_owner = own, ls_bytes = bytes, ls_done = False\<rparr>, charge_owner own bytes r1))"

definition release_lease :: "receive_lease \<Rightarrow> agentTunnelCapacityRuntime \<Rightarrow> receive_lease \<times> agentTunnelCapacityRuntime" where
  "release_lease l r = (if ls_done l \<or> \<not> ls_counted l then (l, r) else (l\<lparr>ls_done := True\<rparr>, charge_owner (ls_owner l) (- ls_bytes l) r))"

definition tryReserveAggregateSessionResource ::
  "agentTunnelCapacityRuntime \<Rightarrow> resource_sample \<Rightarrow> resource_sample \<Rightarrow> int \<Rightarrow> int \<Rightarrow> (receive_lease \<times> receive_lease) option \<times> agentTunnelCapacityRuntime" where
  \<comment> \<open>two critical sections in sequence; the pool is released again when the metadata is refused\<close>
  "tryReserveAggregateSessionResource r rs1 rs2 poolBytes metadataBytes =
     (case tryReserveOwnedReceiveResource r rs1 poolBytes agentReceiveResourceAggregateInitialPool of
        (None, r1) \<Rightarrow> (None, r1)
      | (Some pool, r1) \<Rightarrow>
          (case tryReserveOwnedReceiveResource r1 rs2 metadataBytes agentReceiveResourceAggregateSessionMetadata of
             (None, r2) \<Rightarrow> (None, snd (release_lease pool r2))
           | (Some metadata, r2) \<Rightarrow> (Some (pool, metadata), r2)))"


section \<open>All interleavings\<close>

record capacity_world =
  w_rt :: agentTunnelCapacityRuntime
  w_streams :: "bool list" \<comment> \<open>the ordinary leases handed out, \<open>True\<close> until released\<close>
  w_res :: "agentControlSessionReservation list"
  w_ctl :: "(nat \<times> bool) list" \<comment> \<open>control leases: their reservation, \<open>True\<close> until released\<close>
  w_leases :: "receive_lease list"

inductive capacity_reach :: "capacity_world \<Rightarrow> bool" where
  start: "newAgentTunnelCapacityRuntime m adaptive ctl = Some rt \<Longrightarrow> (case ctl of None \<Rightarrow> True | Some c \<Rightarrow> controller_ok c) \<Longrightarrow>
    capacity_reach \<lparr>w_rt = rt, w_streams = [], w_res = [], w_ctl = [], w_leases = []\<rparr>"
| acquire: "capacity_reach w \<Longrightarrow> tryAcquire (w_rt w) rs = ((snap, granted), r) \<Longrightarrow>
    capacity_reach (w\<lparr>w_streams := (if granted then True # w_streams w else w_streams w), w_rt := r\<rparr>)"
| release: "capacity_reach w \<Longrightarrow> i < length (w_streams w) \<Longrightarrow> w_streams w ! i \<Longrightarrow>
    capacity_reach (w\<lparr>w_streams := (w_streams w)[i := False], w_rt := release_ordinary (w_rt w) rs\<rparr>)"
| reserve: "capacity_reach w \<Longrightarrow> tryReserveControlSession (w_rt w) rs bytes slots = (v, r) \<Longrightarrow>
    capacity_reach (w\<lparr>w_res := w_res w @ (case v of None \<Rightarrow> [] | Some x \<Rightarrow> [x]), w_rt := r\<rparr>)"
| activated: "capacity_reach w \<Longrightarrow> i < length (w_res w) \<Longrightarrow> activate (w_rt w) (w_res w ! i) m bytes slots = (done, v, r) \<Longrightarrow>
    capacity_reach (w\<lparr>w_res := (w_res w)[i := v], w_rt := r\<rparr>)"
| control: "capacity_reach w \<Longrightarrow> i < length (w_res w) \<Longrightarrow> control_tryAcquire (w_rt w) (w_res w ! i) = (granted, v, r) \<Longrightarrow>
    capacity_reach (w\<lparr>w_res := (w_res w)[i := v], w_ctl := (if granted then (i, True) # w_ctl w else w_ctl w), w_rt := r\<rparr>)"
| control_done: "capacity_reach w \<Longrightarrow> j < length (w_ctl w) \<Longrightarrow> w_ctl w ! j = (i, True) \<Longrightarrow>
    release_control (w_rt w) rs (w_res w ! i) = (v, r) \<Longrightarrow>
    capacity_reach (w\<lparr>w_res := (w_res w)[i := v], w_ctl := (w_ctl w)[j := (i, False)], w_rt := r\<rparr>)"
| control_close: "capacity_reach w \<Longrightarrow> i < length (w_res w) \<Longrightarrow> control_release (w_rt w) (w_res w ! i) = (v, r) \<Longrightarrow>
    capacity_reach (w\<lparr>w_res := (w_res w)[i := v], w_rt := r\<rparr>)"
| lease: "capacity_reach w \<Longrightarrow> tryReserveOwnedReceiveResource (w_rt w) rs bytes own = (l, r) \<Longrightarrow>
    capacity_reach (w\<lparr>w_leases := (case l of None \<Rightarrow> [] | Some x \<Rightarrow> [x]) @ w_leases w, w_rt := r\<rparr>)"
| lease_done: "capacity_reach w \<Longrightarrow> j < length (w_leases w) \<Longrightarrow> release_lease (w_leases w ! j) (w_rt w) = (l, r) \<Longrightarrow>
    capacity_reach (w\<lparr>w_leases := (w_leases w)[j := l], w_rt := r\<rparr>)"
| set_maximum: "capacity_reach w \<Longrightarrow> capacity_reach (w\<lparr>w_rt := setMaximum (w_rt w) m\<rparr>)"
| rejection: "capacity_reach w \<Longrightarrow> capacity_reach (w\<lparr>w_rt := recordPressureRejection (w_rt w)\<rparr>)"
| look: "capacity_reach w \<Longrightarrow> capacity_reach (w\<lparr>w_rt := snd (snapshotLockedWithForce (w_rt w) rs force)\<rparr>)"
| worker: "capacity_reach w \<Longrightarrow> capacity_reach (w\<lparr>w_rt := (w_rt w)\<lparr>cr_scavengeRunning := b1, cr_scavengeNeeded := b2\<rparr>\<rparr>)"
  \<comment> \<open>the flags as the scavenging goroutine leaves them\<close>

section \<open>Ledgers\<close>

definition live :: "bool list \<Rightarrow> int" where
  "live bs = sum_list (map of_bool bs)"

definition live_of :: "nat \<Rightarrow> (nat \<times> bool) list \<Rightarrow> int" where
  "live_of i cs = sum_list (map (\<lambda>(j, b). of_bool (b \<and> j = i)) cs)"

definition res_sum :: "(agentControlSessionReservation \<Rightarrow> int) \<Rightarrow> agentControlSessionReservation list \<Rightarrow> int" where
  "res_sum f vs = sum_list (map (\<lambda>v. if rv_released v then 0 else f v) vs)"

definition lease_sum :: "agentReceiveResourceOwner set \<Rightarrow> receive_lease list \<Rightarrow> int" where
  "lease_sum A ls = sum_list (map (\<lambda>l. if ls_counted l \<and> \<not> ls_done l \<and> ls_owner l \<in> A then ls_bytes l else 0) ls)"

definition window_owners :: "agentReceiveResourceOwner set" where
  "window_owners = {agentReceiveResourceStreamGrowth, agentReceiveResourceLegacyStreamSupplement}"

definition res_ok :: "agentControlSessionReservation \<Rightarrow> bool" where
  "res_ok v \<longleftrightarrow> 0 \<le> rv_bytes v \<and> 1 \<le> rv_slots v \<and> 0 \<le> rv_active v \<and> rv_active v \<le> rv_slots v \<and> (rv_released v \<longrightarrow> rv_active v = 0)"

definition lease_ok :: "receive_lease \<Rightarrow> bool" where
  "lease_ok l \<longleftrightarrow> (ls_counted l \<longrightarrow> 0 \<le> ls_bytes l)"

definition byte_ledger :: "capacity_world \<Rightarrow> bool" where
  "byte_ledger w \<longleftrightarrow> (let r = w_rt w; ls = w_leases w; rb = res_sum rv_bytes (w_res w) in
     cr_windowBytes r = lease_sum window_owners ls \<and>
     cr_sessionBytes r = lease_sum (- window_owners) ls + rb \<and>
     cr_aggregateInitialPoolBytes r = lease_sum {agentReceiveResourceAggregateInitialPool} ls \<and>
     cr_aggregateGrowthPoolBytes r = lease_sum {agentReceiveResourceAggregateGrowthPool} ls \<and>
     cr_aggregateSessionMetadataBytes r = lease_sum {agentReceiveResourceAggregateSessionMetadata} ls \<and>
     cr_legacyControlSupplementBytes r = lease_sum {agentReceiveResourceLegacyControlSupplement} ls + rb \<and>
     cr_legacySessionEnvelopeBytes r = lease_sum {agentReceiveResourceLegacySessionEnvelope} ls \<and>
     cr_legacyStreamSupplementBytes r = lease_sum {agentReceiveResourceLegacyStreamSupplement} ls \<and>
     cr_windowBytes r + cr_sessionBytes r \<le> max_int64)"

definition count_ledger :: "capacity_world \<Rightarrow> bool" where
  "count_ledger w \<longleftrightarrow> (let r = w_rt w in
     cr_inUse r = live (w_streams w) \<and>
     cr_controlReservedSlots r = res_sum rv_slots (w_res w) \<and>
     cr_controlInUse r = sum_list (map rv_active (w_res w)) \<and>
     (\<forall>i < length (w_res w). rv_active (w_res w ! i) = live_of i (w_ctl w)) \<and>
     list_all (\<lambda>c. fst c < length (w_res w)) (w_ctl w))"

definition capacity_inv :: "capacity_world \<Rightarrow> bool" where
  "capacity_inv w \<longleftrightarrow> count_ledger w \<and> byte_ledger w \<and> list_all res_ok (w_res w) \<and> list_all lease_ok (w_leases w) \<and>
     (case cr_controller (w_rt w) of None \<Rightarrow> True | Some c \<Rightarrow> controller_ok c)"

subsection \<open>Sums over the leases\<close>

lemma sum_map_update: "i < length xs \<Longrightarrow> sum_list (map f (xs[i := v])) = sum_list (map f xs) - f (xs ! i) + f v" for f :: "'a \<Rightarrow> int"
  by (induction xs arbitrary: i) (auto split: nat.split)

lemma sum_map_nonneg: "list_all P xs \<Longrightarrow> (\<And>x. P x \<Longrightarrow> 0 \<le> f x) \<Longrightarrow> 0 \<le> sum_list (map f xs)" for f :: "'a \<Rightarrow> int"
  by (induction xs) auto

lemma sum_map_ge: "list_all P xs \<Longrightarrow> (\<And>x. P x \<Longrightarrow> 0 \<le> f x) \<Longrightarrow> i < length xs \<Longrightarrow> f (xs ! i) \<le> sum_list (map f xs)" for f :: "'a \<Rightarrow> int"
proof (induction xs arbitrary: i)
  case (Cons x xs)
  then have "0 \<le> sum_list (map f xs)" using sum_map_nonneg [of P xs f] by simp
  with Cons show ?case by (cases i) (auto intro: add_increasing)
qed simp

lemma live_Cons [simp]: "live (b # bs) = of_bool b + live bs" and live_Nil [simp]: "live [] = 0"
  by (simp_all add: live_def)

lemma live_update: "i < length bs \<Longrightarrow> bs ! i \<Longrightarrow> live (bs[i := False]) = live bs - 1"
  by (simp add: live_def sum_map_update)

lemma live_nonneg [simp]: "0 \<le> live bs"
  by (induction bs) auto

lemma live_pos: "i < length bs \<Longrightarrow> bs ! i \<Longrightarrow> 0 < live bs"
  using live_update [of i bs] live_nonneg [of "bs[i := False]"] by linarith

lemma live_of_Cons [simp]: "live_of i ((j, b) # cs) = of_bool (b \<and> j = i) + live_of i cs" and live_of_Nil [simp]: "live_of i [] = 0"
  by (simp_all add: live_of_def)

lemma live_of_update: "j < length cs \<Longrightarrow> cs ! j = (i, True) \<Longrightarrow> live_of k (cs[j := (i, False)]) = live_of k cs - of_bool (k = i)"
  by (auto simp: live_of_def sum_map_update)

lemma live_of_nonneg [simp]: "0 \<le> live_of i cs"
  by (induction cs) auto

lemma live_of_pos: "j < length cs \<Longrightarrow> cs ! j = (i, True) \<Longrightarrow> 0 < live_of i cs"
  using live_of_update [of j cs i i] live_of_nonneg [of i "cs[j := (i, False)]"] by simp

lemma live_of_out: "list_all (\<lambda>c. fst c < n) cs \<Longrightarrow> n \<le> i \<Longrightarrow> live_of i cs = 0"
  by (induction cs) auto

lemma res_sum_append [simp]: "res_sum f (vs @ [v]) = res_sum f vs + (if rv_released v then 0 else f v)" and res_sum_Nil [simp]: "res_sum f [] = 0"
  by (simp_all add: res_sum_def)

lemma res_sum_update: "i < length vs \<Longrightarrow>
  res_sum f (vs[i := v]) = res_sum f vs - (if rv_released (vs ! i) then 0 else f (vs ! i)) + (if rv_released v then 0 else f v)"
  by (simp add: res_sum_def sum_map_update)

lemma lease_sum_Cons [simp]:
  "lease_sum A (l # ls) = (if ls_counted l \<and> \<not> ls_done l \<and> ls_owner l \<in> A then ls_bytes l else 0) + lease_sum A ls"
  and lease_sum_Nil [simp]: "lease_sum A [] = 0"
  by (simp_all add: lease_sum_def)

lemma lease_sum_done: "j < length ls \<Longrightarrow> \<not> ls_done (ls ! j) \<Longrightarrow> ls_counted (ls ! j) \<Longrightarrow>
  lease_sum A (ls[j := (ls ! j)\<lparr>ls_done := True\<rparr>]) = lease_sum A ls - (if ls_owner (ls ! j) \<in> A then ls_bytes (ls ! j) else 0)"
  by (simp add: lease_sum_def sum_map_update)

lemma lease_sum_nonneg: "list_all lease_ok ls \<Longrightarrow> 0 \<le> lease_sum A ls"
  unfolding lease_sum_def by (rule sum_map_nonneg [of lease_ok]) (auto simp: lease_ok_def)

lemma res_sum_nonneg: "list_all res_ok vs \<Longrightarrow> (\<And>v. res_ok v \<Longrightarrow> 0 \<le> f v) \<Longrightarrow> 0 \<le> res_sum f vs"
  unfolding res_sum_def by (rule sum_map_nonneg [of res_ok]) auto

subsection \<open>Helpers that leave the ledgers alone\<close>

definition ledger_of :: "agentTunnelCapacityRuntime \<Rightarrow> int list" where
  "ledger_of r = [cr_inUse r, cr_controlInUse r, cr_controlReservedSlots r, cr_windowBytes r, cr_sessionBytes r, cr_aggregateInitialPoolBytes r,
     cr_aggregateGrowthPoolBytes r, cr_aggregateSessionMetadataBytes r, cr_legacyControlSupplementBytes r, cr_legacySessionEnvelopeBytes r,
     cr_legacyStreamSupplementBytes r]"

definition rt_ok :: "agentTunnelCapacityRuntime \<Rightarrow> bool" where
  "rt_ok r \<longleftrightarrow> (case cr_controller r of None \<Rightarrow> True | Some c \<Rightarrow> controller_ok c)"

lemma capacity_inv_cong:
  assumes "capacity_inv (w\<lparr>w_rt := r\<rparr>)" "ledger_of r' = ledger_of r" "rt_ok r'"
  shows "capacity_inv (w\<lparr>w_rt := r'\<rparr>)"
  using assms by (simp add: capacity_inv_def count_ledger_def byte_ledger_def ledger_of_def rt_ok_def Let_def)

lemma snap_eqs: "amc_Snapshot c rs MaxAdaptiveConcurrentStreamsLimit n = capacity_snap False c rs n"
  "amc_ForceRefresh c rs MaxAdaptiveConcurrentStreamsLimit n = capacity_snap True c rs n"
  by (simp_all add: amc_Snapshot_def amc_ForceRefresh_def capacity_snap_def)

lemma snapshot_ledger [simp]: "ledger_of (snd (snapshotLockedWithForce r rs force)) = ledger_of r"
  by (simp add: snapshotLockedWithForce_def ledger_of_def Let_def split: option.splits prod.splits)

lemma snapshot_rt_ok [simp]: "rt_ok r \<Longrightarrow> rt_ok (snd (snapshotLockedWithForce r rs force))"
  using capacity_snap_facts(1)
  by (auto simp: snapshotLockedWithForce_def rt_ok_def Let_def snap_eqs split_beta split: option.splits)

lemma finish_ledger [simp]: "ledger_of (snd (finishActiveReleaseLocked r rs)) = ledger_of r"
proof -
  have "ledger_of (r\<lparr>cr_scavengeNeeded := b\<rparr>) = ledger_of r" for b by (simp add: ledger_of_def)
  then show ?thesis by (simp add: finishActiveReleaseLocked_def snapshotLocked_def Let_def split_beta)
qed

lemma finish_rt_ok [simp]: "rt_ok r \<Longrightarrow> rt_ok (snd (finishActiveReleaseLocked r rs))"
proof -
  have "rt_ok (r\<lparr>cr_scavengeNeeded := b\<rparr>) = rt_ok r" for b by (simp add: rt_ok_def)
  then show "rt_ok r \<Longrightarrow> ?thesis" by (simp add: finishActiveReleaseLocked_def snapshotLocked_def Let_def split_beta)
qed

lemma scavenge_ledger [simp]: "ledger_of (runScavengeAfterRelease r b) = ledger_of r" "rt_ok (runScavengeAfterRelease r b) = rt_ok r"
  by (simp_all add: runScavengeAfterRelease_def requestMemoryScavenge_def ledger_of_def rt_ok_def Let_def)

subsection \<open>Every operation keeps the ledgers\<close>

lemmas inv_defs = capacity_inv_def count_ledger_def byte_ledger_def Let_def

lemma inv_rt_ok: "capacity_inv w \<Longrightarrow> rt_ok (w_rt w)"
  by (simp add: capacity_inv_def rt_ok_def)

lemma inv_keep:
  assumes "capacity_inv w" "ledger_of r = ledger_of (w_rt w)" "rt_ok r"
  shows "capacity_inv (w\<lparr>w_rt := r\<rparr>)"
proof -
  have "capacity_inv (w\<lparr>w_rt := w_rt w\<rparr>)" using assms(1) by simp
  from capacity_inv_cong [OF this assms(2,3)] show ?thesis .
qed

lemma tryAcquire_effect:
  assumes "tryAcquire r rs = ((snap, granted), r')"
  shows "ledger_of r' = ledger_of (if granted then r\<lparr>cr_inUse := cr_inUse r + 1\<rparr> else r)" "rt_ok r \<Longrightarrow> rt_ok r'"
proof -
  let ?r = "snd (snapshotLockedWithForce r rs False)"
  have e: "ledger_of ?r = ledger_of r" and ok: "rt_ok r \<Longrightarrow> rt_ok ?r" by simp_all
  show "ledger_of r' = ledger_of (if granted then r\<lparr>cr_inUse := cr_inUse r + 1\<rparr> else r)"
    using assms e by (auto simp: tryAcquire_def snapshotLocked_def Let_def split_beta ledger_of_def split: if_splits)
  show "rt_ok r \<Longrightarrow> rt_ok r'"
    using assms ok by (auto simp: tryAcquire_def snapshotLocked_def Let_def split_beta rt_ok_def split: if_splits)
qed

lemma inv_acquire:
  assumes "capacity_inv w" "tryAcquire (w_rt w) rs = ((snap, granted), r)"
  shows "capacity_inv (w\<lparr>w_streams := (if granted then True # w_streams w else w_streams w), w_rt := r\<rparr>)"
proof -
  let ?r = "if granted then (w_rt w)\<lparr>cr_inUse := cr_inUse (w_rt w) + 1\<rparr> else w_rt w"
  let ?w = "w\<lparr>w_streams := (if granted then True # w_streams w else w_streams w)\<rparr>"
  have base: "capacity_inv (?w\<lparr>w_rt := ?r\<rparr>)" using assms(1) by (simp add: inv_defs)
  have "capacity_inv (?w\<lparr>w_rt := r\<rparr>)"
    by (rule capacity_inv_cong [OF base]) (use tryAcquire_effect [OF assms(2)] inv_rt_ok [OF assms(1)] in auto)
  then show ?thesis by simp
qed

lemma release_ordinary_effect:
  "ledger_of (release_ordinary r rs) = ledger_of (if cr_inUse r > 0 then r\<lparr>cr_inUse := cr_inUse r - 1\<rparr> else r)"
  "rt_ok r \<Longrightarrow> rt_ok (release_ordinary r rs)"
proof -
  have "rt_ok r \<Longrightarrow> rt_ok (if cr_inUse r > 0 then r\<lparr>cr_inUse := cr_inUse r - 1\<rparr> else r)" by (simp add: rt_ok_def)
  then show "ledger_of (release_ordinary r rs) = ledger_of (if cr_inUse r > 0 then r\<lparr>cr_inUse := cr_inUse r - 1\<rparr> else r)"
    "rt_ok r \<Longrightarrow> rt_ok (release_ordinary r rs)"
    by (simp_all add: release_ordinary_def Let_def split_beta)
qed

lemma inv_release:
  assumes "capacity_inv w" "i < length (w_streams w)" "w_streams w ! i"
  shows "capacity_inv (w\<lparr>w_streams := (w_streams w)[i := False], w_rt := release_ordinary (w_rt w) rs\<rparr>)"
proof -
  let ?r = "(w_rt w)\<lparr>cr_inUse := cr_inUse (w_rt w) - 1\<rparr>" and ?w = "w\<lparr>w_streams := (w_streams w)[i := False]\<rparr>"
  have pos: "cr_inUse (w_rt w) > 0" using live_pos [OF assms(2,3)] assms(1) by (simp add: inv_defs)
  have base: "capacity_inv (?w\<lparr>w_rt := ?r\<rparr>)" using assms by (simp add: inv_defs live_update)
  have "capacity_inv (?w\<lparr>w_rt := release_ordinary (w_rt w) rs\<rparr>)"
    by (rule capacity_inv_cong [OF base]) (use release_ordinary_effect [of "w_rt w" rs] inv_rt_ok [OF assms(1)] pos in auto)
  then show ?thesis by simp
qed

lemma reserve_effect:
  assumes "tryReserveControlSession r rs bytes slots = (v, r')"
  shows "v = None \<Longrightarrow> ledger_of r' = ledger_of r"
    and "v = Some x \<Longrightarrow> x = \<lparr>rv_bytes = bytes, rv_slots = slots, rv_active = 0, rv_released = False\<rparr> \<and> 0 \<le> bytes \<and> 1 \<le> slots
      \<and> cr_windowBytes r + cr_sessionBytes r + bytes \<le> max_int64
      \<and> ledger_of r' = ledger_of (r\<lparr>cr_sessionBytes := cr_sessionBytes r + bytes,
          cr_legacyControlSupplementBytes := cr_legacyControlSupplementBytes r + bytes, cr_controlReservedSlots := cr_controlReservedSlots r + slots\<rparr>)"
    and "rt_ok r \<Longrightarrow> rt_ok r'"
  using assms capacity_snap_facts(1)
  by (auto simp: tryReserveControlSession_def Let_def ledger_of_def rt_ok_def snap_eqs split_beta split: if_splits option.splits)

lemma inv_reserve:
  assumes "capacity_inv w" "tryReserveControlSession (w_rt w) rs bytes slots = (v, r)"
  shows "capacity_inv (w\<lparr>w_res := w_res w @ (case v of None \<Rightarrow> [] | Some x \<Rightarrow> [x]), w_rt := r\<rparr>)"
proof (cases v)
  case None
  then show ?thesis
    using reserve_effect [OF assms(2)] inv_keep [OF assms(1)] inv_rt_ok [OF assms(1)] by simp
next
  case (Some x)
  note e = reserve_effect(2) [OF assms(2) Some]
  let ?r = "(w_rt w)\<lparr>cr_sessionBytes := cr_sessionBytes (w_rt w) + bytes,
    cr_legacyControlSupplementBytes := cr_legacyControlSupplementBytes (w_rt w) + bytes,
    cr_controlReservedSlots := cr_controlReservedSlots (w_rt w) + slots\<rparr>"
  let ?w = "w\<lparr>w_res := w_res w @ [x]\<rparr>"
  have base: "capacity_inv (?w\<lparr>w_rt := ?r\<rparr>)"
    using assms(1) e by (auto simp: inv_defs res_ok_def nth_append live_of_out list_all_iff less_Suc_eq)
  have "capacity_inv (?w\<lparr>w_rt := r\<rparr>)"
    by (rule capacity_inv_cong [OF base]) (use e reserve_effect(3) [OF assms(2)] inv_rt_ok [OF assms(1)] in auto)
  with Some show ?thesis by simp
qed

lemma res_nth: "capacity_inv w \<Longrightarrow> i < length (w_res w) \<Longrightarrow> res_ok (w_res w ! i)"
  by (simp add: capacity_inv_def list_all_length)

lemma list_all_set: "list_all P xs \<Longrightarrow> P v \<Longrightarrow> list_all P (xs[i := v])"
  by (auto simp: list_all_iff dest: set_update_subset_insert [THEN subsetD])

lemma inv_activate:
  assumes "capacity_inv w" "i < length (w_res w)" "activate (w_rt w) (w_res w ! i) m bytes slots = (done, v, r)"
  shows "capacity_inv (w\<lparr>w_res := (w_res w)[i := v], w_rt := r\<rparr>)"
proof (cases "done")
  case False
  then have "v = w_res w ! i" "r = w_rt w" using assms(3) by (auto simp: activate_def Let_def split: if_splits)
  with assms show ?thesis by simp
next
  case True
  let ?s = "w_res w ! i"
  have g: "0 \<le> bytes" "1 \<le> slots" "slots \<le> rv_slots ?s" "bytes \<le> rv_bytes ?s" "\<not> rv_released ?s" "rv_active ?s = 0"
    and v: "v = ?s\<lparr>rv_bytes := bytes, rv_slots := slots\<rparr>"
    and r: "r = (w_rt w)\<lparr>cr_sessionBytes := cr_sessionBytes (w_rt w) - (rv_bytes ?s - bytes),
        cr_legacyControlSupplementBytes := cr_legacyControlSupplementBytes (w_rt w) - (rv_bytes ?s - bytes),
        cr_controlReservedSlots := cr_controlReservedSlots (w_rt w) - (rv_slots ?s - slots),
        cr_maximum := agentTunnelCapacityMaximumInt m\<rparr>"
    using assms(3) True by (auto simp: activate_def Let_def split: if_splits)
  have "res_ok v" using g v by (simp add: res_ok_def)
  moreover have "rv_active ((w_res w)[i := v] ! k) = rv_active (w_res w ! k)" if "k < length (w_res w)" for k
    using that v by (cases "k = i") auto
  moreover have "sum_list (map rv_active ((w_res w)[i := v])) = sum_list (map rv_active (w_res w))"
    using assms(2) v by (simp add: sum_map_update)
  ultimately show ?thesis
    using assms(1,2) g unfolding r by (auto simp: inv_defs res_sum_update list_all_set v)
qed

lemma inv_control:
  assumes "capacity_inv w" "i < length (w_res w)" "control_tryAcquire (w_rt w) (w_res w ! i) = (granted, v, r)"
  shows "capacity_inv (w\<lparr>w_res := (w_res w)[i := v], w_ctl := (if granted then (i, True) # w_ctl w else w_ctl w), w_rt := r\<rparr>)"
proof (cases granted)
  case False
  then have "v = w_res w ! i" "r = (w_rt w)\<lparr>cr_rejectedFixed := u64 (cr_rejectedFixed (w_rt w) + 1)\<rparr>"
    using assms(3) by (auto simp: control_tryAcquire_def Let_def split: if_splits)
  with assms False show ?thesis by (simp add: inv_defs)
next
  case True
  let ?s = "w_res w ! i"
  have g: "\<not> rv_released ?s" "rv_active ?s < rv_slots ?s" and v: "v = ?s\<lparr>rv_active := rv_active ?s + 1\<rparr>"
    and r: "r = (w_rt w)\<lparr>cr_controlInUse := cr_controlInUse (w_rt w) + 1\<rparr>"
    using assms(3) True by (auto simp: control_tryAcquire_def Let_def split: if_splits)
  have "res_ok v" using g v res_nth [OF assms(1,2)] by (simp add: res_ok_def)
  moreover have "rv_active ((w_res w)[i := v] ! k) = rv_active (w_res w ! k) + of_bool (k = i)" if "k < length (w_res w)" for k
    using that v by (cases "k = i") auto
  ultimately show ?thesis
    using assms(1,2) g True unfolding r by (auto simp: inv_defs res_sum_update sum_map_update list_all_set v)
qed

lemma release_control_effect:
  assumes "release_control r rs s = (v, r')"
  shows "v = (if rv_active s > 0 then s\<lparr>rv_active := rv_active s - 1\<rparr> else s)"
    "ledger_of r' = ledger_of (if cr_controlInUse r > 0 then r\<lparr>cr_controlInUse := cr_controlInUse r - 1\<rparr> else r)"
    "rt_ok r \<Longrightarrow> rt_ok r'"
proof -
  let ?r = "if cr_controlInUse r > 0 then r\<lparr>cr_controlInUse := cr_controlInUse r - 1\<rparr> else r"
  have ok: "rt_ok r \<Longrightarrow> rt_ok ?r" by (simp add: rt_ok_def)
  have v: "v = (if rv_active s > 0 then s\<lparr>rv_active := rv_active s - 1\<rparr> else s)"
    and r': "r' = runScavengeAfterRelease (snd (finishActiveReleaseLocked ?r rs)) (fst (finishActiveReleaseLocked ?r rs))"
    using assms unfolding release_control_def Let_def split_beta prod.inject by (simp_all only:)
  from v show "v = (if rv_active s > 0 then s\<lparr>rv_active := rv_active s - 1\<rparr> else s)" .
  show "ledger_of r' = ledger_of ?r" "rt_ok r \<Longrightarrow> rt_ok r'"
    unfolding r' scavenge_ledger finish_ledger using ok finish_rt_ok by blast+
qed

lemma inv_control_done:
  assumes "capacity_inv w" "j < length (w_ctl w)" "w_ctl w ! j = (i, True)" "release_control (w_rt w) rs (w_res w ! i) = (v, r)"
  shows "capacity_inv (w\<lparr>w_res := (w_res w)[i := v], w_ctl := (w_ctl w)[j := (i, False)], w_rt := r\<rparr>)"
proof -
  let ?s = "w_res w ! i"
  have i: "i < length (w_res w)"
    using assms(1-3) by (auto simp: inv_defs list_all_length)
  then have act: "rv_active ?s > 0" using live_of_pos [OF assms(2,3)] assms(1) by (simp add: inv_defs)
  have "rv_active ?s \<le> sum_list (map rv_active (w_res w))"
    using assms(1) i by (intro sum_map_ge [of res_ok]) (auto simp: capacity_inv_def res_ok_def)
  then have pos: "cr_controlInUse (w_rt w) > 0" using act assms(1) by (simp add: inv_defs)
  let ?v = "?s\<lparr>rv_active := rv_active ?s - 1\<rparr>" and ?r = "(w_rt w)\<lparr>cr_controlInUse := cr_controlInUse (w_rt w) - 1\<rparr>"
  let ?w = "w\<lparr>w_res := (w_res w)[i := ?v], w_ctl := (w_ctl w)[j := (i, False)]\<rparr>"
  have v: "v = ?v" using release_control_effect(1) [OF assms(4)] act by simp
  have "res_ok ?v" using act res_nth [OF assms(1) i] by (auto simp: res_ok_def)
  moreover have "rv_active ((w_res w)[i := ?v] ! k) = rv_active (w_res w ! k) - of_bool (k = i)" if "k < length (w_res w)" for k
    using that by (cases "k = i") auto
  moreover have "list_all (\<lambda>c. fst c < length (w_res w)) ((w_ctl w)[j := (i, False)])"
    using assms(1) i by (intro list_all_set) (auto simp: inv_defs)
  ultimately have base: "capacity_inv (?w\<lparr>w_rt := ?r\<rparr>)"
    using assms(1-3) i by (auto simp: inv_defs res_sum_update sum_map_update list_all_set live_of_update)
  have "capacity_inv (?w\<lparr>w_rt := r\<rparr>)"
    by (rule capacity_inv_cong [OF base]) (use release_control_effect(2,3) [OF assms(4)] inv_rt_ok [OF assms(1)] pos in auto)
  with v show ?thesis by simp
qed

lemma inv_control_close:
  assumes "capacity_inv w" "i < length (w_res w)" "control_release (w_rt w) (w_res w ! i) = (v, r)"
  shows "capacity_inv (w\<lparr>w_res := (w_res w)[i := v], w_rt := r\<rparr>)"
proof (cases "rv_released (w_res w ! i) \<or> rv_active (w_res w ! i) \<noteq> 0")
  case True
  with assms show ?thesis by (auto simp: control_release_def)
next
  case False
  let ?s = "w_res w ! i"
  have v: "v = ?s\<lparr>rv_released := True\<rparr>"
    and r: "r = (w_rt w)\<lparr>cr_sessionBytes := cr_sessionBytes (w_rt w) - rv_bytes ?s,
        cr_legacyControlSupplementBytes := cr_legacyControlSupplementBytes (w_rt w) - rv_bytes ?s,
        cr_controlReservedSlots := cr_controlReservedSlots (w_rt w) - rv_slots ?s\<rparr>"
    using assms(3) False by (auto simp: control_release_def)
  have s: "res_ok ?s" by (rule res_nth [OF assms(1,2)])
  then have "res_ok v" using False v by (simp add: res_ok_def)
  moreover have "rv_active ((w_res w)[i := v] ! k) = rv_active (w_res w ! k)" if "k < length (w_res w)" for k
    using that v by (cases "k = i") auto
  moreover have "sum_list (map rv_active ((w_res w)[i := v])) = sum_list (map rv_active (w_res w))"
    using assms(2) v by (simp add: sum_map_update)
  ultimately show ?thesis
    using assms(1,2) False s unfolding r by (auto simp: inv_defs res_sum_update list_all_set v res_ok_def)
qed

lemma lease_effect:
  assumes "tryReserveOwnedReceiveResource r rs bytes own = (l, r')"
  shows "l = None \<Longrightarrow> ledger_of r' = ledger_of r"
    and "l = Some x \<Longrightarrow> \<not> ls_counted x \<Longrightarrow> r' = r \<and> cr_controller r = None"
    and "l = Some x \<Longrightarrow> ls_counted x \<Longrightarrow> x = \<lparr>ls_counted = True, ls_owner = own, ls_bytes = bytes, ls_done = False\<rparr> \<and> 0 \<le> bytes
      \<and> cr_windowBytes r + cr_sessionBytes r + bytes \<le> max_int64 \<and> (\<exists>ctl. r' = charge_owner own bytes (r\<lparr>cr_controller := ctl\<rparr>) \<and> ctl \<noteq> None)"
    and "rt_ok r \<Longrightarrow> rt_ok r'"
proof -
  show "l = None \<Longrightarrow> ledger_of r' = ledger_of r"
    using assms by (auto simp: tryReserveOwnedReceiveResource_def Let_def ledger_of_def split_beta split: if_splits option.splits)
  show "l = Some x \<Longrightarrow> \<not> ls_counted x \<Longrightarrow> r' = r \<and> cr_controller r = None"
    using assms by (auto simp: tryReserveOwnedReceiveResource_def Let_def split_beta split: if_splits option.splits)
  show "l = Some x \<Longrightarrow> ls_counted x \<Longrightarrow> x = \<lparr>ls_counted = True, ls_owner = own, ls_bytes = bytes, ls_done = False\<rparr> \<and> 0 \<le> bytes
      \<and> cr_windowBytes r + cr_sessionBytes r + bytes \<le> max_int64 \<and> (\<exists>ctl. r' = charge_owner own bytes (r\<lparr>cr_controller := ctl\<rparr>) \<and> ctl \<noteq> None)"
    using assms by (fastforce simp: tryReserveOwnedReceiveResource_def Let_def split_beta split: if_splits option.splits)
  have "cr_controller (charge_owner own b z) = cr_controller z" for b z by (cases own) simp_all
  then show "rt_ok r \<Longrightarrow> rt_ok r'"
    using assms capacity_snap_facts(1)
    by (auto simp: tryReserveOwnedReceiveResource_def Let_def snap_eqs rt_ok_def split_beta split: if_splits option.splits)
qed

lemma inv_charge:
  assumes "capacity_inv w" "0 \<le> bytes" "cr_windowBytes (w_rt w) + cr_sessionBytes (w_rt w) + bytes \<le> max_int64"
  shows "capacity_inv (w\<lparr>w_leases := \<lparr>ls_counted = True, ls_owner = own, ls_bytes = bytes, ls_done = False\<rparr> # w_leases w,
    w_rt := charge_owner own bytes (w_rt w)\<rparr>)"
  using assms by (cases own) (simp_all add: inv_defs window_owners_def lease_ok_def)

lemma inv_lease:
  assumes "capacity_inv w" "tryReserveOwnedReceiveResource (w_rt w) rs bytes own = (l, r)"
  shows "capacity_inv (w\<lparr>w_leases := (case l of None \<Rightarrow> [] | Some x \<Rightarrow> [x]) @ w_leases w, w_rt := r\<rparr>)"
proof (cases l)
  case None
  then show ?thesis using lease_effect [OF assms(2)] inv_keep [OF assms(1)] inv_rt_ok [OF assms(1)] by simp
next
  case (Some x)
  show ?thesis
  proof (cases "ls_counted x")
    case False
    with lease_effect(2) [OF assms(2) Some] assms(1) Some show ?thesis
      by (simp add: inv_defs lease_ok_def)
  next
    case True
    from lease_effect(3) [OF assms(2) Some True] obtain ctl where e: "x = \<lparr>ls_counted = True, ls_owner = own, ls_bytes = bytes, ls_done = False\<rparr>"
      "0 \<le> bytes" "cr_windowBytes (w_rt w) + cr_sessionBytes (w_rt w) + bytes \<le> max_int64"
      "r = charge_owner own bytes ((w_rt w)\<lparr>cr_controller := ctl\<rparr>)" by blast
    have "ledger_of (charge_owner own bytes ((w_rt w)\<lparr>cr_controller := ctl\<rparr>)) = ledger_of (charge_owner own bytes (w_rt w))"
      by (cases own) (simp_all add: ledger_of_def)
    with capacity_inv_cong [OF inv_charge [OF assms(1) e(2,3), of own], of r] lease_effect(4) [OF assms(2) inv_rt_ok [OF assms(1)]] e(1,4) Some
    show ?thesis by simp
  qed
qed

lemma inv_lease_done:
  assumes "capacity_inv w" "j < length (w_leases w)" "release_lease (w_leases w ! j) (w_rt w) = (l, r)"
  shows "capacity_inv (w\<lparr>w_leases := (w_leases w)[j := l], w_rt := r\<rparr>)"
proof (cases "ls_done (w_leases w ! j) \<or> \<not> ls_counted (w_leases w ! j)")
  case True
  with assms show ?thesis by (auto simp: release_lease_def)
next
  case False
  let ?l = "w_leases w ! j"
  have l: "l = ?l\<lparr>ls_done := True\<rparr>" and r: "r = charge_owner (ls_owner ?l) (- ls_bytes ?l) (w_rt w)"
    using assms(3) False by (auto simp: release_lease_def)
  have ok: "lease_ok ?l" using assms(1,2) by (simp add: capacity_inv_def list_all_length)
  then have "0 \<le> ls_bytes ?l" using False by (simp add: lease_ok_def)
  moreover have "list_all lease_ok ((w_leases w)[j := l])"
    using assms(1) ok l by (intro list_all_set) (simp_all add: capacity_inv_def lease_ok_def)
  ultimately show ?thesis
    using assms(1,2) False unfolding r
    by (cases "ls_owner ?l") (simp_all add: inv_defs lease_sum_done l window_owners_def)
qed

lemma default_controller_ok: "NewAdaptiveMemoryController DefaultAdaptiveMemoryConfig = Inr c \<Longrightarrow> controller_ok c"
proof -
  assume "NewAdaptiveMemoryController DefaultAdaptiveMemoryConfig = Inr c"
  then have c: "c = sample_controller"
    using sample_valid by (simp add: NewAdaptiveMemoryController_def sample_controller_def)
  have "SampledAt (amc_snapshot sample_controller) = 0" by (simp add: sample_controller_def zero_snapshot_def)
  moreover have "EstimatedBytesPerAdmission (amc_config sample_controller) * MaxAdaptiveConcurrentStreamsLimit \<le> max_int64"
    by (simp add: sample_percent DefaultAdaptiveMemoryConfig_def tunnel_consts max_int64_def)
  ultimately show "controller_ok c" using sample_valid unfolding c controller_ok_def by simp
qed

lemma new_runtime:
  assumes "newAgentTunnelCapacityRuntime m adaptive ctl = Some rt" "case ctl of None \<Rightarrow> True | Some c \<Rightarrow> controller_ok c"
  shows "rt_ok rt" "ledger_of rt = [0, 0, 0, 0, 0, 0, 0, 0, 0, 0, 0]"
  using assms default_controller_ok
  by (auto simp: newAgentTunnelCapacityRuntime_def Let_def ledger_of_def rt_ok_def split: if_splits sum.splits option.splits)

lemma new_runtime_total: "\<exists>rt. newAgentTunnelCapacityRuntime m adaptive ctl = Some rt"
  using sample_valid by (simp add: newAgentTunnelCapacityRuntime_def Let_def NewAdaptiveMemoryController_def sample_percent)

lemma capacity_inv_reach: "capacity_reach w \<Longrightarrow> capacity_inv w"
proof (induction rule: capacity_reach.induct)
  case (start m adaptive ctl rt)
  then show ?case using new_runtime [OF start] by (simp add: inv_defs ledger_of_def rt_ok_def max_int64_def)
next
  case (acquire w rs snap granted r)
  then show ?case by (intro inv_acquire)
next
  case (release w i rs)
  then show ?case by (intro inv_release)
next
  case (reserve w rs bytes slots v r)
  then show ?case by (intro inv_reserve)
next
  case (activated w i m bytes slots d v r)
  then show ?case by (intro inv_activate)
next
  case (control w i granted v r)
  then show ?case by (intro inv_control)
next
  case (control_done w j i rs v r)
  then show ?case by (intro inv_control_done)
next
  case (control_close w i v r)
  then show ?case by (intro inv_control_close)
next
  case (lease w rs bytes own l r)
  then show ?case by (intro inv_lease)
next
  case (lease_done w j l r)
  then show ?case by (intro inv_lease_done)
next
  case (set_maximum w m)
  then show ?case by (intro inv_keep) (auto simp: setMaximum_def ledger_of_def rt_ok_def capacity_inv_def)
next
  case (rejection w)
  then show ?case by (intro inv_keep) (auto simp: recordPressureRejection_def ledger_of_def rt_ok_def capacity_inv_def)
next
  case (look w rs force)
  then show ?case by (intro inv_keep) (simp_all add: inv_rt_ok)
next
  case (worker w b1 b2)
  then show ?case by (intro inv_keep) (auto simp: ledger_of_def rt_ok_def capacity_inv_def)
qed

text \<open>C8: The agent's capacity ledgers are exact in every interleaving of admissions, refusals, releases, control sessions,
  renegotiations and receive leases: the stream count is the number of live ordinary leases, every control reservation counts its own live control
  streams and never exceeds its slots, the reserved slots and the session, window and per-owner byte counters are the sums over exactly the
  unreleased leases and reservations, and their total fits an \<open>int64\<close>. When everything is released, every counter is therefore zero
  again.\<close>
theorem capacity_ledgers_exact:
  assumes "capacity_reach w"
  shows "cr_inUse (w_rt w) = live (w_streams w) \<and> cr_controlInUse (w_rt w) = sum_list (map rv_active (w_res w)) \<and>
    (\<forall>i < length (w_res w). rv_active (w_res w ! i) = live_of i (w_ctl w) \<and> rv_active (w_res w ! i) \<le> rv_slots (w_res w ! i)) \<and>
    cr_controlReservedSlots (w_rt w) = res_sum rv_slots (w_res w) \<and> byte_ledger w \<and>
    0 \<le> cr_windowBytes (w_rt w) \<and> 0 \<le> cr_sessionBytes (w_rt w)"
proof -
  have inv: "capacity_inv w" by (rule capacity_inv_reach [OF assms])
  have "0 \<le> lease_sum A (w_leases w)" for A using inv by (auto simp: capacity_inv_def intro: lease_sum_nonneg)
  moreover have "0 \<le> res_sum rv_bytes (w_res w)"
    using inv by (intro res_sum_nonneg) (auto simp: capacity_inv_def res_ok_def)
  ultimately show ?thesis
    using inv res_nth [OF inv] by (auto simp: inv_defs res_ok_def)
qed

lemma sample_reach: "\<exists>w. capacity_reach w \<and> w_streams w = [True]"
proof -
  obtain rt where rt: "newAgentTunnelCapacityRuntime 8 False None = Some rt" using new_runtime_total by blast
  then have r: "rt = the (newAgentTunnelCapacityRuntime 8 False None)" by simp
  have "capacity_reach \<lparr>w_rt = rt, w_streams = [], w_res = [], w_ctl = [], w_leases = []\<rparr>"
    by (rule capacity_reach.start [OF rt]) simp
  moreover have "\<exists>snap r. tryAcquire rt (sample_resources 0) = ((snap, True), r)"
    using rt by (auto simp: newAgentTunnelCapacityRuntime_def tryAcquire_def snapshotLocked_def snapshotLockedWithForce_def
      plain_snapshot_def actualInUseLocked_def agentTunnelCapacityMaximumInt_def Let_def tunnel_consts) code_simp+
  ultimately show ?thesis using capacity_reach.acquire by fastforce
qed

theorem capacity_ledgers_exact_witness: "\<exists>w. capacity_reach w \<and> w_streams w = [True] \<and> cr_inUse (w_rt w) = 1"
proof -
  obtain w where w: "capacity_reach w" "w_streams w = [True]" using sample_reach by blast
  with capacity_ledgers_exact [OF w(1)] show ?thesis by auto
qed

section \<open>What an admission is paid with\<close>

definition promised :: "agentTunnelCapacityRuntime \<Rightarrow> AdaptiveMemoryController \<Rightarrow> int" where
  "promised r c = chargedAdmissionsLocked r * EstimatedBytesPerAdmission (amc_config c) + (cr_windowBytes r + cr_sessionBytes r)"

definition paid :: "agentTunnelCapacityRuntime \<Rightarrow> bool" where
  "paid r \<longleftrightarrow> (case cr_controller r of None \<Rightarrow> False
     | Some c \<Rightarrow> \<not> RejectNew (amc_snapshot c) \<and> promised r c \<le> snapshot_budget (amc_snapshot c))"

lemma refresh_current: "refresh c rs m n = (s, c') \<Longrightarrow> amc_snapshot c' = s"
  by (metis fst_conv snd_conv refresh_snapshot)

lemma snap_is_current: "capacity_snap force c rs n = (s, c') \<Longrightarrow> amc_snapshot c' = s"
  by (auto simp: capacity_snap_def snapshotAt_def Let_def split: if_splits dest: refresh_current)

lemma ordinary_limit: "ts_OrdinaryAdmissionLimit (resource_limits r s p) =
  min (if RejectNew s then cr_inUse r else max 0 (AdmissionLimitWithExternal s (i64 (cr_windowBytes r + cr_sessionBytes r)) 0 - cr_controlReservedSlots r))
    (max 0 (ts_Maximum p - cr_controlInUse r))"
  by (simp add: resource_limits_def Let_def)

lemma snapshot_with: "cr_controller r = Some c \<Longrightarrow> capacity_snap False c rs (chargedAdmissionsLocked r) = (s, c') \<Longrightarrow>
  snapshotLocked r rs = (resource_limits r s (plain_snapshot r), r\<lparr>cr_controller := Some c'\<rparr>)"
  by (simp add: snapshotLocked_def snapshotLockedWithForce_def snap_eqs Let_def)

lemma counts_nonneg:
  assumes "capacity_inv w"
  shows "0 \<le> cr_inUse (w_rt w)" "0 \<le> cr_controlReservedSlots (w_rt w)" "0 \<le> cr_windowBytes (w_rt w)" "0 \<le> cr_sessionBytes (w_rt w)"
    "cr_windowBytes (w_rt w) + cr_sessionBytes (w_rt w) \<le> max_int64"
proof -
  have "0 \<le> lease_sum A (w_leases w)" for A using assms by (auto simp: capacity_inv_def intro: lease_sum_nonneg)
  moreover have "0 \<le> res_sum rv_bytes (w_res w)" "0 \<le> res_sum rv_slots (w_res w)"
    using assms by (auto simp: capacity_inv_def res_ok_def intro!: res_sum_nonneg)
  ultimately show "0 \<le> cr_inUse (w_rt w)" "0 \<le> cr_controlReservedSlots (w_rt w)" "0 \<le> cr_windowBytes (w_rt w)" "0 \<le> cr_sessionBytes (w_rt w)"
    "cr_windowBytes (w_rt w) + cr_sessionBytes (w_rt w) \<le> max_int64"
    using assms by (auto simp: inv_defs)
qed

lemma acquire_paid:
  assumes "capacity_inv w" "cr_controller (w_rt w) = Some c" "tryAcquire (w_rt w) rs = ((snap, True), r)"
  shows "paid r"
proof -
  let ?r = "w_rt w"
  obtain s c' where sc: "capacity_snap False c rs (chargedAdmissionsLocked ?r) = (s, c')" by (cases "capacity_snap False c rs (chargedAdmissionsLocked ?r)")
  let ?x = "cr_windowBytes ?r + cr_sessionBytes ?r"
  note nn = counts_nonneg [OF assms(1)]
  have x: "0 \<le> ?x" "?x \<le> max_int64" "i64 ?x = ?x" using nn by (auto intro!: i64_id in_i64_pos)
  have r: "r = ?r\<lparr>cr_controller := Some c', cr_inUse := cr_inUse ?r + 1\<rparr>"
    and g: "cr_inUse ?r < min (if RejectNew s then cr_inUse ?r else max 0 (AdmissionLimitWithExternal s ?x 0 - cr_controlReservedSlots ?r))
      (max 0 (ts_Maximum (plain_snapshot ?r) - cr_controlInUse ?r))"
    using assms(3) unfolding tryAcquire_def snapshot_with [OF assms(2) sc] Let_def prod.case ordinary_limit x(3)
    by (simp_all add: not_le split: if_split_asm)
  have ok: "controller_ok c" using inv_rt_ok [OF assms(1)] assms(2) by (simp add: rt_ok_def)
  have "\<not> RejectNew s" "(cr_inUse ?r + 1 + cr_controlReservedSlots ?r) * EstimatedBytesPerAdmission (amc_config c') + ?x \<le> snapshot_budget s"
    using mc.admit_one_pays [OF ok sc g x(1,2) nn(1,2)] by auto
  then show ?thesis
    unfolding paid_def promised_def r by (simp add: chargedAdmissionsLocked_def snap_is_current [OF sc] add.assoc)
qed

lemma reserve_paid:
  assumes "capacity_inv w" "cr_controller (w_rt w) = Some c" "tryReserveControlSession (w_rt w) rs bytes slots = (Some v, r)"
  shows "paid r"
proof -
  let ?r = "w_rt w"
  obtain s c' where sc: "capacity_snap False c rs (chargedAdmissionsLocked ?r) = (s, c')" by (cases "capacity_snap False c rs (chargedAdmissionsLocked ?r)")
  let ?x = "cr_windowBytes ?r + cr_sessionBytes ?r + bytes" and ?k = "chargedAdmissionsLocked ?r + slots"
  note nn = counts_nonneg [OF assms(1)]
  have r: "r = ?r\<lparr>cr_controller := Some c', cr_sessionBytes := cr_sessionBytes ?r + bytes,
      cr_legacyControlSupplementBytes := cr_legacyControlSupplementBytes ?r + bytes, cr_controlReservedSlots := cr_controlReservedSlots ?r + slots\<rparr>"
    and g: "\<not> (RejectNew s \<or> AdmissionLimitWithExternal s ?x 0 < ?k)" "0 \<le> bytes" "1 \<le> slots" "?x \<le> max_int64"
    using assms(2,3) sc by (auto simp: tryReserveControlSession_def Let_def snap_eqs split: if_splits)
  have ok: "controller_ok c" using inv_rt_ok [OF assms(1)] assms(2) by (simp add: rt_ok_def)
  have "0 \<le> ?x" "0 \<le> ?k" using nn g by (auto simp: chargedAdmissionsLocked_def)
  then have "?k * EstimatedBytesPerAdmission (amc_config c') + ?x \<le> snapshot_budget s"
    by (intro mc.reserve_pays(1) [OF ok sc g(1) _ g(4)])
  with g(1) show ?thesis
    unfolding paid_def promised_def r by (simp add: chargedAdmissionsLocked_def snap_is_current [OF sc] add.assoc)
qed

lemma lease_paid:
  assumes "capacity_inv w" "cr_controller (w_rt w) = Some c" "tryReserveOwnedReceiveResource (w_rt w) rs bytes own = (Some l, r)"
  shows "paid r"
proof -
  let ?r = "w_rt w"
  obtain s c' where sc: "capacity_snap False c rs (chargedAdmissionsLocked ?r) = (s, c')" by (cases "capacity_snap False c rs (chargedAdmissionsLocked ?r)")
  let ?x = "cr_windowBytes ?r + cr_sessionBytes ?r + bytes" and ?k = "chargedAdmissionsLocked ?r"
  note nn = counts_nonneg [OF assms(1)]
  have r: "r = charge_owner own bytes (?r\<lparr>cr_controller := Some c'\<rparr>)"
    and g: "\<not> (RejectNew s \<or> AdmissionLimitWithExternal s ?x 0 < ?k)" "0 \<le> bytes" "?x \<le> max_int64"
    using assms(2,3) sc by (auto simp: tryReserveOwnedReceiveResource_def Let_def snap_eqs split: if_splits)
  have ok: "controller_ok c" using inv_rt_ok [OF assms(1)] assms(2) by (simp add: rt_ok_def)
  have "0 \<le> ?x" "0 \<le> ?k" using nn g by (auto simp: chargedAdmissionsLocked_def)
  then have "?k * EstimatedBytesPerAdmission (amc_config c') + ?x \<le> snapshot_budget s"
    by (intro mc.reserve_pays(1) [OF ok sc g(1) _ g(3)])
  moreover have "chargedAdmissionsLocked r = ?k" "cr_windowBytes r + cr_sessionBytes r = ?x" "cr_controller r = Some c'"
    unfolding r by (cases own; simp add: chargedAdmissionsLocked_def)+
  ultimately show ?thesis
    using g(1) unfolding paid_def promised_def by (simp add: snap_is_current [OF sc])
qed

text \<open>C9: Nothing is admitted without cover. In every reachable state of a runtime with a memory controller, a successful admission of an ordinary stream, of a control session, or of
  receive memory was decided on a snapshot that does not reject new work, and afterwards the full charge of all ordinary streams
  and reserved control slots plus all promised window and session bytes is within that snapshot's budget: the sampled headroom to the hard limit, or what was
  already reserved when the sample was taken. This holds for cached snapshots too.\<close>
theorem admissions_are_paid:
  assumes "capacity_reach w" "cr_controller (w_rt w) = Some c"
    and "tryAcquire (w_rt w) rs = ((snap, True), r) \<or> tryReserveControlSession (w_rt w) rs bytes slots = (Some v, r)
      \<or> tryReserveOwnedReceiveResource (w_rt w) rs bytes own = (Some l, r)"
  shows "\<exists>c'. cr_controller r = Some c' \<and> \<not> RejectNew (amc_snapshot c') \<and>
    chargedAdmissionsLocked r * EstimatedBytesPerAdmission (amc_config c') + (cr_windowBytes r + cr_sessionBytes r)
      \<le> max (HeadroomToHardByte (amc_snapshot c')) (ReservedStreamByte (amc_snapshot c'))"
proof -
  have inv: "capacity_inv w" by (rule capacity_inv_reach [OF assms(1)])
  have "paid r" using acquire_paid [OF inv assms(2)] reserve_paid [OF inv assms(2)] lease_paid [OF inv assms(2)] assms(3) by blast
  then show ?thesis by (auto simp: paid_def promised_def snapshot_budget_def split: option.splits)
qed

theorem admissions_are_paid_witness:
  "\<exists>w snap r. capacity_reach w \<and> tryAcquire (w_rt w) (sample_resources 0) = ((snap, True), r) \<and> (\<exists>c'. cr_controller r = Some c' \<and> \<not> RejectNew (amc_snapshot c'))"
proof -
  obtain rt where rt: "newAgentTunnelCapacityRuntime 8 True None = Some rt" using new_runtime_total by blast
  let ?w = "\<lparr>w_rt = rt, w_streams = [], w_res = [], w_ctl = [], w_leases = []\<rparr>"
  have w: "capacity_reach ?w" by (rule capacity_reach.start [OF rt]) simp
  have "snd (fst (tryAcquire (the (newAgentTunnelCapacityRuntime 8 True None)) (sample_resources 0)))" by code_simp
  then obtain snap r where a: "tryAcquire (w_rt ?w) (sample_resources 0) = ((snap, True), r)"
    using rt by (cases "tryAcquire rt (sample_resources 0)") auto
  obtain c where "cr_controller (w_rt ?w) = Some c"
    using rt by (auto simp: newAgentTunnelCapacityRuntime_def Let_def split: sum.splits)
  from admissions_are_paid [OF w this disjI1 [OF a]] w a show ?thesis by blast
qed

section \<open>Errors\<close>

lemma charge_undo: "charge_owner own (- b) ((charge_owner own b r)\<lparr>cr_controller := ctl\<rparr>) = r\<lparr>cr_controller := ctl\<rparr>"
  by (cases own) simp_all

lemma lease_refused:
  assumes "tryReserveOwnedReceiveResource r rs bytes own = (None, r')"
  shows "\<exists>c. r' = r\<lparr>cr_controller := Some c\<rparr>"
  using assms by (auto simp: tryReserveOwnedReceiveResource_def Let_def split: option.splits prod.splits if_splits)

text \<open>A session whose pool is granted but whose metadata is refused leaves nothing behind: when \<open>tryReserveAggregateSessionResource\<close> fails, whichever of
  its two reservations was refused, every counter and ledger of the runtime is exactly what it was before the call; only the
  controller's own sampling state may have moved on.\<close>
theorem aggregate_reservation_atomic:
  assumes "tryReserveAggregateSessionResource r rs1 rs2 poolBytes metadataBytes = (None, r')"
  shows "r' = r\<lparr>cr_controller := cr_controller r'\<rparr>"
proof (cases "tryReserveOwnedReceiveResource r rs1 poolBytes agentReceiveResourceAggregateInitialPool")
  case (Pair l r1)
  show ?thesis
  proof (cases l)
    case None
    then show ?thesis using assms Pair lease_refused [of r rs1 poolBytes agentReceiveResourceAggregateInitialPool r1]
      by (auto simp: tryReserveAggregateSessionResource_def)
  next
    case (Some pool)
    then obtain r2 where second: "tryReserveOwnedReceiveResource r1 rs2 metadataBytes agentReceiveResourceAggregateSessionMetadata = (None, r2)"
      and r': "r' = snd (release_lease pool r2)"
      using assms Pair by (auto simp: tryReserveAggregateSessionResource_def split: prod.splits option.splits)
    from lease_refused [OF second] obtain c2 where r2: "r2 = r1\<lparr>cr_controller := Some c2\<rparr>" by blast
    show ?thesis
    proof (cases "ls_counted pool")
      case False
      with lease_effect(2) [OF Pair Some False] r' r2 show ?thesis by (simp add: release_lease_def)
    next
      case True
      from lease_effect(3) [OF Pair Some True] obtain ctl where
        "pool = \<lparr>ls_counted = True, ls_owner = agentReceiveResourceAggregateInitialPool, ls_bytes = poolBytes, ls_done = False\<rparr>"
        "r1 = charge_owner agentReceiveResourceAggregateInitialPool poolBytes (r\<lparr>cr_controller := ctl\<rparr>)" by blast
      with r' r2 show ?thesis by (simp add: release_lease_def)
    qed
  qed
qed

theorem aggregate_reservation_atomic_witness:
  "\<exists>r'. tryReserveAggregateSessionResource (the (newAgentTunnelCapacityRuntime 8 True None)) (sample_resources 0) (sample_resources 0) 4096 (- 1) = (None, r')
     \<and> cr_sessionBytes r' = 0"
proof -
  have f: "fst (tryReserveAggregateSessionResource (the (newAgentTunnelCapacityRuntime 8 True None)) (sample_resources 0) (sample_resources 0) 4096 (- 1)) = None"
    by code_simp
  have z: "cr_sessionBytes (the (newAgentTunnelCapacityRuntime 8 True None)) = 0" by code_simp
  obtain r' where r: "tryReserveAggregateSessionResource (the (newAgentTunnelCapacityRuntime 8 True None)) (sample_resources 0) (sample_resources 0) 4096 (- 1) = (None, r')"
    using f by (metis prod.collapse)
  have "cr_sessionBytes r' = cr_sessionBytes (the (newAgentTunnelCapacityRuntime 8 True None))"
    by (subst aggregate_reservation_atomic [OF r]) simp
  with r z show ?thesis by simp
qed


section \<open>The scavenging goroutine\<close>

text \<open>\<open>requestMemoryScavenge\<close> starts a goroutine whose atomic operations interleave with the releases. A worker is its program counter;
  \<open>sv_unserved\<close> is a ghost: a signal was raised since the last pass over the heap.\<close>

datatype worker_pc =
    Freeing \<comment> \<open>about to call \<open>freeOSMemory\<close>\<close>
  | CheckNeeded \<comment> \<open>\<open>scavengeNeeded.Swap(false)\<close>\<close>
  | StopRunning \<comment> \<open>\<open>scavengeRunning.Store(false)\<close>\<close>
  | CheckAgain \<comment> \<open>the second \<open>Swap(false)\<close>\<close>
  | Reclaim \<comment> \<open>the \<open>CompareAndSwap\<close>\<close>

record scavenger =
  sv_needed :: bool
  sv_running :: bool
  sv_workers :: "worker_pc list"
  sv_unserved :: bool

definition leave :: "nat \<Rightarrow> 'a list \<Rightarrow> 'a list" where
  "leave i xs = take i xs @ drop (Suc i) xs"

fun worker_step :: "worker_pc \<Rightarrow> scavenger \<Rightarrow> worker_pc option \<times> scavenger" where
  \<comment> \<open>\<open>None\<close>: the goroutine returns\<close>
  "worker_step Freeing s = (Some CheckNeeded, s\<lparr>sv_unserved := False\<rparr>)"
| "worker_step CheckNeeded s = (Some (if sv_needed s then Freeing else StopRunning), s\<lparr>sv_needed := False\<rparr>)"
| "worker_step StopRunning s = (Some CheckAgain, s\<lparr>sv_running := False\<rparr>)"
| "worker_step CheckAgain s = (if sv_needed s then Some Reclaim else None, s\<lparr>sv_needed := False\<rparr>)"
| "worker_step Reclaim s = (if sv_running s then (None, s) else (Some Freeing, s\<lparr>sv_running := True\<rparr>))"

inductive scavenge_reach :: "scavenger \<Rightarrow> bool" where
  idle: "scavenge_reach \<lparr>sv_needed = False, sv_running = False, sv_workers = [], sv_unserved = False\<rparr>"
| signal: "scavenge_reach s \<Longrightarrow> scavenge_reach (s\<lparr>sv_needed := True, sv_unserved := True\<rparr>)"
| swap: "scavenge_reach s \<Longrightarrow> scavenge_reach (s\<lparr>sv_needed := False\<rparr>)" \<comment> \<open>\<open>finishActiveReleaseLocked\<close>\<close>
| request: "scavenge_reach s \<Longrightarrow> \<not> sv_running s \<Longrightarrow> scavenge_reach (s\<lparr>sv_running := True, sv_workers := sv_workers s @ [Freeing]\<rparr>)"
| work: "scavenge_reach s \<Longrightarrow> i < length (sv_workers s) \<Longrightarrow> worker_step (sv_workers s ! i) s = (Some pc, s') \<Longrightarrow>
    scavenge_reach (s'\<lparr>sv_workers := (sv_workers s)[i := pc]\<rparr>)"
| return: "scavenge_reach s \<Longrightarrow> i < length (sv_workers s) \<Longrightarrow> worker_step (sv_workers s ! i) s = (None, s') \<Longrightarrow>
    scavenge_reach (s'\<lparr>sv_workers := leave i (sv_workers s)\<rparr>)"

definition owns_flag :: "worker_pc \<Rightarrow> bool" where
  "owns_flag pc \<longleftrightarrow> pc = Freeing \<or> pc = CheckNeeded \<or> pc = StopRunning"

definition owners :: "worker_pc list \<Rightarrow> int" where
  "owners ws = sum_list (map (\<lambda>pc. of_bool (owns_flag pc)) ws)"

lemma owners_update: "i < length ws \<Longrightarrow> owners (ws[i := pc]) = owners ws - of_bool (owns_flag (ws ! i)) + of_bool (owns_flag pc)"
  by (simp add: owners_def sum_map_update)

lemma owners_leave: "i < length ws \<Longrightarrow> owners (leave i ws) = owners ws - of_bool (owns_flag (ws ! i))"
proof -
  assume "i < length ws"
  then have "owners ws = owners (take i ws @ ws ! i # drop (Suc i) ws)" by (simp add: id_take_nth_drop [symmetric])
  then show ?thesis by (simp add: owners_def leave_def)
qed

lemma owners_ge: "i < length ws \<Longrightarrow> owns_flag (ws ! i) \<Longrightarrow> 1 \<le> owners ws"
  using sum_map_ge [of "\<lambda>_. True" ws "\<lambda>pc. of_bool (owns_flag pc)" i] by (simp add: owners_def list_all_iff)

lemma scavenge_single_worker: "scavenge_reach s \<Longrightarrow> owners (sv_workers s) = of_bool (sv_running s)"
proof (induction rule: scavenge_reach.induct)
  case (work s i pc s')
  then have "owns_flag (sv_workers s ! i) \<Longrightarrow> sv_running s" using owners_ge [of i "sv_workers s"] by (cases "sv_running s") auto
  with work show ?case
    by (cases "sv_workers s ! i") (auto simp: owners_update owns_flag_def split: if_splits)
next
  case (return s i s')
  then show ?case
    by (cases "sv_workers s ! i") (auto simp: owners_leave owns_flag_def split: if_splits)
qed (simp_all add: owners_def owns_flag_def)

lemma single_freeing:
  assumes "scavenge_reach s" "i < length (sv_workers s)" "j < length (sv_workers s)" "sv_workers s ! i = Freeing" "sv_workers s ! j = Freeing"
  shows "i = j"
proof (rule ccontr)
  assume "i \<noteq> j"
  let ?ws = "(sv_workers s)[i := CheckAgain]"
  have "owners ?ws = owners (sv_workers s) - 1" using assms by (simp add: owners_update owns_flag_def)
  moreover have "1 \<le> owners ?ws" using assms \<open>i \<noteq> j\<close> by (intro owners_ge [of j]) (auto simp: owns_flag_def)
  ultimately show False using scavenge_single_worker [OF assms(1)] by (cases "sv_running s") auto
qed

text \<open>The hand-over between two workers is not complete: a worker that consumes a signal in its second check and then finds the flag taken
  returns, although the worker that took the flag may already have done its pass. The signal is then served by nobody until the next one.\<close>

lemma scavenge_signal_lost: "\<exists>s. scavenge_reach s \<and> sv_unserved s \<and> \<not> sv_needed s \<and> \<not> sv_running s \<and> sv_workers s = []"
proof -
  let ?st = "\<lambda>n r ws u. \<lparr>sv_needed = n, sv_running = r, sv_workers = ws, sv_unserved = u\<rparr> :: scavenger"
  note w = scavenge_reach.work [where s = "?st n r ws u" for n r ws u, simplified] and ret = scavenge_reach.return [where s = "?st n r ws u" for n r ws u, simplified]
  have 1: "scavenge_reach (?st False True [Freeing] False)" using scavenge_reach.request [OF scavenge_reach.idle] by simp
  have 2: "scavenge_reach (?st False True [CheckNeeded] False)" using w [OF 1, of 0] by simp
  have 3: "scavenge_reach (?st False True [StopRunning] False)" using w [OF 2, of 0] by simp
  have 4: "scavenge_reach (?st False False [CheckAgain] False)" using w [OF 3, of 0] by simp
  have 5: "scavenge_reach (?st False True [CheckAgain, Freeing] False)" using scavenge_reach.request [OF 4] by simp
  have 6: "scavenge_reach (?st False True [CheckAgain, CheckNeeded] False)" using w [OF 5, of 1] by simp
  have 7: "scavenge_reach (?st True True [CheckAgain, CheckNeeded] True)" using scavenge_reach.signal [OF 6] by simp
  have 8: "scavenge_reach (?st False True [Reclaim, CheckNeeded] True)" using w [OF 7, of 0] by simp
  have 9: "scavenge_reach (?st False True [Reclaim, StopRunning] True)" using w [OF 8, of 1] by simp
  have 10: "scavenge_reach (?st False True [StopRunning] True)" using ret [OF 9, of 0] by (simp add: leave_def)
  have 11: "scavenge_reach (?st False False [CheckAgain] True)" using w [OF 10, of 0] by simp
  have 12: "scavenge_reach (?st False False [] True)" using ret [OF 11, of 0] by (simp add: leave_def)
  then show ?thesis by fastforce
qed

end
