(* ===== verification/TrafficShaper.thy ===== *)
theory TrafficShaper
  imports RateLimitRules
begin

text \<open>
  The traffic shaper (\<open>internal/server/public_traffic_shaper.go\<close>): byte token buckets per client key or per request, the choice of a rule and of its
  buckets, the shaping of reads and writes, and the validation of rules. Buckets are shared by reference between the requests of a key, so
  they live in a store of bucket cells and the tables hold addresses. The clock readings, the outcomes of sleeps and of the wrapped
  connection are inputs; a loop that depends on them takes the sequence of their values.
\<close>

section \<open>Constants and rules\<close>

definition defaultTrafficShaperName :: string where "defaultTrafficShaperName = ''traffic-shaper''"
definition publicTrafficShaperBudgetScopePerKey :: string where "publicTrafficShaperBudgetScopePerKey = ''per_key''"
definition publicTrafficShaperBudgetScopePerRequest :: string where "publicTrafficShaperBudgetScopePerRequest = ''per_request''"
definition publicTrafficShaperProtocolScopeAll :: string where "publicTrafficShaperProtocolScopeAll = ''all''"
definition publicTrafficShaperProtocolScopeWebSocketOnly :: string where "publicTrafficShaperProtocolScopeWebSocketOnly = ''websocket_only''"
definition publicTrafficShaperProtocolScopeWebSocketExcluded :: string where
  "publicTrafficShaperProtocolScopeWebSocketExcluded = ''websocket_excluded''"
definition maxTrafficShaperBytesPerSecond :: int where "maxTrafficShaperBytesPerSecond = 1099511627776"
definition maxTrafficShaperBurstBytes :: int where "maxTrafficShaperBurstBytes = 1073741824"
definition maxTrafficShaperExemptBytes :: int where "maxTrafficShaperExemptBytes = 1073741824"
definition maxTrafficShaperBucketsPerRule :: int where "maxTrafficShaperBucketsPerRule = 10000"
definition maxShapingChunkBytes :: int where "maxShapingChunkBytes = 32768"
definition trafficShaperIdleStateTTL :: duration where "trafficShaperIdleStateTTL = 15 * minute"
definition trafficShaperPruneInterval :: duration where "trafficShaperPruneInterval = minute"

lemmas shaper_consts = defaultTrafficShaperName_def publicTrafficShaperBudgetScopePerKey_def publicTrafficShaperBudgetScopePerRequest_def
  publicTrafficShaperProtocolScopeAll_def publicTrafficShaperProtocolScopeWebSocketOnly_def publicTrafficShaperProtocolScopeWebSocketExcluded_def
  maxTrafficShaperBytesPerSecond_def maxTrafficShaperBurstBytes_def maxTrafficShaperExemptBytes_def maxTrafficShaperBucketsPerRule_def
  maxShapingChunkBytes_def trafficShaperIdleStateTTL_def trafficShaperPruneInterval_def

record 'm publicTrafficShaperRuleConfig =
  sr_ID :: int
  sr_Name :: string
  sr_Priority :: int
  sr_Enabled :: bool
  sr_BudgetScope :: string
  sr_ProtocolScope :: string
  sr_UploadBytesPerSecond :: int
  sr_DownloadBytesPerSecond :: int
  sr_BurstBytes :: int
  sr_RequestExemptBytes :: int
  sr_ResponseExemptBytes :: int
  sr_Match :: 'm
  sr_KeyParts :: "publicRateLimitKeyPartConfig list"
  sr_CreatedAt :: gotime
  sr_UpdatedAt :: gotime
  sr_Fingerprint :: string

definition sortPublicTrafficShaperRules :: "'m publicTrafficShaperRuleConfig list \<Rightarrow> 'm publicTrafficShaperRuleConfig list" where
  "sortPublicTrafficShaperRules rules = sort_key (\<lambda>r. (sr_Priority r, sr_ID r)) rules"

section \<open>Token buckets\<close>

record byteTokenBucket =
  rateBytesPerSecond :: float64
  burstBytes :: float64
  bt_tokens :: float64
  lastRefill :: gotime
  lastUsed :: gotime

definition effectiveBurstBytes :: "'m publicTrafficShaperRuleConfig \<Rightarrow> int \<Rightarrow> int" where
  "effectiveBurstBytes rule rate = (if rate \<le> 0 then 0 else if sr_BurstBytes rule > 0 then sr_BurstBytes rule else rate)"

definition newByteTokenBucket :: "int \<Rightarrow> int \<Rightarrow> gotime \<Rightarrow> byteTokenBucket option" where
  \<comment> \<open>\<open>None\<close> is nil\<close>
  "newByteTokenBucket rate burst0 now =
     (if rate \<le> 0 then None
      else let burst = (if burst0 \<le> 0 then rate else burst0)
           in Some \<lparr>rateBytesPerSecond = f_of_int rate, burstBytes = f_of_int burst, bt_tokens = f_of_int burst, lastRefill = now, lastUsed = now\<rparr>)"

definition refillLocked :: "byteTokenBucket \<Rightarrow> gotime \<Rightarrow> byteTokenBucket" where
  "refillLocked b now =
     (if now < lastRefill b then b\<lparr>lastRefill := now\<rparr>
      else let elapsed = duration_seconds (time_sub now (lastRefill b))
           in if elapsed \<le> 0 then b
              else let t = f_add (bt_tokens b) (f_mul elapsed (rateBytesPerSecond b))
                   in b\<lparr>bt_tokens := (if t > burstBytes b then burstBytes b else t), lastRefill := now\<rparr>)"

definition try_spend :: "byteTokenBucket \<Rightarrow> gotime \<Rightarrow> float64 \<Rightarrow> duration option \<times> byteTokenBucket" where
  \<comment> \<open>one critical section of \<open>waitForSpend\<close>: \<open>None\<close> when the bytes were spent, otherwise the time to sleep\<close>
  "try_spend b0 now bytes =
     (let b = refillLocked b0 now
      in if bt_tokens b \<ge> bytes then (None, b\<lparr>bt_tokens := f_sub (bt_tokens b) bytes, lastUsed := now\<rparr>)
         else let missing = f_sub bytes (bt_tokens b);
                  w = \<lceil>f_mul (f_div missing (rateBytesPerSecond b)) (f_of_int second)\<rceil>
              in (Some (if w < millisecond then millisecond else w), b))"

fun waitForSpend :: "byteTokenBucket \<Rightarrow> float64 \<Rightarrow> (gotime \<times> bool) list \<Rightarrow> (bool \<times> byteTokenBucket) option" where
  \<comment> \<open>the loop on the clock readings and on whether each sleep ran to its end; \<open>Some (True, _)\<close> is nil, \<open>Some (False, _)\<close> the error of a
    cancelled sleep, \<open>None\<close> says that the given readings end before the loop does\<close>
  "waitForSpend b bytes [] = None"
| "waitForSpend b bytes ((now, slept) # rest) =
     (case try_spend b now bytes of
        (None, b') \<Rightarrow> Some (True, b')
      | (Some _, b') \<Rightarrow> if slept then waitForSpend b' bytes rest else Some (False, b'))"

partial_function (option) wait_spends :: "float64 \<Rightarrow> float64 \<Rightarrow> float64 list option" where
  \<comment> \<open>the pieces into which \<open>wait\<close> splits an amount\<close>
  "wait_spends burst left =
     (if left \<le> 0 then Some []
      else let spend = (if burst > 0 \<and> left > burst then burst else left)
           in Option.bind (wait_spends burst (f_sub left spend)) (\<lambda>rest. Some (spend # rest)))"

fun spend_all :: "byteTokenBucket \<Rightarrow> float64 list \<Rightarrow> (gotime \<times> bool) list list \<Rightarrow> (bool \<times> byteTokenBucket) option" where
  "spend_all b [] _ = Some (True, b)"
| "spend_all b (x # xs) [] = None"
| "spend_all b (x # xs) (readings # later) =
     (case waitForSpend b x readings of
        None \<Rightarrow> None
      | Some (False, b') \<Rightarrow> Some (False, b')
      | Some (True, b') \<Rightarrow> spend_all b' xs later)"

definition bucket_wait :: "byteTokenBucket \<Rightarrow> int \<Rightarrow> (gotime \<times> bool) list list \<Rightarrow> (bool \<times> byteTokenBucket) option" where
  "bucket_wait b bytes readings =
     (if bytes \<le> 0 \<or> rateBytesPerSecond b \<le> 0 then Some (True, b)
      else (case wait_spends (burstBytes b) (f_of_int bytes) of
              None \<Rightarrow> None
            | Some spends \<Rightarrow> spend_all b spends readings))"

definition refund :: "byteTokenBucket \<Rightarrow> int \<Rightarrow> byteTokenBucket" where
  "refund b bytes =
     (if bytes \<le> 0 then b
      else let t = f_add (bt_tokens b) (f_of_int bytes)
           in b\<lparr>bt_tokens := (if t > burstBytes b then burstBytes b else t)\<rparr>)"

definition chunkLimit :: "byteTokenBucket option \<Rightarrow> int" where
  "chunkLimit b =
     (case b of
        None \<Rightarrow> maxShapingChunkBytes
      | Some c \<Rightarrow>
          if burstBytes c \<le> 0 then maxShapingChunkBytes
          else let limit = \<lceil>burstBytes c\<rceil>;
                   limit = (if limit < 1 then 1 else limit)
               in if limit > maxShapingChunkBytes then maxShapingChunkBytes else limit)"

section \<open>The shaper\<close>

type_synonym bucket_table = "(string, nat) gomap" \<comment> \<open>key to address\<close>

record publicTrafficShaperRuleRuntime =
  sh_fingerprint :: string
  uploadBuckets :: bucket_table
  downloadBuckets :: bucket_table

record publicTrafficShaper =
  sh_rules :: "(int, publicTrafficShaperRuleRuntime) gomap"
  sh_lastPrune :: gotime
  sh_cells :: "byteTokenBucket list" \<comment> \<open>the bucket store; an address is an index\<close>

record 'm publicTrafficShaperDecision =
  sd_Rule :: "'m publicTrafficShaperRuleConfig"
  sd_MatchError :: "string option"
  sd_UploadBucket :: "nat option"
  sd_DownloadBucket :: "nat option"

definition newPublicTrafficShaper :: publicTrafficShaper where
  "newPublicTrafficShaper = \<lparr>sh_rules = [], sh_lastPrune = 0, sh_cells = []\<rparr>"

definition reconcile_add :: "(int, publicTrafficShaperRuleRuntime) gomap \<Rightarrow> int \<times> string \<Rightarrow> (int, publicTrafficShaperRuleRuntime) gomap" where
  \<comment> \<open>the body of the loop that gives a new rule its runtime\<close>
  "reconcile_add m p = (case map_of m (fst p) of
     None \<Rightarrow> AList.update (fst p) \<lparr>sh_fingerprint = snd p, uploadBuckets = [], downloadBuckets = []\<rparr> m | Some _ \<Rightarrow> m)"

definition sh_reconcile :: "publicTrafficShaper \<Rightarrow> 'm publicTrafficShaperRuleConfig list option \<Rightarrow> publicTrafficShaper" where
  "sh_reconcile s snap =
     (let keep = foldl (\<lambda>m rule. if sr_Enabled rule then AList.update (sr_ID rule) (sr_Fingerprint rule) m else m)
                   [] (case snap of None \<Rightarrow> [] | Some rules \<Rightarrow> rules);
          kept = filter (\<lambda>(i, rt). map_of keep i = Some (sh_fingerprint rt)) (sh_rules s)
      in s\<lparr>sh_rules := foldl reconcile_add kept keep\<rparr>)"

definition cell_used :: "byteTokenBucket list \<Rightarrow> nat \<Rightarrow> gotime" where
  "cell_used cells a = (if a < length cells then lastUsed (cells ! a) else 0)"

definition pruneTrafficShaperBuckets :: "byteTokenBucket list \<Rightarrow> bucket_table \<Rightarrow> gotime \<Rightarrow> bucket_table" where
  "pruneTrafficShaperBuckets cells buckets now = filter (\<lambda>(k, a). \<not> time_sub now (cell_used cells a) > trafficShaperIdleStateTTL) buckets"

definition sh_pruneLocked :: "publicTrafficShaper \<Rightarrow> gotime \<Rightarrow> publicTrafficShaper" where
  "sh_pruneLocked s now =
     (if \<not> time_is_zero (sh_lastPrune s) \<and> time_sub now (sh_lastPrune s) < trafficShaperPruneInterval then s
      else s\<lparr>sh_lastPrune := now,
             sh_rules := map (\<lambda>(i, rt). (i, rt\<lparr>uploadBuckets := pruneTrafficShaperBuckets (sh_cells s) (uploadBuckets rt) now,
               downloadBuckets := pruneTrafficShaperBuckets (sh_cells s) (downloadBuckets rt) now\<rparr>)) (sh_rules s)\<rparr>)"

fun oldest_bucket_scan :: "byteTokenBucket list \<Rightarrow> bucket_table \<Rightarrow> string list \<Rightarrow> string \<Rightarrow> gotime \<Rightarrow> string" where
  "oldest_bucket_scan cells buckets [] oldestKey oldestTime = oldestKey"
| "oldest_bucket_scan cells buckets (key # rest) oldestKey oldestTime =
     (case map_of buckets key of
        None \<Rightarrow> oldest_bucket_scan cells buckets rest oldestKey oldestTime
      | Some a \<Rightarrow>
          if oldestKey = '''' \<or> cell_used cells a < oldestTime then oldest_bucket_scan cells buckets rest key (cell_used cells a)
          else oldest_bucket_scan cells buckets rest oldestKey oldestTime)"

definition evictOldestTrafficShaperBucket :: "byteTokenBucket list \<Rightarrow> bucket_table \<Rightarrow> string list \<Rightarrow> bucket_table" where
  "evictOldestTrafficShaperBucket cells buckets ord =
     (let k = oldest_bucket_scan cells buckets (range_keys ord buckets) '''' 0 in if k \<noteq> '''' then AList.delete k buckets else buckets)"

definition bucket_for :: "byteTokenBucket list \<Rightarrow> bucket_table \<Rightarrow> string list \<Rightarrow> string \<Rightarrow> byteTokenBucket option \<Rightarrow> (nat option \<times> bucket_table) \<times> byteTokenBucket list" where
  \<comment> \<open>the lookup-or-insert of \<open>decisionForRule\<close>; the last argument is the new bucket, which has a positive rate there\<close>
  "bucket_for cells buckets ord key fresh =
     (case map_of buckets key of
        Some a \<Rightarrow> ((Some a, buckets), cells)
      | None \<Rightarrow>
          let buckets1 = (if int (length buckets) \<ge> maxTrafficShaperBucketsPerRule then evictOldestTrafficShaperBucket cells buckets ord else buckets)
          in case fresh of
               None \<Rightarrow> ((None, buckets1), cells)
             | Some b \<Rightarrow> ((Some (length cells), AList.update key (length cells) buckets1), cells @ [b]))"

definition alloc :: "byteTokenBucket list \<Rightarrow> byteTokenBucket option \<Rightarrow> nat option \<times> byteTokenBucket list" where
  "alloc cells b = (case b of None \<Rightarrow> (None, cells) | Some c \<Rightarrow> (Some (length cells), cells @ [c]))"

definition trafficShaperKeyHash :: "(string \<Rightarrow> string) \<Rightarrow> string list \<Rightarrow> string" where
  "trafficShaperKeyHash sha values = sha (''traffic-shaper'' @ [CHR 0x00] @ concat (map (\<lambda>v. v @ [CHR 0x00]) values))"

definition sh_keyValues :: "'m publicTrafficShaperRuleConfig \<Rightarrow> string \<Rightarrow> http_request \<Rightarrow> string list" where
  \<comment> \<open>the rate limiter's \<open>keyValues\<close> on a rule that only has these key parts\<close>
  "sh_keyValues rule protocol r =
     (let parts = (if sr_KeyParts rule = [] then [\<lparr>kp_Source = ''remote_ip'', kp_Name = ''''\<rparr>] else sr_KeyParts rule)
      in concat (map (\<lambda>part.
           let v0 = key_part_value protocol r part;
               v1 = (if v0 = '''' then rateLimitMissingValue else v0)
           in [kp_Source part @ '':'' @ to_lower (kp_Name part), take maxRateLimitKeyValueBytes v1]) parts))"

definition sh_runtime :: "publicTrafficShaper \<Rightarrow> 'm publicTrafficShaperRuleConfig \<Rightarrow> publicTrafficShaperRuleRuntime" where
  "sh_runtime s rule =
     (case map_of (sh_rules s) (sr_ID rule) of
        Some rt \<Rightarrow> if sh_fingerprint rt = sr_Fingerprint rule then rt
          else \<lparr>sh_fingerprint = sr_Fingerprint rule, uploadBuckets = [], downloadBuckets = []\<rparr>
      | None \<Rightarrow> \<lparr>sh_fingerprint = sr_Fingerprint rule, uploadBuckets = [], downloadBuckets = []\<rparr>)"

definition decisionForRule ::
  "(string \<Rightarrow> string) \<Rightarrow> string list \<Rightarrow> string list \<Rightarrow> publicTrafficShaper \<Rightarrow> 'm publicTrafficShaperRuleConfig \<Rightarrow> string \<Rightarrow> http_request \<Rightarrow> gotime
     \<Rightarrow> 'm publicTrafficShaperDecision \<times> publicTrafficShaper" where
  \<comment> \<open>the two \<open>ord\<close> arguments are the map orders of the two possible evictions\<close>
  "decisionForRule sha ord1 ord2 s0 rule protocol r now =
     (let up = newByteTokenBucket (sr_UploadBytesPerSecond rule) (effectiveBurstBytes rule (sr_UploadBytesPerSecond rule)) now;
          down = newByteTokenBucket (sr_DownloadBytesPerSecond rule) (effectiveBurstBytes rule (sr_DownloadBytesPerSecond rule)) now
      in if sr_BudgetScope rule = publicTrafficShaperBudgetScopePerRequest then
           let (ua, cells1) = alloc (sh_cells s0) up; (da, cells2) = alloc cells1 down
           in (\<lparr>sd_Rule = rule, sd_MatchError = None, sd_UploadBucket = ua, sd_DownloadBucket = da\<rparr>, s0\<lparr>sh_cells := cells2\<rparr>)
         else
           let key = trafficShaperKeyHash sha (sh_keyValues rule protocol r);
               s = sh_pruneLocked s0 now;
               rt = sh_runtime s rule;
               ((ua, ub), cells1) = (if sr_UploadBytesPerSecond rule > 0 then bucket_for (sh_cells s) (uploadBuckets rt) ord1 key up
                                     else ((None, uploadBuckets rt), sh_cells s));
               ((da, db), cells2) = (if sr_DownloadBytesPerSecond rule > 0 then bucket_for cells1 (downloadBuckets rt) ord2 key down
                                     else ((None, downloadBuckets rt), cells1))
           in (\<lparr>sd_Rule = rule, sd_MatchError = None, sd_UploadBucket = ua, sd_DownloadBucket = da\<rparr>,
               s\<lparr>sh_rules := AList.update (sr_ID rule) (rt\<lparr>uploadBuckets := ub, downloadBuckets := db\<rparr>) (sh_rules s), sh_cells := cells2\<rparr>))"

definition normalizePublicTrafficShaperProtocolScope :: "string \<Rightarrow> string" where
  "normalizePublicTrafficShaperProtocolScope scope =
     (if scope = publicTrafficShaperProtocolScopeWebSocketOnly then publicTrafficShaperProtocolScopeWebSocketOnly
      else if scope = publicTrafficShaperProtocolScopeWebSocketExcluded then publicTrafficShaperProtocolScopeWebSocketExcluded
      else publicTrafficShaperProtocolScopeAll)"

definition evaluateMatchForProtocol ::
  "('m \<Rightarrow> string \<Rightarrow> http_request \<Rightarrow> string + bool) \<Rightarrow> 'm publicTrafficShaperRuleConfig \<Rightarrow> string \<Rightarrow> http_request \<Rightarrow> bool \<Rightarrow> string + bool" where
  "evaluateMatchForProtocol ev rule protocol r isWebSocket =
     (let scope = normalizePublicTrafficShaperProtocolScope (sr_ProtocolScope rule)
      in if scope = publicTrafficShaperProtocolScopeWebSocketOnly \<and> \<not> isWebSocket then Inr False
         else if scope = publicTrafficShaperProtocolScopeWebSocketExcluded \<and> isWebSocket then Inr False
         else ev (sr_Match rule) protocol r)"

fun evaluateForProtocol ::
  "('m \<Rightarrow> string \<Rightarrow> http_request \<Rightarrow> string + bool) \<Rightarrow> (string \<Rightarrow> string) \<Rightarrow> string list \<Rightarrow> string list \<Rightarrow> publicTrafficShaper
     \<Rightarrow> 'm publicTrafficShaperRuleConfig list \<Rightarrow> string \<Rightarrow> http_request \<Rightarrow> bool \<Rightarrow> gotime
     \<Rightarrow> 'm publicTrafficShaperDecision option \<times> publicTrafficShaper" where
  "evaluateForProtocol ev sha ord1 ord2 s [] protocol r isWebSocket now = (None, s)"
| "evaluateForProtocol ev sha ord1 ord2 s (rule # rules) protocol r isWebSocket now =
     (if \<not> sr_Enabled rule then evaluateForProtocol ev sha ord1 ord2 s rules protocol r isWebSocket now
      else (case evaluateMatchForProtocol ev rule protocol r isWebSocket of
              Inl err \<Rightarrow> (Some \<lparr>sd_Rule = rule, sd_MatchError = Some err, sd_UploadBucket = None, sd_DownloadBucket = None\<rparr>, s)
            | Inr False \<Rightarrow> evaluateForProtocol ev sha ord1 ord2 s rules protocol r isWebSocket now
            | Inr True \<Rightarrow> (let (d, s') = decisionForRule sha ord1 ord2 s rule protocol r now in (Some d, s'))))"

section \<open>Shaping a connection\<close>

definition exempt_part :: "int \<Rightarrow> int \<Rightarrow> int" where
  \<comment> \<open>how many of \<open>n\<close> bytes the remaining exemption covers\<close>
  "exempt_part exempt n = (if exempt > 0 then (if n > exempt then exempt else n) else 0)"

definition shaping_read :: "byteTokenBucket \<Rightarrow> int \<Rightarrow> int \<Rightarrow> (int \<Rightarrow> int) \<Rightarrow> (int \<times> int) \<times> int" where
  \<comment> \<open>\<open>shapingReadCloser.Read\<close> on a buffer of the given length: the wrapped \<open>Read\<close> returns a count for a buffer length; the result is the
    count, the charge passed to \<open>bucket.wait\<close> (0 when there is none) and the remaining exemption\<close>
  "shaping_read b exempt len body =
     (let len1 = (if len > chunkLimit (Some b) then chunkLimit (Some b) else len);
          n = body len1
      in if n > 0 then
           let exempted = exempt_part exempt n; charge = n - exempted
           in ((n, if charge > 0 then charge else 0), exempt - exempted)
         else ((n, 0), exempt))"

definition shapeTransferredBytes :: "bool \<Rightarrow> int \<Rightarrow> int \<Rightarrow> int \<times> int" where
  \<comment> \<open>the charge passed to \<open>wait\<close> and the remaining exemption; the flag says that there is a bucket\<close>
  "shapeTransferredBytes hasBucket exempt transferred =
     (if transferred \<le> 0 \<or> \<not> hasBucket then (0, exempt)
      else (transferred - exempt_part exempt transferred, exempt - exempt_part exempt transferred))"

record shapedByteReservation =
  rs_hasBucket :: bool
  rs_reserved :: int
  rs_exempted :: int
  rs_charged :: int

definition reserveShapedBytes :: "bool \<Rightarrow> int \<Rightarrow> int \<Rightarrow> bool \<Rightarrow> (shapedByteReservation \<times> int) option" where
  \<comment> \<open>the last argument is the outcome of \<open>bucket.wait\<close>; \<open>None\<close> is its error\<close>
  "reserveShapedBytes hasBucket exempt bytes waited =
     (if bytes \<le> 0 \<or> \<not> hasBucket then Some (\<lparr>rs_hasBucket = hasBucket, rs_reserved = bytes, rs_exempted = 0, rs_charged = 0\<rparr>, exempt)
      else let exempted = exempt_part exempt bytes
           in if \<not> waited then None
              else Some (\<lparr>rs_hasBucket = True, rs_reserved = bytes, rs_exempted = exempted, rs_charged = bytes - exempted\<rparr>, exempt - exempted))"

definition reservation_reconcile :: "shapedByteReservation \<Rightarrow> int \<Rightarrow> int \<Rightarrow> int \<times> int" where
  \<comment> \<open>the remaining exemption and the amount passed to \<open>refund\<close>\<close>
  "reservation_reconcile v exempt transferred0 =
     (if \<not> rs_hasBucket v \<or> rs_reserved v \<le> 0 then (exempt, 0)
      else let transferred = (if transferred0 < 0 then 0 else if transferred0 > rs_reserved v then rs_reserved v else transferred0);
               actualExempted = min transferred (rs_exempted v)
           in (exempt + (rs_exempted v - actualExempted), rs_charged v - (transferred - actualExempted)))"

datatype write_error = WriteWait | WriteBody | WriteInvalidCount | WriteNoProgress

record write_result =
  wr_written :: int
  wr_error :: "write_error option"
  wr_exempt :: int
  wr_charged :: int \<comment> \<open>all amounts passed to \<open>bucket.wait\<close>\<close>
  wr_refunded :: int \<comment> \<open>all amounts passed to \<open>refund\<close>\<close>

fun shaping_write :: "bool \<Rightarrow> int \<Rightarrow> int \<Rightarrow> (bool \<times> int \<times> bool) list \<Rightarrow> write_result \<Rightarrow> write_result option" where
  \<comment> \<open>\<open>shapingReadWriteCloser.Write\<close>: the loop on \<open>len\<close> bytes still to be written, with chunks of at most \<open>limit\<close> bytes. Each element of the script is one turn:
    whether the wait succeeded, the count the connection returned, and whether it returned an error\<close>
  "shaping_write hasBucket limit len script res =
     (if len \<le> 0 then Some res
      else (case script of
        [] \<Rightarrow> None
      | (waited, n, failed) # rest \<Rightarrow>
          let chunk = (if hasBucket \<and> len > limit then limit else len)
          in case reserveShapedBytes hasBucket (wr_exempt res) chunk waited of
               None \<Rightarrow> Some (res\<lparr>wr_error := Some WriteWait\<rparr>)
             | Some (v, exempt) \<Rightarrow>
                 let valid = (0 \<le> n \<and> n \<le> chunk);
                     (exempt', back) = reservation_reconcile v exempt (if valid then n else 0);
                     res1 = res\<lparr>wr_exempt := exempt', wr_charged := wr_charged res + rs_charged v, wr_refunded := wr_refunded res + back\<rparr>
                 in if \<not> valid then Some (res1\<lparr>wr_error := Some WriteInvalidCount\<rparr>)
                    else let res2 = res1\<lparr>wr_written := wr_written res1 + n\<rparr>
                         in if failed then Some (res2\<lparr>wr_error := Some WriteBody\<rparr>)
                            else if n = 0 then Some (res2\<lparr>wr_error := Some WriteNoProgress\<rparr>)
                            else shaping_write hasBucket limit (len - n) rest res2))"

declare shaping_write.simps [simp del]

section \<open>Choosing a rule for a response\<close>

definition headerHasToken :: "string list \<Rightarrow> string \<Rightarrow> bool" where
  \<comment> \<open>on the values of the header\<close>
  "headerHasToken values want = list_ex (\<lambda>value. list_ex (\<lambda>part. equal_fold (trim_space part) want) (split_char (CHR '','') value)) values"

record handshake_request =
  hs_Method :: string
  hs_ContentLength :: int
  hs_TransferEncoding :: "string list"
  hs_Header :: "string \<Rightarrow> string list"

definition header_get :: "handshake_request \<Rightarrow> string \<Rightarrow> string" where
  "header_get r name = (case hs_Header r name of [] \<Rightarrow> '''' | v # _ \<Rightarrow> v)"

definition isWebSocketHandshakeRequest :: "(string \<Rightarrow> string option) \<Rightarrow> handshake_request option \<Rightarrow> bool" where
  \<comment> \<open>the first argument is base64 decoding\<close>
  "isWebSocketHandshakeRequest base64 r0 =
     (case r0 of
        None \<Rightarrow> False
      | Some r \<Rightarrow>
          if \<not> equal_fold (hs_Method r) ''GET'' then False
          else if hs_ContentLength r \<noteq> 0 \<or> length (hs_TransferEncoding r) \<noteq> 0 then False
          else if \<not> headerHasToken (hs_Header r ''Connection'') ''upgrade'' \<or> \<not> equal_fold (trim_space (header_get r ''Upgrade'')) ''websocket'' then False
          else if trim_space (header_get r ''Sec-Websocket-Version'') \<noteq> ''13'' then False
          else (case base64 (trim_space (header_get r ''Sec-Websocket-Key'')) of None \<Rightarrow> False | Some key \<Rightarrow> length key = 16))"

definition selectPublicTrafficShaper ::
  "('m \<Rightarrow> string \<Rightarrow> http_request \<Rightarrow> string + bool) \<Rightarrow> (string \<Rightarrow> string) \<Rightarrow> string list \<Rightarrow> string list \<Rightarrow> publicTrafficShaper option
     \<Rightarrow> ('m publicTrafficShaperRuleConfig list \<times> (int \<rightharpoonup> string)) option \<Rightarrow> int \<Rightarrow> http_request \<Rightarrow> bool \<Rightarrow> gotime
     \<Rightarrow> 'm publicTrafficShaperDecision option \<times> publicTrafficShaper option" where
  \<comment> \<open>\<open>selectPublicTrafficShaperWithSnapshotForProtocol\<close> on the shaper, the snapshot's rules and its listeners with their protocols\<close>
  "selectPublicTrafficShaper ev sha ord1 ord2 shaper snap listenerID r isWebSocket now =
     (case (shaper, snap) of
        (Some s, Some (rules, listeners)) \<Rightarrow>
          if rules = [] then (None, shaper)
          else (case listeners listenerID of
                  None \<Rightarrow> (None, shaper)
                | Some protocol \<Rightarrow> (let (d, s') = evaluateForProtocol ev sha ord1 ord2 s rules protocol r isWebSocket now in (d, Some s')))
      | _ \<Rightarrow> (None, shaper))"

definition publicTrafficShaperForResponse ::
  "(unit \<Rightarrow> 'd option \<times> 's) \<Rightarrow> int \<Rightarrow> bool \<Rightarrow> 'd option \<Rightarrow> 's \<Rightarrow> 'd option \<times> 's" where
  \<comment> \<open>the first argument selects a rule for the request as one that is not a WebSocket\<close>
  "publicTrafficShaperForResponse select statusCode isHandshake selected s =
     (if statusCode = 101 \<or> \<not> isHandshake then (selected, s) else select ())"

definition newShapingReadCloser :: "bool \<Rightarrow> nat option \<Rightarrow> int \<Rightarrow> (nat \<times> int) option" where
  \<comment> \<open>the bucket and the exemption of the wrapper; \<open>None\<close> when the body is returned as it is. The flag says that there is a body\<close>
  "newShapingReadCloser hasBody bucket exemptBytes =
     (case bucket of None \<Rightarrow> None | Some a \<Rightarrow> if \<not> hasBody then None else Some (a, if exemptBytes < 0 then 0 else exemptBytes))"

definition wrapUploadBody :: "'m publicTrafficShaperDecision \<Rightarrow> bool \<Rightarrow> (nat \<times> int) option" where
  "wrapUploadBody d hasBody = newShapingReadCloser hasBody (sd_UploadBucket d) (sr_RequestExemptBytes (sd_Rule d))"

definition wrapDownloadBody :: "'m publicTrafficShaperDecision \<Rightarrow> bool \<Rightarrow> (nat \<times> int) option" where
  "wrapDownloadBody d hasBody = newShapingReadCloser hasBody (sd_DownloadBucket d) (sr_ResponseExemptBytes (sd_Rule d))"

record shapingReadWriteCloser =
  readBucket :: "nat option"
  writeBucket :: "nat option"
  readExemptRemaining :: int
  writeExemptRemaining :: int

definition wrapUpgradeBody :: "'m publicTrafficShaperDecision \<Rightarrow> bool \<Rightarrow> shapingReadWriteCloser option" where
  \<comment> \<open>the flag says that the body is there and can be written to\<close>
  "wrapUpgradeBody d isReadWriter =
     (if \<not> isReadWriter \<or> (sd_UploadBucket d = None \<and> sd_DownloadBucket d = None) then None
      else Some \<lparr>readBucket = sd_DownloadBucket d, writeBucket = sd_UploadBucket d,
                 readExemptRemaining = max (sr_ResponseExemptBytes (sd_Rule d)) 0, writeExemptRemaining = max (sr_RequestExemptBytes (sd_Rule d)) 0\<rparr>)"

section \<open>Validation and storage of rules\<close>

datatype proto_budget_scope = BUDGET_SCOPE_UNSPECIFIED | BUDGET_SCOPE_PER_KEY | BUDGET_SCOPE_PER_REQUEST | BUDGET_SCOPE_UNKNOWN int

datatype proto_protocol_scope = PROTOCOL_SCOPE_UNSPECIFIED | PROTOCOL_SCOPE_ALL | PROTOCOL_SCOPE_WEBSOCKET_ONLY | PROTOCOL_SCOPE_WEBSOCKET_EXCLUDED
  | PROTOCOL_SCOPE_UNKNOWN int

definition trafficShaperBudgetScopeStringFromProto :: "proto_budget_scope \<Rightarrow> string result" where
  "trafficShaperBudgetScopeStringFromProto scope =
     (case scope of
        BUDGET_SCOPE_UNSPECIFIED \<Rightarrow> Inr publicTrafficShaperBudgetScopePerKey
      | BUDGET_SCOPE_PER_KEY \<Rightarrow> Inr publicTrafficShaperBudgetScopePerKey
      | BUDGET_SCOPE_PER_REQUEST \<Rightarrow> Inr publicTrafficShaperBudgetScopePerRequest
      | BUDGET_SCOPE_UNKNOWN _ \<Rightarrow> Inl (InvalidArgument ''traffic shaper budget scope is invalid''))"

definition normalizePublicTrafficShaperBudgetScope :: "string \<Rightarrow> string" where
  "normalizePublicTrafficShaperBudgetScope scope =
     (if scope = publicTrafficShaperBudgetScopePerRequest then publicTrafficShaperBudgetScopePerRequest else publicTrafficShaperBudgetScopePerKey)"

definition protoTrafficShaperBudgetScopeFromString :: "string \<Rightarrow> proto_budget_scope" where
  "protoTrafficShaperBudgetScopeFromString scope =
     (if normalizePublicTrafficShaperBudgetScope scope = publicTrafficShaperBudgetScopePerRequest then BUDGET_SCOPE_PER_REQUEST else BUDGET_SCOPE_PER_KEY)"

definition trafficShaperProtocolScopeStringFromProto :: "proto_protocol_scope \<Rightarrow> string result" where
  "trafficShaperProtocolScopeStringFromProto scope =
     (case scope of
        PROTOCOL_SCOPE_UNSPECIFIED \<Rightarrow> Inr publicTrafficShaperProtocolScopeAll
      | PROTOCOL_SCOPE_ALL \<Rightarrow> Inr publicTrafficShaperProtocolScopeAll
      | PROTOCOL_SCOPE_WEBSOCKET_ONLY \<Rightarrow> Inr publicTrafficShaperProtocolScopeWebSocketOnly
      | PROTOCOL_SCOPE_WEBSOCKET_EXCLUDED \<Rightarrow> Inr publicTrafficShaperProtocolScopeWebSocketExcluded
      | PROTOCOL_SCOPE_UNKNOWN _ \<Rightarrow> Inl (InvalidArgument ''traffic shaper protocol scope is invalid''))"

definition protoTrafficShaperProtocolScopeFromString :: "string \<Rightarrow> proto_protocol_scope" where
  "protoTrafficShaperProtocolScopeFromString scope =
     (let s = normalizePublicTrafficShaperProtocolScope scope
      in if s = publicTrafficShaperProtocolScopeWebSocketOnly then PROTOCOL_SCOPE_WEBSOCKET_ONLY
         else if s = publicTrafficShaperProtocolScopeWebSocketExcluded then PROTOCOL_SCOPE_WEBSOCKET_EXCLUDED
         else PROTOCOL_SCOPE_ALL)"

function replace_all :: "string \<Rightarrow> string \<Rightarrow> string \<Rightarrow> string" where
  \<comment> \<open>\<open>strings.ReplaceAll\<close> for a non-empty \<open>old\<close>\<close>
  "replace_all s old new =
     (if s = [] \<or> old = [] then s
      else if take (length old) s = old then new @ replace_all (drop (length old) s) old new
      else hd s # replace_all (tl s) old new)"
  by pat_completeness auto
termination by (relation "measure (\<lambda>(s, _). length s)") auto

declare replace_all.simps [simp del]

definition trafficShaperValidationError :: "connect_error \<Rightarrow> connect_error" where
  \<comment> \<open>every error of the model has a code\<close>
  "trafficShaperValidationError e =
     (let f = (\<lambda>msg. replace_all msg ''rate limit'' ''traffic shaper'')
      in case e of
           InvalidArgument msg \<Rightarrow> InvalidArgument (f msg)
         | FailedPrecondition msg \<Rightarrow> FailedPrecondition (f msg)
         | ResourceExhausted msg \<Rightarrow> ResourceExhausted (f msg)
         | Internal msg \<Rightarrow> Internal (f msg))"

fun shaper_err :: "'a result \<Rightarrow> 'a result" where
  "shaper_err (Inl e) = Inl (trafficShaperValidationError e)"
| "shaper_err (Inr x) = Inr x"

record publicTrafficShaperRuleMutationInput =
  sm_Name :: string
  sm_Priority :: int
  sm_Enabled :: int
  sm_BudgetScope :: string
  sm_ProtocolScope :: string
  sm_UploadBytesPerSecond :: int
  sm_DownloadBytesPerSecond :: int
  sm_BurstBytes :: int
  sm_RequestExemptBytes :: int
  sm_ResponseExemptBytes :: int
  sm_MatchJSON :: string
  sm_KeyPartsJSON :: string

definition validatePublicTrafficShaperRuleInput ::
  "('mr, 'm) rl_codecs \<Rightarrow> string \<Rightarrow> int \<Rightarrow> bool \<Rightarrow> proto_budget_scope \<Rightarrow> proto_protocol_scope \<Rightarrow> int \<Rightarrow> int \<Rightarrow> int \<Rightarrow> int \<Rightarrow> int
     \<Rightarrow> (proto_key_source \<times> string) option list \<Rightarrow> 'mr \<Rightarrow> publicTrafficShaperRuleMutationInput result" where
  "validatePublicTrafficShaperRuleInput C name0 priority enabled budgetScope protocolScope upload download burst requestExempt responseExempt keyParts matchRule =
     (let name = (if trim_space name0 = '''' then defaultTrafficShaperName else trim_space name0) in
      reject_if (\<not> publicNamePattern name)
        (InvalidArgument ''traffic shaper rule name must be 1-64 alphanumeric, dot, dash, or underscore characters'')
      (ebind (trafficShaperBudgetScopeStringFromProto budgetScope) (\<lambda>scope.
      ebind (trafficShaperProtocolScopeStringFromProto protocolScope) (\<lambda>protocol.
      reject_if (upload < 0 \<or> upload > maxTrafficShaperBytesPerSecond) (InvalidArgument ''traffic shaper upload bandwidth must be between 0 and 1 TiB/s'')
      (reject_if (download < 0 \<or> download > maxTrafficShaperBytesPerSecond) (InvalidArgument ''traffic shaper download bandwidth must be between 0 and 1 TiB/s'')
      (reject_if (upload = 0 \<and> download = 0) (InvalidArgument ''traffic shaper requires upload or download bandwidth'')
      (reject_if (burst < 0 \<or> burst > maxTrafficShaperBurstBytes) (InvalidArgument ''traffic shaper burst must be between 0 and 1 GiB'')
      (reject_if (requestExempt < 0 \<or> requestExempt > maxTrafficShaperExemptBytes) (InvalidArgument ''traffic shaper request exemption must be between 0 and 1 GiB'')
      (reject_if (responseExempt < 0 \<or> responseExempt > maxTrafficShaperExemptBytes) (InvalidArgument ''traffic shaper response exemption must be between 0 and 1 GiB'')
      (ebind (shaper_err (validate_match C matchRule)) (\<lambda>matchConfig.
      ebind (if scope = publicTrafficShaperBudgetScopePerKey then shaper_err (validateRateLimitClientIdentityKeyParts keyParts) else Inr []) (\<lambda>keyPartConfig.
      ebind (marshal_or (marshal_match C matchConfig)) (\<lambda>matchJSON.
      ebind (marshal_or (marshal_key_parts C keyPartConfig)) (\<lambda>keyPartsJSON.
      Inr \<lparr>sm_Name = name, sm_Priority = priority, sm_Enabled = boolInt enabled, sm_BudgetScope = scope, sm_ProtocolScope = protocol,
           sm_UploadBytesPerSecond = upload, sm_DownloadBytesPerSecond = download, sm_BurstBytes = burst,
           sm_RequestExemptBytes = requestExempt, sm_ResponseExemptBytes = responseExempt, sm_MatchJSON = matchJSON, sm_KeyPartsJSON = keyPartsJSON\<rparr>))))))))))))))"

record shaper_row =
  shr_ID :: int
  shr_input :: publicTrafficShaperRuleMutationInput \<comment> \<open>the columns a mutation writes\<close>
  shr_CreatedAt :: gotime
  shr_UpdatedAt :: gotime

datatype shaper_row_error = DecodeMatch connect_error | DecodeKeyParts connect_error | InvalidKeyParts connect_error

definition publicTrafficShaperRuleRowToConfig ::
  "'m rl_decoders \<Rightarrow> 'm \<Rightarrow> ('m publicTrafficShaperRuleConfig \<Rightarrow> string) \<Rightarrow> shaper_row \<Rightarrow> shaper_row_error + 'm publicTrafficShaperRuleConfig" where
  \<comment> \<open>the second argument is the zero value of the match, the third the fingerprint\<close>
  "publicTrafficShaperRuleRowToConfig D zeroMatch fp row =
     (let i = shr_input row; scope = normalizePublicTrafficShaperBudgetScope (sm_BudgetScope i) in
      ebind (if sm_MatchJSON i \<noteq> '''' then (case decode_match D (sm_MatchJSON i) of Inl e \<Rightarrow> Inl (DecodeMatch e) | Inr m \<Rightarrow> Inr m) else Inr zeroMatch) (\<lambda>mtch.
      ebind (if sm_KeyPartsJSON i \<noteq> '''' then (case unmarshal_key_parts D (sm_KeyPartsJSON i) of Inl e \<Rightarrow> Inl (DecodeKeyParts e) | Inr ps \<Rightarrow> Inr ps) else Inr []) (\<lambda>parts0.
      ebind (if scope = publicTrafficShaperBudgetScopePerRequest then Inr []
             else (case validateStoredRateLimitClientIdentityKeyParts parts0 of
                     Inl e \<Rightarrow> Inl (InvalidKeyParts (trafficShaperValidationError e)) | Inr ps \<Rightarrow> Inr ps)) (\<lambda>parts.
      let rule = \<lparr>sr_ID = shr_ID row, sr_Name = sm_Name i, sr_Priority = sm_Priority i, sr_Enabled = (sm_Enabled i \<noteq> 0), sr_BudgetScope = scope,
                  sr_ProtocolScope = normalizePublicTrafficShaperProtocolScope (sm_ProtocolScope i), sr_UploadBytesPerSecond = sm_UploadBytesPerSecond i,
                  sr_DownloadBytesPerSecond = sm_DownloadBytesPerSecond i, sr_BurstBytes = sm_BurstBytes i,
                  sr_RequestExemptBytes = sm_RequestExemptBytes i, sr_ResponseExemptBytes = sm_ResponseExemptBytes i, sr_Match = mtch, sr_KeyParts = parts,
                  sr_CreatedAt = shr_CreatedAt row, sr_UpdatedAt = shr_UpdatedAt row, sr_Fingerprint = ''''\<rparr>
      in Inr (rule\<lparr>sr_Fingerprint := fp rule\<rparr>)))))"

section \<open>What a shaped transfer is charged\<close>

definition write_start :: "int \<Rightarrow> write_result" where
  "write_start exempt = \<lparr>wr_written = 0, wr_error = None, wr_exempt = exempt, wr_charged = 0, wr_refunded = 0\<rparr>"

definition write_exact :: "int \<Rightarrow> write_result \<Rightarrow> bool" where
  \<comment> \<open>the exemption is used up first, and what was charged and not given ret is the rest of what was written\<close>
  "write_exact exempt r \<longleftrightarrow> 0 \<le> wr_written r \<and> wr_exempt r = max 0 (exempt - wr_written r) \<and>
     wr_charged r - wr_refunded r = max 0 (wr_written r - exempt)"

lemma reserve_reconcile_exact:
  assumes "reserveShapedBytes True e chunk w = Some (v, e1)" "0 \<le> e" "0 < chunk" "0 \<le> n" "n \<le> chunk"
    "reservation_reconcile v e1 n = (e2, ret)"
  shows "e2 = max 0 (e - n)" "rs_charged v - ret = max 0 (n - e)" "0 \<le> ret" "ret \<le> rs_charged v" "rs_charged v \<le> chunk"
  using assms by (auto simp: reserveShapedBytes_def reservation_reconcile_def exempt_part_def Let_def split: if_splits)

lemma write_turn_exact:
  assumes "write_exact exempt r" "reserveShapedBytes True (wr_exempt r) chunk w = Some (v, e1)" "0 < chunk" "0 \<le> n" "n \<le> chunk"
    "reservation_reconcile v e1 n = (e2, ret)"
  shows "write_exact exempt (r\<lparr>wr_exempt := e2, wr_charged := wr_charged r + rs_charged v, wr_refunded := wr_refunded r + ret,
    wr_written := wr_written r + n\<rparr>)"
proof -
  have r: "0 \<le> wr_written r" "wr_exempt r = max 0 (exempt - wr_written r)" "wr_charged r - wr_refunded r = max 0 (wr_written r - exempt)"
    using assms(1) by (simp_all add: write_exact_def)
  then have e: "0 \<le> wr_exempt r" by simp
  note step = reserve_reconcile_exact(1,2) [OF assms(2) e assms(3-6)]
  have "e2 = max 0 (exempt - (wr_written r + n))" using step(1) r(1,2) assms(4) by linarith
  moreover have "wr_charged r + rs_charged v - (wr_refunded r + ret) = max 0 (wr_written r + n - exempt)"
    using step(2) r assms(4) by linarith
  ultimately show ?thesis using r(1) assms(4) by (simp add: write_exact_def)
qed

lemma write_exact_error [simp]: "write_exact exempt (r\<lparr>wr_error := x\<rparr>) = write_exact exempt r"
  by (simp add: write_exact_def)

lemma shaping_write_exact:
  assumes "shaping_write True limit len script r0 = Some r" "1 \<le> limit" "write_exact exempt r0" "wr_error r0 = None" "0 \<le> len"
  shows "write_exact exempt r \<and> wr_written r0 \<le> wr_written r \<and> wr_written r \<le> wr_written r0 + len \<and>
    (wr_error r = None \<longrightarrow> wr_written r = wr_written r0 + len)"
  using assms(1,3-5)
proof (induction script arbitrary: len r0)
  case Nil
  then show ?case by (simp add: shaping_write.simps split: if_splits)
next
  case (Cons turn rest)
  obtain waited n failed where turn: "turn = (waited, n, failed)" by (cases turn)
  show ?case
  proof (cases "len \<le> 0")
    case True
    then show ?thesis using Cons.prems by (simp add: shaping_write.simps)
  next
    case pos: False
    let ?c = "if limit < len then limit else len"
    have c: "0 < ?c" "?c \<le> len" using pos assms(2) by auto
    note eq = Cons.prems(1) [unfolded shaping_write.simps [of True limit len] turn]
    show ?thesis
    proof (cases "reserveShapedBytes True (wr_exempt r0) ?c waited")
      case None
      then show ?thesis using eq pos Cons.prems by auto
    next
      case (Some ve)
      obtain v e1 where ve: "ve = (v, e1)" by (cases ve)
      let ?n = "if 0 \<le> n \<and> n \<le> ?c then n else 0"
      obtain e2 ret where rc: "reservation_reconcile v e1 ?n = (e2, ret)" by (cases "reservation_reconcile v e1 ?n")
      let ?r = "r0\<lparr>wr_exempt := e2, wr_charged := wr_charged r0 + rs_charged v, wr_refunded := wr_refunded r0 + ret, wr_written := wr_written r0 + ?n\<rparr>"
      have ok: "write_exact exempt ?r"
        using write_turn_exact [OF Cons.prems(2) Some [unfolded ve] c(1) _ _ rc] c(1) by auto
      show ?thesis
      proof (cases "0 \<le> n \<and> n \<le> ?c \<and> \<not> failed \<and> n \<noteq> 0")
        case True
        then have "shaping_write True limit (len - n) rest ?r = Some r"
          using eq pos Some ve rc by (simp add: Let_def)
        from Cons.IH [OF this ok] show ?thesis using Cons.prems(3) True c by auto
      next
        case False
        then have "\<exists>x. r = ?r\<lparr>wr_error := Some x\<rparr>" using eq pos Some ve rc by (auto simp: Let_def split: if_splits)
        then show ?thesis using ok c by auto
      qed
    qed
  qed
qed

definition upgrade_read :: "byteTokenBucket option \<Rightarrow> int \<Rightarrow> int \<Rightarrow> (int \<Rightarrow> int) \<Rightarrow> (int \<times> int) \<times> int" where
  \<comment> \<open>\<open>shapingReadWriteCloser.Read\<close>, with the arguments and the result of \<open>shaping_read\<close>\<close>
  "upgrade_read bucket exempt len body =
     (let len1 = (if bucket \<noteq> None \<and> len > chunkLimit bucket then chunkLimit bucket else len);
          n = body len1;
          (charge, exempt') = shapeTransferredBytes (bucket \<noteq> None) exempt n
      in ((n, charge), exempt'))"

fun read_all :: "(int \<Rightarrow> int \<Rightarrow> (int \<Rightarrow> int) \<Rightarrow> (int \<times> int) \<times> int) \<Rightarrow> int \<Rightarrow> (int \<times> (int \<Rightarrow> int)) list \<Rightarrow> (int \<times> int) \<times> int" where
  \<comment> \<open>successive calls of a \<open>Read\<close>: the bytes received, the bytes charged and the remaining exemption\<close>
  "read_all rd exempt [] = ((0, 0), exempt)"
| "read_all rd exempt ((len, body) # rest) =
     (let ((n, c), exempt1) = rd exempt len body; ((n', c'), exempt2) = read_all rd exempt1 rest
      in ((max 0 n + n', c + c'), exempt2))"

lemma chunkLimit_bounds: "1 \<le> chunkLimit b" "chunkLimit b \<le> maxShapingChunkBytes"
  by (auto simp: chunkLimit_def maxShapingChunkBytes_def Let_def split: option.split)

lemma shaping_read_upgrade_read: "shaping_read b exempt len body = upgrade_read (Some b) exempt len body"
  by (simp add: shaping_read_def upgrade_read_def shapeTransferredBytes_def exempt_part_def Let_def)

lemma upgrade_read_exact:
  "0 \<le> e \<Longrightarrow> upgrade_read (Some b) e len body = ((n, c), e') \<Longrightarrow> e' = max 0 (e - max 0 n) \<and> c = max 0 (max 0 n - e)"
  by (auto simp: upgrade_read_def shapeTransferredBytes_def exempt_part_def Let_def split: if_splits)

lemma exempt_chain:
  fixes e a b :: int
  assumes "0 \<le> e" "0 \<le> a" "0 \<le> b"
  shows "max 0 (max 0 (e - a) - b) = max 0 (e - (a + b))" "max 0 (a - e) + max 0 (b - max 0 (e - a)) = max 0 (a + b - e)"
  using assms by (simp_all add: max_def)

lemma read_all_exact:
  "0 \<le> e \<Longrightarrow> read_all (upgrade_read (Some b)) e reqs = ((n, c), e') \<Longrightarrow> 0 \<le> n \<and> e' = max 0 (e - n) \<and> c = max 0 (n - e)"
proof (induction reqs arbitrary: e n c e')
  case (Cons q reqs)
  obtain len body where q: "q = (len, body)" by (cases q)
  obtain n1 c1 e1 where s: "upgrade_read (Some b) e len body = ((n1, c1), e1)" by (metis surj_pair)
  obtain n2 c2 e2 where t: "read_all (upgrade_read (Some b)) e1 reqs = ((n2, c2), e2)" by (metis surj_pair)
  have 1: "e1 = max 0 (e - max 0 n1)" "c1 = max 0 (max 0 n1 - e)" using upgrade_read_exact [OF Cons.prems(1) s] by simp_all
  then have 2: "0 \<le> n2" "e2 = max 0 (e1 - n2)" "c2 = max 0 (n2 - e1)" using Cons.IH [OF _ t] by simp_all
  have 3: "n = max 0 n1 + n2" "c = c1 + c2" "e' = e2" using Cons.prems(2) q s t by simp_all
  have "0 \<le> max 0 n1" by simp
  note chain = exempt_chain [OF Cons.prems(1) this 2(1)]
  show ?case using 2(1) by (simp add: 3 2(2,3) 1 chain)
qed simp

lemma chunk_within_burst:
  assumes "burstBytes b = of_int k" "1 \<le> k" "m \<le> chunkLimit (Some b)"
  shows "m \<le> k"
  using assms by (auto simp: chunkLimit_def Let_def split: if_splits)

section \<open>Splitting an amount into spends\<close>

function pieces :: "int \<Rightarrow> int \<Rightarrow> int list" where
  "pieces k m = (if m \<le> 0 \<or> k \<le> 0 then [] else if m > k then k # pieces k (m - k) else [m])"
  by pat_completeness auto
termination by (relation "measure (\<lambda>(k, m). nat m)") auto

declare pieces.simps [simp del]

lemma f_sub_int: "\<bar>m - k\<bar> \<le> 9007199254740992 \<Longrightarrow> f_sub (of_int m) (of_int k) = of_int (m - k)"
  using f_of_int_exact [of "m - k"] by (simp add: f_sub_def f_of_int_def)

lemma wait_spends_pieces:
  "0 \<le> m \<Longrightarrow> m \<le> 9007199254740992 \<Longrightarrow> 1 \<le> k \<Longrightarrow> wait_spends (of_int k) (of_int m) = Some (map of_int (pieces k m))"
proof (induction k m rule: pieces.induct)
  case (1 k m)
  consider "m = 0" | "0 < m" "m > k" | "0 < m" "m \<le> k" using 1(2) by linarith
  then show ?case
  proof cases
    case 1
    then show ?thesis by (simp add: wait_spends.simps pieces.simps)
  next
    case 2
    have "f_sub (of_int m) (of_int k) = (of_int (m - k) :: rat)" using 1(3,4) 2 by (intro f_sub_int) simp
    moreover have "wait_spends (of_int k) (of_int (m - k)) = Some (map of_int (pieces k (m - k)))" using 1 2 by simp
    ultimately show ?thesis using 2 1(4) by (simp add: wait_spends.simps [of _ "of_int m"] pieces.simps [of _ m] Let_def)
  next
    case 3
    then show ?thesis using 1(4) by (simp add: wait_spends.simps [of _ "of_int m"] wait_spends.simps [of _ 0] pieces.simps [of _ m] f_sub_def Let_def)
  qed
qed

lemma pieces_sum: "0 \<le> m \<Longrightarrow> 1 \<le> k \<Longrightarrow> sum_list (pieces k m) = m"
proof (induction k m rule: pieces.induct)
  case (1 k m)
  then show ?case by (subst pieces.simps) auto
qed

lemma pieces_range: "x \<in> set (pieces k m) \<Longrightarrow> 0 < x \<and> x \<le> k"
proof (induction k m rule: pieces.induct)
  case (1 k m)
  then show ?case by (subst (asm) (2) pieces.simps) (auto split: if_splits)
qed

lemma pieces_length: "0 \<le> m \<Longrightarrow> 1 \<le> k \<Longrightarrow> k * int (length (pieces k m)) < m + k"
proof (induction k m rule: pieces.induct)
  case (1 k m)
  then show ?case by (subst pieces.simps) (auto simp: algebra_simps)
qed

lemma pieces_single: "0 < m \<Longrightarrow> m \<le> k \<Longrightarrow> pieces k m = [m]"
  by (simp add: pieces.simps)

text \<open>C35: splitting an amount into spends ends for every rule's burst: the spends are whole bytes, none is larger than the burst (so that a full bucket
  can pay it) or empty, they sum to the amount, and there are at most \<open>bytes / burst\<close> rounded up of them. Termination.\<close>
theorem wait_splits_amount:
  assumes "newByteTokenBucket rate burst now = Some b" "rate \<le> maxTrafficShaperBytesPerSecond" "burst \<le> maxTrafficShaperBytesPerSecond"
    "0 \<le> bytes" "bytes \<le> 2 ^ 53"
  shows "\<exists>spends. wait_spends (burstBytes b) (of_int bytes) = Some (map of_int spends) \<and> sum_list spends = bytes \<and>
    (\<forall>x \<in> set spends. 0 < x \<and> of_int x \<le> burstBytes b) \<and> of_int (int (length spends)) * burstBytes b < of_int bytes + burstBytes b"
proof -
  let ?k = "if burst \<le> 0 then rate else burst"
  have b: "burstBytes b = of_int ?k" "1 \<le> ?k" using assms(1-3) by (auto simp: newByteTokenBucket_def shaper_consts Let_def split: if_splits)
  have "wait_spends (of_int ?k) (of_int bytes) = Some (map of_int (pieces ?k bytes))" using assms(4,5) b(2) by (intro wait_spends_pieces) simp_all
  moreover have "(of_int (?k * int (length (pieces ?k bytes))) :: rat) < of_int (bytes + ?k)"
    using pieces_length [OF assms(4) b(2)] by (simp only: of_int_less_iff)
  ultimately show ?thesis unfolding b(1) using pieces_sum [OF assms(4) b(2)] pieces_range [of _ ?k bytes]
    by (intro exI [of _ "pieces ?k bytes"]) (auto simp: mult.commute)
qed

lemma wait_splits_amount_witness:
  "newByteTokenBucket 1000 300 0 \<noteq> None \<and>
   (\<exists>spends. wait_spends 300 700 = Some (map of_int spends) \<and> sum_list spends = 700 \<and> (\<forall>x \<in> set spends. 0 < x \<and> of_int x \<le> (300 :: rat)))"
proof -
  obtain b where b: "newByteTokenBucket 1000 300 0 = Some b" "burstBytes b = 300" by (simp add: newByteTokenBucket_def Let_def)
  show ?thesis using b wait_splits_amount [OF b(1), of 700] by (auto simp: shaper_consts)
qed

lemma shaped_transfer_parts:
  assumes "0 \<le> exempt" "0 \<le> len" "shaping_write True (chunkLimit (Some b)) len script (write_start exempt) = Some w"
    "read_all (shaping_read b) exempt reqs = ((n, c), e)"
  shows "0 \<le> wr_written w" "wr_written w \<le> len" "wr_error w = None \<Longrightarrow> wr_written w = len"
    and "wr_exempt w = max 0 (exempt - wr_written w)" "wr_charged w - wr_refunded w = max 0 (wr_written w - exempt)"
    and "0 \<le> n" "e = max 0 (exempt - n)" "c = max 0 (n - exempt)"
proof -
  have st: "write_exact exempt (write_start exempt)" "wr_error (write_start exempt) = None" "wr_written (write_start exempt) = 0"
    using assms(1) by (simp_all add: write_exact_def write_start_def)
  note w = shaping_write_exact [OF assms(3) chunkLimit_bounds(1) st(1,2) assms(2), unfolded st(3)]
  then show "0 \<le> wr_written w" "wr_written w \<le> len" "wr_error w = None \<Longrightarrow> wr_written w = len"
    "wr_exempt w = max 0 (exempt - wr_written w)" "wr_charged w - wr_refunded w = max 0 (wr_written w - exempt)"
    by (simp_all add: write_exact_def)
  have "shaping_read b = upgrade_read (Some b)" by (intro ext) (rule shaping_read_upgrade_read)
  then show "0 \<le> n" "e = max 0 (exempt - n)" "c = max 0 (n - exempt)" using read_all_exact [OF assms(1)] assms(4) by auto
qed

text \<open>C28: a transfer is charged exactly. On a connection with a bucket and a non-negative exemption, a \<open>Write\<close>, whatever the connection accepts in each turn and however it ends,
  and any sequence of \<open>Read\<close>s use up the exemption first and take from the bucket, net of what a short write gives back, exactly the
  bytes transferred beyond it; a write never reports more than it was given, and reports all of it when it ends without an error. Functional.\<close>
theorem shaped_transfer_exact:
  assumes "0 \<le> exempt" "0 \<le> len" "shaping_write True (chunkLimit (Some b)) len script (write_start exempt) = Some w"
    "read_all (shaping_read b) exempt reqs = ((n, c), e)"
  shows "0 \<le> wr_written w \<and> wr_written w \<le> len \<and> (wr_error w = None \<longrightarrow> wr_written w = len) \<and>
    wr_exempt w = max 0 (exempt - wr_written w) \<and> wr_charged w - wr_refunded w = max 0 (wr_written w - exempt) \<and>
    0 \<le> n \<and> e = max 0 (exempt - n) \<and> c = max 0 (n - exempt)"
  using shaped_transfer_parts [OF assms] by blast

lemma shaped_transfer_exact_witness:
  "(let b = \<lparr>rateBytesPerSecond = 1000, burstBytes = 1000, bt_tokens = 1000, lastRefill = 0, lastUsed = 0\<rparr>
    in shaping_write True (chunkLimit (Some b)) 1500 [(True, 400, False), (True, 1000, False), (True, 50, True)] (write_start 600)
       = Some \<lparr>wr_written = 1450, wr_error = Some WriteBody, wr_exempt = 0, wr_charged = 1300, wr_refunded = 450\<rparr> \<and>
       read_all (shaping_read b) 600 [(4096, \<lambda>k. k), (4096, \<lambda>_. 100)] = ((1100, 500), 0)) \<and>
   (1300 - 450 :: int) = max 0 (1450 - 600) \<and> (500 :: int) = max 0 (1100 - 600)"
proof -
  let ?b = "\<lparr>rateBytesPerSecond = 1000, burstBytes = 1000, bt_tokens = 1000, lastRefill = 0, lastUsed = 0\<rparr> :: byteTokenBucket"
  have l: "chunkLimit (Some ?b) = 1000" by (simp add: chunkLimit_def maxShapingChunkBytes_def)
  have w: "shaping_write True (chunkLimit (Some ?b)) 1500 [(True, 400, False), (True, 1000, False), (True, 50, True)] (write_start 600)
    = Some \<lparr>wr_written = 1450, wr_error = Some WriteBody, wr_exempt = 0, wr_charged = 1300, wr_refunded = 450\<rparr>"
    unfolding l by code_simp
  have r: "read_all (shaping_read ?b) 600 [(4096, \<lambda>k. k), (4096, \<lambda>_. 100)] = ((1100, 500), 0)"
    by (simp add: shaping_read_def l exempt_part_def)
  have "(1300 - 450 :: int) = max 0 (1450 - 600)" using shaped_transfer_exact [OF _ _ w r] by simp
  moreover have "(500 :: int) = max 0 (1100 - 600)" using shaped_transfer_exact [OF _ _ w r] by simp
  ultimately show ?thesis unfolding Let_def using w r by blast
qed

section \<open>The bucket tables\<close>

definition table_wf :: "bucket_table \<Rightarrow> bool" where
  "table_wf m \<longleftrightarrow> gm_wf m \<and> '''' \<notin> gm_keys m"

definition as_key_table :: "byteTokenBucket list \<Rightarrow> bucket_table \<Rightarrow> (string, publicRateLimitKeyRuntime) gomap" where
  \<comment> \<open>the rate limiter evicts in the same way, by the time a key was last seen\<close>
  "as_key_table cells m = map (\<lambda>(k, a). (k, zeroKeyRuntime\<lparr>lastSeenAt := cell_used cells a\<rparr>)) m"

lemma as_key_table_facts [simp]:
  "map_of (as_key_table cells m) k = map_option (\<lambda>a. zeroKeyRuntime\<lparr>lastSeenAt := cell_used cells a\<rparr>) (map_of m k)"
  "map fst (as_key_table cells m) = map fst m" "gm_keys (as_key_table cells m) = gm_keys m" "length (as_key_table cells m) = length m"
  by (simp_all add: as_key_table_def map_of_map case_prod_beta image_image comp_def)

lemma oldest_bucket_scan_eq: "oldest_bucket_scan cells m ks old t = evict_oldest_scan (as_key_table cells m) ks old t"
  by (induction cells m ks old t rule: oldest_bucket_scan.induct) (simp_all split: option.split)

lemma range_keys_as_key_table: "range_keys ord (as_key_table cells m) = range_keys ord m"
  by (simp add: range_keys_def)

lemma evict_bucket_size:
  assumes "table_wf m" "m \<noteq> []"
  shows "length (evictOldestTrafficShaperBucket cells m ord) = length m - 1"
proof -
  let ?K = "as_key_table cells m"
  have "length ?K \<noteq> 0" using assms(2) by simp
  then have wf: "keys_wf ?K" "?K \<noteq> []" using assms(1) by (simp add: keys_wf_def table_wf_def gm_wf_def, force)
  then show ?thesis using assms evict_oldest_scan_some [OF wf, of ord]
    by (simp add: evictOldestTrafficShaperBucket_def Let_def table_wf_def length_delete_key oldest_bucket_scan_eq range_keys_as_key_table)
qed

definition bucket_room :: "byteTokenBucket list \<Rightarrow> bucket_table \<Rightarrow> string list \<Rightarrow> bucket_table" where
  "bucket_room cells m ord = (if int (length m) \<ge> maxTrafficShaperBucketsPerRule then evictOldestTrafficShaperBucket cells m ord else m)"

lemma bucket_room_cases: "bucket_room cells m ord = m \<or> (\<exists>k. bucket_room cells m ord = AList.delete k m)"
  by (auto simp: bucket_room_def evictOldestTrafficShaperBucket_def Let_def)

lemma bucket_for_fresh: "map_of m key = None \<Longrightarrow>
    bucket_for cells m ord key (Some b) = ((Some (length cells), AList.update key (length cells) (bucket_room cells m ord)), cells @ [b])"
  by (simp add: bucket_for_def bucket_room_def Let_def)

interpretation bt: bounded_store map_of "\<lambda>m. length m" "\<lambda>_. maxTrafficShaperBucketsPerRule" table_wf "\<lambda>_ _. False"
  "\<lambda>m ord now. (True, bucket_room cells m ord)" "\<lambda>m k a. AList.update k a m" "\<lambda>k. k \<noteq> ''''" for cells
proof
  fix m m' :: bucket_table and ord :: "string list" and now :: gotime
  assume wf: "table_wf m" and r: "(True, bucket_room cells m ord) = (True, m')"
    and le: "int (length m) \<le> maxTrafficShaperBucketsPerRule"
  show "int (length m') < maxTrafficShaperBucketsPerRule"
  proof (cases "int (length m) \<ge> maxTrafficShaperBucketsPerRule")
    case True
    then have "m \<noteq> []" by (auto simp: maxTrafficShaperBucketsPerRule_def)
    then show ?thesis using True r le wf evict_bucket_size [OF wf, of cells ord]
      by (auto simp: bucket_room_def maxTrafficShaperBucketsPerRule_def)
  next
    case False
    then show ?thesis using r by (simp add: bucket_room_def)
  qed
next
  fix m m' :: bucket_table and ord :: "string list" and now ok
  assume wf: "table_wf m" and r: "(True, bucket_room cells m ord) = (ok, m')"
  show "table_wf m' \<and> maxTrafficShaperBucketsPerRule = maxTrafficShaperBucketsPerRule" "length m' \<le> length m"
    "map_of m' k = None \<or> map_of m' k = map_of m k" for k
    using wf r bucket_room_cases [of cells m ord] by (auto simp: table_wf_def set_gm_delete image_iff)
qed (auto simp: table_wf_def length_update map_of_eq_None_iff)

definition rt_table :: "publicTrafficShaperRuleRuntime \<Rightarrow> bool \<Rightarrow> bucket_table" where
  \<comment> \<open>the table of a direction, \<open>True\<close> for uploads\<close>
  "rt_table rt up = (if up then uploadBuckets rt else downloadBuckets rt)"

definition slot :: "publicTrafficShaper \<Rightarrow> int \<Rightarrow> bool \<Rightarrow> string \<Rightarrow> nat option" where
  \<comment> \<open>the bucket of a rule, a direction and a key\<close>
  "slot s i up key = Option.bind (map_of (sh_rules s) i) (\<lambda>rt. map_of (rt_table rt up) key)"

definition shaper_ok :: "publicTrafficShaper \<Rightarrow> bool" where
  "shaper_ok s \<longleftrightarrow> gm_wf (sh_rules s) \<and>
     (\<forall>i rt. map_of (sh_rules s) i = Some rt \<longrightarrow> bt.bounded (uploadBuckets rt) \<and> bt.bounded (downloadBuckets rt)) \<and>
     (\<forall>i up key a. slot s i up key = Some a \<longrightarrow> a < length (sh_cells s)) \<and>
     (\<forall>i up key j up' key' a. slot s i up key = Some a \<longrightarrow> slot s j up' key' = Some a \<longrightarrow> i = j \<and> up = up' \<and> key = key')"

definition separate :: "('p \<Rightarrow> nat option) \<Rightarrow> nat \<Rightarrow> bool" where
  \<comment> \<open>the addresses of the places are allocated, and no two places share one\<close>
  "separate T n \<longleftrightarrow> (\<forall>p a. T p = Some a \<longrightarrow> a < n) \<and> (\<forall>p q a. T p = Some a \<longrightarrow> T q = Some a \<longrightarrow> p = q)"

lemma separate_sub:
  assumes "separate T n" "\<And>p. T' p = None \<or> T' p = T p" "n \<le> n'"
  shows "separate T' n'"
proof -
  have "T p = Some a" if "T' p = Some a" for p a using assms(2) [of p] that by auto
  then show ?thesis using assms(1,3) unfolding separate_def by (meson less_le_trans)
qed

lemma separate_new:
  assumes "separate T n" "T' p0 = Some n" "\<And>p. p \<noteq> p0 \<Longrightarrow> T' p = None \<or> T' p = T p" "n < n'"
  shows "separate T' n'"
  unfolding separate_def
proof (intro conjI allI impI)
  fix p a assume "T' p = Some a"
  then show "a < n'" using assms unfolding separate_def by (cases "p = p0") (force, metis less_trans option.distinct(1))
next
  fix p q a assume "T' p = Some a" "T' q = Some a"
  moreover have "x \<noteq> p0 \<Longrightarrow> T' x = Some c \<Longrightarrow> T x = Some c \<and> c < n" for x c
    using assms(1,3) unfolding separate_def by (metis option.distinct(1))
  ultimately show "p = q" using assms(1,2) unfolding separate_def by (metis option.inject less_irrefl)
qed

lemma shaper_ok_separate: "shaper_ok s \<longleftrightarrow> gm_wf (sh_rules s) \<and>
    (\<forall>i rt. map_of (sh_rules s) i = Some rt \<longrightarrow> bt.bounded (uploadBuckets rt) \<and> bt.bounded (downloadBuckets rt)) \<and>
    separate (\<lambda>(i, up, key). slot s i up key) (length (sh_cells s))"
  unfolding shaper_ok_def separate_def by (simp only: split_paired_All prod.case prod.inject)

lemma bucket_for_cases:
  assumes "bt.bounded m" "key \<noteq> ''''" "bucket_for cells m ord key (Some b) = ((a, m'), cells')"
  obtains addr where "a = Some addr" "bt.bounded m'" "map_of m' key = Some addr" "\<forall>k. k \<noteq> key \<longrightarrow> map_of m' k = None \<or> map_of m' k = map_of m k"
    "map_of m key = Some addr \<and> m' = m \<and> cells' = cells \<or> map_of m key = None \<and> addr = length cells \<and> cells' = cells @ [b]"
proof (cases "map_of m key")
  case None
  then have eq: "a = Some (length cells)" "m' = AList.update key (length cells) (bucket_room cells m ord)" "cells' = cells @ [b]"
    using assms(3) by (auto simp: bucket_for_fresh)
  have "bt.bounded m'" unfolding eq(2) using bt.bounded_insert [OF assms(1) refl assms(2)] .
  moreover have "\<forall>k. k \<noteq> key \<longrightarrow> map_of m' k = None \<or> map_of m' k = map_of m k"
    unfolding eq(2) using bucket_room_cases [of cells m ord] by auto
  ultimately show ?thesis using that [of "length cells"] eq None by simp
next
  case (Some addr)
  then show ?thesis using that [of addr] assms by (auto simp: bucket_for_def)
qed

lemma bounded_filter: "bt.bounded m \<Longrightarrow> bt.bounded (filter P m)"
  unfolding bt.bounded_def using length_filter_le [of P m] by (auto simp: table_wf_def simp del: length_filter_le)

lemma bounded_Nil [simp]: "bt.bounded []"
  unfolding bt.bounded_def by (simp add: table_wf_def maxTrafficShaperBucketsPerRule_def)

lemma map_of_prune_buckets: "bt.bounded m \<Longrightarrow> map_of (pruneTrafficShaperBuckets cells m now) k = None \<or>
    map_of (pruneTrafficShaperBuckets cells m now) k = map_of m k"
  unfolding bt.bounded_def by (auto simp: pruneTrafficShaperBuckets_def table_wf_def map_of_filter split: option.split)

lemma sh_pruneLocked_facts:
  "sh_cells (sh_pruneLocked s now) = sh_cells s" "map fst (sh_rules (sh_pruneLocked s now)) = map fst (sh_rules s)"
  by (simp_all add: sh_pruneLocked_def case_prod_beta comp_def)

lemma sh_pruneLocked_rule:
  "map_of (sh_rules (sh_pruneLocked s now)) i = map_of (sh_rules s) i \<or>
   map_of (sh_rules (sh_pruneLocked s now)) i = map_option (\<lambda>rt. rt\<lparr>uploadBuckets := pruneTrafficShaperBuckets (sh_cells s) (uploadBuckets rt) now,
     downloadBuckets := pruneTrafficShaperBuckets (sh_cells s) (downloadBuckets rt) now\<rparr>) (map_of (sh_rules s) i)"
  by (simp add: sh_pruneLocked_def map_of_map)

lemma sh_pruneLocked_ok:
  assumes "shaper_ok s"
  shows "shaper_ok (sh_pruneLocked s now)" "slot (sh_pruneLocked s now) i up key = None \<or> slot (sh_pruneLocked s now) i up key = slot s i up key"
proof -
  have sub: "slot (sh_pruneLocked s now) i up key = None \<or> slot (sh_pruneLocked s now) i up key = slot s i up key" for i up key
  proof (cases "map_of (sh_rules s) i")
    case (Some rt)
    then have b: "bt.bounded (uploadBuckets rt)" "bt.bounded (downloadBuckets rt)" using assms by (auto simp: shaper_ok_def)
    show ?thesis using Some sh_pruneLocked_rule [of s now i] map_of_prune_buckets [OF b(1), of "sh_cells s" now key] map_of_prune_buckets [OF b(2), of "sh_cells s" now key]
      by (auto simp: slot_def rt_table_def)
  qed (use sh_pruneLocked_rule [of s now i] in \<open>simp add: slot_def\<close>)
  then show "slot (sh_pruneLocked s now) i up key = None \<or> slot (sh_pruneLocked s now) i up key = slot s i up key" .
  have "bt.bounded (uploadBuckets rt) \<and> bt.bounded (downloadBuckets rt)" if "map_of (sh_rules (sh_pruneLocked s now)) i = Some rt" for i rt
  proof (cases "map_of (sh_rules s) i")
    case (Some rt0)
    then have b: "bt.bounded (uploadBuckets rt0)" "bt.bounded (downloadBuckets rt0)" using assms by (auto simp: shaper_ok_def)
    then show ?thesis using that Some sh_pruneLocked_rule [of s now i] by (auto simp: pruneTrafficShaperBuckets_def bounded_filter)
  qed (use that sh_pruneLocked_rule [of s now i] in simp)
  moreover have "gm_wf (sh_rules (sh_pruneLocked s now))" using assms sh_pruneLocked_facts(2) by (simp add: shaper_ok_def gm_wf_def)
  moreover have "separate (\<lambda>(i, up, key). slot (sh_pruneLocked s now) i up key) (length (sh_cells s))"
  proof (rule separate_sub)
    show "separate (\<lambda>(i, up, key). slot s i up key) (length (sh_cells s))" using assms unfolding shaper_ok_separate by blast
    show "(case p of (i, up, key) \<Rightarrow> slot (sh_pruneLocked s now) i up key) = None \<or>
      (case p of (i, up, key) \<Rightarrow> slot (sh_pruneLocked s now) i up key) = (case p of (i, up, key) \<Rightarrow> slot s i up key)" for p
      using sub by (cases p) simp
  qed simp
  ultimately show "shaper_ok (sh_pruneLocked s now)" unfolding shaper_ok_separate by (simp add: sh_pruneLocked_facts)
qed

lemma shaper_runtime_bounded:
  assumes "shaper_ok s"
  shows "bt.bounded (uploadBuckets (sh_runtime s rule))" "bt.bounded (downloadBuckets (sh_runtime s rule))"
    "map_of (rt_table (sh_runtime s rule) up) key = None \<or>
     map_of (rt_table (sh_runtime s rule) up) key = slot s (sr_ID rule) up key"
proof -
  have b: "map_of (sh_rules s) i = Some rt \<Longrightarrow> bt.bounded (uploadBuckets rt) \<and> bt.bounded (downloadBuckets rt)" for i rt
    using assms unfolding shaper_ok_def by blast
  show "bt.bounded (uploadBuckets (sh_runtime s rule))" "bt.bounded (downloadBuckets (sh_runtime s rule))"
    "map_of (rt_table (sh_runtime s rule) up) key = None \<or>
     map_of (rt_table (sh_runtime s rule) up) key = slot s (sr_ID rule) up key"
    using b [of "sr_ID rule"] by (simp_all add: sh_runtime_def slot_def rt_table_def split: option.split)
qed

lemma slot_put:
  "slot (s\<lparr>sh_rules := AList.update i (rt\<lparr>uploadBuckets := ub, downloadBuckets := db\<rparr>) (sh_rules s), sh_cells := c\<rparr>) j up key =
     (if j = i then map_of (if up then ub else db) key else slot s j up key)"
  by (auto simp: slot_def rt_table_def)

definition bucket_step_for :: "byteTokenBucket list \<Rightarrow> bucket_table \<Rightarrow> string list \<Rightarrow> string \<Rightarrow> byteTokenBucket option \<Rightarrow> (nat option \<times> bucket_table) \<times> byteTokenBucket list" where
  "bucket_step_for cells m ord key fresh = (if fresh \<noteq> None then bucket_for cells m ord key fresh else ((None, m), cells))"

lemma bucket_step_for_separate:
  assumes "bucket_step_for cells m ord key fresh = ((a, m'), cells')" "bt.bounded m" "key \<noteq> ''''"
    and T: "separate T (length cells)" "\<And>k. map_of m k = None \<or> map_of m k = T (h k)" "inj h"
    and T': "\<And>k. T' (h k) = map_of m' k" "\<And>p. p \<notin> range h \<Longrightarrow> T' p = T p"
  shows "bt.bounded m'" "separate T' (length cells')" "\<exists>new. cells' = cells @ new"
    "if fresh = None then a = None \<and> m' = m \<and> cells' = cells
     else a \<noteq> None \<and> map_of m' key = a \<and>
       (if map_of m key \<noteq> None then a = map_of m key \<and> cells' = cells else a = Some (length cells) \<and> cells' = cells @ [the fresh])"
proof -
  have sub: "T' (h k) = None \<or> T' (h k) = T (h k)" if "map_of m' k = None \<or> map_of m' k = map_of m k" for k using that T(2) [of k] T'(1) [of k] by auto
  have "bt.bounded m' \<and> separate T' (length cells') \<and> (\<exists>new. cells' = cells @ new) \<and> (if fresh = None then a = None \<and> m' = m \<and> cells' = cells
     else a \<noteq> None \<and> map_of m' key = a \<and>
       (if map_of m key \<noteq> None then a = map_of m key \<and> cells' = cells else a = Some (length cells) \<and> cells' = cells @ [the fresh]))"
  proof (cases fresh)
    case None
    then have eq: "m' = m" "cells' = cells" "a = None" using assms(1) by (simp_all add: bucket_step_for_def)
    have "T' p = None \<or> T' p = T p" for p using sub T'(2) eq by (cases "p \<in> range h") auto
    then have "separate T' (length cells')" using T(1) eq by (intro separate_sub [OF T(1)]) simp_all
    then show ?thesis using None eq assms(2) by simp
  next
    case (Some b)
    then have "bucket_for cells m ord key (Some b) = ((a, m'), cells')" using assms(1) by (simp add: bucket_step_for_def)
    then obtain addr where addr: "a = Some addr" "bt.bounded m'" "map_of m' key = Some addr" "\<forall>k. k \<noteq> key \<longrightarrow> map_of m' k = None \<or> map_of m' k = map_of m k"
      "map_of m key = Some addr \<and> m' = m \<and> cells' = cells \<or> map_of m key = None \<and> addr = length cells \<and> cells' = cells @ [b]"
      by (rule bucket_for_cases [OF assms(2,3)])
    have other: "T' p = None \<or> T' p = T p" if "p \<noteq> h key" for p
    proof (cases "p \<in> range h")
      case True
      then obtain k where "p = h k" by blast
      then show ?thesis using sub [of k] addr(4) that by metis
    qed (use T'(2) in simp)
    from addr(5) have "separate T' (length cells')"
    proof
      assume "map_of m key = Some addr \<and> m' = m \<and> cells' = cells"
      moreover then have "T' (h key) = T (h key)" using T(2) [of key] T'(1) [of key] by simp
      ultimately show ?thesis using other by (intro separate_sub [OF T(1)]) (metis, simp)
    next
      assume "map_of m key = None \<and> addr = length cells \<and> cells' = cells @ [b]"
      then show ?thesis using addr(3) T'(1) other by (intro separate_new [OF T(1), of _ "h key"]) simp_all
    qed
    then show ?thesis using Some addr by auto
  qed
  then show "bt.bounded m'" "separate T' (length cells')" "\<exists>new. cells' = cells @ new"
    "if fresh = None then a = None \<and> m' = m \<and> cells' = cells
     else a \<noteq> None \<and> map_of m' key = a \<and>
       (if map_of m key \<noteq> None then a = map_of m key \<and> cells' = cells else a = Some (length cells) \<and> cells' = cells @ [the fresh])"
    by blast+
qed

definition sd_bucket :: "'m publicTrafficShaperDecision \<Rightarrow> bool \<Rightarrow> nat option" where
  "sd_bucket d up = (if up then sd_UploadBucket d else sd_DownloadBucket d)"

definition sr_rate :: "'m publicTrafficShaperRuleConfig \<Rightarrow> bool \<Rightarrow> int" where
  "sr_rate rule up = (if up then sr_UploadBytesPerSecond rule else sr_DownloadBytesPerSecond rule)"

definition fresh_bucket :: "'m publicTrafficShaperRuleConfig \<Rightarrow> bool \<Rightarrow> gotime \<Rightarrow> byteTokenBucket option" where
  "fresh_bucket rule up now = newByteTokenBucket (sr_rate rule up) (effectiveBurstBytes rule (sr_rate rule up)) now"

lemma fresh_bucket_None: "fresh_bucket rule up now = None \<longleftrightarrow> sr_rate rule up \<le> 0"
  by (simp add: fresh_bucket_def newByteTokenBucket_def Let_def)

lemma decision_per_key:
  assumes "sr_BudgetScope rule \<noteq> publicTrafficShaperBudgetScopePerRequest" "decisionForRule sha o1 o2 s0 rule protocol r now = (d, s')"
  defines "key \<equiv> trafficShaperKeyHash sha (sh_keyValues rule protocol r)" and "s \<equiv> sh_pruneLocked s0 now"
  obtains ub db cells1 cells2 where
    "bucket_step_for (sh_cells s0) (uploadBuckets (sh_runtime s rule)) o1 key (fresh_bucket rule True now) = ((sd_UploadBucket d, ub), cells1)"
    "bucket_step_for cells1 (downloadBuckets (sh_runtime s rule)) o2 key (fresh_bucket rule False now) = ((sd_DownloadBucket d, db), cells2)"
    "s' = s\<lparr>sh_rules := AList.update (sr_ID rule) ((sh_runtime s rule)\<lparr>uploadBuckets := ub, downloadBuckets := db\<rparr>) (sh_rules s), sh_cells := cells2\<rparr>"
proof -
  have f: "fresh_bucket rule up now \<noteq> None \<longleftrightarrow> sr_rate rule up > 0" for up using fresh_bucket_None [of rule up now] by linarith
  obtain ua ub cells1 where u: "bucket_step_for (sh_cells s0) (uploadBuckets (sh_runtime s rule)) o1 key (fresh_bucket rule True now) = ((ua, ub), cells1)" by (metis surj_pair)
  obtain da db cells2 where v: "bucket_step_for cells1 (downloadBuckets (sh_runtime s rule)) o2 key (fresh_bucket rule False now) = ((da, db), cells2)" by (metis surj_pair)
  have "d = \<lparr>sd_Rule = rule, sd_MatchError = None, sd_UploadBucket = ua, sd_DownloadBucket = da\<rparr> \<and>
    s' = s\<lparr>sh_rules := AList.update (sr_ID rule) ((sh_runtime s rule)\<lparr>uploadBuckets := ub, downloadBuckets := db\<rparr>) (sh_rules s), sh_cells := cells2\<rparr>"
    using assms(1,2) u v f [of True] f [of False] sh_pruneLocked_facts(1) [of s0 now]
    by (auto simp: decisionForRule_def bucket_step_for_def fresh_bucket_def sr_rate_def key_def s_def Let_def split: if_splits)
  with u v that show ?thesis by simp
qed

lemma separate_with_runtime:
  assumes "shaper_ok s"
  shows "separate (\<lambda>(i, up, key). if i = sr_ID rule then map_of (rt_table (sh_runtime s rule) up) key
    else slot s i up key) (length (sh_cells s))"
proof (rule separate_sub)
  show "separate (\<lambda>(i, up, key). slot s i up key) (length (sh_cells s))" using assms unfolding shaper_ok_separate by blast
  show "(case p of (i, up, key) \<Rightarrow> if i = sr_ID rule then map_of (rt_table (sh_runtime s rule) up) key else slot s i up key) = None \<or>
    (case p of (i, up, key) \<Rightarrow> if i = sr_ID rule then map_of (rt_table (sh_runtime s rule) up) key else slot s i up key) =
    (case p of (i, up, key) \<Rightarrow> slot s i up key)" for p
    using shaper_runtime_bounded(3) [OF assms, of rule "fst (snd p)" "snd (snd p)"] by (cases p) simp
qed simp

lemma decision_per_key_ok:
  assumes "shaper_ok s0" "\<And>x. sha x \<noteq> ''''" "sr_BudgetScope rule \<noteq> publicTrafficShaperBudgetScopePerRequest"
    "decisionForRule sha o1 o2 s0 rule protocol r now = (d, s')"
  defines "key \<equiv> trafficShaperKeyHash sha (sh_keyValues rule protocol r)" and "s \<equiv> sh_pruneLocked s0 now"
  shows "shaper_ok s'" "\<exists>new. sh_cells s' = sh_cells s0 @ new"
    "if 0 < sr_rate rule up then sd_bucket d up \<noteq> None \<and> slot s' (sr_ID rule) up key = sd_bucket d up else sd_bucket d up = None"
    "0 < sr_rate rule up \<Longrightarrow> map_of (rt_table (sh_runtime s rule) up) key = Some a \<Longrightarrow> sd_bucket d up = Some a"
    "0 < sr_rate rule up \<Longrightarrow> map_of (rt_table (sh_runtime s rule) up) key = None \<Longrightarrow>
       \<exists>a. sd_bucket d up = Some a \<and> length (sh_cells s0) \<le> a \<and> Some (sh_cells s' ! a) = fresh_bucket rule up now"
proof -
  have ok: "shaper_ok s" "sh_cells s = sh_cells s0" using sh_pruneLocked_ok(1) [OF assms(1)] sh_pruneLocked_facts(1) by (simp_all add: s_def)
  let ?rt = "sh_runtime s rule" and ?i = "sr_ID rule"
  obtain ub db cells1 cells2 where u: "bucket_step_for (sh_cells s0) (uploadBuckets ?rt) o1 key (fresh_bucket rule True now) = ((sd_UploadBucket d, ub), cells1)"
    and v: "bucket_step_for cells1 (downloadBuckets ?rt) o2 key (fresh_bucket rule False now) = ((sd_DownloadBucket d, db), cells2)"
    and s': "s' = s\<lparr>sh_rules := AList.update ?i (?rt\<lparr>uploadBuckets := ub, downloadBuckets := db\<rparr>) (sh_rules s), sh_cells := cells2\<rparr>"
    by (rule decision_per_key [OF assms(3,4), folded key_def s_def])
  have key: "key \<noteq> ''''" using assms(2) by (simp add: key_def trafficShaperKeyHash_def)
  note rb = shaper_runtime_bounded(1,2) [OF ok(1), of rule]
  define T0 where "T0 = (\<lambda>(i, up, k). if i = ?i then map_of (rt_table ?rt up) k else slot s i up k)"
  define T1 where "T1 = (\<lambda>(i, up, k). if i = ?i then map_of (if up then ub else downloadBuckets ?rt) k else slot s i up k)"
  define T2 where "T2 = (\<lambda>(i, up, k). slot s' i up k)"
  have T2: "T2 = (\<lambda>(i, up, k). if i = ?i then map_of (if up then ub else db) k else slot s i up k)"
    unfolding T2_def s' slot_put by (simp add: fun_eq_iff)
  have inj: "inj (\<lambda>k. (?i, up, k))" for up by (simp add: inj_def)
  have s0: "separate T0 (length (sh_cells s0))" using separate_with_runtime [OF ok(1), of rule] unfolding T0_def ok(2) by simp
  have h1: "map_of (uploadBuckets ?rt) k = None \<or> map_of (uploadBuckets ?rt) k = T0 (?i, True, k)" "T1 (?i, True, k) = map_of ub k" for k
    by (simp_all add: T0_def T1_def rt_table_def)
  have h2: "map_of (downloadBuckets ?rt) k = None \<or> map_of (downloadBuckets ?rt) k = T1 (?i, False, k)" "T2 (?i, False, k) = map_of db k" for k
    by (simp_all add: T1_def T2)
  have o1: "T1 p = T0 p" if "p \<notin> range (\<lambda>k. (?i, True, k))" for p
    using that by (cases p) (auto simp: T0_def T1_def rt_table_def)
  have o2: "T2 p = T1 p" if "p \<notin> range (\<lambda>k. (?i, False, k))" for p
    using that by (cases p) (auto simp: T1_def T2)
  note step1 = bucket_step_for_separate [OF u rb(1) key s0 h1(1) inj [of True] h1(2) o1]
  note step2 = bucket_step_for_separate [OF v rb(2) key step1(2) h2(1) inj [of False] h2(2) o2]
  show "shaper_ok s'"
    unfolding shaper_ok_separate
  proof (intro conjI allI impI)
    show "gm_wf (sh_rules s')" using ok(1) unfolding s' shaper_ok_def by simp
    show "separate (\<lambda>(i, up, key). slot s' i up key) (length (sh_cells s'))" using step2(2) unfolding T2_def s' by simp
    show "bt.bounded (uploadBuckets rt)" "bt.bounded (downloadBuckets rt)" if "map_of (sh_rules s') i = Some rt" for i rt
      using that ok(1) step1(1) step2(1) unfolding s' shaper_ok_def by (auto split: if_splits)
  qed
  show "\<exists>new. sh_cells s' = sh_cells s0 @ new" using step1(3) step2(3) unfolding s' by auto
  note res = step1(4) step2(4) fresh_bucket_None [of rule up now]
  have sl: "slot s' ?i up key = map_of (if up then ub else db) key" unfolding s' slot_put by simp
  show "if 0 < sr_rate rule up then sd_bucket d up \<noteq> None \<and> slot s' ?i up key = sd_bucket d up else sd_bucket d up = None"
    using res unfolding sl sd_bucket_def rt_table_def by (cases up) (auto split: if_splits)
  show "0 < sr_rate rule up \<Longrightarrow> map_of (rt_table ?rt up) key = Some a \<Longrightarrow> sd_bucket d up = Some a"
    using res unfolding sd_bucket_def rt_table_def by (cases up) (auto split: if_splits)
  show "\<exists>a. sd_bucket d up = Some a \<and> length (sh_cells s0) \<le> a \<and> Some (sh_cells s' ! a) = fresh_bucket rule up now"
    if "0 < sr_rate rule up" "map_of (rt_table ?rt up) key = None"
    using that res step1(3) step2(3) unfolding sd_bucket_def rt_table_def s' by (cases up) (auto simp: nth_append)
qed

lemma shaper_ok_new: "shaper_ok newPublicTrafficShaper"
  by (simp add: shaper_ok_def newPublicTrafficShaper_def slot_def)

lemma shaper_ok_shrink:
  assumes "shaper_ok s" "gm_wf rules"
    and rules: "\<And>i rt. map_of rules i = Some rt \<Longrightarrow> map_of (sh_rules s) i = Some rt \<or> uploadBuckets rt = [] \<and> downloadBuckets rt = []"
  shows "shaper_ok (s\<lparr>sh_rules := rules\<rparr>)"
proof -
  let ?s = "s\<lparr>sh_rules := rules\<rparr>"
  have "slot ?s i up key = None \<or> slot ?s i up key = slot s i up key" for i up key
    using rules [of i] by (cases "map_of rules i") (auto simp: slot_def rt_table_def)
  then have "separate (\<lambda>(i, up, key). slot ?s i up key) (length (sh_cells s))"
    using assms(1) unfolding shaper_ok_separate by (elim conjE separate_sub) (simp_all add: split_paired_all)
  moreover have "bt.bounded (uploadBuckets rt) \<and> bt.bounded (downloadBuckets rt)" if "map_of rules i = Some rt" for i rt
    using rules [OF that] assms(1) unfolding shaper_ok_separate by auto
  ultimately show ?thesis using assms(2) unfolding shaper_ok_separate by simp
qed

lemma reconcile_fold:
  assumes "gm_wf m"
  shows "gm_wf (foldl reconcile_add m keep) \<and>
    (\<forall>i rt. map_of (foldl reconcile_add m keep) i = Some rt \<longrightarrow> map_of m i = Some rt \<or> uploadBuckets rt = [] \<and> downloadBuckets rt = [])"
  using assms
proof (induction keep arbitrary: m)
  case (Cons p keep)
  have "gm_wf (reconcile_add m p)" using Cons.prems by (simp add: reconcile_add_def split: option.split)
  note IH = Cons.IH [OF this]
  have "map_of (reconcile_add m p) j = Some rt \<Longrightarrow> map_of m j = Some rt \<or> uploadBuckets rt = [] \<and> downloadBuckets rt = []" for j rt
    by (cases "j = fst p") (auto simp: reconcile_add_def split: option.splits)
  then show ?case using IH unfolding foldl_Cons by blast
qed simp

lemma sh_reconcile_ok:
  assumes "shaper_ok s"
  shows "shaper_ok (sh_reconcile s snap)"
proof -
  have wf: "gm_wf (sh_rules s)" using assms by (simp add: shaper_ok_def)
  have "map_of (filter (\<lambda>(i, rt). P i rt) (sh_rules s)) i = Some rt \<Longrightarrow> map_of (sh_rules s) i = Some rt" for P i rt
    by (auto simp: map_of_filter [OF wf] split: option.splits if_splits)
  then show ?thesis unfolding sh_reconcile_def Let_def
    using reconcile_fold [OF gm_wf_filter [OF wf]] by (intro shaper_ok_shrink [OF assms]) blast+
qed

lemma alloc_cases: "alloc cells b = (a, cells') \<Longrightarrow> (b = None \<and> a = None \<and> cells' = cells) \<or> (\<exists>c. b = Some c \<and> a = Some (length cells) \<and> cells' = cells @ [c])"
  by (auto simp: alloc_def split: option.splits)

lemma shaper_ok_cells: "shaper_ok s \<Longrightarrow> shaper_ok (s\<lparr>sh_cells := sh_cells s @ new\<rparr>)"
  by (fastforce simp: shaper_ok_def slot_def)

lemma decision_per_request_ok:
  assumes "shaper_ok s" "sr_BudgetScope rule = publicTrafficShaperBudgetScopePerRequest" "decisionForRule sha o1 o2 s rule protocol r now = (d, s')"
  shows "shaper_ok s'" "\<exists>new. sh_cells s' = sh_cells s @ new" "sh_rules s' = sh_rules s"
    "sd_bucket d up = None \<longleftrightarrow> sr_rate rule up \<le> 0"
    "sd_bucket d up = Some a \<Longrightarrow> length (sh_cells s) \<le> a \<and> Some (sh_cells s' ! a) = fresh_bucket rule up now"
    "sd_bucket d True = Some a \<Longrightarrow> sd_bucket d False \<noteq> Some a"
proof -
  obtain ua cells1 where u: "alloc (sh_cells s) (fresh_bucket rule True now) = (ua, cells1)" by (metis surj_pair)
  obtain da cells2 where v: "alloc cells1 (fresh_bucket rule False now) = (da, cells2)" by (metis surj_pair)
  have eq: "d = \<lparr>sd_Rule = rule, sd_MatchError = None, sd_UploadBucket = ua, sd_DownloadBucket = da\<rparr>" "s' = s\<lparr>sh_cells := cells2\<rparr>"
    using assms(2,3) u v by (simp_all add: decisionForRule_def fresh_bucket_def sr_rate_def Let_def)
  note c = alloc_cases [OF u] alloc_cases [OF v]
  then show new: "\<exists>new. sh_cells s' = sh_cells s @ new" unfolding eq by auto
  then show "shaper_ok s'" using shaper_ok_cells [OF assms(1)] unfolding eq by auto
  show "sh_rules s' = sh_rules s" by (simp add: eq)
  show "sd_bucket d up = None \<longleftrightarrow> sr_rate rule up \<le> 0"
    using c unfolding eq by (cases up) (auto simp: sd_bucket_def simp flip: fresh_bucket_None [where now = now])
  show "length (sh_cells s) \<le> a \<and> Some (sh_cells s' ! a) = fresh_bucket rule up now" if "sd_bucket d up = Some a"
    using that c unfolding eq by (cases up) (auto simp: sd_bucket_def nth_append)
  show "sd_bucket d False \<noteq> Some a" if "sd_bucket d True = Some a" using that c unfolding eq sd_bucket_def by (elim disjE exE conjE) simp_all
qed

lemma evaluate_shaper_ok:
  assumes "shaper_ok s" "\<And>x. sha x \<noteq> ''''" "evaluateForProtocol ev sha o1 o2 s rules protocol r isWebSocket now = (d, s')"
  shows "shaper_ok s'"
  using assms(1,3)
proof (induction rules)
  case (Cons rule rules)
  have dec: "shaper_ok t" if "decisionForRule sha o1 o2 s rule protocol r now = (x, t)" for x t
    using decision_per_key_ok(1) [OF Cons.prems(1) assms(2) _ that] decision_per_request_ok(1) [OF Cons.prems(1) _ that] by blast
  show ?case
  proof (cases "\<not> sr_Enabled rule \<or> evaluateMatchForProtocol ev rule protocol r isWebSocket = Inr False")
    case True
    then show ?thesis using Cons by (auto split: if_splits)
  next
    case False
    then show ?thesis using Cons.prems dec
      by (cases "evaluateMatchForProtocol ev rule protocol r isWebSocket"; cases "decisionForRule sha o1 o2 s rule protocol r now") auto
  qed
qed simp

lemma shaper_bucket_parts:
  assumes "shaper_ok s" "\<forall>x. sha x \<noteq> ''''" "decisionForRule sha o1 o2 s rule protocol r now = (d, s')"
  defines "key \<equiv> trafficShaperKeyHash sha (sh_keyValues rule protocol r)" and "rt \<equiv> sh_runtime (sh_pruneLocked s now) rule"
  shows "shaper_ok s'" "take (length (sh_cells s)) (sh_cells s') = sh_cells s" "sd_bucket d up = None \<longleftrightarrow> sr_rate rule up \<le> 0"
    and "sr_BudgetScope rule \<noteq> publicTrafficShaperBudgetScopePerRequest \<Longrightarrow> sd_bucket d up = Some a \<Longrightarrow>
      slot s' (sr_ID rule) up key = Some a \<and> (\<forall>j up' k. slot s' j up' k = Some a \<longrightarrow> j = sr_ID rule \<and> up' = up \<and> k = key) \<and>
      (case map_of (rt_table rt up) key of Some a' \<Rightarrow> a' = a | None \<Rightarrow> length (sh_cells s) \<le> a \<and> Some (sh_cells s' ! a) = fresh_bucket rule up now)"
    and "sr_BudgetScope rule = publicTrafficShaperBudgetScopePerRequest \<Longrightarrow> sd_bucket d up = Some a \<Longrightarrow>
      Some (sh_cells s' ! a) = fresh_bucket rule up now \<and> sd_bucket d (\<not> up) \<noteq> Some a \<and> (\<forall>j up' k. slot s' j up' k \<noteq> Some a)"
proof -
  note sha = assms(2) [rule_format]
  note K = decision_per_key_ok [OF assms(1) sha _ assms(3), folded key_def rt_def] and R = decision_per_request_ok [OF assms(1) _ assms(3)]
  show ok: "shaper_ok s'" using K(1) R(1) by blast
  have "\<exists>new. sh_cells s' = sh_cells s @ new" using K(2) R(2) by blast
  then show "take (length (sh_cells s)) (sh_cells s') = sh_cells s" by auto
  show "sd_bucket d up = None \<longleftrightarrow> sr_rate rule up \<le> 0"
  proof (cases "sr_BudgetScope rule = publicTrafficShaperBudgetScopePerRequest")
    case False
    show ?thesis using K(3) [OF False, of up] by (auto split: if_splits)
  qed (use R(4) in blast)
  show "slot s' (sr_ID rule) up key = Some a \<and> (\<forall>j up' k. slot s' j up' k = Some a \<longrightarrow> j = sr_ID rule \<and> up' = up \<and> k = key) \<and>
      (case map_of (rt_table rt up) key of Some a' \<Rightarrow> a' = a | None \<Rightarrow> length (sh_cells s) \<le> a \<and> Some (sh_cells s' ! a) = fresh_bucket rule up now)"
    if pk: "sr_BudgetScope rule \<noteq> publicTrafficShaperBudgetScopePerRequest" and a: "sd_bucket d up = Some a"
  proof -
    have rate: "0 < sr_rate rule up" "slot s' (sr_ID rule) up key = Some a" using K(3) [OF pk, of up] a by (auto split: if_splits)
    moreover have "\<forall>j up' k. slot s' j up' k = Some a \<longrightarrow> j = sr_ID rule \<and> up' = up \<and> k = key"
      using ok rate(2) unfolding shaper_ok_def by blast
    moreover have "case map_of (rt_table rt up) key of Some a' \<Rightarrow> a' = a | None \<Rightarrow> length (sh_cells s) \<le> a \<and> Some (sh_cells s' ! a) = fresh_bucket rule up now"
    proof (cases "map_of (rt_table rt up) key")
      case None
      then show ?thesis using K(5) [OF pk rate(1) None] a by auto
    next
      case (Some a')
      then show ?thesis using K(4) [OF pk rate(1) Some] a by simp
    qed
    ultimately show ?thesis by blast
  qed
  show "Some (sh_cells s' ! a) = fresh_bucket rule up now \<and> sd_bucket d (\<not> up) \<noteq> Some a \<and> (\<forall>j up' k. slot s' j up' k \<noteq> Some a)"
    if pr: "sr_BudgetScope rule = publicTrafficShaperBudgetScopePerRequest" and a: "sd_bucket d up = Some a"
  proof -
    have fresh: "length (sh_cells s) \<le> a" "Some (sh_cells s' ! a) = fresh_bucket rule up now" using R(5) [OF pr a] by simp_all
    have "slot s' j up' k = slot s j up' k" for j up' k using R(3) [OF pr] by (simp add: slot_def)
    moreover have "slot s j up' k = Some x \<Longrightarrow> x < length (sh_cells s)" for j up' k x using assms(1) unfolding shaper_ok_def by blast
    ultimately have "slot s' j up' k \<noteq> Some a" for j up' k using fresh(1) by (metis not_less)
    moreover have "sd_bucket d (\<not> up) \<noteq> Some a" using R(6) [OF pr] a by (cases up) auto
    ultimately show ?thesis using fresh by simp
  qed
qed

text \<open>C11: the buckets of the shaper are the budgets the rules describe. From a well-formed shaper, a decision leaves a well-formed one (every table
  has distinct keys and at most 10000 buckets, no bucket has two places in the tables) in which no existing bucket was changed. A
  per-key rule gets, in each direction it limits, the bucket of the request's key hash, the same one as before while its table still holds it, and
  otherwise a new full one; that bucket has no other place in the tables. A per-request rule gets new full buckets, one for each direction, that no table holds. Safety.\<close>
theorem shaper_bucket_identity:
  assumes "shaper_ok s" "\<forall>x. sha x \<noteq> ''''" "decisionForRule sha o1 o2 s rule protocol r now = (d, s')"
  defines "key \<equiv> trafficShaperKeyHash sha (sh_keyValues rule protocol r)" and "rt \<equiv> sh_runtime (sh_pruneLocked s now) rule"
  shows "shaper_ok s' \<and> take (length (sh_cells s)) (sh_cells s') = sh_cells s \<and> (\<forall>up. sd_bucket d up = None \<longleftrightarrow> sr_rate rule up \<le> 0) \<and>
    (if sr_BudgetScope rule \<noteq> publicTrafficShaperBudgetScopePerRequest then \<forall>up a. sd_bucket d up = Some a \<longrightarrow>
       slot s' (sr_ID rule) up key = Some a \<and> (\<forall>j up' k. slot s' j up' k = Some a \<longrightarrow> j = sr_ID rule \<and> up' = up \<and> k = key) \<and>
       (case map_of (rt_table rt up) key of Some a' \<Rightarrow> a' = a | None \<Rightarrow> length (sh_cells s) \<le> a \<and> Some (sh_cells s' ! a) = fresh_bucket rule up now)
     else \<forall>up a. sd_bucket d up = Some a \<longrightarrow>
       Some (sh_cells s' ! a) = fresh_bucket rule up now \<and> sd_bucket d (\<not> up) \<noteq> Some a \<and> (\<forall>j up' k. slot s' j up' k \<noteq> Some a))"
  using shaper_bucket_parts [OF assms(1-3)] unfolding key_def rt_def by presburger

definition example_shaper_rule :: "string \<Rightarrow> unit publicTrafficShaperRuleConfig" where
  "example_shaper_rule scope =
     \<lparr>sr_ID = 1, sr_Name = ''slow'', sr_Priority = 0, sr_Enabled = True, sr_BudgetScope = scope, sr_ProtocolScope = ''all'',
      sr_UploadBytesPerSecond = 0, sr_DownloadBytesPerSecond = 1000, sr_BurstBytes = 0, sr_RequestExemptBytes = 0, sr_ResponseExemptBytes = 0,
      sr_Match = (), sr_KeyParts = [], sr_CreatedAt = 0, sr_UpdatedAt = 0, sr_Fingerprint = ''f''\<rparr>"

definition example_shaper_request :: http_request where
  "example_shaper_request = \<lparr>rq_RemoteAddr = ''192.0.2.1:1'', rq_Identity = Some (Some ''192.0.2.1''), rq_Host = ''a.example'', rq_Method = ''GET'', rq_Path = ''/'',
     rq_Header = (\<lambda>_. ''''), rq_Cookie = (\<lambda>_. None), rq_Query = (\<lambda>_. '''')\<rparr>"

lemma shaper_bucket_identity_witness:
  "shaper_ok newPublicTrafficShaper \<and>
   (let (d, s') = decisionForRule (\<lambda>x. CHR ''h'' # x) [] [] newPublicTrafficShaper (example_shaper_rule ''per_key'') ''https'' example_shaper_request 5
    in shaper_ok s' \<and> (\<exists>a. sd_bucket d False = Some a \<and>
       slot s' 1 False (trafficShaperKeyHash (\<lambda>x. CHR ''h'' # x) (sh_keyValues (example_shaper_rule ''per_key'') ''https'' example_shaper_request)) = Some a))"
proof -
  let ?sha = "\<lambda>x. CHR ''h'' # x" and ?R = "example_shaper_rule ''per_key''"
  obtain d s' where d: "decisionForRule ?sha [] [] newPublicTrafficShaper ?R ''https'' example_shaper_request 5 = (d, s')" by (metis surj_pair)
  have sha: "\<forall>x. ?sha x \<noteq> ''''" by simp
  note th = shaper_bucket_identity [OF shaper_ok_new sha d]
  have R: "sr_ID ?R = 1" "sr_BudgetScope ?R \<noteq> publicTrafficShaperBudgetScopePerRequest" "\<not> sr_rate ?R False \<le> 0"
    by (simp_all add: example_shaper_rule_def shaper_consts sr_rate_def)
  then obtain a where a: "sd_bucket d False = Some a" using th by blast
  then show ?thesis using d shaper_ok_new th R(1,2) by auto
qed

end
