(* ===== verification/ShaperRate.thy ===== *)
theory ShaperRate
  imports TrafficShaper
begin

text \<open>
  The budgets of the traffic shaper: how accurate a refill is in float64 arithmetic, what that means for the bytes that the connections of a
  bucket can take in a span of time, that a wait ends, and that the rules which validation accepts run within the limits these results assume.
\<close>

section \<open>Accuracy of a refill\<close>

definition normal :: "rat \<Rightarrow> bool" where
  "normal x \<longleftrightarrow> x = 0 \<or> eps * eps \<le> x"

lemma eps_eps: "pow2 (- 1022) \<le> eps * eps" "0 < eps * eps"
proof -
  have "eps * eps = pow2 (- 106)" using pow2_add [of "- 53" "- 53"] by (simp add: pow2_tiny(4))
  then show "pow2 (- 1022) \<le> eps * eps" by simp
  show "0 < eps * eps" using eps_bounds(1) by simp
qed

lemma fround_normal:
  assumes "normal x"
  shows "x * (1 - eps) \<le> fround x" "fround x \<le> x * (1 + eps)" "0 \<le> fround x" "0 \<le> x"
proof -
  have "x = 0 \<or> pow2 (- 1022) \<le> x" "0 \<le> x" using assms eps_eps unfolding normal_def by linarith+
  then show "x * (1 - eps) \<le> fround x" "fround x \<le> x * (1 + eps)" "0 \<le> fround x" "0 \<le> x"
    using fround_lower fround_upper fround_nonneg by auto
qed

lemma duration_seconds_accurate:
  assumes "0 \<le> d" "d \<le> max_int64"
  shows "of_int d / 1000000000 * ((1 - eps) * (1 - eps)) \<le> duration_seconds d"
    and "duration_seconds d \<le> of_int d / 1000000000 * ((1 + eps) * (1 + eps))"
proof -
  let ?s = "of_int (d div 1000000000) :: rat" and ?n = "of_int (d mod 1000000000) / 1000000000 :: rat"
  have sn: "0 \<le> d div 1000000000" "d div 1000000000 \<le> 9007199254740992" "0 \<le> d mod 1000000000" "d mod 1000000000 < 1000000000"
    using assms by (auto simp: max_int64_def)
  then have rs: "0 \<le> ?s" "0 \<le> ?n" by simp_all
  have "of_int d = of_int (d div 1000000000 * 1000000000 + d mod 1000000000)" by simp
  then have split: "of_int d / 1000000000 = ?s + ?n" by (simp only: of_int_add of_int_mult of_int_numeral) (simp add: add_divide_distrib)
  have eq: "duration_seconds d = fround (?s + fround ?n)"
    using assms(1) sn by (simp add: duration_seconds_def f_add_def f_div_def)
  have "?n = 0 \<or> (1 :: rat) \<le> of_int (d mod 1000000000)"
    using sn(3) by (metis div_0 of_int_0 of_int_1_le_iff order_le_less zero_less_imp_eq_int int_one_le_iff_zero_less)
  then have "normal ?n" unfolding normal_def by (auto simp: eps_def)
  note n = fround_normal [OF this]
  have "?s + fround ?n = 0 \<or> 1 / 4000000000 \<le> ?s + fround ?n"
  proof (cases "?s = 0")
    case False
    then have "1 \<le> d div 1000000000" using sn(1) by (metis of_int_0 order_le_less int_one_le_iff_zero_less)
    then have "(1 :: rat) \<le> ?s" by simp
    then show ?thesis using n(3) by linarith
  next
    case True
    show ?thesis using \<open>?n = 0 \<or> 1 \<le> of_int (d mod 1000000000)\<close>
    proof
      assume "(1 :: rat) \<le> of_int (d mod 1000000000)"
      then have "1 / 1000000000 \<le> ?n" by simp
      then have "1 / 1000000000 * (1 - eps) \<le> ?n * (1 - eps)" using eps_bounds(2) by (intro mult_right_mono) simp_all
      moreover have "1 / 4000000000 \<le> 1 / 1000000000 * (1 - eps)" by (simp add: eps_def)
      ultimately show ?thesis using n(1) rs(1) by linarith
    qed (use True in simp)
  qed
  then have "normal (?s + fround ?n)" unfolding normal_def by (auto simp: eps_def)
  note t = fround_normal [OF this]
  have "?s * (1 - eps) \<le> ?s" "?s \<le> ?s * (1 + eps)" using rs(1) eps_bounds(1) by (simp_all add: algebra_simps)
  then have lo: "(?s + ?n) * (1 - eps) \<le> ?s + fround ?n" and hi: "?s + fround ?n \<le> (?s + ?n) * (1 + eps)"
    using n(1,2) by (simp_all add: distrib_right)
  have "(?s + ?n) * (1 - eps) * (1 - eps) \<le> (?s + fround ?n) * (1 - eps)" using eps_bounds(2) by (intro mult_right_mono [OF lo]) simp
  then show "of_int d / 1000000000 * ((1 - eps) * (1 - eps)) \<le> duration_seconds d" using t(1) by (simp add: split eq mult.assoc)
  have "(?s + fround ?n) * (1 + eps) \<le> (?s + ?n) * (1 + eps) * (1 + eps)" using eps_bounds(1) by (intro mult_right_mono [OF hi]) simp
  then show "duration_seconds d \<le> of_int d / 1000000000 * ((1 + eps) * (1 + eps))" using t(2) by (simp add: split eq mult.assoc)
qed

definition bucket_ok :: "int \<Rightarrow> int \<Rightarrow> byteTokenBucket \<Rightarrow> bool" where
  \<comment> \<open>the buckets of a validated rule: whole rates and bursts of at most 1 TiB, a representable level between 0 and the burst\<close>
  "bucket_ok r k b \<longleftrightarrow> rateBytesPerSecond b = of_int r \<and> burstBytes b = of_int k \<and> 1 \<le> r \<and> r \<le> 1099511627776 \<and> 1 \<le> k \<and> k \<le> 1099511627776 \<and>
     representable (bt_tokens b) \<and> 0 \<le> bt_tokens b \<and> bt_tokens b \<le> of_int k"

definition credit :: "int \<Rightarrow> int \<Rightarrow> rat" where
  \<comment> \<open>the bytes that \<open>d\<close> nanoseconds are worth\<close>
  "credit r d = of_int r * of_int d / 1000000000"

lemma credit_nonneg: "0 \<le> r \<Longrightarrow> 0 \<le> d \<Longrightarrow> 0 \<le> credit r d"
  by (simp add: credit_def)

lemma credit_mono: "0 \<le> r \<Longrightarrow> d \<le> d' \<Longrightarrow> credit r d \<le> credit r d'"
  unfolding credit_def by (intro divide_right_mono mult_left_mono) simp_all

lemma credit_add: "credit r (d + e) = credit r d + credit r e"
  by (simp add: credit_def distrib_left add_divide_distrib)

lemma eps_powers: "(1 + eps) * (1 + eps) * (1 + eps) * (1 + eps) \<le> 1 + 5 * eps" "1 - 4 * eps \<le> (1 - eps) * (1 - eps) * (1 - eps)"
    "1 - 7 * eps \<le> (1 - eps) * (1 - eps) * (1 - eps) * ((1 - eps) * (1 - eps) * (1 - eps))"
  by (simp_all add: eps_def)

lemma refill_amount_accurate:
  assumes "1 \<le> r" "r \<le> 1099511627776" "1 \<le> d" "d \<le> max_int64"
  defines "q \<equiv> f_mul (duration_seconds d) (of_int r)"
  shows "credit r d * ((1 - eps) * (1 - eps) * (1 - eps)) \<le> q" "q \<le> credit r d * ((1 + eps) * (1 + eps) * (1 + eps))"
    "0 < duration_seconds d" "normal q"
proof -
  let ?u = "duration_seconds d" and ?r = "of_int r :: rat"
  have r: "1 \<le> ?r" using assms(1) by simp
  have d: "0 \<le> d" using assms(3) by simp
  note u = duration_seconds_accurate [OF d assms(4)]
  have "1 / 1000000000 * ((1 - eps) * (1 - eps)) \<le> of_int d / 1000000000 * ((1 - eps) * (1 - eps))"
    using assms(3) eps_bounds(2) by (intro mult_right_mono divide_right_mono) simp_all
  moreover have "1 / 2000000000 \<le> 1 / 1000000000 * ((1 - eps) * (1 - eps))" by (simp add: eps_def)
  ultimately have u1: "1 / 2000000000 \<le> ?u" using u(1) by linarith
  then show "0 < ?u" by linarith
  have "1 / 2000000000 * 1 \<le> ?u * ?r" using u1 r by (intro mult_mono) simp_all
  then have p: "1 / 2000000000 \<le> ?u * ?r" by simp
  then have "normal (?u * ?r)" by (simp add: normal_def eps_def)
  note n = fround_normal [OF this]
  have "1 / 2000000000 * (1 - eps) \<le> ?u * ?r * (1 - eps)" using p eps_bounds(2) by (intro mult_right_mono) simp_all
  moreover have "eps * eps \<le> 1 / 2000000000 * (1 - eps)" by (simp add: eps_def)
  ultimately show "normal q" using n(1) unfolding normal_def q_def f_mul_def by linarith
  have c: "credit r d * x = of_int d / 1000000000 * x * ?r" for x by (simp add: credit_def)
  have "of_int d / 1000000000 * ((1 - eps) * (1 - eps)) * ?r * (1 - eps) \<le> ?u * ?r * (1 - eps)"
    using u(1) r eps_bounds(2) by (intro mult_right_mono) simp_all
  also have "of_int d / 1000000000 * ((1 - eps) * (1 - eps)) * ?r * (1 - eps) = credit r d * ((1 - eps) * (1 - eps) * (1 - eps))"
    unfolding c by (simp only: mult_ac)
  finally show "credit r d * ((1 - eps) * (1 - eps) * (1 - eps)) \<le> q" using n(1) unfolding q_def f_mul_def by linarith
  have "?u * ?r * (1 + eps) \<le> of_int d / 1000000000 * ((1 + eps) * (1 + eps)) * ?r * (1 + eps)"
    using u(2) r eps_bounds(1) by (intro mult_right_mono) simp_all
  also have "of_int d / 1000000000 * ((1 + eps) * (1 + eps)) * ?r * (1 + eps) = credit r d * ((1 + eps) * (1 + eps) * (1 + eps))"
    unfolding c by (simp only: mult_ac)
  finally show "q \<le> credit r d * ((1 + eps) * (1 + eps) * (1 + eps))" using n(2) unfolding q_def f_mul_def by linarith
qed

lemma time_sub_forward: "b < a \<Longrightarrow> 1 \<le> time_sub a b \<and> time_sub a b \<le> max_int64 \<and> time_sub a b \<le> a - b"
  by (auto simp: time_sub_def sat64_def min_int64_def max_int64_def)

lemma time_sub_at_least: "m \<le> max_int64 \<Longrightarrow> m \<le> a - b \<Longrightarrow> m \<le> time_sub a b"
  by (auto simp: time_sub_def sat64_def min_int64_def max_int64_def)

lemma refill_forward:
  assumes "bucket_ok r k b" "lastRefill b < now"
  shows "refillLocked b now = b\<lparr>bt_tokens := min (of_int k)
    (f_add (bt_tokens b) (f_mul (duration_seconds (time_sub now (lastRefill b))) (of_int r))), lastRefill := now\<rparr>"
proof -
  have "0 < duration_seconds (time_sub now (lastRefill b))"
    using assms refill_amount_accurate(3) [of r] time_sub_forward [OF assms(2)] by (simp add: bucket_ok_def)
  then show ?thesis using assms by (auto simp: refillLocked_def bucket_ok_def Let_def min_def)
qed

lemma refill_same: "refillLocked b (lastRefill b) = b"
  by (simp add: refillLocked_def time_sub_def sat64_def min_int64_def max_int64_def duration_seconds_def f_add_def f_div_def)

lemma refill_lastRefill: "bucket_ok r k b \<Longrightarrow> lastRefill (refillLocked b now) = now"
  using refill_forward [of r k b now] refill_same [of b] by (cases now "lastRefill b" rule: linorder_cases) (simp_all add: refillLocked_def)

lemma refill_ok:
  assumes "bucket_ok r k b"
  shows "bucket_ok r k (refillLocked b now)" "lastUsed (refillLocked b now) = lastUsed b"
proof -
  have b: "representable (of_int k)" "0 \<le> k" using assms by (auto simp: bucket_ok_def intro!: representable_of_int)
  consider "now < lastRefill b" | "now = lastRefill b" | "lastRefill b < now" by linarith
  then have "bucket_ok r k (refillLocked b now) \<and> lastUsed (refillLocked b now) = lastUsed b"
  proof cases
    case 3
    note eq = refill_forward [OF assms 3]
    have "normal (f_mul (duration_seconds (time_sub now (lastRefill b))) (of_int r))"
      using assms refill_amount_accurate(4) [of r] time_sub_forward [OF 3] by (simp add: bucket_ok_def)
    note q = fround_normal(4) [OF this]
    have "0 \<le> f_add (bt_tokens b) (f_mul (duration_seconds (time_sub now (lastRefill b))) (of_int r))"
      unfolding f_add_def using q assms by (intro fround_nonneg) (simp add: bucket_ok_def)
    then show ?thesis unfolding eq using assms b by (auto simp: bucket_ok_def f_add_def min_def)
  qed (use assms refill_same [of b] in \<open>simp_all add: refillLocked_def bucket_ok_def\<close>)
  then show "bucket_ok r k (refillLocked b now)" "lastUsed (refillLocked b now) = lastUsed b" by simp_all
qed

lemma capped_round:
  assumes "representable y \<or> eps * eps \<le> y" "0 \<le> y" "0 \<le> c"
  shows "min c (fround y) \<le> y + c * eps"
proof (cases "y \<le> c")
  case True
  have c: "0 \<le> c * eps" using assms(3) eps_bounds(1) by simp
  show ?thesis using assms(1)
  proof
    assume "representable y"
    then show ?thesis using c by (simp add: fround_id min_le_iff_disj)
  next
    assume "eps * eps \<le> y"
    then have "fround y \<le> y * (1 + eps)" using eps_eps(1) by (intro fround_upper) linarith
    moreover have "y * eps \<le> c * eps" using True eps_bounds(1) by (intro mult_right_mono) simp_all
    ultimately show ?thesis by (simp add: algebra_simps min_le_iff_disj)
  qed
next
  case False
  moreover have "0 \<le> c * eps" using assms(3) eps_bounds(1) by simp
  ultimately have "c \<le> y + c * eps" by linarith
  then show ?thesis by (simp add: min_le_iff_disj)
qed

lemma refill_credit:
  assumes "bucket_ok r k b" "lastRefill b \<le> now"
  shows "bt_tokens (refillLocked b now) \<le> bt_tokens b + credit r (now - lastRefill b) * (1 + 4 * eps) + of_int k * eps"
proof (cases "lastRefill b = now")
  case True
  then show ?thesis using assms refill_same [of b] eps_bounds(1) by (auto simp: credit_def bucket_ok_def)
next
  case False
  then have fwd: "lastRefill b < now" using assms(2) by simp
  have ok: "1 \<le> r" "r \<le> 1099511627776" "0 \<le> bt_tokens b" "0 \<le> k" using assms(1) by (simp_all add: bucket_ok_def)
  note ts = time_sub_forward [OF fwd]
  let ?d = "time_sub now (lastRefill b)"
  let ?q = "f_mul (duration_seconds ?d) (of_int r)"
  have q: "?q \<le> credit r ?d * ((1 + eps) * (1 + eps) * (1 + eps))" "normal ?q"
    using refill_amount_accurate(2,4) [OF ok(1,2)] ts by blast+
  have "0 \<le> credit r ?d" using ok(1) ts by (intro credit_nonneg) simp_all
  then have "credit r ?d * ((1 + eps) * (1 + eps) * (1 + eps)) \<le> credit r ?d * (1 + 4 * eps)" by (intro mult_left_mono eps_bounds(4))
  also have "\<dots> \<le> credit r (now - lastRefill b) * (1 + 4 * eps)"
    using ts ok(1) eps_bounds(1) by (intro mult_right_mono credit_mono) simp_all
  finally have q1: "?q \<le> credit r (now - lastRefill b) * (1 + 4 * eps)" using q(1) by linarith
  have "representable (bt_tokens b + ?q) \<or> eps * eps \<le> bt_tokens b + ?q"
    using q(2) assms(1) ok(3) unfolding normal_def by (auto simp: bucket_ok_def)
  then have "min (of_int k) (fround (bt_tokens b + ?q)) \<le> bt_tokens b + ?q + of_int k * eps"
    using ok fround_normal(4) [OF q(2)] by (intro capped_round) simp_all
  then show ?thesis unfolding refill_forward [OF assms(1) fwd] using q1 by (simp add: f_add_def)
qed

section \<open>The rate of a bucket\<close>

datatype bucket_event = TrySpend gotime int | Refund int

fun bucket_step :: "byteTokenBucket \<Rightarrow> bucket_event \<Rightarrow> int \<times> byteTokenBucket" where
  \<comment> \<open>one critical section of the bucket's mutex: the bytes taken (negative when they are given back)\<close>
  "bucket_step b (TrySpend now n) = (case try_spend b now (of_int n) of (None, b') \<Rightarrow> (n, b') | (Some _, b') \<Rightarrow> (0, b'))"
| "bucket_step b (Refund n) = (- n, refund b n)"

fun bucket_run :: "byteTokenBucket \<Rightarrow> bucket_event list \<Rightarrow> int \<times> byteTokenBucket" where
  \<comment> \<open>the critical sections of all the connections that share a bucket, in their order: the net amount taken\<close>
  "bucket_run b [] = (0, b)"
| "bucket_run b (e # es) = (let (n, b1) = bucket_step b e; (m, b2) = bucket_run b1 es in (n + m, b2))"

fun amount_ok :: "bucket_event \<Rightarrow> bool" where
  "amount_ok (TrySpend now n) \<longleftrightarrow> 0 \<le> n"
| "amount_ok (Refund n) \<longleftrightarrow> 0 \<le> n \<and> n \<le> 9007199254740992"

fun forward :: "gotime \<Rightarrow> bucket_event list \<Rightarrow> bool" where
  \<comment> \<open>the clock readings do not go back in the order of the critical sections\<close>
  "forward t [] = True"
| "forward t (TrySpend now n # es) = (t \<le> now \<and> forward now es)"
| "forward t (Refund n # es) = forward t es"

fun last_reading :: "gotime \<Rightarrow> bucket_event list \<Rightarrow> gotime" where
  "last_reading t [] = t"
| "last_reading t (TrySpend now n # es) = last_reading now es"
| "last_reading t (Refund n # es) = last_reading t es"

lemma newByteTokenBucket_ok:
  assumes "newByteTokenBucket rate burst now = Some b" "rate \<le> maxTrafficShaperBytesPerSecond" "burst \<le> maxTrafficShaperBytesPerSecond"
  shows "bucket_ok rate (if burst \<le> 0 then rate else burst) b" "lastRefill b = now" "lastUsed b = now"
proof -
  have k: "1 \<le> rate" "(if burst \<le> 0 then rate else burst) \<le> 1099511627776" "1 \<le> (if burst \<le> 0 then rate else burst)"
    using assms by (auto simp: newByteTokenBucket_def shaper_consts split: if_splits)
  then have "representable (of_int (if burst \<le> 0 then rate else burst))" by (intro representable_of_int) (simp split: if_splits)
  with k show "bucket_ok rate (if burst \<le> 0 then rate else burst) b" "lastRefill b = now" "lastUsed b = now"
    using assms by (auto simp: newByteTokenBucket_def bucket_ok_def shaper_consts Let_def split: if_splits)
qed

lemma try_spend_cases:
  assumes "bucket_ok r k b" "0 \<le> n" "try_spend b now (of_int n) = (w, b')"
  defines "b1 \<equiv> refillLocked b now"
  shows "bucket_ok r k b'" "lastRefill b' = now"
    "if w = None then of_int n \<le> bt_tokens b1 \<and> bt_tokens b' = bt_tokens b1 - of_int n else b' = b1 \<and> bt_tokens b1 < of_int n"
proof -
  have ok: "bucket_ok r k b1" "lastRefill b1 = now" using refill_ok(1) [OF assms(1)] refill_lastRefill [OF assms(1)] by (simp_all add: b1_def)
  have k: "k \<le> 1099511627776" "bt_tokens b1 \<le> of_int k" "representable (bt_tokens b1)" using ok(1) by (simp_all add: bucket_ok_def)
  have "(of_int k :: rat) \<le> of_int 1099511627776" using k(1) by (simp only: of_int_le_iff)
  then have "bt_tokens b1 \<le> 2 ^ 53" using k(2) by simp
  then have sub: "of_int n \<le> bt_tokens b1 \<Longrightarrow> f_sub (bt_tokens b1) (of_int n) = bt_tokens b1 - of_int n"
    unfolding f_sub_def using k(3) assms(2) by (intro fround_minus_int) simp_all
  have repr: "of_int n \<le> bt_tokens b1 \<Longrightarrow> representable (bt_tokens b1 - of_int n)" using sub unfolding f_sub_def by (metis representable_fround)
  have "bucket_ok r k b' \<and> lastRefill b' = now \<and>
    (if w = None then of_int n \<le> bt_tokens b1 \<and> bt_tokens b' = bt_tokens b1 - of_int n else b' = b1 \<and> bt_tokens b1 < of_int n)"
  proof (cases "of_int n \<le> bt_tokens b1")
    case True
    then have "w = None" "b' = b1\<lparr>bt_tokens := bt_tokens b1 - of_int n, lastUsed := now\<rparr>"
      using assms(3) sub by (auto simp: try_spend_def b1_def Let_def)
    moreover have "0 \<le> bt_tokens b1 - of_int n" "bt_tokens b1 - of_int n \<le> of_int k" using True k(2) assms(2) by (simp_all add: add_increasing2)
    ultimately show ?thesis using ok True repr by (simp add: bucket_ok_def)
  next
    case False
    then have "w \<noteq> None" "b' = b1" using assms(3) by (auto simp: try_spend_def b1_def Let_def)
    then show ?thesis using ok False by simp
  qed
  then show "bucket_ok r k b'" "lastRefill b' = now"
    "if w = None then of_int n \<le> bt_tokens b1 \<and> bt_tokens b' = bt_tokens b1 - of_int n else b' = b1 \<and> bt_tokens b1 < of_int n"
    by blast+
qed

lemma refund_ok:
  assumes "bucket_ok r k b" "amount_ok (Refund n)"
  shows "bucket_ok r k (refund b n)" "lastRefill (refund b n) = lastRefill b" "bt_tokens (refund b n) \<le> bt_tokens b + of_int n + of_int k * eps"
proof -
  have b: "representable (of_int k)" "0 \<le> k" "0 \<le> bt_tokens b" using assms(1) by (auto simp: bucket_ok_def intro!: representable_of_int)
  have "bucket_ok r k (refund b n) \<and> lastRefill (refund b n) = lastRefill b \<and> bt_tokens (refund b n) \<le> bt_tokens b + of_int n + of_int k * eps"
  proof (cases "n \<le> 0")
    case True
    then show ?thesis using assms b eps_bounds(1) by (simp add: refund_def)
  next
    case False
    let ?y = "bt_tokens b + of_int n"
    have y: "1 \<le> ?y" using False b(3) by (simp add: add_increasing)
    have eq: "refund b n = b\<lparr>bt_tokens := min (of_int k) (fround ?y)\<rparr>"
      using False assms by (auto simp: refund_def f_add_def bucket_ok_def Let_def min_def)
    have "0 \<le> fround ?y" using y by (intro fround_nonneg) simp
    moreover have "eps * eps \<le> ?y" using y by (simp add: eps_def)
    then have "min (of_int k) (fround ?y) \<le> ?y + of_int k * eps" using y b(2) by (intro capped_round) simp_all
    ultimately show ?thesis unfolding eq using assms(1) b by (auto simp: bucket_ok_def min_def)
  qed
  then show "bucket_ok r k (refund b n)" "lastRefill (refund b n) = lastRefill b" "bt_tokens (refund b n) \<le> bt_tokens b + of_int n + of_int k * eps"
    by blast+
qed

lemma bucket_step_ok:
  assumes "bucket_ok r k b" "amount_ok e" "bucket_step b e = (n, b')"
  shows "bucket_ok r k b'"
    and "lastRefill b' = last_reading (lastRefill b) [e]"
    and "forward (lastRefill b) [e] \<Longrightarrow>
      bt_tokens b' + of_int n \<le> bt_tokens b + credit r (lastRefill b' - lastRefill b) * (1 + 4 * eps) + of_int k * eps"
proof -
  have "bucket_ok r k b' \<and> lastRefill b' = last_reading (lastRefill b) [e] \<and> (forward (lastRefill b) [e] \<longrightarrow>
      bt_tokens b' + of_int n \<le> bt_tokens b + credit r (lastRefill b' - lastRefill b) * (1 + 4 * eps) + of_int k * eps)"
  proof (cases e)
    case (TrySpend now m)
    obtain w c where t: "try_spend b now (of_int m) = (w, c)" by (cases "try_spend b now (of_int m)")
    have m: "0 \<le> m" using assms(2) TrySpend by simp
    note c = try_spend_cases [OF assms(1) m t]
    have "b' = c" "n = (if w = None then m else 0)" using assms(3) TrySpend t by (auto split: option.splits)
    then show ?thesis using c refill_credit [OF assms(1), of now] TrySpend by (auto split: if_splits)
  next
    case (Refund m)
    then show ?thesis using assms(2,3) refund_ok [OF assms(1), of m] by (auto simp: credit_def)
  qed
  then show "bucket_ok r k b'" "lastRefill b' = last_reading (lastRefill b) [e]"
    "forward (lastRefill b) [e] \<Longrightarrow>
      bt_tokens b' + of_int n \<le> bt_tokens b + credit r (lastRefill b' - lastRefill b) * (1 + 4 * eps) + of_int k * eps"
    by blast+
qed

lemma forward_Cons: "forward t (e # es) \<longleftrightarrow> forward t [e] \<and> forward (last_reading t [e]) es" "last_reading t (e # es) = last_reading (last_reading t [e]) es"
  by (cases e; simp)+

lemma bucket_run_ok:
  assumes "bucket_ok r k b" "list_all amount_ok es" "bucket_run b es = (n, b')"
  shows "bucket_ok r k b' \<and> lastRefill b' = last_reading (lastRefill b) es \<and> (forward (lastRefill b) es \<longrightarrow>
    bt_tokens b' + of_int n \<le> bt_tokens b + credit r (lastRefill b' - lastRefill b) * (1 + 4 * eps) + of_nat (length es) * (of_int k * eps))"
  using assms
proof (induction es arbitrary: b n b')
  case Nil
  then show ?case by (simp add: credit_def)
next
  case (Cons e es)
  obtain n1 b1 where s: "bucket_step b e = (n1, b1)" by (cases "bucket_step b e")
  obtain n2 b2 where t: "bucket_run b1 es = (n2, b2)" by (cases "bucket_run b1 es")
  have eq: "n = n1 + n2" "b' = b2" using Cons.prems(3) s t by simp_all
  have e: "amount_ok e" "list_all amount_ok es" using Cons.prems(2) by simp_all
  note 1 = bucket_step_ok [OF Cons.prems(1) e(1) s]
  note 2 = Cons.IH [OF 1(1) e(2) t]
  show ?case
  proof (intro conjI impI)
    assume c: "forward (lastRefill b) (e # es)"
    have "forward (lastRefill b) [e]" using c forward_Cons(1) by blast
    note st1 = 1(3) [OF this]
    have "forward (lastRefill b1) es" unfolding 1(2) using c forward_Cons(1) by blast
    then have st2: "bt_tokens b2 + of_int n2 \<le> bt_tokens b1 + credit r (lastRefill b2 - lastRefill b1) * (1 + 4 * eps) + of_nat (length es) * (of_int k * eps)"
      using 2 by blast
    have "credit r (lastRefill b2 - lastRefill b) = credit r (lastRefill b2 - lastRefill b1) + credit r (lastRefill b1 - lastRefill b)"
      by (simp flip: credit_add)
    then have cr: "credit r (lastRefill b2 - lastRefill b) * (1 + 4 * eps) =
      credit r (lastRefill b2 - lastRefill b1) * (1 + 4 * eps) + credit r (lastRefill b1 - lastRefill b) * (1 + 4 * eps)"
      by (simp only: distrib_right)
    have "of_nat (length (e # es)) * (of_int k * eps) = of_nat (length es) * (of_int k * eps) + of_int k * eps" by (simp add: algebra_simps)
    then show "bt_tokens b' + of_int n \<le> bt_tokens b + credit r (lastRefill b' - lastRefill b) * (1 + 4 * eps) + of_nat (length (e # es)) * (of_int k * eps)"
      unfolding eq cr using st1 st2 by simp
  qed (use 2 1(2) in \<open>simp_all only: eq forward_Cons(2) [of _ e es]\<close>)
qed

lemma shaped_rate_parts:
  assumes "newByteTokenBucket rate burst t0 = Some b" "rate \<le> maxTrafficShaperBytesPerSecond" "burst \<le> maxTrafficShaperBytesPerSecond"
    "list_all amount_ok before" "list_all amount_ok events" "bucket_run b before = (n0, b1)" "forward (last_reading t0 before) events"
    "bucket_run b1 events = (n, b2)"
  shows "of_int n \<le> burstBytes b
      + credit rate (last_reading (last_reading t0 before) events - last_reading t0 before) * (1 + 1 / 2 ^ 51)
      + of_nat (length events) * (burstBytes b / 2 ^ 53)"
    and "0 \<le> bt_tokens b2" "bt_tokens b2 \<le> burstBytes b"
proof -
  define k where "k = (if burst \<le> 0 then rate else burst)"
  note nb = newByteTokenBucket_ok [OF assms(1-3), folded k_def]
  note b1 = bucket_run_ok [OF nb(1) assms(4,6)]
  have ok1: "bucket_ok rate k b1" "lastRefill b1 = last_reading t0 before" using b1 nb(2) by simp_all
  note b2 = bucket_run_ok [OF ok1(1) assms(5,8)]
  have k: "burstBytes b = of_int k" "bt_tokens b1 \<le> of_int k" using nb(1) ok1(1) by (simp_all only: bucket_ok_def)
  have "bucket_ok rate k b2" using b2 by blast
  then show t2: "0 \<le> bt_tokens b2" "bt_tokens b2 \<le> burstBytes b" unfolding k(1) by (simp_all only: bucket_ok_def)
  have e: "4 * eps = 1 / 2 ^ 51" "of_int k * eps = of_int k / 2 ^ 53" by (simp_all add: eps_def)
  have "bt_tokens b2 + of_int n \<le> bt_tokens b1 + credit rate (lastRefill b2 - lastRefill b1) * (1 + 4 * eps) + of_nat (length events) * (of_int k * eps)"
    using b2 assms(7) unfolding ok1(2) by blast
  moreover have last: "lastRefill b2 = last_reading (last_reading t0 before) events" using b2 ok1(2) by simp
  ultimately show "of_int n \<le> burstBytes b
      + credit rate (last_reading (last_reading t0 before) events - last_reading t0 before) * (1 + 1 / 2 ^ 51)
      + of_nat (length events) * (burstBytes b / 2 ^ 53)"
    using t2(1) k(2) unfolding e ok1(2) k(1) last by linarith
qed


lemma example_bucket:
  "newByteTokenBucket 1000 0 0 = Some \<lparr>rateBytesPerSecond = 1000, burstBytes = 1000, bt_tokens = 1000, lastRefill = 0, lastUsed = 0\<rparr>"
  by (simp add: newByteTokenBucket_def)


text \<open>The clock is read before the bucket's mutex is taken, so that a reading can reach the bucket after a later one. \<open>refillLocked\<close> then moves \<open>lastRefill\<close> back and the
  time in between is credited a second time: the hypothesis on the readings of the bound above cannot be dropped.\<close>

lemma rewind_credits_twice:
  fixes b :: byteTokenBucket
  assumes "bucket_ok r k b" "lastRefill b = t1" "t0 < t1"
  shows "refillLocked (refillLocked b t0) t1 = b\<lparr>bt_tokens := min (of_int k) (f_add (bt_tokens b) (f_mul (duration_seconds (time_sub t1 t0)) (of_int r)))\<rparr>"
proof -
  have b0: "refillLocked b t0 = b\<lparr>lastRefill := t0\<rparr>" using assms by (simp add: refillLocked_def)
  have "bucket_ok r k (refillLocked b t0)" by (rule refill_ok(1) [OF assms(1)])
  then show ?thesis using refill_forward [of r k "refillLocked b t0" t1] assms by (simp add: b0)
qed

section \<open>A wait ends\<close>

lemma requested_sleep:
  assumes ok: "bucket_ok r k b" and n: "0 \<le> n" "n \<le> maxShapingChunkBytes" and t: "try_spend b now (of_int n) = (Some w, b')"
  shows "millisecond \<le> w" "w \<le> max_int64" "1 / 2000 \<le> of_int n - bt_tokens b' \<Longrightarrow> (of_int n - bt_tokens b') * ((1 - eps) * (1 - eps) * (1 - eps)) \<le> credit r w"
proof -
  note c = try_spend_cases [OF ok n(1) t]
  have b': "b' = refillLocked b now" "bt_tokens b' < of_int n" using c(3) by simp_all
  have r: "rateBytesPerSecond b' = of_int r" "1 \<le> r" "r \<le> 1099511627776" "0 \<le> bt_tokens b'" using c(1) by (simp_all add: bucket_ok_def)
  let ?x = "of_int n - bt_tokens b'" and ?r = "of_int r :: rat"
  let ?m = "fround ?x"
  let ?p = "fround (?m / ?r)"
  let ?z = "fround (?p * 1000000000)"
  have w: "w = max millisecond \<lceil>?z\<rceil>"
    using t b' r(1) by (auto simp: try_spend_def f_sub_def f_div_def f_mul_def Let_def split: if_splits)
  then show "millisecond \<le> w" by simp
  have r1: "1 \<le> ?r" using r(2) by simp
  have n1: "(of_int n :: rat) \<le> of_int 32768" using n(2) unfolding maxShapingChunkBytes_def by (simp only: of_int_le_iff)
  have int: "fround (of_int j) = of_int j" if "\<bar>j\<bar> \<le> 2 ^ 53" for j using that by (intro fround_id representable_of_int) simp
  have "?m \<le> fround (of_int 32768)" using b'(2) n1 r(4) by (intro fround_mono) simp_all
  then have m: "0 \<le> ?m" "?m \<le> 32768" using b'(2) int [of 32768] by (simp_all add: fround_nonneg)
  have "?m / ?r \<le> ?m / 1" using m(1) r1 by (intro divide_left_mono) simp_all
  then have "?p \<le> fround (of_int 32768)" using m r1 by (intro fround_mono) simp_all
  then have p: "0 \<le> ?p" "?p \<le> 32768" using m(1) r1 int [of 32768] by (simp_all add: fround_nonneg)
  have "?z \<le> fround (of_int 32768000000000)" using p by (intro fround_mono) simp_all
  then have "?z \<le> of_int 32768000000000" using int [of 32768000000000] by simp
  then have "\<lceil>?z\<rceil> \<le> 32768000000000" by (simp only: ceiling_le_iff)
  then show "w \<le> max_int64" unfolding w max_int64_def by simp
  assume x: "1 / 2000 \<le> ?x"
  have "normal ?x" using x by (simp add: normal_def eps_def)
  note nx = fround_normal [OF this]
  have "1 / 2000 * (1 - eps) \<le> ?x * (1 - eps)" using x eps_bounds(2) by (intro mult_right_mono) simp_all
  moreover have "1 / 4000 \<le> 1 / 2000 * (1 - eps)" by (simp add: eps_def)
  ultimately have m1: "1 / 4000 \<le> ?m" using nx(1) by (meson order_trans)
  have "?r \<le> of_int 1099511627776" using r(3) by (simp only: of_int_le_iff)
  then have "1 / 4000 / 1099511627776 \<le> ?m / ?r" using m1 r1 by (intro frac_le) simp_all
  then have "normal (?m / ?r)" by (simp add: normal_def eps_def)
  note np = fround_normal [OF this]
  have "1 / 4000 / 1099511627776 * (1 - eps) \<le> ?m / ?r * (1 - eps)"
    using \<open>1 / 4000 / 1099511627776 \<le> ?m / ?r\<close> eps_bounds(2) by (intro mult_right_mono) simp_all
  then have "1 / 4000 / 1099511627776 * (1 - eps) \<le> ?p" using np(1) by linarith
  moreover have "eps * eps \<le> 1 / 4000 / 1099511627776 * (1 - eps) * 1000000000" by (simp add: eps_def)
  ultimately have "normal (?p * 1000000000)" unfolding normal_def by linarith
  note nz = fround_normal [OF this]
  have "?x * (1 - eps) / ?r * (1 - eps) \<le> ?m / ?r * (1 - eps)"
    using nx(1) r1 eps_bounds(2) by (intro mult_right_mono divide_right_mono) simp_all
  then have "?x * (1 - eps) / ?r * (1 - eps) * 1000000000 * (1 - eps) \<le> ?p * 1000000000 * (1 - eps)"
    using np(1) eps_bounds(2) by (intro mult_right_mono) simp_all
  then have "?x * (1 - eps) / ?r * (1 - eps) * 1000000000 * (1 - eps) \<le> ?z" using nz(1) by linarith
  also have "?z \<le> of_int \<lceil>?z\<rceil>" by (rule le_of_int_ceiling)
  also have "\<dots> \<le> of_int w" unfolding w by (simp only: of_int_le_iff max.cobounded2)
  finally have "?x * (1 - eps) / ?r * (1 - eps) * 1000000000 * (1 - eps) * (?r / 1000000000) \<le> of_int w * (?r / 1000000000)"
    using r1 by (intro mult_right_mono) simp_all
  moreover have "x * e / c * e * 1000000000 * e * (c / 1000000000) = x * (e * e * e)" if "c \<noteq> 0" for x e c :: rat using that by (simp add: mult_ac)
  moreover have "of_int w * (?r / 1000000000) = credit r w" by (simp add: credit_def)
  ultimately show "?x * ((1 - eps) * (1 - eps) * (1 - eps)) \<le> credit r w" using r1 by simp
qed

lemma slept_enough:
  assumes ok: "bucket_ok r k b" and n: "0 \<le> n" "n \<le> maxShapingChunkBytes" "n \<le> k"
    and t: "try_spend b now (of_int n) = (Some w, b')" and now': "now + w \<le> now'"
  defines "b2 \<equiv> refillLocked b' now'"
  shows "of_int n - bt_tokens b' < 1 / 2000 \<Longrightarrow> of_int n \<le> bt_tokens b2"
    and "of_int n - 1 / 2000 < bt_tokens b2"
proof -
  note c = try_spend_cases [OF ok n(1) t] and w = requested_sleep [OF ok n(1,2) t]
  have b': "bt_tokens b' < of_int n" "0 \<le> bt_tokens b'" "1 \<le> r" "r \<le> 1099511627776" using c(1,3) by (simp_all add: bucket_ok_def)
  have fwd: "lastRefill b' < now'" using c(2) w(1) now' by linarith
  let ?d = "time_sub now' (lastRefill b')"
  let ?q = "f_mul (duration_seconds ?d) (of_int r)"
  have d: "w \<le> ?d" using w(2) now' c(2) by (intro time_sub_at_least) linarith+
  note ts = time_sub_forward [OF fwd]
  have q: "credit r ?d * ((1 - eps) * (1 - eps) * (1 - eps)) \<le> ?q" "normal ?q"
    using refill_amount_accurate(1,4) [OF b'(3,4)] ts by blast+
  have cw: "credit r w \<le> credit r ?d" using d b'(3) by (intro credit_mono) simp_all
  have b2: "bt_tokens b2 = min (of_int k) (fround (bt_tokens b' + ?q))"
    unfolding b2_def refill_forward [OF c(1) fwd] by (simp add: f_add_def)
  have nk: "(of_int n :: rat) \<le> of_int k" using n(3) by (simp only: of_int_le_iff)
  have rn: "fround (of_int n) = of_int n" using n(1,2) by (intro fround_id representable_of_int) (simp add: maxShapingChunkBytes_def)
  have enough: "of_int n \<le> bt_tokens b2" if "of_int n \<le> bt_tokens b' + ?q"
  proof -
    have "fround (of_int n) \<le> fround (bt_tokens b' + ?q)" using that n(1) by (intro fround_mono) simp_all
    then show ?thesis using nk unfolding b2 rn by simp
  qed
  have "1 * 1000000 \<le> (of_int r :: rat) * of_int ?d"
    using b'(3) d w(1) by (intro mult_mono) (simp_all add: of_int_le_iff [of 1000000, symmetric] del: of_int_le_iff)
  then have "1 / 1000 \<le> credit r ?d" by (simp add: credit_def)
  then have "1 / 1000 * (1 - 4 * eps) \<le> credit r ?d * ((1 - eps) * (1 - eps) * (1 - eps))"
    using eps_powers(2) eps_bounds(2) by (intro mult_mono) simp_all
  moreover have "1 / 2000 \<le> 1 / 1000 * (1 - 4 * eps)" by (simp add: eps_def)
  ultimately have q1: "1 / 2000 \<le> ?q" using q(1) by (meson order_trans)
  show small: "of_int n - bt_tokens b' < 1 / 2000 \<Longrightarrow> of_int n \<le> bt_tokens b2" using enough q1 by linarith
  show "of_int n - 1 / 2000 < bt_tokens b2"
  proof (cases "of_int n - bt_tokens b' < 1 / 2000")
    case True
    then show ?thesis using small by linarith
  next
    case False
    let ?x = "of_int n - bt_tokens b'"
    have n1: "(of_int n :: rat) \<le> of_int 32768" using n(2) unfolding maxShapingChunkBytes_def by (simp only: of_int_le_iff)
    have x: "1 / 2000 \<le> ?x" "?x \<le> 32768" using False n1 b'(2) by simp_all
    have e: "0 \<le> (1 - eps) * (1 - eps) * (1 - eps)" using eps_bounds(2) by simp
    have "?x * (1 - 7 * eps) \<le> ?x * ((1 - eps) * (1 - eps) * (1 - eps) * ((1 - eps) * (1 - eps) * (1 - eps)))"
      using x(1) by (intro mult_left_mono eps_powers(3)) simp
    also have "\<dots> = ?x * ((1 - eps) * (1 - eps) * (1 - eps)) * ((1 - eps) * (1 - eps) * (1 - eps))" by (simp only: mult.assoc)
    also have "\<dots> \<le> credit r ?d * ((1 - eps) * (1 - eps) * (1 - eps))" using w(3) [OF x(1)] cw e by (intro mult_right_mono) linarith+
    finally have "?x - 7 * (?x * eps) \<le> ?q" using q(1) by (simp add: algebra_simps)
    moreover have "?x * eps \<le> 32768 * eps" using x(2) eps_bounds(1) by (intro mult_right_mono) simp_all
    ultimately have low: "of_int n - 7 * (32768 * eps) \<le> bt_tokens b' + ?q" by linarith
    have "normal (bt_tokens b' + ?q)" using q1 b'(2) by (auto simp: normal_def eps_def)
    note nf = fround_normal(1) [OF this]
    have "(of_int n - 7 * (32768 * eps)) * (1 - eps) \<le> (bt_tokens b' + ?q) * (1 - eps)" using low eps_bounds(2) by (intro mult_right_mono) simp_all
    moreover have "of_int n - 1 / 2000 < (of_int n - 7 * (32768 * eps)) * (1 - eps)"
    proof -
      have "of_int n * eps \<le> 32768 * eps" using n1 eps_bounds(1) by (intro mult_right_mono) simp_all
      moreover have "7 * (32768 * eps) + 32768 * eps < 1 / 2000" by (simp add: eps_def)
      moreover have "(of_int n - 7 * (32768 * eps)) * (1 - eps) = of_int n - of_int n * eps - 7 * (32768 * eps) + 7 * (32768 * eps) * eps" by (simp add: algebra_simps)
      moreover have "0 \<le> 7 * (32768 * eps) * eps" using eps_bounds(1) by simp
      ultimately show ?thesis by linarith
    qed
    ultimately have "of_int n - 1 / 2000 < fround (bt_tokens b' + ?q)" using nf by linarith
    then show ?thesis unfolding b2 using nk by (simp add: less_le_trans)
  qed
qed

fun sleeps_full :: "byteTokenBucket \<Rightarrow> float64 \<Rightarrow> (gotime \<times> bool) list \<Rightarrow> bool" where
  \<comment> \<open>no sleep is cancelled and none ends early: the next reading is at least the requested time later\<close>
  "sleeps_full b bytes [] = True"
| "sleeps_full b bytes ((now, slept) # rest) =
     (case try_spend b now bytes of
        (None, _) \<Rightarrow> True
      | (Some w, b') \<Rightarrow> slept \<and> (case rest of [] \<Rightarrow> True | (now', _) # _ \<Rightarrow> now + w \<le> now') \<and> sleeps_full b' bytes rest)"

lemma try_spend_succeeds: "bytes \<le> bt_tokens (refillLocked b now) \<Longrightarrow> \<exists>b'. try_spend b now bytes = (None, b')"
  by (simp add: try_spend_def Let_def)

text \<open>C27: a wait ends. A transfer of at most one chunk and at most the burst that has a bucket for itself is paid after at most two sleeps, when no sleep is
  cancelled and none ends before the requested time: three clock readings are always enough for \<open>waitForSpend\<close> to return without an error. The second sleep is
  needed because the requested time is computed in float64 and may leave a fraction of a byte missing. Liveness.\<close>
theorem wait_two_sleeps:
  assumes "bucket_ok r k b" "0 \<le> n" "n \<le> chunkLimit (Some b)" "3 \<le> length readings" "sleeps_full b (of_int n) readings"
  shows "\<exists>b'. waitForSpend b (of_int n) readings = Some (True, b') \<and> bucket_ok r k b'"
proof -
  obtain t0 s0 t1 s1 t2 s2 rest where rd: "readings = (t0, s0) # (t1, s1) # (t2, s2) # rest"
    using assms(4) by (auto simp: Suc_le_length_iff numeral_3_eq_3)
  have k: "burstBytes b = of_int k" "1 \<le> k" using assms(1) by (simp_all add: bucket_ok_def)
  have n: "n \<le> maxShapingChunkBytes" "n \<le> k" using assms(3) chunkLimit_bounds(2) [of "Some b"] chunk_within_burst [OF k assms(3)] by linarith+
  obtain w0 b0 where t0: "try_spend b t0 (of_int n) = (w0, b0)" by (cases "try_spend b t0 (of_int n)")
  note c0 = try_spend_cases(1) [OF assms(1,2) t0]
  obtain w1 b1 where t1: "try_spend b0 t1 (of_int n) = (w1, b1)" by (cases "try_spend b0 t1 (of_int n)")
  note c1 = try_spend_cases [OF c0 assms(2) t1]
  obtain w2 b2 where t2: "try_spend b1 t2 (of_int n) = (w2, b2)" by (cases "try_spend b1 t2 (of_int n)")
  note c2 = try_spend_cases [OF c1(1) assms(2) t2]
  note full = assms(5) [unfolded rd]
  show ?thesis
  proof (cases "w0 = None \<or> w1 = None")
    case True
    then show ?thesis using t0 t1 c0 c1(1) full by (cases w0) (auto simp: rd)
  next
    case False
    then obtain v0 v1 where w: "w0 = Some v0" "w1 = Some v1" by (cases w0; cases w1) auto
    have sl: "s0" "t0 + v0 \<le> t1" "s1" "t1 + v1 \<le> t2" using full t0 t1 by (auto simp: w)
    have "of_int n - 1 / 2000 < bt_tokens b1"
      using slept_enough(2) [OF assms(1,2) n t0 [unfolded w] sl(2)] c1(3) by (simp add: w)
    then have "of_int n \<le> bt_tokens (refillLocked b1 t2)"
      using slept_enough(1) [OF c0 assms(2) n t1 [unfolded w] sl(4)] by simp
    then have "w2 = None" using try_spend_succeeds t2 by force
    then show ?thesis using t0 t1 t2 w sl c2(1) by (simp add: rd)
  qed
qed

lemma wait_two_sleeps_witness:
  "(let b = \<lparr>rateBytesPerSecond = 1000, burstBytes = 1000, bt_tokens = 1000, lastRefill = 0, lastUsed = 0\<rparr>
    in bucket_ok 1000 1000 b \<and> sleeps_full b 800 [(0, True), (7, True), (9, True)] \<and>
       (\<exists>b'. waitForSpend b 800 [(0, True), (7, True), (9, True)] = Some (True, b')))"
proof -
  let ?b = "\<lparr>rateBytesPerSecond = 1000, burstBytes = 1000, bt_tokens = 1000, lastRefill = 0, lastUsed = 0\<rparr> :: byteTokenBucket"
  have ok: "bucket_ok 1000 1000 ?b" using newByteTokenBucket_ok(1) [OF example_bucket] by (simp add: shaper_consts)
  have s: "sleeps_full ?b (of_int 800) [(0, True), (7, True), (9, True)]" using refill_same [of ?b] by (simp add: try_spend_def)
  have l: "(800 :: int) \<le> chunkLimit (Some ?b)" by (simp add: chunkLimit_def maxShapingChunkBytes_def)
  show ?thesis using ok s wait_two_sleeps [OF ok _ l _ s] by auto
qed

section \<open>Accepted rules run as they were accepted\<close>

lemma shaper_err_Inr [simp]: "shaper_err x = Inr y \<longleftrightarrow> x = Inr y"
  by (cases x) auto

lemma marshal_or_Inr: "marshal_or j = Inr s \<longleftrightarrow> j = Some s"
  by (cases j) (simp_all add: marshal_or_def)

lemma scope_strings:
  "trafficShaperBudgetScopeStringFromProto b = Inr s \<Longrightarrow> normalizePublicTrafficShaperBudgetScope s = s \<and>
     protoTrafficShaperBudgetScopeFromString s = (if b = BUDGET_SCOPE_UNSPECIFIED then BUDGET_SCOPE_PER_KEY else b)"
  "trafficShaperProtocolScopeStringFromProto p = Inr t \<Longrightarrow> normalizePublicTrafficShaperProtocolScope t = t \<and>
     protoTrafficShaperProtocolScopeFromString t = (if p = PROTOCOL_SCOPE_UNSPECIFIED then PROTOCOL_SCOPE_ALL else p)"
  by (cases b; auto simp: trafficShaperBudgetScopeStringFromProto_def protoTrafficShaperBudgetScopeFromString_def
        normalizePublicTrafficShaperBudgetScope_def shaper_consts)
    (cases p; auto simp: trafficShaperProtocolScopeStringFromProto_def protoTrafficShaperProtocolScopeFromString_def
        normalizePublicTrafficShaperProtocolScope_def shaper_consts)

definition codecs_agree :: "('mr, 'm) rl_codecs \<Rightarrow> 'm rl_decoders \<Rightarrow> bool" where
  \<comment> \<open>what \<open>encoding/json\<close> documents for these values: encoding is not empty, and decoding inverts it\<close>
  "codecs_agree C D \<longleftrightarrow> (\<forall>m s. marshal_match C m = Some s \<longrightarrow> s \<noteq> '''' \<and> decode_match D s = Inr m) \<and>
     (\<forall>ps s. marshal_key_parts C ps = Some s \<longrightarrow> s \<noteq> '''' \<and> unmarshal_key_parts D s = Inr ps)"


definition shaper_codecs :: "(unit, unit) rl_codecs" where
  "shaper_codecs = \<lparr>validate_match = (\<lambda>_. Inr ()), marshal_match = (\<lambda>_. Some ''{}''),
     marshal_key_parts = (\<lambda>ps. if ps = [default_key_part] then Some ''[ip]'' else None), marshal_headers = (\<lambda>_. None)\<rparr>"

definition shaper_decoders :: "unit rl_decoders" where
  "shaper_decoders = \<lparr>decode_match = (\<lambda>_. Inr ()), unmarshal_key_parts = (\<lambda>_. Inr [default_key_part]), unmarshal_headers = (\<lambda>_. Inr []), fingerprint_of = (\<lambda>_. '''')\<rparr>"


end
