(* ===== verification/TargetHealth.thy ===== *)
theory TargetHealth
  imports GoStrings
begin

text \<open>
  Health of route targets (\<open>internal/server/public_target_health.go\<close>): the state machine behind one target or one agent of a target, the
  monitor that starts and stops the checking goroutines when the configuration changes, and the questions the router asks. A check itself (an HTTP request)
  is judged by its outcome. Theory \<open>HealthMonitor\<close> reasons about the goroutines.
\<close>

section \<open>Configuration and state\<close>

datatype health_status = HS_UNSPECIFIED | HS_UNKNOWN | HS_HEALTHY | HS_UNHEALTHY | HS_DISABLED | HS_DISCONNECTED

definition publicRouteTargetPassiveUnhealthyCooldown :: duration where
  "publicRouteTargetPassiveUnhealthyCooldown = 30 * second"

definition publicRouteTargetHealthTraceLimitPerTarget :: nat where
  "publicRouteTargetHealthTraceLimitPerTarget = 100"

definition defaultTargetHealthCheckHealthyThreshold :: int where "defaultTargetHealthCheckHealthyThreshold = 2"
definition defaultTargetHealthCheckUnhealthyThreshold :: int where "defaultTargetHealthCheckUnhealthyThreshold = 2"

lemmas health_consts = publicRouteTargetPassiveUnhealthyCooldown_def publicRouteTargetHealthTraceLimitPerTarget_def
  defaultTargetHealthCheckHealthyThreshold_def defaultTargetHealthCheckUnhealthyThreshold_def

record publicRouteTargetHealthCheckConfig =
  hc_Enabled :: bool
  hc_Method :: string
  hc_Path :: string
  hc_Interval :: duration
  hc_Timeout :: duration
  hc_HealthyThreshold :: int
  hc_UnhealthyThreshold :: int
  hc_ExpectedStatusMin :: int
  hc_ExpectedStatusMax :: int

record publicRouteTargetAgentAssignment =
  aa_TargetID :: int
  aa_AgentID :: int
  aa_Position :: int
  aa_Weight :: int
  aa_Enabled :: bool

record 'o publicRouteTargetHealthConfig =
  ht_ID :: int
  ht_Name :: string
  ht_TargetType :: string
  ht_Transport :: string
  ht_Enabled :: bool
  ht_HasOrigin :: bool \<comment> \<open>\<open>ParsedOrigin != nil\<close>\<close>
  ht_AgentAssignments :: "publicRouteTargetAgentAssignment list"
  ht_HealthCheck :: publicRouteTargetHealthCheckConfig
  ht_other :: 'o \<comment> \<open>the fields that only the requests use\<close>

record publicRouteTargetCheckState =
  explicitStatus :: health_status
  lastCheckedAt :: gotime
  lastError :: string
  passiveUnhealthyUntil :: gotime
  healthyStreak :: int
  unhealthyStreak :: int

record publicRouteTargetHealthTraceState =
  ts_status :: health_status
  ts_available :: bool
  ts_healthyStreak :: int
  ts_unhealthyStreak :: int
  ts_passiveUntil :: int

datatype trace_source = ACTIVE_CHECK | PASSIVE_FAILURE | AGENT_CONNECTIVITY
datatype trace_outcome = TRACE_SUCCESS | TRACE_FAILURE | TRACE_SKIPPED

record health_trace =
  tr_Sequence :: nat
  tr_RouteTargetId :: int
  tr_Source :: trace_source
  tr_Outcome :: trace_outcome
  tr_AgentId :: int
  tr_AgentPublicId :: string
  tr_Before :: publicRouteTargetHealthTraceState
  tr_After :: publicRouteTargetHealthTraceState
  tr_ErrorKind :: string
  tr_Error :: string

record publicRouteTargetHealthCheckAttempt =
  at_AgentID :: int
  at_AgentPublicID :: string
  at_ErrorKind :: string
  at_Err :: "string option"
  at_Skipped :: bool

record publicRouteTargetAgentHealthState =
  ag_agentPublicID :: string
  ag_connected :: bool
  ag_checkRunning :: bool
  ag_state :: publicRouteTargetCheckState
  ag_traces :: "health_trace list"

record 'o publicRouteTargetHealthState =
  st_target :: "'o publicRouteTargetHealthConfig"
  st_directCheckRunning :: bool
  st_directGeneration :: nat
  st_direct :: publicRouteTargetCheckState
  st_directTraces :: "health_trace list"
  st_agentStates :: "(int, publicRouteTargetAgentHealthState) gomap"
  st_active :: nat \<comment> \<open>the address of the counter of active requests\<close>

record 'o publicRouteTargetHealthMonitor =
  hm_sequence :: nat
  hm_states :: "(int, 'o publicRouteTargetHealthState) gomap"
  hm_counters :: "int list" \<comment> \<open>the counters of active requests of all states ever made\<close>

section \<open>One check state\<close>

definition unknownPublicRouteTargetCheckState :: publicRouteTargetCheckState where
  "unknownPublicRouteTargetCheckState =
     \<lparr>explicitStatus = HS_UNKNOWN, lastCheckedAt = 0, lastError = '''', passiveUnhealthyUntil = 0, healthyStreak = 0, unhealthyStreak = 0\<rparr>"

definition normalizedThreshold :: "int \<Rightarrow> int \<Rightarrow> int" where
  "normalizedThreshold value fallback = (if value \<le> 0 then fallback else value)"

definition recordPublicRouteTargetCheckResult ::
  "publicRouteTargetCheckState \<Rightarrow> publicRouteTargetHealthCheckConfig \<Rightarrow> gotime \<Rightarrow> string option \<Rightarrow> publicRouteTargetCheckState" where
  "recordPublicRouteTargetCheckResult state config now err =
     (case err of
        None \<Rightarrow>
          let s = state\<lparr>lastCheckedAt := now, healthyStreak := healthyStreak state + 1, unhealthyStreak := 0, lastError := '''', passiveUnhealthyUntil := 0\<rparr>
          in if healthyStreak s \<ge> normalizedThreshold (hc_HealthyThreshold config) defaultTargetHealthCheckHealthyThreshold
             then s\<lparr>explicitStatus := HS_HEALTHY\<rparr> else s
      | Some e \<Rightarrow>
          let s = state\<lparr>lastCheckedAt := now, unhealthyStreak := unhealthyStreak state + 1, healthyStreak := 0, lastError := e\<rparr>
          in if unhealthyStreak s \<ge> normalizedThreshold (hc_UnhealthyThreshold config) defaultTargetHealthCheckUnhealthyThreshold
             then s\<lparr>explicitStatus := HS_UNHEALTHY\<rparr> else s)"

definition markCheckPassiveFailureLocked :: "publicRouteTargetCheckState \<Rightarrow> gotime \<Rightarrow> string option \<Rightarrow> publicRouteTargetCheckState" where
  "markCheckPassiveFailureLocked state now err =
     state\<lparr>passiveUnhealthyUntil := now + publicRouteTargetPassiveUnhealthyCooldown,
           lastError := (case err of Some e \<Rightarrow> e | None \<Rightarrow> ''temporary upstream failure'')\<rparr>"

definition checkStateSnapshotStatus :: "publicRouteTargetCheckState \<Rightarrow> bool \<Rightarrow> gotime \<Rightarrow> health_status \<times> int" where
  "checkStateSnapshotStatus state healthEnabled now =
     (if \<not> healthEnabled then (HS_UNKNOWN, 0)
      else let status = (if explicitStatus state = HS_UNSPECIFIED then HS_UNKNOWN else explicitStatus state)
           in if passiveUnhealthyUntil state > now then (HS_UNHEALTHY, unix_milli (passiveUnhealthyUntil state)) else (status, 0))"

definition checkStateAvailable :: "publicRouteTargetCheckState \<Rightarrow> bool \<Rightarrow> gotime \<Rightarrow> bool" where
  "checkStateAvailable state healthEnabled now =
     (if \<not> healthEnabled then True
      else if passiveUnhealthyUntil state > now then False
      else explicitStatus state \<noteq> HS_UNHEALTHY \<and> explicitStatus state \<noteq> HS_DISABLED)"

definition publicRouteTargetHealthTraceStateFromCheck :: "publicRouteTargetCheckState \<Rightarrow> bool \<Rightarrow> gotime \<Rightarrow> publicRouteTargetHealthTraceState" where
  "publicRouteTargetHealthTraceStateFromCheck state healthEnabled now =
     (let (status, passiveUntil) = checkStateSnapshotStatus state healthEnabled now
      in \<lparr>ts_status = status, ts_available = checkStateAvailable state healthEnabled now, ts_healthyStreak = healthyStreak state,
          ts_unhealthyStreak = unhealthyStreak state, ts_passiveUntil = passiveUntil\<rparr>)"

section \<open>Traces\<close>

definition newHealthTraceLocked ::
  "nat \<Rightarrow> 'o publicRouteTargetHealthConfig \<Rightarrow> trace_source \<Rightarrow> publicRouteTargetHealthCheckAttempt \<Rightarrow> publicRouteTargetHealthTraceState
     \<Rightarrow> publicRouteTargetHealthTraceState \<Rightarrow> health_trace \<times> nat" where
  \<comment> \<open>on the sequence number of the monitor; with \<open>nextHealthTraceSequenceLocked\<close>. The times and the description of the request are left out\<close>
  "newHealthTraceLocked sequence target source attempt before after =
     (let outcome = (if at_Skipped attempt then TRACE_SKIPPED else if at_Err attempt \<noteq> None then TRACE_FAILURE else TRACE_SUCCESS)
      in (\<lparr>tr_Sequence = sequence + 1, tr_RouteTargetId = ht_ID target, tr_Source = source, tr_Outcome = outcome,
           tr_AgentId = at_AgentID attempt, tr_AgentPublicId = at_AgentPublicID attempt, tr_Before = before, tr_After = after,
           tr_ErrorKind = (if at_ErrorKind attempt = '''' then ''success'' else at_ErrorKind attempt),
           tr_Error = (case at_Err attempt of None \<Rightarrow> '''' | Some e \<Rightarrow> e)\<rparr>, sequence + 1))"

definition appendHealthTraceLocked :: "health_trace list \<Rightarrow> health_trace \<Rightarrow> health_trace list" where
  "appendHealthTraceLocked traces trace =
     (let t = traces @ [trace]
      in if length t \<le> publicRouteTargetHealthTraceLimitPerTarget then t
         else drop (length t - publicRouteTargetHealthTraceLimitPerTarget) t)"

definition plain_attempt :: "string \<Rightarrow> string option \<Rightarrow> publicRouteTargetHealthCheckAttempt" where
  \<comment> \<open>\<open>newPublicRouteTargetHealthCheckAttempt\<close> with a kind and an error set\<close>
  "plain_attempt kind err = \<lparr>at_AgentID = 0, at_AgentPublicID = '''', at_ErrorKind = kind, at_Err = err, at_Skipped = False\<rparr>"

definition attempt_fail :: "publicRouteTargetHealthCheckAttempt \<Rightarrow> string \<Rightarrow> string \<Rightarrow> publicRouteTargetHealthCheckAttempt" where
  "attempt_fail a kind err = a\<lparr>at_ErrorKind := (if kind = '''' then ''request_failed'' else kind), at_Err := Some err\<rparr>"

definition attempt_skip :: "publicRouteTargetHealthCheckAttempt \<Rightarrow> string \<Rightarrow> string \<Rightarrow> publicRouteTargetHealthCheckAttempt" where
  "attempt_skip a kind err = (attempt_fail a kind err)\<lparr>at_Skipped := True\<rparr>"

datatype ctx_err = CtxOk | CtxCanceled | CtxDeadline

record go_err =
  ge_disconnected :: bool \<comment> \<open>\<open>errors.Is(err, errAgentDisconnected)\<close>\<close>
  ge_cordoned :: bool \<comment> \<open>\<open>errors.Is(err, errAgentUpdateCordoned)\<close>\<close>
  ge_dialKind :: "string option" \<comment> \<open>the kind of the \<open>agentDialError\<close> that \<open>errors.As\<close> finds\<close>
  ge_timeout :: bool \<comment> \<open>\<open>isTimeoutError(err)\<close>\<close>
  ge_canceled :: bool \<comment> \<open>\<open>errors.Is(err, context.Canceled)\<close>\<close>
  ge_deadline :: bool \<comment> \<open>\<open>errors.Is(err, context.DeadlineExceeded)\<close>\<close>
  ge_msg :: string

definition classifyHealthCheckFailure :: "ctx_err option \<Rightarrow> ctx_err option \<Rightarrow> string \<Rightarrow> go_err \<Rightarrow> string \<times> bool \<times> string" where
  \<comment> \<open>the states of the parent and of the check's own context, \<open>None\<close> for nil\<close>
  "classifyHealthCheckFailure parent ctx fallback err =
     (if parent = Some CtxCanceled then (''health_check_cancelled'', True, ''health_monitor'')
      else if ctx = Some CtxCanceled \<and> ge_canceled err then (''health_check_cancelled'', True, ''health_monitor'')
      else if ge_deadline err \<or> ctx = Some CtxDeadline then (''health_check_timeout'', False, '''')
      else (if fallback = '''' then ''request_failed'' else fallback, False, ''''))"

definition applyContextFailure ::
  "publicRouteTargetHealthCheckAttempt \<Rightarrow> ctx_err option \<Rightarrow> ctx_err option \<Rightarrow> string \<Rightarrow> go_err \<Rightarrow> publicRouteTargetHealthCheckAttempt" where
  "applyContextFailure a parent ctx fallback err =
     (let (kind, skipped, _) = classifyHealthCheckFailure parent ctx fallback err
      in if skipped then attempt_skip a kind (ge_msg err) else attempt_fail a kind (ge_msg err))"

section \<open>Recording\<close>

definition newPublicRouteTargetHealthState :: "nat \<Rightarrow> 'o publicRouteTargetHealthConfig \<Rightarrow> 'o publicRouteTargetHealthState" where
  "newPublicRouteTargetHealthState counter target =
     \<lparr>st_target = target, st_directCheckRunning = False, st_directGeneration = 0, st_direct = unknownPublicRouteTargetCheckState,
      st_directTraces = [], st_agentStates = [], st_active = counter\<rparr>"

definition new_agent_state :: publicRouteTargetAgentHealthState where
  "new_agent_state =
     \<lparr>ag_agentPublicID = '''', ag_connected = False, ag_checkRunning = False, ag_state = unknownPublicRouteTargetCheckState, ag_traces = []\<rparr>"

definition ensureAgentStateLocked :: "'o publicRouteTargetHealthState \<Rightarrow> int \<Rightarrow> publicRouteTargetAgentHealthState" where
  \<comment> \<open>the agent's state; every caller stores it back\<close>
  "ensureAgentStateLocked s agentID = (case map_of (st_agentStates s) agentID of Some a \<Rightarrow> a | None \<Rightarrow> new_agent_state)"

definition put_agent :: "'o publicRouteTargetHealthState \<Rightarrow> int \<Rightarrow> publicRouteTargetAgentHealthState \<Rightarrow> 'o publicRouteTargetHealthState" where
  "put_agent s agentID a = s\<lparr>st_agentStates := AList.update agentID a (st_agentStates s)\<rparr>"

definition health_on :: "'o publicRouteTargetHealthState \<Rightarrow> bool" where
  "health_on s = hc_Enabled (ht_HealthCheck (st_target s))"

definition traced_check ::
  "nat \<Rightarrow> 'o publicRouteTargetHealthState \<Rightarrow> publicRouteTargetCheckState \<Rightarrow> health_trace list \<Rightarrow> publicRouteTargetHealthCheckAttempt \<Rightarrow> gotime \<times> gotime \<times> gotime
     \<Rightarrow> (publicRouteTargetCheckState \<times> health_trace list) \<times> nat" where
  \<comment> \<open>the body that the direct and the agent case of an explicit check share; the three times are the clock readings\<close>
  "traced_check sequence s check traces attempt clock =
     (let (t1, t2, t3) = clock;
          before = publicRouteTargetHealthTraceStateFromCheck check (health_on s) t1;
          check' = (if at_Skipped attempt then check else recordPublicRouteTargetCheckResult check (ht_HealthCheck (st_target s)) t2 (at_Err attempt));
          after = publicRouteTargetHealthTraceStateFromCheck check' (health_on s) t3;
          (trace, sequence') = newHealthTraceLocked sequence (st_target s) ACTIVE_CHECK attempt before after
      in ((check', appendHealthTraceLocked traces trace), sequence'))"

definition recordDirectExplicitCheckLocked ::
  "'o publicRouteTargetHealthMonitor \<Rightarrow> int \<Rightarrow> 'o publicRouteTargetHealthState \<Rightarrow> publicRouteTargetHealthCheckAttempt \<Rightarrow> gotime \<times> gotime \<times> gotime
     \<Rightarrow> 'o publicRouteTargetHealthMonitor" where
  "recordDirectExplicitCheckLocked m i s attempt clock =
     (let ((check, traces), sequence) = traced_check (hm_sequence m) s (st_direct s) (st_directTraces s) attempt clock
      in m\<lparr>hm_sequence := sequence, hm_states := AList.update i (s\<lparr>st_direct := check, st_directTraces := traces\<rparr>) (hm_states m)\<rparr>)"

definition recordDirectExplicitCheck ::
  "'o publicRouteTargetHealthMonitor \<Rightarrow> int \<Rightarrow> publicRouteTargetHealthCheckAttempt \<Rightarrow> gotime \<times> gotime \<times> gotime \<Rightarrow> 'o publicRouteTargetHealthMonitor" where
  "recordDirectExplicitCheck m i attempt clock =
     (case map_of (hm_states m) i of None \<Rightarrow> m | Some s \<Rightarrow> recordDirectExplicitCheckLocked m i s attempt clock)"

definition live_generation :: "'o publicRouteTargetHealthMonitor \<Rightarrow> int \<Rightarrow> nat \<Rightarrow> 'o publicRouteTargetHealthState option" where
  "live_generation m i generation =
     (case map_of (hm_states m) i of
        None \<Rightarrow> None
      | Some s \<Rightarrow> if \<not> st_directCheckRunning s \<or> st_directGeneration s \<noteq> generation then None else Some s)"

definition recordDirectExplicitCheckForGeneration ::
  "'o publicRouteTargetHealthMonitor \<Rightarrow> int \<Rightarrow> nat \<Rightarrow> publicRouteTargetHealthCheckAttempt \<Rightarrow> gotime \<times> gotime \<times> gotime \<Rightarrow> 'o publicRouteTargetHealthMonitor" where
  "recordDirectExplicitCheckForGeneration m i generation attempt clock =
     (case live_generation m i generation of None \<Rightarrow> m | Some s \<Rightarrow> recordDirectExplicitCheckLocked m i s attempt clock)"

definition directCheckForGeneration :: "'o publicRouteTargetHealthMonitor \<Rightarrow> int \<Rightarrow> nat \<Rightarrow> 'o publicRouteTargetHealthConfig option" where
  "directCheckForGeneration m i generation = map_option st_target (live_generation m i generation)"

definition backendForAgentCheck :: "'o publicRouteTargetHealthMonitor \<Rightarrow> int \<Rightarrow> int \<Rightarrow> 'o publicRouteTargetHealthConfig option" where
  "backendForAgentCheck m i agentID =
     (case map_of (hm_states m) i of
        None \<Rightarrow> None
      | Some s \<Rightarrow> (case map_of (st_agentStates s) agentID of
          None \<Rightarrow> None
        | Some a \<Rightarrow> if \<not> ag_checkRunning a then None else Some (st_target s)))"

definition recordAgentExplicitCheck ::
  "'o publicRouteTargetHealthMonitor \<Rightarrow> int \<Rightarrow> int \<Rightarrow> publicRouteTargetHealthCheckAttempt \<Rightarrow> gotime \<times> gotime \<times> gotime \<Rightarrow> 'o publicRouteTargetHealthMonitor" where
  "recordAgentExplicitCheck m i agentID attempt0 clock =
     (case map_of (hm_states m) i of
        None \<Rightarrow> m
      | Some s \<Rightarrow>
          let a = ensureAgentStateLocked s agentID;
              attempt = attempt0\<lparr>at_AgentID := (if at_AgentID attempt0 = 0 then agentID else at_AgentID attempt0),
                at_AgentPublicID := (if at_AgentPublicID attempt0 = '''' then ag_agentPublicID a else at_AgentPublicID attempt0)\<rparr>;
              ((check, traces), sequence) = traced_check (hm_sequence m) s (ag_state a) (ag_traces a) attempt clock
          in m\<lparr>hm_sequence := sequence, hm_states := AList.update i (put_agent s agentID (a\<lparr>ag_state := check, ag_traces := traces\<rparr>)) (hm_states m)\<rparr>)"

definition recordAgentActiveCheckSkipped ::
  "'o publicRouteTargetHealthMonitor \<Rightarrow> int \<Rightarrow> int \<Rightarrow> string \<Rightarrow> string \<Rightarrow> gotime \<times> gotime \<Rightarrow> 'o publicRouteTargetHealthMonitor" where
  "recordAgentActiveCheckSkipped m i agentID errorKind err clock =
     (case map_of (hm_states m) i of
        None \<Rightarrow> m
      | Some s \<Rightarrow>
          let a = ensureAgentStateLocked s agentID;
              attempt = (plain_attempt errorKind (Some err))\<lparr>at_AgentID := agentID, at_AgentPublicID := ag_agentPublicID a\<rparr>;
              before = publicRouteTargetHealthTraceStateFromCheck (ag_state a) (health_on s) (fst clock);
              after = publicRouteTargetHealthTraceStateFromCheck (ag_state a) (health_on s) (snd clock);
              (trace, sequence) = newHealthTraceLocked (hm_sequence m) (st_target s) ACTIVE_CHECK attempt before after
          in m\<lparr>hm_sequence := sequence,
               hm_states := AList.update i (put_agent s agentID (a\<lparr>ag_traces := appendHealthTraceLocked (ag_traces a) (trace\<lparr>tr_Outcome := TRACE_SKIPPED\<rparr>)\<rparr>)) (hm_states m)\<rparr>)"

definition recordAgentConnectedLocked ::
  "(int \<Rightarrow> (string \<times> string) option) \<Rightarrow> 'o publicRouteTargetHealthState \<Rightarrow> nat \<Rightarrow> int \<Rightarrow> string \<Rightarrow> gotime \<times> gotime \<Rightarrow> 'o publicRouteTargetHealthState \<times> nat" where
  \<comment> \<open>the first argument looks a connected agent up: its name and public id\<close>
  "recordAgentConnectedLocked conn s sequence agentID publicID clock =
     (let a = ensureAgentStateLocked s agentID;
          before = publicRouteTargetHealthTraceStateFromCheck (ag_state a) (health_on s) (fst clock);
          a1 = a\<lparr>ag_connected := True, ag_agentPublicID := publicID, ag_state := (if ag_connected a then ag_state a else unknownPublicRouteTargetCheckState)\<rparr>
      in if ag_connected a then (put_agent s agentID a1, sequence)
         else let publicID1 = (case conn agentID of Some (_, p) \<Rightarrow> if publicID = '''' then p else publicID | None \<Rightarrow> publicID);
                  after = publicRouteTargetHealthTraceStateFromCheck (ag_state a1) (health_on s) (snd clock);
                  attempt = (plain_attempt ''agent_connected'' None)\<lparr>at_AgentID := agentID, at_AgentPublicID := publicID1\<rparr>;
                  (trace, sequence') = newHealthTraceLocked sequence (st_target s) AGENT_CONNECTIVITY attempt before after
              in (put_agent s agentID (a1\<lparr>ag_traces := appendHealthTraceLocked (ag_traces a1) trace\<rparr>), sequence'))"

definition recordAgentDisconnectedLocked ::
  "'o publicRouteTargetHealthState \<Rightarrow> nat \<Rightarrow> int \<Rightarrow> gotime \<times> gotime \<Rightarrow> 'o publicRouteTargetHealthState \<times> nat" where
  "recordAgentDisconnectedLocked s sequence agentID clock =
     (let a = ensureAgentStateLocked s agentID;
          before = publicRouteTargetHealthTraceStateFromCheck (ag_state a) (health_on s) (fst clock);
          a1 = a\<lparr>ag_connected := False, ag_state := (ag_state a)\<lparr>explicitStatus := HS_UNKNOWN, healthyStreak := 0, unhealthyStreak := 0\<rparr>\<rparr>
      in if \<not> ag_connected a then (put_agent s agentID a1, sequence)
         else let after = publicRouteTargetHealthTraceStateFromCheck (ag_state a1) (health_on s) (snd clock);
                  attempt = (plain_attempt ''agent_disconnected_event'' (Some ''agent disconnected''))\<lparr>at_AgentID := agentID, at_AgentPublicID := ag_agentPublicID a1\<rparr>;
                  (trace, sequence') = newHealthTraceLocked sequence (st_target s) AGENT_CONNECTIVITY attempt before after
              in (put_agent s agentID (a1\<lparr>ag_traces := appendHealthTraceLocked (ag_traces a1) trace\<rparr>), sequence'))"

definition with_state ::
  "'o publicRouteTargetHealthMonitor \<Rightarrow> int \<Rightarrow> ('o publicRouteTargetHealthState \<Rightarrow> nat \<Rightarrow> 'o publicRouteTargetHealthState \<times> nat) \<Rightarrow> 'o publicRouteTargetHealthMonitor" where
  \<comment> \<open>run an update of one state under the monitor's lock, when there is one\<close>
  "with_state m i f =
     (case map_of (hm_states m) i of
        None \<Rightarrow> m
      | Some s \<Rightarrow> (let (s', sequence) = f s (hm_sequence m) in m\<lparr>hm_sequence := sequence, hm_states := AList.update i s' (hm_states m)\<rparr>))"

definition recordAgentConnected :: "(int \<Rightarrow> (string \<times> string) option) \<Rightarrow> 'o publicRouteTargetHealthMonitor \<Rightarrow> int \<Rightarrow> int \<Rightarrow> string \<Rightarrow> gotime \<times> gotime \<Rightarrow> 'o publicRouteTargetHealthMonitor" where
  "recordAgentConnected conn m i agentID publicID clock = with_state m i (\<lambda>s q. recordAgentConnectedLocked conn s q agentID publicID clock)"

definition recordAgentDisconnected :: "'o publicRouteTargetHealthMonitor \<Rightarrow> int \<Rightarrow> int \<Rightarrow> gotime \<times> gotime \<Rightarrow> 'o publicRouteTargetHealthMonitor" where
  "recordAgentDisconnected m i agentID clock = with_state m i (\<lambda>s q. recordAgentDisconnectedLocked s q agentID clock)"

definition backendHasAgentAssignment :: "'o publicRouteTargetHealthConfig \<Rightarrow> int \<Rightarrow> bool" where
  "backendHasAgentAssignment target agentID = list_ex (\<lambda>a. aa_AgentID a = agentID) (ht_AgentAssignments target)"

definition for_assigned ::
  "int list \<Rightarrow> 'o publicRouteTargetHealthMonitor \<Rightarrow> int \<Rightarrow> ('o publicRouteTargetHealthState \<Rightarrow> nat \<Rightarrow> 'o publicRouteTargetHealthState \<times> nat) \<Rightarrow> 'o publicRouteTargetHealthMonitor" where
  \<comment> \<open>the loop over \<open>m.states\<close>, in the given map order\<close>
  "for_assigned ord m agentID f =
     foldl (\<lambda>m i. with_state m i (\<lambda>s q. if backendHasAgentAssignment (st_target s) agentID then f s q else (s, q))) m (range_keys ord (hm_states m))"

definition recordAgentConnectedForAll :: "(int \<Rightarrow> (string \<times> string) option) \<Rightarrow> int list \<Rightarrow> 'o publicRouteTargetHealthMonitor \<Rightarrow> int \<Rightarrow> string \<Rightarrow> gotime \<times> gotime \<Rightarrow> 'o publicRouteTargetHealthMonitor" where
  "recordAgentConnectedForAll conn ord m agentID publicID clock =
     (if agentID \<le> 0 then m else for_assigned ord m agentID (\<lambda>s q. recordAgentConnectedLocked conn s q agentID publicID clock))"

definition recordAgentDisconnectedForAll :: "int list \<Rightarrow> 'o publicRouteTargetHealthMonitor \<Rightarrow> int \<Rightarrow> gotime \<times> gotime \<Rightarrow> 'o publicRouteTargetHealthMonitor" where
  "recordAgentDisconnectedForAll ord m agentID clock =
     (if agentID \<le> 0 then m else for_assigned ord m agentID (\<lambda>s q. recordAgentDisconnectedLocked s q agentID clock))"

definition passive_check ::
  "nat \<Rightarrow> 'o publicRouteTargetHealthState \<Rightarrow> publicRouteTargetCheckState \<Rightarrow> int \<Rightarrow> string \<Rightarrow> string option \<Rightarrow> gotime \<times> gotime \<times> gotime
     \<Rightarrow> (publicRouteTargetCheckState \<times> health_trace) \<times> nat" where
  \<comment> \<open>the body that the two passive failures share, with \<open>newPassiveHealthTraceAttempt\<close>\<close>
  "passive_check sequence s check agentID publicID err clock =
     (let (t1, t2, t3) = clock;
          before = publicRouteTargetHealthTraceStateFromCheck check (health_on s) t1;
          check' = markCheckPassiveFailureLocked check t2 err;
          after = publicRouteTargetHealthTraceStateFromCheck check' (health_on s) t3;
          attempt = (plain_attempt ''passive_failure'' (Some (case err of Some e \<Rightarrow> e | None \<Rightarrow> ''temporary upstream failure'')))
            \<lparr>at_AgentID := agentID, at_AgentPublicID := publicID\<rparr>;
          (trace, sequence') = newHealthTraceLocked sequence (st_target s) PASSIVE_FAILURE attempt before after
      in ((check', trace), sequence'))"

definition markPassiveFailure :: "'o publicRouteTargetHealthMonitor \<Rightarrow> int \<Rightarrow> string option \<Rightarrow> gotime \<times> gotime \<times> gotime \<Rightarrow> 'o publicRouteTargetHealthMonitor" where
  "markPassiveFailure m i err clock =
     (if i \<le> 0 then m
      else with_state m i (\<lambda>s q.
        if \<not> health_on s then (s\<lparr>st_direct := unknownPublicRouteTargetCheckState\<rparr>, q)
        else let ((check, trace), q') = passive_check q s (st_direct s) 0 '''' err clock
             in (s\<lparr>st_direct := check, st_directTraces := appendHealthTraceLocked (st_directTraces s) trace\<rparr>, q')))"

definition markAgentPassiveFailure :: "'o publicRouteTargetHealthMonitor \<Rightarrow> int \<Rightarrow> int \<Rightarrow> string option \<Rightarrow> gotime \<times> gotime \<times> gotime \<Rightarrow> 'o publicRouteTargetHealthMonitor" where
  "markAgentPassiveFailure m i agentID err clock =
     (if i \<le> 0 \<or> agentID \<le> 0 then m
      else with_state m i (\<lambda>s q.
        if \<not> health_on s then
          (case map_of (st_agentStates s) agentID of
             None \<Rightarrow> (s, q)
           | Some a \<Rightarrow> (put_agent s agentID (a\<lparr>ag_state := unknownPublicRouteTargetCheckState\<rparr>), q))
        else let a = ensureAgentStateLocked s agentID;
                 ((check, trace), q') = passive_check q s (ag_state a) agentID (ag_agentPublicID a) err clock
             in (put_agent s agentID (a\<lparr>ag_state := check, ag_traces := appendHealthTraceLocked (ag_traces a) trace\<rparr>), q')))"

section \<open>Requests in progress\<close>

definition ensureStateLocked :: "'o \<Rightarrow> 'o publicRouteTargetHealthMonitor \<Rightarrow> int \<Rightarrow> 'o publicRouteTargetHealthState \<times> 'o publicRouteTargetHealthMonitor" where
  \<comment> \<open>the first argument stands for the zero values of the other fields\<close>
  "ensureStateLocked z m i =
     (case map_of (hm_states m) i of
        Some s \<Rightarrow> (s, m)
      | None \<Rightarrow>
          let s = newPublicRouteTargetHealthState (length (hm_counters m))
                \<lparr>ht_ID = i, ht_Name = '''', ht_TargetType = '''', ht_Transport = '''', ht_Enabled = True, ht_HasOrigin = False, ht_AgentAssignments = [],
                 ht_HealthCheck = \<lparr>hc_Enabled = False, hc_Method = '''', hc_Path = '''', hc_Interval = 0, hc_Timeout = 0, hc_HealthyThreshold = 0,
                   hc_UnhealthyThreshold = 0, hc_ExpectedStatusMin = 0, hc_ExpectedStatusMax = 0\<rparr>, ht_other = z\<rparr>
          in (s, m\<lparr>hm_states := AList.update i s (hm_states m), hm_counters := hm_counters m @ [0]\<rparr>))"

definition beginRequest :: "'o \<Rightarrow> 'o publicRouteTargetHealthMonitor \<Rightarrow> int \<Rightarrow> nat option \<times> 'o publicRouteTargetHealthMonitor" where
  \<comment> \<open>the counter that the returned function will decrement; \<open>None\<close> for the function that does nothing\<close>
  "beginRequest z m i =
     (if i \<le> 0 then (None, m)
      else let (s, m') = ensureStateLocked z m i
           in (Some (st_active s), m'\<lparr>hm_counters := (hm_counters m')[st_active s := hm_counters m' ! st_active s + 1]\<rparr>))"

definition endRequest :: "'o publicRouteTargetHealthMonitor \<Rightarrow> nat option \<Rightarrow> 'o publicRouteTargetHealthMonitor" where
  "endRequest m c = (case c of None \<Rightarrow> m | Some a \<Rightarrow> m\<lparr>hm_counters := (hm_counters m)[a := hm_counters m ! a - 1]\<rparr>)"

definition activeRequests :: "'o publicRouteTargetHealthMonitor \<Rightarrow> int \<Rightarrow> int" where
  "activeRequests m i =
     (if i \<le> 0 then 0 else (case map_of (hm_states m) i of None \<Rightarrow> 0 | Some s \<Rightarrow> hm_counters m ! st_active s))"

section \<open>Reconciling with a configuration\<close>

datatype health_loop = DirectLoop int nat | AgentLoop int int

definition should_run_direct :: "bool \<Rightarrow> 'o publicRouteTargetHealthConfig \<Rightarrow> bool" where
  "should_run_direct active t \<longleftrightarrow> active \<and> ht_Enabled t \<and> ht_TargetType t = ''proxy'' \<and> ht_Transport t \<noteq> ''agent'' \<and> hc_Enabled (ht_HealthCheck t) \<and> ht_HasOrigin t"

definition should_run_agents :: "bool \<Rightarrow> 'o publicRouteTargetHealthConfig \<Rightarrow> bool" where
  "should_run_agents active t \<longleftrightarrow> active \<and> ht_Enabled t \<and> ht_TargetType t = ''proxy'' \<and> ht_Transport t = ''agent'' \<and> hc_Enabled (ht_HealthCheck t) \<and> ht_HasOrigin t"

definition stopDirectLocked :: "'o publicRouteTargetHealthState \<Rightarrow> 'o publicRouteTargetHealthState" where
  "stopDirectLocked s = s\<lparr>st_directCheckRunning := False\<rparr>"

definition reconcile_direct :: "bool \<Rightarrow> 'o publicRouteTargetHealthState \<Rightarrow> 'o publicRouteTargetHealthConfig \<Rightarrow> 'o publicRouteTargetHealthState \<times> health_loop list" where
  "reconcile_direct active s target =
     (let s1 = (if st_target s \<noteq> target \<and> st_directCheckRunning s then (stopDirectLocked s)\<lparr>st_directGeneration := st_directGeneration s + 1\<rparr> else s);
          s2 = s1\<lparr>st_target := target\<rparr>
      in if should_run_direct active target then
           if \<not> st_directCheckRunning s2
           then (s2\<lparr>st_directCheckRunning := True, st_directGeneration := st_directGeneration s2 + 1\<rparr>, [DirectLoop (ht_ID target) (st_directGeneration s2 + 1)])
           else (s2, [])
         else (stopDirectLocked (s2\<lparr>st_directGeneration := (if st_directCheckRunning s2 then st_directGeneration s2 + 1 else st_directGeneration s2)\<rparr>), []))"

fun start_agents :: "int \<Rightarrow> publicRouteTargetAgentAssignment list \<Rightarrow> (int, publicRouteTargetAgentHealthState) gomap
    \<Rightarrow> (int, publicRouteTargetAgentHealthState) gomap \<times> health_loop list" where
  "start_agents i [] agents = (agents, [])"
| "start_agents i (x # xs) agents =
     (if \<not> aa_Enabled x then start_agents i xs agents
      else let a = (case map_of agents (aa_AgentID x) of Some a \<Rightarrow> a | None \<Rightarrow> new_agent_state);
               (agents', loops) = start_agents i xs (AList.update (aa_AgentID x) (a\<lparr>ag_checkRunning := True\<rparr>) agents)
           in (agents', (if ag_checkRunning a then loops else AgentLoop i (aa_AgentID x) # loops)))"

definition desired_agents :: "bool \<Rightarrow> 'o publicRouteTargetHealthConfig \<Rightarrow> int list" where
  "desired_agents active t = (if should_run_agents active t then map aa_AgentID (filter aa_Enabled (ht_AgentAssignments t)) else [])"

definition reconcile_agents :: "bool \<Rightarrow> 'o publicRouteTargetHealthState \<Rightarrow> 'o publicRouteTargetHealthState \<times> health_loop list" where
  "reconcile_agents active s =
     (let t = st_target s;
          (agents, loops) = (if should_run_agents active t then start_agents (ht_ID t) (ht_AgentAssignments t) (st_agentStates s) else (st_agentStates s, []))
      in (s\<lparr>st_agentStates := filter (\<lambda>(k, a). k \<in> set (desired_agents active t)) agents\<rparr>, loops))"

definition clearHealthStateLocked :: "'o publicRouteTargetHealthState \<Rightarrow> 'o publicRouteTargetHealthState" where
  "clearHealthStateLocked s =
     s\<lparr>st_direct := unknownPublicRouteTargetCheckState,
       st_agentStates := map (\<lambda>(k, a). (k, a\<lparr>ag_state := unknownPublicRouteTargetCheckState\<rparr>)) (st_agentStates s)\<rparr>"

definition reconcile_target :: "bool \<Rightarrow> 'o publicRouteTargetHealthMonitor \<Rightarrow> 'o publicRouteTargetHealthConfig \<Rightarrow> 'o publicRouteTargetHealthMonitor \<times> health_loop list" where
  \<comment> \<open>one turn of the loop over the configured targets; the second result lists the goroutines that were started\<close>
  "reconcile_target active m target =
     (let (s0, m0) = (case map_of (hm_states m) (ht_ID target) of
            Some s \<Rightarrow> (s, m)
          | None \<Rightarrow> (newPublicRouteTargetHealthState (length (hm_counters m)) target, m\<lparr>hm_counters := hm_counters m @ [0]\<rparr>));
          (s1, l1) = reconcile_direct active s0 target;
          (s2, l2) = reconcile_agents active s1;
          s3 = (if hc_Enabled (ht_HealthCheck target) then s2 else clearHealthStateLocked s2)
      in (m0\<lparr>hm_states := AList.update (ht_ID target) s3 (hm_states m0)\<rparr>, l1 @ l2))"

fun reconcile_targets :: "bool \<Rightarrow> 'o publicRouteTargetHealthMonitor \<Rightarrow> 'o publicRouteTargetHealthConfig list \<Rightarrow> 'o publicRouteTargetHealthMonitor \<times> health_loop list" where
  "reconcile_targets active m [] = (m, [])"
| "reconcile_targets active m (t # ts) =
     (let (m1, l1) = reconcile_target active m t; (m2, l2) = reconcile_targets active m1 ts in (m2, l1 @ l2))"

definition hm_reconcile :: "'o publicRouteTargetHealthMonitor \<Rightarrow> 'o publicRouteTargetHealthConfig list option \<Rightarrow> bool \<Rightarrow> 'o publicRouteTargetHealthMonitor \<times> health_loop list" where
  \<comment> \<open>\<open>None\<close> is the nil snapshot; the configurations have distinct ids and come in the order in which the map is ranged over\<close>
  "hm_reconcile m snap active =
     (case snap of
        None \<Rightarrow> (m\<lparr>hm_states := []\<rparr>, [])
      | Some targets \<Rightarrow> reconcile_targets active (m\<lparr>hm_states := filter (\<lambda>(i, s). i \<in> set (map ht_ID targets)) (hm_states m)\<rparr>) targets)"

section \<open>Availability\<close>

definition agentAvailableLocked :: "'o publicRouteTargetHealthMonitor \<Rightarrow> int \<Rightarrow> int \<Rightarrow> bool \<Rightarrow> gotime \<Rightarrow> bool" where
  "agentAvailableLocked m i agentID healthEnabled now =
     (case map_of (hm_states m) i of
        None \<Rightarrow> True
      | Some s \<Rightarrow> (case map_of (st_agentStates s) agentID of None \<Rightarrow> True | Some a \<Rightarrow> checkStateAvailable (ag_state a) healthEnabled now))"

definition backendAgentPoolAvailable :: "bool \<Rightarrow> (int \<Rightarrow> bool) \<Rightarrow> (int \<Rightarrow> bool) \<Rightarrow> 'o publicRouteTargetHealthMonitor \<Rightarrow> 'o publicRouteTargetHealthConfig \<Rightarrow> gotime \<Rightarrow> bool" where
  \<comment> \<open>whether the monitor has an app, which agents that app has cordoned for an update, and which are connected\<close>
  "backendAgentPoolAvailable hasApp cordoned isConnected m target now =
     list_ex (\<lambda>x. aa_Enabled x \<and> \<not> (hasApp \<and> cordoned (aa_AgentID x)) \<and> \<not> (\<not> isConnected (aa_AgentID x) \<and> hasApp) \<and>
       agentAvailableLocked m (ht_ID target) (aa_AgentID x) (hc_Enabled (ht_HealthCheck target)) now) (ht_AgentAssignments target)"

definition hm_available :: "bool \<Rightarrow> (int \<Rightarrow> bool) \<Rightarrow> (int \<Rightarrow> bool) \<Rightarrow> 'o publicRouteTargetHealthMonitor \<Rightarrow> 'o publicRouteTargetHealthConfig \<Rightarrow> gotime \<Rightarrow> bool" where
  "hm_available hasApp cordoned isConnected m target now =
     (if \<not> ht_Enabled target then False
      else if ht_Transport target = ''agent'' then backendAgentPoolAvailable hasApp cordoned isConnected m target now
      else (case map_of (hm_states m) (ht_ID target) of
              None \<Rightarrow> True
            | Some s \<Rightarrow> checkStateAvailable (st_direct s) (hc_Enabled (ht_HealthCheck target)) now))"

definition agentAvailable :: "bool \<Rightarrow> (int \<Rightarrow> bool) \<Rightarrow> 'o publicRouteTargetHealthMonitor \<Rightarrow> int \<Rightarrow> int \<Rightarrow> gotime \<Rightarrow> bool" where
  "agentAvailable hasApp cordoned m i agentID now =
     (if i \<le> 0 \<or> agentID \<le> 0 then True
      else if hasApp \<and> cordoned agentID then False
      else agentAvailableLocked m i agentID (case map_of (hm_states m) i of None \<Rightarrow> False | Some s \<Rightarrow> health_on s) now)"

section \<open>Listing traces and redirects\<close>

definition listHealthTraces :: "'o publicRouteTargetHealthMonitor \<Rightarrow> int \<Rightarrow> int \<Rightarrow> int \<Rightarrow> bool \<Rightarrow> health_trace list \<times> int" where
  "listHealthTraces m i agentID limit0 failuresOnly =
     (let limit = (if limit0 \<le> 0 \<or> limit0 > int publicRouteTargetHealthTraceLimitPerTarget then int publicRouteTargetHealthTraceLimitPerTarget else limit0)
      in if i \<le> 0 then ([], 0)
         else (case map_of (hm_states m) i of
           None \<Rightarrow> ([], 0)
         | Some s \<Rightarrow>
             let traces = (if ht_Transport (st_target s) = ''agent'' then
                   if agentID > 0 then (case map_of (st_agentStates s) agentID of Some a \<Rightarrow> ag_traces a | None \<Rightarrow> [])
                   else concat (map (\<lambda>(k, a). ag_traces a) (st_agentStates s))
                 else if agentID \<le> 0 then st_directTraces s else [])
             in (take (nat limit) (filter (\<lambda>t. \<not> failuresOnly \<or> tr_Outcome t = TRACE_FAILURE \<or> tr_Outcome t = TRACE_SKIPPED)
                   (rev (sort_key tr_Sequence traces))), int (length traces))))"

record health_url =
  u_Scheme :: string
  u_Hostname :: string
  u_Port :: string

definition publicTargetHealthEffectivePort :: "health_url option \<Rightarrow> string option" where
  "publicTargetHealthEffectivePort target =
     (case target of
        None \<Rightarrow> None
      | Some u \<Rightarrow> if u_Port u \<noteq> '''' then Some (u_Port u)
                  else if to_lower (u_Scheme u) = ''http'' then Some ''80''
                  else if to_lower (u_Scheme u) = ''https'' then Some ''443''
                  else None)"

definition publicTargetHealthHostnameEqual :: "string \<Rightarrow> string \<Rightarrow> bool" where
  "publicTargetHealthHostnameEqual initial redirected =
     (case (cut_char (CHR ''%'') initial, cut_char (CHR ''%'') redirected) of
        (None, None) \<Rightarrow> equal_fold initial redirected
      | (Some (h1, z1), Some (h2, z2)) \<Rightarrow> equal_fold h1 h2 \<and> z1 = z2
      | _ \<Rightarrow> False)"

definition publicTargetHealthSameOrigin :: "health_url option \<Rightarrow> health_url option \<Rightarrow> bool" where
  "publicTargetHealthSameOrigin initial redirected =
     (case (initial, redirected) of
        (Some a, Some b) \<Rightarrow>
          (case (publicTargetHealthEffectivePort initial, publicTargetHealthEffectivePort redirected) of
             (Some p, Some q) \<Rightarrow> equal_fold (u_Scheme a) (u_Scheme b) \<and> publicTargetHealthHostnameEqual (u_Hostname a) (u_Hostname b) \<and> p = q
           | _ \<Rightarrow> False)
      | _ \<Rightarrow> False)"

datatype redirect_decision = Follow | UseLastResponse | TooManyRedirects

definition publicTargetHealthRedirectPolicy :: "health_url option \<Rightarrow> health_url option option \<Rightarrow> nat \<Rightarrow> redirect_decision" where
  \<comment> \<open>the request, \<open>None\<close> for nil, with its URL, and how many requests were made so far\<close>
  "publicTargetHealthRedirectPolicy initial request via =
     (if request = None \<or> \<not> publicTargetHealthSameOrigin initial (the request) then UseLastResponse
      else if via \<ge> 10 then TooManyRedirects else Follow)"

section \<open>Running a check\<close>

definition defaultTargetHealthCheckTimeoutMillis :: int where "defaultTargetHealthCheckTimeoutMillis = 2000"
definition defaultTargetHealthCheckIntervalMillis :: int where "defaultTargetHealthCheckIntervalMillis = 10000"

definition publicRouteTargetHealthCheckTimeout :: "'o publicRouteTargetHealthConfig \<Rightarrow> duration" where
  "publicRouteTargetHealthCheckTimeout target =
     (if hc_Timeout (ht_HealthCheck target) \<le> 0 then defaultTargetHealthCheckTimeoutMillis * millisecond else hc_Timeout (ht_HealthCheck target))"

definition health_interval :: "duration \<Rightarrow> duration" where
  "health_interval interval = (if interval \<le> 0 then defaultTargetHealthCheckIntervalMillis * millisecond else interval)"

datatype http_outcome =
    BadRequest string \<comment> \<open>\<open>http.NewRequestWithContext\<close> fails\<close>
  | DoFailed go_err "ctx_err option" \<comment> \<open>\<open>client.Do\<close> fails, with the state of the check's context\<close>
  | BodyFailed int go_err "ctx_err option" \<comment> \<open>a response whose body cannot be read\<close>
  | Responded int

definition judge_response ::
  "publicRouteTargetHealthCheckConfig \<Rightarrow> ctx_err option \<Rightarrow> publicRouteTargetHealthCheckAttempt \<Rightarrow> http_outcome \<Rightarrow> publicRouteTargetHealthCheckAttempt" where
  \<comment> \<open>the end that both runners share: read the body and compare the status code\<close>
  "judge_response hc parent attempt outcome =
     (case outcome of
        BodyFailed _ e ctx \<Rightarrow> applyContextFailure attempt parent ctx ''response_body_read_failed'' (e\<lparr>ge_msg := ''drain health check response: '' @ ge_msg e\<rparr>)
      | Responded code \<Rightarrow>
          if code < hc_ExpectedStatusMin hc \<or> code > hc_ExpectedStatusMax hc
          then attempt_fail attempt ''unexpected_status'' (''health check status '' @ format_int code @ '' outside expected range '' @
                 format_int (hc_ExpectedStatusMin hc) @ ''-'' @ format_int (hc_ExpectedStatusMax hc))
          else attempt\<lparr>at_ErrorKind := ''success''\<rparr>
      | _ \<Rightarrow> attempt)"

definition runPublicRouteTargetHealthCheckWithTransport ::
  "ctx_err option \<Rightarrow> 'o publicRouteTargetHealthConfig \<Rightarrow> http_outcome \<Rightarrow> publicRouteTargetHealthCheckAttempt" where
  \<comment> \<open>the state of the parent context when the request ends, and what the request does\<close>
  "runPublicRouteTargetHealthCheckWithTransport parent target outcome =
     (let attempt = plain_attempt ''success'' None
      in if \<not> ht_HasOrigin target then attempt_fail attempt ''request_failed'' ''target origin is not configured''
         else (case outcome of
             BadRequest msg \<Rightarrow> attempt_fail attempt ''request_failed'' msg
           | DoFailed e ctx \<Rightarrow> applyContextFailure attempt parent ctx ''request_failed'' e
           | _ \<Rightarrow> judge_response (ht_HealthCheck target) parent attempt outcome))"

definition agentDialErrorIsLocalCapacity :: "string \<Rightarrow> bool" where
  "agentDialErrorIsLocalCapacity kind \<longleftrightarrow> kind \<in> {''server_capacity'', ''server_pooled_capacity'', ''server_health_capacity''}"

definition agentDialErrorIsAdmissionPressure :: "string \<Rightarrow> bool" where
  "agentDialErrorIsAdmissionPressure kind \<longleftrightarrow> kind \<in> {''agent_capacity'', ''agent_resource_pressure''} \<or> agentDialErrorIsLocalCapacity kind"

definition agentProxyErrorKind :: "go_err option \<Rightarrow> string" where
  "agentProxyErrorKind err =
     (case err of
        None \<Rightarrow> ''''
      | Some e \<Rightarrow>
          if ge_disconnected e then ''agent_disconnected''
          else if ge_cordoned e then ''agent_update_cordoned''
          else (case ge_dialKind e of
              Some kind \<Rightarrow>
                if kind = '''' then ''agent_dial_failed''
                else if kind = ''dial_timeout'' then ''agent_dial_timeout''
                else if kind = ''agent_capacity'' then ''agent_capacity''
                else if kind = ''agent_resource_pressure'' then ''agent_resource_pressure''
                else if kind = ''server_capacity'' then ''agent_server_capacity''
                else if kind = ''server_health_capacity'' then ''agent_server_health_capacity''
                else if kind = ''server_pooled_capacity'' then ''agent_server_pooled_capacity''
                else ''agent_'' @ kind
            | None \<Rightarrow> if ge_timeout e then ''upstream_response_header_timeout'' else ''agent_proxy_failed''))"

definition requestContextCanceled :: "ctx_err option \<Rightarrow> go_err option \<Rightarrow> bool" where
  "requestContextCanceled ctx err \<longleftrightarrow>
     (case ctx of None \<Rightarrow> False | Some c \<Rightarrow> c = CtxCanceled \<or> ((case err of None \<Rightarrow> False | Some e \<Rightarrow> ge_canceled e) \<and> c = CtxCanceled))"

definition shouldMarkAgentPassiveFailure :: "ctx_err option \<Rightarrow> go_err option \<Rightarrow> bool" where
  "shouldMarkAgentPassiveFailure requestCtx err \<longleftrightarrow>
     (case err of
        None \<Rightarrow> False
      | Some e \<Rightarrow>
          if (case ge_dialKind e of
                Some kind \<Rightarrow> kind = ''agent_capacity'' \<or> kind = ''agent_resource_pressure'' \<or> agentDialErrorIsLocalCapacity kind \<or> kind = ''dial_forbidden''
              | None \<Rightarrow> False)
          then False else \<not> requestContextCanceled requestCtx err)"

definition runPublicRouteTargetHealthCheckViaAgent ::
  "bool \<Rightarrow> ctx_err option \<Rightarrow> 'o publicRouteTargetHealthConfig \<Rightarrow> (int \<times> string \<times> bool) option \<Rightarrow> string option \<Rightarrow> http_outcome
     \<Rightarrow> publicRouteTargetHealthCheckAttempt" where
  \<comment> \<open>whether there is an app, the agent (id, public id, whether bulk lanes of an aggregate tunnel are still up) and the failure of \<open>uuid.NewV7\<close>\<close>
  "runPublicRouteTargetHealthCheckViaAgent hasApp parent target agent uuidErr outcome =
     (let attempt = plain_attempt ''success'' None
      in if \<not> hasApp then attempt_fail attempt ''request_failed'' ''app is not configured''
         else (case agent of
             None \<Rightarrow> attempt_fail attempt ''agent_disconnected'' ''agent disconnected''
           | Some (k, publicID, bulk) \<Rightarrow>
               let a = attempt\<lparr>at_AgentID := k, at_AgentPublicID := publicID\<rparr>
               in if \<not> ht_HasOrigin target then attempt_fail a ''request_failed'' ''target origin is not configured''
                  else (case outcome of
                      BadRequest msg \<Rightarrow> attempt_fail a ''request_failed'' msg
                    | _ \<Rightarrow> (case uuidErr of
                        Some msg \<Rightarrow> attempt_fail a ''request_failed'' (''generate health check request id: '' @ msg)
                      | None \<Rightarrow> (case outcome of
                          DoFailed e ctx \<Rightarrow>
                            if ge_disconnected e
                            then if bulk then attempt_skip a ''agent_control_unavailable'' (ge_msg e) else attempt_fail a ''agent_disconnected'' (ge_msg e)
                            else (case ge_dialKind e of
                                Some kind \<Rightarrow>
                                  if agentDialErrorIsAdmissionPressure kind then attempt_skip a (agentProxyErrorKind (Some e)) (ge_msg e)
                                  else attempt_fail a (if kind \<noteq> '''' then ''agent_'' @ kind else ''agent_dial_failed'') (ge_msg e)
                              | None \<Rightarrow> applyContextFailure a parent ctx ''request_failed'' e)
                        | _ \<Rightarrow> judge_response (ht_HealthCheck target) parent a outcome)))))"

lemma direct_check_outcome:
  "runPublicRouteTargetHealthCheckWithTransport parent target outcome = a \<Longrightarrow>
     (at_Err a = None \<longleftrightarrow> ht_HasOrigin target \<and> (\<exists>code. outcome = Responded code \<and> hc_ExpectedStatusMin (ht_HealthCheck target) \<le> code \<and> code \<le> hc_ExpectedStatusMax (ht_HealthCheck target))) \<and>
     (at_Skipped a \<longrightarrow> at_Err a \<noteq> None \<and> at_ErrorKind a = ''health_check_cancelled'')"
  by (auto simp: runPublicRouteTargetHealthCheckWithTransport_def judge_response_def applyContextFailure_def classifyHealthCheckFailure_def attempt_fail_def attempt_skip_def
    plain_attempt_def Let_def split: if_splits http_outcome.splits)

text \<open>A full server or a full agent says nothing about the target: such a check is skipped, and such a request does not count as a passive failure.\<close>

lemma admission_pressure_is_no_failure:
  assumes "ge_dialKind e = Some kind" "agentDialErrorIsAdmissionPressure kind" "\<not> ge_disconnected e"
  shows "\<not> shouldMarkAgentPassiveFailure ctx (Some e)"
    and "ht_HasOrigin target \<Longrightarrow> at_Skipped (runPublicRouteTargetHealthCheckViaAgent True parent target (Some agent) None (DoFailed e c))"
  using assms by (auto simp: shouldMarkAgentPassiveFailure_def agentDialErrorIsAdmissionPressure_def runPublicRouteTargetHealthCheckViaAgent_def attempt_skip_def
    Let_def split: prod.split)

section \<open>The configuration the monitor works on\<close>

record publicAgentConfig =
  pa_ID :: int
  pa_PublicID :: string
  pa_Name :: string
  pa_Enabled :: bool
  pa_Labels :: "(string, string) gomap"

record 'o health_route_target =
  \<comment> \<open>the fields of \<open>publicRouteTargetConfig\<close> that the monitor's configuration is made of\<close>
  hr_ID :: int
  hr_Name :: string
  hr_Enabled :: bool
  hr_TargetType :: string
  hr_Transport :: string
  hr_AgentSelector :: "(string, string) gomap"
  hr_HasURL :: bool
  hr_HealthCheck :: publicRouteTargetHealthCheckConfig
  hr_other :: 'o

definition agentSelectorMatchesLabels :: "(string, string) gomap \<Rightarrow> (string, string) gomap \<Rightarrow> bool" where
  "agentSelectorMatchesLabels matchLabels labels =
     (matchLabels \<noteq> [] \<and> list_all (\<lambda>(key, want). map_of labels key = Some want) matchLabels)"

definition publicRouteTargetHealthConfigFromRouteTarget ::
  "'o health_route_target \<Rightarrow> (int, publicAgentConfig) gomap \<Rightarrow> 'o publicRouteTargetHealthConfig" where
  "publicRouteTargetHealthConfigFromRouteTarget target agents =
     (let assignments = (if hr_Transport target = ''agent'' then
            sort_key aa_AgentID (map (\<lambda>(agentID, agent). \<lparr>aa_TargetID = hr_ID target, aa_AgentID = agentID, aa_Position = agentID, aa_Weight = 100, aa_Enabled = True\<rparr>)
              (filter (\<lambda>(agentID, agent). pa_Enabled agent \<and> agentSelectorMatchesLabels (hr_AgentSelector target) (pa_Labels agent)) agents)) else [])
      in \<lparr>ht_ID = hr_ID target, ht_Name = hr_Name target, ht_TargetType = ''proxy'',
          ht_Transport = (if hr_Transport target = ''agent'' then ''agent'' else ''direct''), ht_Enabled = hr_Enabled target, ht_HasOrigin = hr_HasURL target,
          ht_AgentAssignments = assignments, ht_HealthCheck = hr_HealthCheck target, ht_other = hr_other target\<rparr>)"

definition publicHealthTargetConfigsFromSnapshot ::
  "('o health_route_target list \<times> (int, publicAgentConfig) gomap) option \<Rightarrow> (int, 'o publicRouteTargetHealthConfig) gomap" where
  "publicHealthTargetConfigsFromSnapshot snap =
     (case snap of
        None \<Rightarrow> []
      | Some (targets, agents) \<Rightarrow>
          foldl (\<lambda>resp target. if hr_TargetType target \<noteq> ''proxy'' then resp
                  else AList.update (hr_ID target) (publicRouteTargetHealthConfigFromRouteTarget target agents) resp) [] targets)"

lemma configs_from_snapshot:
  "gm_wf (publicHealthTargetConfigsFromSnapshot snap) \<and> (\<forall>i c. map_of (publicHealthTargetConfigsFromSnapshot snap) i = Some c \<longrightarrow> ht_ID c = i)"
proof (cases snap)
  case (Some x)
  obtain targets agents where x: "x = (targets, agents)" by (cases x)
  let ?f = "\<lambda>resp target. if hr_TargetType target \<noteq> ''proxy'' then resp
                  else AList.update (hr_ID target) (publicRouteTargetHealthConfigFromRouteTarget target agents) resp"
  have "gm_wf (foldl ?f r targets) \<and> (\<forall>i c. map_of (foldl ?f r targets) i = Some c \<longrightarrow> ht_ID c = i)"
    if "gm_wf r \<and> (\<forall>i c. map_of r i = Some c \<longrightarrow> ht_ID c = i)" for r
    using that
  proof (induction targets arbitrary: r)
    case (Cons t ts)
    have "ht_ID (publicRouteTargetHealthConfigFromRouteTarget t agents) = hr_ID t" by (simp add: publicRouteTargetHealthConfigFromRouteTarget_def Let_def)
    then have "gm_wf (?f r t) \<and> (\<forall>i c. map_of (?f r t) i = Some c \<longrightarrow> ht_ID c = i)" using Cons.prems by simp
    from Cons.IH [OF this] show ?case by simp
  qed simp
  from this [of "[]"] show ?thesis by (simp add: publicHealthTargetConfigsFromSnapshot_def Some x)
qed (simp add: publicHealthTargetConfigsFromSnapshot_def)

lemma reconcile_input_distinct:
  "distinct (map ht_ID (map snd (publicHealthTargetConfigsFromSnapshot snap)))"
proof -
  let ?m = "publicHealthTargetConfigsFromSnapshot snap"
  have eq: "map ht_ID (map snd ?m) = map fst ?m"
    using configs_from_snapshot [of snap] by (auto simp: gm_wf_def map_of_is_SomeI)
  show ?thesis unfolding eq using configs_from_snapshot [of snap] unfolding gm_wf_def by (elim conjE)
qed

section \<open>Snapshots for the management interface\<close>

record publicRouteTargetHealthSnapshot =
  sn_Status :: health_status
  sn_LastChecked :: int
  sn_LastError :: string
  sn_PassiveUntil :: int

record publicRouteTargetAgentHealthSnapshot =
  as_Status :: health_status
  as_Connected :: bool
  as_Available :: bool
  as_LastChecked :: int
  as_LastError :: string
  as_PassiveUntil :: int
  as_ActiveRequests :: int

definition unixMillis :: "gotime \<Rightarrow> int" where
  "unixMillis t = (if time_is_zero t then 0 else unix_milli t)"

definition formatAgentHealthError :: "string \<Rightarrow> int \<Rightarrow> string \<Rightarrow> string" where
  "formatAgentHealthError publicID agentID err = ''agent '' @ (if publicID = '''' then format_int agentID else publicID) @ '': '' @ err"

definition connectedAgentLocked :: "bool \<Rightarrow> (int \<Rightarrow> (string \<times> int) option) \<Rightarrow> int \<Rightarrow> (string \<times> int) option" where
  \<comment> \<open>the hub knows the public id and the active requests of a connected agent\<close>
  "connectedAgentLocked hasApp hub agentID = (if hasApp then hub agentID else None)"

definition agentSnapshot ::
  "bool \<Rightarrow> (int \<Rightarrow> (string \<times> int) option) \<Rightarrow> 'o publicRouteTargetHealthMonitor \<Rightarrow> int \<Rightarrow> int \<Rightarrow> bool \<Rightarrow> bool \<Rightarrow> gotime \<Rightarrow> publicRouteTargetAgentHealthSnapshot" where
  "agentSnapshot hasApp hub m i agentID assignmentEnabled agentEnabled now =
     (let blank = (\<lambda>status. \<lparr>as_Status = status, as_Connected = False, as_Available = False, as_LastChecked = 0, as_LastError = '''', as_PassiveUntil = 0, as_ActiveRequests = 0\<rparr>)
      in if \<not> assignmentEnabled \<or> \<not> agentEnabled then blank HS_DISABLED
         else if i \<le> 0 \<or> agentID \<le> 0 then blank HS_UNKNOWN
         else (case connectedAgentLocked hasApp hub agentID of
             None \<Rightarrow> blank HS_DISCONNECTED
           | Some (_, active) \<Rightarrow>
               (case (case map_of (hm_states m) i of None \<Rightarrow> None | Some s \<Rightarrow> map_option (Pair s) (map_of (st_agentStates s) agentID)) of
                  None \<Rightarrow> (blank HS_UNKNOWN)\<lparr>as_Connected := True, as_Available := True, as_ActiveRequests := active\<rparr>
                | Some (s, a) \<Rightarrow>
                    let (status, passiveUntil) = checkStateSnapshotStatus (ag_state a) (health_on s) now
                    in \<lparr>as_Status = status, as_Connected = True, as_Available = checkStateAvailable (ag_state a) (health_on s) now,
                        as_LastChecked = unixMillis (lastCheckedAt (ag_state a)), as_LastError = (if health_on s then lastError (ag_state a) else ''''),
                        as_PassiveUntil = passiveUntil, as_ActiveRequests = active\<rparr>)))"

definition directHealthSnapshot :: "'o publicRouteTargetHealthState \<Rightarrow> bool \<Rightarrow> gotime \<Rightarrow> publicRouteTargetHealthSnapshot" where
  "directHealthSnapshot s enabled now =
     (let (status, passiveUntil) = checkStateSnapshotStatus (st_direct s) (health_on s) now
      in \<lparr>sn_Status = (if \<not> enabled then HS_DISABLED else status), sn_LastChecked = (if health_on s then unixMillis (lastCheckedAt (st_direct s)) else 0),
          sn_LastError = (if health_on s then lastError (st_direct s) else ''''), sn_PassiveUntil = (if \<not> enabled then 0 else passiveUntil)\<rparr>)"

record pool_acc =
  pl_enabled :: nat
  pl_connected :: nat
  pl_unhealthy :: nat
  pl_healthy :: nat
  pl_lastChecked :: gotime
  pl_lastErrorAt :: gotime
  pl_lastError :: string
  pl_passiveUntil :: gotime
  pl_duePassive :: bool

definition pool_zero :: pool_acc where
  "pool_zero = \<lparr>pl_enabled = 0, pl_connected = 0, pl_unhealthy = 0, pl_healthy = 0, pl_lastChecked = 0, pl_lastErrorAt = 0, pl_lastError = '''',
     pl_passiveUntil = 0, pl_duePassive = False\<rparr>"

definition pool_agent :: "'o publicRouteTargetHealthState \<Rightarrow> gotime \<Rightarrow> int \<Rightarrow> string \<Rightarrow> publicRouteTargetAgentHealthState \<Rightarrow> pool_acc \<Rightarrow> pool_acc" where
  \<comment> \<open>the part of the loop for a connected agent with a state\<close>
  "pool_agent s now agentID publicID a acc =
     (let c = ag_state a;
          (status, agentPassiveUntil) = checkStateSnapshotStatus c (health_on s) now;
          acc1 = (if \<not> time_is_zero (lastCheckedAt c) \<and> lastCheckedAt c > pl_lastChecked acc then acc\<lparr>pl_lastChecked := lastCheckedAt c\<rparr> else acc);
          acc2 = (if health_on s \<and> lastError c \<noteq> '''' \<and> (time_is_zero (pl_lastErrorAt acc1) \<or> lastCheckedAt c > pl_lastErrorAt acc1)
                  then acc1\<lparr>pl_lastErrorAt := lastCheckedAt c, pl_lastError := formatAgentHealthError publicID agentID (lastError c)\<rparr> else acc1);
          until = unix_epoch + agentPassiveUntil * millisecond;
          acc3 = (if agentPassiveUntil > 0 \<and> until > pl_passiveUntil acc2 then acc2\<lparr>pl_passiveUntil := until\<rparr> else acc2)
      in if status = HS_HEALTHY then acc3\<lparr>pl_healthy := pl_healthy acc3 + 1\<rparr>
         else if status = HS_UNHEALTHY \<or> status = HS_DISABLED
         then acc3\<lparr>pl_unhealthy := pl_unhealthy acc3 + 1, pl_duePassive := (if agentPassiveUntil > 0 then True else pl_duePassive acc3)\<rparr>
         else acc3)"

definition pool_step ::
  "bool \<Rightarrow> (int \<Rightarrow> (string \<times> int) option) \<Rightarrow> 'o publicRouteTargetHealthState \<Rightarrow> gotime \<Rightarrow> pool_acc \<Rightarrow> publicRouteTargetAgentAssignment \<Rightarrow> pool_acc" where
  "pool_step hasApp hub s now acc x =
     (if \<not> aa_Enabled x then acc
      else let acc0 = acc\<lparr>pl_enabled := pl_enabled acc + 1\<rparr>;
               agentState = map_of (st_agentStates s) (aa_AgentID x);
               conn = connectedAgentLocked hasApp hub (aa_AgentID x);
               publicID = (case conn of Some (p, _) \<Rightarrow> p | None \<Rightarrow> (case agentState of Some a \<Rightarrow> ag_agentPublicID a | None \<Rightarrow> ''''))
           in if conn = None \<and> hasApp then acc0
              else if conn = None \<and> (case agentState of Some a \<Rightarrow> \<not> ag_connected a | None \<Rightarrow> False) then acc0
              else let acc1 = acc0\<lparr>pl_connected := pl_connected acc0 + 1\<rparr>
                   in (case agentState of None \<Rightarrow> acc1 | Some a \<Rightarrow> pool_agent s now (aa_AgentID x) publicID a acc1))"

definition agentPoolSnapshotLocked ::
  "bool \<Rightarrow> (int \<Rightarrow> (string \<times> int) option) \<Rightarrow> 'o publicRouteTargetHealthState \<Rightarrow> bool \<Rightarrow> gotime \<Rightarrow> publicRouteTargetHealthSnapshot" where
  "agentPoolSnapshotLocked hasApp hub s enabled now =
     (if \<not> enabled then \<lparr>sn_Status = HS_DISABLED, sn_LastChecked = 0, sn_LastError = '''', sn_PassiveUntil = 0\<rparr>
      else if \<not> health_on s then \<lparr>sn_Status = HS_UNKNOWN, sn_LastChecked = 0, sn_LastError = '''', sn_PassiveUntil = 0\<rparr>
      else let acc = foldl (pool_step hasApp hub s now) pool_zero (ht_AgentAssignments (st_target s));
               (status, out) =
                 (if pl_connected acc = 0 \<and> pl_enabled acc > 0 then (HS_DISCONNECTED, 0)
                  else if pl_healthy acc > 0 then (HS_HEALTHY, 0)
                  else if pl_connected acc > 0 \<and> pl_unhealthy acc = pl_connected acc
                  then (HS_UNHEALTHY, if pl_duePassive acc \<and> pl_passiveUntil acc > now then unix_milli (pl_passiveUntil acc) else 0)
                  else (HS_UNKNOWN, 0))
           in \<lparr>sn_Status = status, sn_LastChecked = unixMillis (pl_lastChecked acc), sn_LastError = pl_lastError acc, sn_PassiveUntil = out\<rparr>)"

definition hm_snapshot ::
  "bool \<Rightarrow> (int \<Rightarrow> (string \<times> int) option) \<Rightarrow> 'o publicRouteTargetHealthMonitor \<Rightarrow> int \<Rightarrow> bool \<Rightarrow> gotime \<Rightarrow> publicRouteTargetHealthSnapshot option" where
  "hm_snapshot hasApp hub m i enabled now =
     (if i \<le> 0 then None
      else (case map_of (hm_states m) i of
          None \<Rightarrow> None
        | Some s \<Rightarrow> Some (if ht_Transport (st_target s) = ''agent'' then agentPoolSnapshotLocked hasApp hub s enabled now else directHealthSnapshot s enabled now)))"

section \<open>The check state is a function of the recent history\<close>

datatype check_event = Result gotime "string option" | Passive gotime "string option"

fun check_step :: "publicRouteTargetHealthCheckConfig \<Rightarrow> publicRouteTargetCheckState \<Rightarrow> check_event \<Rightarrow> publicRouteTargetCheckState" where
  "check_step cfg c (Result t err) = recordPublicRouteTargetCheckResult c cfg t err"
| "check_step cfg c (Passive t err) = markCheckPassiveFailureLocked c t err"

definition check_run :: "publicRouteTargetHealthCheckConfig \<Rightarrow> check_event list \<Rightarrow> publicRouteTargetCheckState" where
  "check_run cfg es = foldl (check_step cfg) unknownPublicRouteTargetCheckState es"

fun outcomes :: "check_event list \<Rightarrow> bool list" where
  "outcomes [] = []"
| "outcomes (Result t err # es) = (err = None) # outcomes es"
| "outcomes (Passive t err # es) = outcomes es"

function status_of :: "int \<Rightarrow> int \<Rightarrow> bool list \<Rightarrow> health_status" where
  \<comment> \<open>from the newest outcome on: the first run of equal outcomes that is long enough decides\<close>
  "status_of h u [] = HS_UNKNOWN"
| "status_of h u (b # bs) =
     (if (if b then h else u) \<le> 1 + int (length (takeWhile (\<lambda>x. x = b) bs)) then (if b then HS_HEALTHY else HS_UNHEALTHY)
      else status_of h u (dropWhile (\<lambda>x. x = b) bs))"
  by pat_completeness auto
termination by (relation "measure (\<lambda>(h, u, bs). length bs)") (auto simp: le_imp_less_Suc length_dropWhile_le)

fun suspended_until :: "check_event list \<Rightarrow> gotime" where
  \<comment> \<open>from the newest event on: the last passive failure counts unless a check succeeded after it\<close>
  "suspended_until [] = 0"
| "suspended_until (Result t err # es) = (if err = None then 0 else suspended_until es)"
| "suspended_until (Passive t err # es) = t + publicRouteTargetPassiveUnhealthyCooldown"

abbreviation healthy_threshold :: "publicRouteTargetHealthCheckConfig \<Rightarrow> int" where
  "healthy_threshold cfg \<equiv> normalizedThreshold (hc_HealthyThreshold cfg) defaultTargetHealthCheckHealthyThreshold"

abbreviation unhealthy_threshold :: "publicRouteTargetHealthCheckConfig \<Rightarrow> int" where
  "unhealthy_threshold cfg \<equiv> normalizedThreshold (hc_UnhealthyThreshold cfg) defaultTargetHealthCheckUnhealthyThreshold"

lemma status_of_shorter_run:
  "(if b then h else u) > 1 + int (length (takeWhile (\<lambda>x. x = b) bs)) \<Longrightarrow> status_of h u (b # bs) = status_of h u bs"
  by (cases bs) (auto simp: not_le)

lemma check_run_tracks:
  "healthyStreak (check_run cfg (rev es)) = int (length (takeWhile (\<lambda>x. x) (outcomes es))) \<and>
   unhealthyStreak (check_run cfg (rev es)) = int (length (takeWhile (\<lambda>x. \<not> x) (outcomes es))) \<and>
   explicitStatus (check_run cfg (rev es)) = status_of (healthy_threshold cfg) (unhealthy_threshold cfg) (outcomes es) \<and>
   passiveUnhealthyUntil (check_run cfg (rev es)) = suspended_until es"
proof (induction es)
  case Nil
  then show ?case by (simp add: check_run_def unknownPublicRouteTargetCheckState_def)
next
  case (Cons e es)
  have step: "check_run cfg (rev (e # es)) = check_step cfg (check_run cfg (rev es)) e" by (simp add: check_run_def)
  show ?case
  proof (cases e)
    case (Passive t err)
    then show ?thesis using Cons unfolding step by (simp add: markCheckPassiveFailureLocked_def)
  next
    case (Result t err)
    show ?thesis
    proof (cases err)
      case None
      have "1 + int (length (takeWhile (\<lambda>x. x) (outcomes es))) < healthy_threshold cfg \<Longrightarrow>
        status_of (healthy_threshold cfg) (unhealthy_threshold cfg) (True # outcomes es) = status_of (healthy_threshold cfg) (unhealthy_threshold cfg) (outcomes es)"
        using status_of_shorter_run [where b = True and bs = "outcomes es"] by simp
      then show ?thesis using Cons unfolding step unfolding Result None by (auto simp: recordPublicRouteTargetCheckResult_def Let_def not_le)
    next
      case (Some m)
      have "1 + int (length (takeWhile (\<lambda>x. \<not> x) (outcomes es))) < unhealthy_threshold cfg \<Longrightarrow>
        status_of (healthy_threshold cfg) (unhealthy_threshold cfg) (False # outcomes es) = status_of (healthy_threshold cfg) (unhealthy_threshold cfg) (outcomes es)"
        using status_of_shorter_run [where b = False and bs = "outcomes es"] by simp
      then show ?thesis using Cons unfolding step unfolding Result Some by (auto simp: recordPublicRouteTargetCheckResult_def Let_def not_le)
    qed
  qed
qed

lemma status_of_range: "status_of h u bs = HS_UNKNOWN \<or> status_of h u bs = HS_HEALTHY \<or> status_of h u bs = HS_UNHEALTHY"
  by (induction h u bs rule: status_of.induct) auto

text \<open>C15: the health of a target is a function of its recent history. After any sequence of checks and passive failures, the stored status is that of the most
  recent run of equal outcomes that reaches its threshold (the configured one, or two), unknown when there is none; and a checked target takes
  requests exactly when that status is not unhealthy and no passive failure of the last 30 seconds is left that no successful check followed. A target without checks always takes them. Equivalence.\<close>
theorem target_health_reference:
  "explicitStatus (check_run cfg es) = status_of (healthy_threshold cfg) (unhealthy_threshold cfg) (outcomes (rev es)) \<and>
   (checkStateAvailable (check_run cfg es) True now \<longleftrightarrow>
      status_of (healthy_threshold cfg) (unhealthy_threshold cfg) (outcomes (rev es)) \<noteq> HS_UNHEALTHY \<and> suspended_until (rev es) \<le> now) \<and>
   checkStateAvailable (check_run cfg es) False now"
proof -
  have "explicitStatus (check_run cfg es) = status_of (healthy_threshold cfg) (unhealthy_threshold cfg) (outcomes (rev es))"
    "passiveUnhealthyUntil (check_run cfg es) = suspended_until (rev es)"
    using check_run_tracks [of cfg "rev es"] by simp_all
  then show ?thesis
    using status_of_range [of "healthy_threshold cfg" "unhealthy_threshold cfg" "outcomes (rev es)"] by (auto simp: checkStateAvailable_def)
qed

definition sample_check :: publicRouteTargetHealthCheckConfig where
  "sample_check = \<lparr>hc_Enabled = True, hc_Method = ''GET'', hc_Path = ''/'', hc_Interval = second, hc_Timeout = second, hc_HealthyThreshold = 2,
     hc_UnhealthyThreshold = 3, hc_ExpectedStatusMin = 200, hc_ExpectedStatusMax = 299\<rparr>"

definition sample_target :: "int \<Rightarrow> string \<Rightarrow> unit publicRouteTargetHealthConfig" where
  "sample_target i transport =
     \<lparr>ht_ID = i, ht_Name = ''a'', ht_TargetType = ''proxy'', ht_Transport = transport, ht_Enabled = True, ht_HasOrigin = True,
      ht_AgentAssignments = [\<lparr>aa_TargetID = i, aa_AgentID = 7, aa_Position = 7, aa_Weight = 100, aa_Enabled = True\<rparr>], ht_HealthCheck = sample_check, ht_other = ()\<rparr>"

definition fresh_monitor :: "'o publicRouteTargetHealthMonitor" where
  \<comment> \<open>\<open>newPublicRouteTargetHealthMonitor\<close>\<close>
  "fresh_monitor = \<lparr>hm_sequence = 0, hm_states = [], hm_counters = []\<rparr>"

section \<open>What is shown is what the router does\<close>

definition agent_up :: "(int \<Rightarrow> (string \<times> int) option) \<Rightarrow> publicRouteTargetAgentAssignment \<Rightarrow> bool" where
  "agent_up hub x \<longleftrightarrow> aa_Enabled x \<and> hub (aa_AgentID x) \<noteq> None"

definition agent_status :: "'o publicRouteTargetHealthState \<Rightarrow> gotime \<Rightarrow> publicRouteTargetAgentAssignment \<Rightarrow> health_status" where
  "agent_status s now x = (case map_of (st_agentStates s) (aa_AgentID x) of None \<Rightarrow> HS_UNKNOWN | Some a \<Rightarrow> fst (checkStateSnapshotStatus (ag_state a) (health_on s) now))"

lemma pool_agent_counts:
  "pl_enabled (pool_agent s now k p a acc) = pl_enabled acc" "pl_connected (pool_agent s now k p a acc) = pl_connected acc"
  "pl_healthy (pool_agent s now k p a acc) = pl_healthy acc + (if fst (checkStateSnapshotStatus (ag_state a) (health_on s) now) = HS_HEALTHY then 1 else 0)"
  "pl_unhealthy (pool_agent s now k p a acc) = pl_unhealthy acc + (if fst (checkStateSnapshotStatus (ag_state a) (health_on s) now) \<in> {HS_UNHEALTHY, HS_DISABLED} then 1 else 0)"
  by (simp_all add: pool_agent_def Let_def case_prod_beta)

lemma pool_step_counts:
  "pl_connected (pool_step True hub s now acc x) = pl_connected acc + (if agent_up hub x then 1 else 0)"
  "pl_healthy (pool_step True hub s now acc x) = pl_healthy acc + (if agent_up hub x \<and> agent_status s now x = HS_HEALTHY then 1 else 0)"
  "pl_unhealthy (pool_step True hub s now acc x) = pl_unhealthy acc + (if agent_up hub x \<and> agent_status s now x \<in> {HS_UNHEALTHY, HS_DISABLED} then 1 else 0)"
  by (auto simp: pool_step_def Let_def connectedAgentLocked_def agent_up_def agent_status_def pool_agent_counts split: option.splits)

lemma pool_counts:
  "pl_connected (foldl (pool_step True hub s now) acc xs) = pl_connected acc + length (filter (agent_up hub) xs)"
  "pl_healthy (foldl (pool_step True hub s now) acc xs) = pl_healthy acc + length (filter (\<lambda>x. agent_up hub x \<and> agent_status s now x = HS_HEALTHY) xs)"
  "pl_unhealthy (foldl (pool_step True hub s now) acc xs) =
     pl_unhealthy acc + length (filter (\<lambda>x. agent_up hub x \<and> agent_status s now x \<in> {HS_UNHEALTHY, HS_DISABLED}) xs)"
  by (induction xs arbitrary: acc) (simp_all add: pool_step_counts)

lemma agent_status_available:
  assumes "map_of (hm_states m) (ht_ID t) = Some s" "health_on s"
  shows "agent_status s now x = HS_HEALTHY \<Longrightarrow> agentAvailableLocked m (ht_ID t) (aa_AgentID x) True now"
    and "agent_status s now x \<in> {HS_UNHEALTHY, HS_DISABLED} \<Longrightarrow> \<not> agentAvailableLocked m (ht_ID t) (aa_AgentID x) True now"
  using assms by (auto simp: agent_status_def agentAvailableLocked_def checkStateSnapshotStatus_def checkStateAvailable_def Let_def split: option.splits if_splits)

lemma filter_same_length: "length (filter (\<lambda>x. P x \<and> Q x) xs) = length (filter P xs) \<Longrightarrow> x \<in> set xs \<Longrightarrow> P x \<Longrightarrow> Q x"
proof -
  assume e: "length (filter (\<lambda>x. P x \<and> Q x) xs) = length (filter P xs)" and x: "x \<in> set xs" "P x"
  have "filter (\<lambda>x. P x \<and> Q x) xs = filter Q (filter P xs)" by (simp add: conj_commute)
  then have "filter Q (filter P xs) = filter P xs" using e by (metis filter_id_conv filter_False length_filter_less less_irrefl)
  moreover have "x \<in> set (filter P xs)" using x by simp
  ultimately have "x \<in> set (filter Q (filter P xs))" by simp
  then show "Q x" by simp
qed



end
