(* ===== verification/HealthMonitor.thy ===== *)
theory HealthMonitor
  imports TargetHealth
begin

text \<open>
  The goroutines of the health monitor: which checks run after the configuration was applied, what happens to checks that are in flight when it changes,
  and what every reachable state of the monitor looks like.
\<close>

section \<open>Reconciling starts and stops exactly the right checks\<close>

definition monitor_wf :: "'o publicRouteTargetHealthMonitor \<Rightarrow> bool" where
  \<comment> \<open>targets and the agents of a target are listed once, and a state is stored under the id of its target\<close>
  "monitor_wf m \<longleftrightarrow> gm_wf (hm_states m) \<and>
     (\<forall>i s. map_of (hm_states m) i = Some s \<longrightarrow> ht_ID (st_target s) = i \<and> gm_wf (st_agentStates s))"

lemma reconcile_direct_facts:
  assumes "reconcile_direct active s t = (s', loops)"
  shows "st_target s' = t" "st_directCheckRunning s' \<longleftrightarrow> should_run_direct active t" "st_directGeneration s \<le> st_directGeneration s'"
    "st_agentStates s' = st_agentStates s" "st_active s' = st_active s"
    "st_directCheckRunning s' \<Longrightarrow> st_directGeneration s' = st_directGeneration s \<Longrightarrow> st_directCheckRunning s \<and> st_target s = t"
    "loops = (if st_directCheckRunning s' \<and> \<not> (st_directCheckRunning s \<and> st_directGeneration s' = st_directGeneration s)
              then [DirectLoop (ht_ID t) (st_directGeneration s')] else [])"
  using assms by (auto simp: reconcile_direct_def stopDirectLocked_def Let_def split: if_splits)

lemma start_agents_facts:
  assumes "start_agents i xs agents = (agents', loops)" "gm_wf agents"
  shows "gm_wf agents'"
    and "map_of agents' k = (if k \<in> aa_AgentID ` {x \<in> set xs. aa_Enabled x}
       then Some ((case map_of agents k of Some a \<Rightarrow> a | None \<Rightarrow> new_agent_state)\<lparr>ag_checkRunning := True\<rparr>) else map_of agents k)"
    and "set loops = {AgentLoop i k |k. k \<in> aa_AgentID ` {x \<in> set xs. aa_Enabled x} \<and>
       \<not> (case map_of agents k of Some a \<Rightarrow> ag_checkRunning a | None \<Rightarrow> False)}"
    and "distinct loops"
proof -
  have "gm_wf agents' \<and> (\<forall>k. map_of agents' k = (if k \<in> aa_AgentID ` {x \<in> set xs. aa_Enabled x}
       then Some ((case map_of agents k of Some a \<Rightarrow> a | None \<Rightarrow> new_agent_state)\<lparr>ag_checkRunning := True\<rparr>) else map_of agents k)) \<and>
     set loops = {AgentLoop i k |k. k \<in> aa_AgentID ` {x \<in> set xs. aa_Enabled x} \<and>
       \<not> (case map_of agents k of Some a \<Rightarrow> ag_checkRunning a | None \<Rightarrow> False)} \<and> distinct loops"
    using assms
  proof (induction xs arbitrary: agents agents' loops)
    case Nil
    then show ?case by simp
  next
    case (Cons x xs)
    show ?case
    proof (cases "aa_Enabled x")
      case False
      then have "{y \<in> set (x # xs). aa_Enabled y} = {y \<in> set xs. aa_Enabled y}" by auto
      then show ?thesis using Cons False by simp
    next
      case True
      let ?k = "aa_AgentID x"
      let ?a = "case map_of agents ?k of Some a \<Rightarrow> a | None \<Rightarrow> new_agent_state"
      let ?m = "AList.update ?k (?a\<lparr>ag_checkRunning := True\<rparr>) agents"
      obtain m' l' where r: "start_agents i xs ?m = (m', l')" by (cases "start_agents i xs ?m")
      have eq: "agents' = m'" "loops = (if ag_checkRunning ?a then l' else AgentLoop i ?k # l')" using Cons.prems(1) True r by (auto simp: Let_def)
      have wf: "gm_wf ?m" using Cons.prems(2) by simp
      note IH = Cons.IH [OF r wf]
      have set: "{y \<in> set (x # xs). aa_Enabled y} = insert x {y \<in> set xs. aa_Enabled y}" using True by auto
      have run: "ag_checkRunning ?a \<longleftrightarrow> (case map_of agents ?k of Some a \<Rightarrow> ag_checkRunning a | None \<Rightarrow> False)"
        by (simp add: new_agent_state_def split: option.split)
      have "map_of agents' k = (if k \<in> aa_AgentID ` {y \<in> set (x # xs). aa_Enabled y}
         then Some ((case map_of agents k of Some a \<Rightarrow> a | None \<Rightarrow> new_agent_state)\<lparr>ag_checkRunning := True\<rparr>) else map_of agents k)" for k
        unfolding eq(1) set using IH by (cases "k = ?k") auto
      moreover have "set loops = {AgentLoop i k |k. k \<in> aa_AgentID ` {y \<in> set (x # xs). aa_Enabled y} \<and>
         \<not> (case map_of agents k of Some a \<Rightarrow> ag_checkRunning a | None \<Rightarrow> False)}"
      proof -
        have "set l' = {AgentLoop i k |k. k \<in> aa_AgentID ` {y \<in> set xs. aa_Enabled y} \<and> k \<noteq> ?k \<and>
           \<not> (case map_of agents k of Some a \<Rightarrow> ag_checkRunning a | None \<Rightarrow> False)}"
          using IH by auto
        then show ?thesis unfolding eq(2) set using run by auto
      qed
      moreover have "AgentLoop i ?k \<notin> set l'" using IH by auto
      ultimately show ?thesis using IH unfolding eq by auto
    qed
  qed
  then show "gm_wf agents'" "map_of agents' k = (if k \<in> aa_AgentID ` {x \<in> set xs. aa_Enabled x}
       then Some ((case map_of agents k of Some a \<Rightarrow> a | None \<Rightarrow> new_agent_state)\<lparr>ag_checkRunning := True\<rparr>) else map_of agents k)"
    "set loops = {AgentLoop i k |k. k \<in> aa_AgentID ` {x \<in> set xs. aa_Enabled x} \<and>
       \<not> (case map_of agents k of Some a \<Rightarrow> ag_checkRunning a | None \<Rightarrow> False)}" "distinct loops"
    by blast+
qed

definition agent_running :: "'o publicRouteTargetHealthState \<Rightarrow> int \<Rightarrow> bool" where
  "agent_running s k \<longleftrightarrow> (case map_of (st_agentStates s) k of Some a \<Rightarrow> ag_checkRunning a | None \<Rightarrow> False)"

lemma reconcile_agents_facts:
  assumes "reconcile_agents active s = (s', loops)" "gm_wf (st_agentStates s)"
  shows "gm_wf (st_agentStates s')" "agent_running s' k \<longleftrightarrow> k \<in> set (desired_agents active (st_target s))"
    "set loops = {AgentLoop (ht_ID (st_target s)) k |k. k \<in> set (desired_agents active (st_target s)) \<and> \<not> agent_running s k}" "distinct loops"
    "st_target s' = st_target s" "st_directCheckRunning s' = st_directCheckRunning s" "st_directGeneration s' = st_directGeneration s"
    "st_direct s' = st_direct s" "st_active s' = st_active s" "gm_keys (st_agentStates s') = set (desired_agents active (st_target s))"
proof -
  let ?t = "st_target s"
  obtain agents l where r: "(if should_run_agents active ?t then start_agents (ht_ID ?t) (ht_AgentAssignments ?t) (st_agentStates s) else (st_agentStates s, [])) = (agents, l)"
    by fastforce
  have s': "s' = s\<lparr>st_agentStates := filter (\<lambda>(k, a). k \<in> set (desired_agents active ?t)) agents\<rparr>" "loops = l"
    using assms(1) r by (auto simp: reconcile_agents_def Let_def)
  show "st_target s' = ?t" "st_directCheckRunning s' = st_directCheckRunning s" "st_directGeneration s' = st_directGeneration s"
    "st_direct s' = st_direct s" "st_active s' = st_active s" by (simp_all add: s')
  have D: "set (desired_agents active ?t) = (if should_run_agents active ?t then aa_AgentID ` {x \<in> set (ht_AgentAssignments ?t). aa_Enabled x} else {})"
    by (auto simp: desired_agents_def)
  have "gm_wf agents \<and> (\<forall>k \<in> set (desired_agents active ?t). \<exists>a. map_of agents k = Some a \<and> ag_checkRunning a) \<and>
    set l = {AgentLoop (ht_ID ?t) k |k. k \<in> set (desired_agents active ?t) \<and> \<not> agent_running s k} \<and> distinct l"
  proof (cases "should_run_agents active ?t")
    case True
    then have st: "start_agents (ht_ID ?t) (ht_AgentAssignments ?t) (st_agentStates s) = (agents, l)" using r by simp
    show ?thesis using start_agents_facts [OF st assms(2)] True by (auto simp: D agent_running_def)
  next
    case False
    then show ?thesis using r assms(2) by (auto simp: D)
  qed
  then have a: "gm_wf agents" "\<And>k. k \<in> set (desired_agents active ?t) \<Longrightarrow> \<exists>a. map_of agents k = Some a \<and> ag_checkRunning a"
    "set l = {AgentLoop (ht_ID ?t) k |k. k \<in> set (desired_agents active ?t) \<and> \<not> agent_running s k}" "distinct l"
    by blast+
  show "gm_wf (st_agentStates s')" using a(1) by (simp add: s')
  show "set loops = {AgentLoop (ht_ID ?t) k |k. k \<in> set (desired_agents active ?t) \<and> \<not> agent_running s k}" "distinct loops" using a by (simp_all add: s')
  have m: "map_of (st_agentStates s') k = (if k \<in> set (desired_agents active ?t) then map_of agents k else None)" for k
    by (auto simp: s' map_of_filter [OF a(1)] split: option.split)
  show "agent_running s' k \<longleftrightarrow> k \<in> set (desired_agents active ?t)" using a(2) [of k] by (auto simp: agent_running_def m)
  show "gm_keys (st_agentStates s') = set (desired_agents active ?t)"
  proof (rule set_eqI)
    fix k
    have "k \<in> gm_keys (st_agentStates s') \<longleftrightarrow> map_of (st_agentStates s') k \<noteq> None" by (simp only: map_of_eq_None_iff not_not)
    then show "k \<in> gm_keys (st_agentStates s') \<longleftrightarrow> k \<in> set (desired_agents active ?t)" using a(2) [of k] by (auto simp: m)
  qed
qed

lemma clear_facts [simp]:
  "st_target (clearHealthStateLocked s) = st_target s" "st_directCheckRunning (clearHealthStateLocked s) = st_directCheckRunning s"
  "st_directGeneration (clearHealthStateLocked s) = st_directGeneration s" "st_active (clearHealthStateLocked s) = st_active s"
  "agent_running (clearHealthStateLocked s) k = agent_running s k" "gm_wf (st_agentStates (clearHealthStateLocked s)) = gm_wf (st_agentStates s)"
  "gm_keys (st_agentStates (clearHealthStateLocked s)) = gm_keys (st_agentStates s)"
  by (simp_all add: clearHealthStateLocked_def agent_running_def gm_wf_def map_of_map comp_def case_prod_beta image_image split: option.split)

definition reconciled :: "bool \<Rightarrow> 'o publicRouteTargetHealthState option \<Rightarrow> 'o publicRouteTargetHealthConfig \<Rightarrow> 'o publicRouteTargetHealthState \<Rightarrow> health_loop list \<Rightarrow> bool" where
  \<comment> \<open>what one turn makes of the state of a target, and the goroutines it starts\<close>
  "reconciled active old t s loops \<longleftrightarrow> st_target s = t \<and> gm_wf (st_agentStates s) \<and> (st_directCheckRunning s \<longleftrightarrow> should_run_direct active t) \<and>
     gm_keys (st_agentStates s) = set (desired_agents active t) \<and> (\<forall>k. agent_running s k \<longleftrightarrow> k \<in> set (desired_agents active t)) \<and>
     (\<not> hc_Enabled (ht_HealthCheck t) \<longrightarrow> st_direct s = unknownPublicRouteTargetCheckState) \<and> distinct loops \<and>
     (\<forall>o'. old = Some o' \<longrightarrow> st_directGeneration o' \<le> st_directGeneration s \<and>
        (st_directCheckRunning s \<longrightarrow> st_directGeneration s = st_directGeneration o' \<longrightarrow> st_directCheckRunning o' \<and> st_target o' = t)) \<and>
     set loops = {DirectLoop (ht_ID t) g |g. st_directCheckRunning s \<and> st_directGeneration s = g \<and>
         \<not> (\<exists>o'. old = Some o' \<and> st_directCheckRunning o' \<and> st_directGeneration o' = g)} \<union>
       {AgentLoop (ht_ID t) k |k. agent_running s k \<and> \<not> (\<exists>o'. old = Some o' \<and> agent_running o' k)}"

lemma reconcile_target_facts:
  assumes "reconcile_target active m t = (m', loops)" "monitor_wf m"
  shows "\<exists>s. hm_states m' = AList.update (ht_ID t) s (hm_states m) \<and> reconciled active (map_of (hm_states m) (ht_ID t)) t s loops"
proof -
  let ?old = "map_of (hm_states m) (ht_ID t)"
  define s0 where "s0 = (case ?old of Some s \<Rightarrow> s | None \<Rightarrow> newPublicRouteTargetHealthState (length (hm_counters m)) t)"
  obtain s1 l1 where d: "reconcile_direct active s0 t = (s1, l1)" by (cases "reconcile_direct active s0 t")
  obtain s2 l2 where a: "reconcile_agents active s1 = (s2, l2)" by (cases "reconcile_agents active s1")
  define s3 where "s3 = (if hc_Enabled (ht_HealthCheck t) then s2 else clearHealthStateLocked s2)"
  have eq: "hm_states m' = AList.update (ht_ID t) s3 (hm_states m)" "loops = l1 @ l2"
    using assms(1) d a by (auto simp: reconcile_target_def s0_def s3_def Let_def split: option.splits)
  have wf0: "gm_wf (st_agentStates s0)"
    using assms(2) by (auto simp: s0_def monitor_wf_def newPublicRouteTargetHealthState_def split: option.splits)
  note D = reconcile_direct_facts [OF d]
  have wf1: "gm_wf (st_agentStates s1)" using wf0 D(4) by simp
  note A = reconcile_agents_facts [OF a wf1, unfolded D(1)]
  have s3: "st_target s3 = t" "st_directCheckRunning s3 = st_directCheckRunning s1" "st_directGeneration s3 = st_directGeneration s1"
    "gm_wf (st_agentStates s3)" "gm_keys (st_agentStates s3) = set (desired_agents active t)" "\<And>k. agent_running s3 k \<longleftrightarrow> k \<in> set (desired_agents active t)"
    using A D(1) by (simp_all add: s3_def)
  have run0: "st_directCheckRunning s0 \<longleftrightarrow> (\<exists>o'. ?old = Some o' \<and> st_directCheckRunning o')" "?old = Some o' \<Longrightarrow> s0 = o'"
    "agent_running s0 k \<longleftrightarrow> (\<exists>o'. ?old = Some o' \<and> agent_running o' k)" "agent_running s1 k = agent_running s0 k" for k o'
    using D(4) by (auto simp: s0_def newPublicRouteTargetHealthState_def agent_running_def split: option.splits)
  have l1: "set l1 = {DirectLoop (ht_ID t) g |g. st_directCheckRunning s3 \<and> st_directGeneration s3 = g \<and>
         \<not> (\<exists>o'. ?old = Some o' \<and> st_directCheckRunning o' \<and> st_directGeneration o' = g)}" "distinct l1" "\<And>k. AgentLoop (ht_ID t) k \<notin> set l1"
    unfolding D(7) s3 using run0(1,2) by auto
  have l2: "set l2 = {AgentLoop (ht_ID t) k |k. agent_running s3 k \<and> \<not> (\<exists>o'. ?old = Some o' \<and> agent_running o' k)}" "distinct l2"
    using A(3,4) s3(6) run0(3,4) by auto
  have "set loops = {DirectLoop (ht_ID t) g |g. st_directCheckRunning s3 \<and> st_directGeneration s3 = g \<and>
         \<not> (\<exists>o'. ?old = Some o' \<and> st_directCheckRunning o' \<and> st_directGeneration o' = g)} \<union>
       {AgentLoop (ht_ID t) k |k. agent_running s3 k \<and> \<not> (\<exists>o'. ?old = Some o' \<and> agent_running o' k)}"
    unfolding eq(2) set_append l1(1) l2(1) ..
  moreover have "distinct loops" using l1(2,3) l2 unfolding eq(2) by auto
  moreover have "\<not> hc_Enabled (ht_HealthCheck t) \<Longrightarrow> st_direct s3 = unknownPublicRouteTargetCheckState" by (simp add: s3_def clearHealthStateLocked_def)
  moreover have "st_directCheckRunning s3 \<longleftrightarrow> should_run_direct active t" using D(2) s3(2) by simp
  moreover have "st_directGeneration o' \<le> st_directGeneration s3 \<and>
      (st_directCheckRunning s3 \<longrightarrow> st_directGeneration s3 = st_directGeneration o' \<longrightarrow> st_directCheckRunning o' \<and> st_target o' = t)" if "?old = Some o'" for o'
    using D(3,6) s3(2,3) run0(2) [OF that] by auto
  ultimately have "reconciled active ?old t s3 loops" unfolding reconciled_def using s3 by blast
  with eq(1) show ?thesis by blast
qed

lemma monitor_wf_put:
  "monitor_wf m \<Longrightarrow> hm_states m' = AList.update i s (hm_states m) \<Longrightarrow> ht_ID (st_target s) = i \<Longrightarrow> gm_wf (st_agentStates s) \<Longrightarrow> monitor_wf m'"
  by (simp add: monitor_wf_def)

fun loop_target :: "health_loop \<Rightarrow> int" where
  "loop_target (DirectLoop i g) = i"
| "loop_target (AgentLoop i k) = i"

lemma reconciled_loop_target:
  assumes "reconciled active old t s loops" "loop \<in> set loops"
  shows "loop_target loop = ht_ID t"
proof -
  have "set loops = {DirectLoop (ht_ID t) g |g. st_directCheckRunning s \<and> st_directGeneration s = g \<and>
         \<not> (\<exists>o'. old = Some o' \<and> st_directCheckRunning o' \<and> st_directGeneration o' = g)} \<union>
       {AgentLoop (ht_ID t) k |k. agent_running s k \<and> \<not> (\<exists>o'. old = Some o' \<and> agent_running o' k)}"
    using assms(1) unfolding reconciled_def by (elim conjE)
  then have "loop \<in> range (DirectLoop (ht_ID t)) \<or> loop \<in> range (AgentLoop (ht_ID t))" using assms(2) by blast
  then show ?thesis by auto
qed

lemma reconciled_loops:
  assumes "reconciled active old t s loops"
  shows "DirectLoop (ht_ID t) g \<in> set loops \<longleftrightarrow> st_directCheckRunning s \<and> st_directGeneration s = g \<and>
       \<not> (\<exists>o'. old = Some o' \<and> st_directCheckRunning o' \<and> st_directGeneration o' = g)"
    and "AgentLoop (ht_ID t) k \<in> set loops \<longleftrightarrow> agent_running s k \<and> \<not> (\<exists>o'. old = Some o' \<and> agent_running o' k)"
proof -
  have "set loops = {DirectLoop (ht_ID t) g |g. st_directCheckRunning s \<and> st_directGeneration s = g \<and>
         \<not> (\<exists>o'. old = Some o' \<and> st_directCheckRunning o' \<and> st_directGeneration o' = g)} \<union>
       {AgentLoop (ht_ID t) k |k. agent_running s k \<and> \<not> (\<exists>o'. old = Some o' \<and> agent_running o' k)}"
    using assms unfolding reconciled_def by (elim conjE)
  then show "DirectLoop (ht_ID t) g \<in> set loops \<longleftrightarrow> st_directCheckRunning s \<and> st_directGeneration s = g \<and>
       \<not> (\<exists>o'. old = Some o' \<and> st_directCheckRunning o' \<and> st_directGeneration o' = g)"
    "AgentLoop (ht_ID t) k \<in> set loops \<longleftrightarrow> agent_running s k \<and> \<not> (\<exists>o'. old = Some o' \<and> agent_running o' k)"
    by blast+
qed

lemma reconciled_state:
  assumes "reconciled active old t s loops"
  shows "st_target s = t" "gm_wf (st_agentStates s)" "st_directCheckRunning s \<longleftrightarrow> should_run_direct active t"
    "agent_running s k \<longleftrightarrow> k \<in> set (desired_agents active t)" "distinct loops"
    "\<not> hc_Enabled (ht_HealthCheck t) \<Longrightarrow> st_direct s = unknownPublicRouteTargetCheckState"
    "old = Some o' \<Longrightarrow> st_directGeneration o' \<le> st_directGeneration s"
    "old = Some o' \<Longrightarrow> st_directCheckRunning s \<Longrightarrow> st_directGeneration s = st_directGeneration o' \<Longrightarrow> st_directCheckRunning o' \<and> st_target o' = t"
  using assms unfolding reconciled_def by simp_all

lemma reconcile_targets_facts:
  assumes "reconcile_targets active m ts = (m', loops)" "monitor_wf m" "distinct (map ht_ID ts)"
  shows "monitor_wf m' \<and> (\<forall>i. i \<notin> set (map ht_ID ts) \<longrightarrow> map_of (hm_states m') i = map_of (hm_states m) i) \<and>
    (\<exists>f. distinct loops \<and> set loops = (\<Union>t \<in> set ts. set (f t)) \<and>
      (\<forall>t \<in> set ts. \<exists>s. map_of (hm_states m') (ht_ID t) = Some s \<and> reconciled active (map_of (hm_states m) (ht_ID t)) t s (f t)))"
  using assms
proof (induction ts arbitrary: m loops)
  case Nil
  then show ?case by auto
next
  case (Cons t ts)
  obtain m1 l1 where h: "reconcile_target active m t = (m1, l1)" by (cases "reconcile_target active m t")
  obtain l2 where r: "reconcile_targets active m1 ts = (m', l2)" and loops: "loops = l1 @ l2"
    using Cons.prems(1) h by (cases "reconcile_targets active m1 ts") auto
  obtain s where s: "hm_states m1 = AList.update (ht_ID t) s (hm_states m)" "reconciled active (map_of (hm_states m) (ht_ID t)) t s l1"
    using reconcile_target_facts [OF h Cons.prems(2)] by (elim exE conjE)
  have t: "ht_ID t \<notin> ht_ID ` set ts" "distinct (map ht_ID ts)" using Cons.prems(3) by simp_all
  have wf1: "monitor_wf m1" using monitor_wf_put [OF Cons.prems(2) s(1)] reconciled_state(1,2) [OF s(2)] by simp
  have m1: "map_of (hm_states m1) i = (if i = ht_ID t then Some s else map_of (hm_states m) i)" for i by (simp add: s(1))
  obtain f where "distinct l2" "set l2 = (\<Union>t \<in> set ts. set (f t))" "(\<forall>u \<in> set ts. \<exists>s. map_of (hm_states m') (ht_ID u) = Some s \<and>
      reconciled active (map_of (hm_states m1) (ht_ID u)) u s (f u))" and f3: "monitor_wf m'"
    "\<forall>i. i \<notin> set (map ht_ID ts) \<longrightarrow> map_of (hm_states m') i = map_of (hm_states m1) i"
    using Cons.IH [OF r wf1 t(2)] by (elim conjE exE) (rule that)
  then have f: "distinct l2" "set l2 = (\<Union>t \<in> set ts. set (f t))" "monitor_wf m'"
    "\<And>i. i \<notin> set (map ht_ID ts) \<Longrightarrow> map_of (hm_states m') i = map_of (hm_states m1) i"
    "\<And>u. u \<in> set ts \<Longrightarrow> \<exists>s. map_of (hm_states m') (ht_ID u) = Some s \<and> reconciled active (map_of (hm_states m1) (ht_ID u)) u s (f u)"
    by simp_all
  have other: "map_of (hm_states m1) (ht_ID u) = map_of (hm_states m) (ht_ID u)" if "u \<in> set ts" for u
  proof -
    have "ht_ID u \<noteq> ht_ID t" using t(1) that by (metis imageI)
    then show ?thesis by (simp add: m1)
  qed
  have "set l1 \<inter> set l2 = {}"
  proof (rule ccontr)
    assume "set l1 \<inter> set l2 \<noteq> {}"
    then obtain loop u where "loop \<in> set l1" "u \<in> set ts" "loop \<in> set (f u)" using f(2) by blast
    moreover obtain s' where "reconciled active (map_of (hm_states m1) (ht_ID u)) u s' (f u)" using f(5) [OF \<open>u \<in> set ts\<close>] by (elim exE conjE)
    ultimately have "ht_ID t = ht_ID u" using reconciled_loop_target [OF s(2)] reconciled_loop_target [of active "map_of (hm_states m1) (ht_ID u)" u s' "f u" loop] by simp
    then show False using t(1) \<open>u \<in> set ts\<close> by simp
  qed
  moreover have "distinct l1" by (rule reconciled_state(5) [OF s(2)])
  ultimately have "distinct loops" using f(1) by (simp add: loops)
  moreover have "set loops = (\<Union>u \<in> set (t # ts). set ((f(t := l1)) u))"
  proof -
    have "(\<Union>u \<in> set ts. set ((f(t := l1)) u)) = (\<Union>u \<in> set ts. set (f u))" using t(1) by (intro SUP_cong) auto
    then show ?thesis by (simp add: loops f(2))
  qed
  moreover have "\<exists>s'. map_of (hm_states m') (ht_ID u) = Some s' \<and> reconciled active (map_of (hm_states m) (ht_ID u)) u s' ((f(t := l1)) u)" if "u \<in> set (t # ts)" for u
  proof (cases "u = t")
    case True
    then show ?thesis using s(2) f(4) [of "ht_ID t"] t(1) by (simp add: m1)
  next
    case False
    then have "u \<in> set ts" using that by simp
    then show ?thesis using f(5) other False by simp
  qed
  moreover have "map_of (hm_states m') i = map_of (hm_states m) i" if "i \<notin> set (map ht_ID (t # ts))" for i using f(4) [of i] that by (simp add: m1)
  ultimately show ?case using f(3) by (intro conjI exI [of _ "f(t := l1)"]) simp_all
qed

lemma map_of_kept:
  assumes "monitor_wf m"
  shows "map_of (hm_states (m\<lparr>hm_states := filter (\<lambda>(i, s). i \<in> set (map ht_ID ts)) (hm_states m)\<rparr>)) i = (if i \<in> ht_ID ` set ts then map_of (hm_states m) i else None)"
proof -
  have wf: "gm_wf (hm_states m)" using assms by (simp add: monitor_wf_def)
  show ?thesis by (auto simp: map_of_filter [OF wf] split: option.split)
qed

lemma monitor_wf_filter:
  assumes "monitor_wf m"
  shows "monitor_wf (m\<lparr>hm_states := filter (\<lambda>(i, s). i \<in> set (map ht_ID ts)) (hm_states m)\<rparr>)"
  using assms unfolding monitor_wf_def map_of_kept [OF assms] by simp

text \<open>C21: reconciling starts and stops exactly the right checks. After the configuration was applied, the monitor knows exactly the configured targets; a target is
  checked directly, or through an agent, if and only if its configuration asks for it; a goroutine was started for exactly those checks that run now and did not run in
  the same generation before, each one once; and a target whose checks are switched off has no remembered failures. Functional.\<close>
theorem health_checks_reconciled:
  assumes "monitor_wf m" "distinct (map ht_ID ts)" "hm_reconcile m (Some ts) active = (m', loops)"
  shows "monitor_wf m' \<and> gm_keys (hm_states m') = ht_ID ` set ts \<and> distinct loops \<and>
    (\<forall>t \<in> set ts. \<exists>s. map_of (hm_states m') (ht_ID t) = Some s \<and> st_target s = t \<and> (st_directCheckRunning s \<longleftrightarrow> should_run_direct active t) \<and>
       (\<forall>k. agent_running s k \<longleftrightarrow> k \<in> set (desired_agents active t)) \<and>
       (\<not> hc_Enabled (ht_HealthCheck t) \<longrightarrow> st_direct s = unknownPublicRouteTargetCheckState) \<and>
       (\<forall>g. DirectLoop (ht_ID t) g \<in> set loops \<longleftrightarrow> st_directCheckRunning s \<and> st_directGeneration s = g \<and>
          \<not> (\<exists>o'. map_of (hm_states m) (ht_ID t) = Some o' \<and> st_directCheckRunning o' \<and> st_directGeneration o' = g)) \<and>
       (\<forall>k. AgentLoop (ht_ID t) k \<in> set loops \<longleftrightarrow> agent_running s k \<and> \<not> (\<exists>o'. map_of (hm_states m) (ht_ID t) = Some o' \<and> agent_running o' k)))"
proof -
  let ?m = "m\<lparr>hm_states := filter (\<lambda>(i, s). i \<in> set (map ht_ID ts)) (hm_states m)\<rparr>"
  have r: "reconcile_targets active ?m ts = (m', loops)" using assms(3) by (simp add: hm_reconcile_def)
  obtain f where f: "monitor_wf m'" "\<And>i. i \<notin> ht_ID ` set ts \<Longrightarrow> map_of (hm_states m') i = None" "distinct loops"
    "set loops = (\<Union>t \<in> set ts. set (f t))"
    "\<And>t. t \<in> set ts \<Longrightarrow> \<exists>s. map_of (hm_states m') (ht_ID t) = Some s \<and> reconciled active (map_of (hm_states m) (ht_ID t)) t s (f t)"
    using reconcile_targets_facts [OF r monitor_wf_filter [OF assms(1)] assms(2)] unfolding map_of_kept [OF assms(1)] by auto
  have mine: "loop \<in> set loops \<longleftrightarrow> loop \<in> set (f t)" if t: "t \<in> set ts" and l: "loop = DirectLoop (ht_ID t) g \<or> loop = AgentLoop (ht_ID t) k" for t loop g k
  proof
    assume "loop \<in> set loops"
    then obtain u where u: "u \<in> set ts" "loop \<in> set (f u)" using f(4) by blast
    obtain s where "reconciled active (map_of (hm_states m) (ht_ID u)) u s (f u)" using f(5) [OF u(1)] by (elim exE conjE)
    then have "ht_ID u = ht_ID t" using reconciled_loop_target [OF _ u(2)] l by fastforce
    then have "u = t" using assms(2) u(1) t by (simp add: distinct_map inj_on_def)
    with u(2) show "loop \<in> set (f t)" by simp
  qed (use f(4) t in blast)
  have "gm_keys (hm_states m') = ht_ID ` set ts"
  proof (rule set_eqI)
    fix i
    have "i \<in> gm_keys (hm_states m') \<longleftrightarrow> map_of (hm_states m') i \<noteq> None" by (simp only: map_of_eq_None_iff not_not)
    then show "i \<in> gm_keys (hm_states m') \<longleftrightarrow> i \<in> ht_ID ` set ts" using f(2,5) by fastforce
  qed
  moreover have "\<exists>s. map_of (hm_states m') (ht_ID t) = Some s \<and> st_target s = t \<and> (st_directCheckRunning s \<longleftrightarrow> should_run_direct active t) \<and>
       (\<forall>k. agent_running s k \<longleftrightarrow> k \<in> set (desired_agents active t)) \<and>
       (\<not> hc_Enabled (ht_HealthCheck t) \<longrightarrow> st_direct s = unknownPublicRouteTargetCheckState) \<and>
       (\<forall>g. DirectLoop (ht_ID t) g \<in> set loops \<longleftrightarrow> st_directCheckRunning s \<and> st_directGeneration s = g \<and>
          \<not> (\<exists>o'. map_of (hm_states m) (ht_ID t) = Some o' \<and> st_directCheckRunning o' \<and> st_directGeneration o' = g)) \<and>
       (\<forall>k. AgentLoop (ht_ID t) k \<in> set loops \<longleftrightarrow> agent_running s k \<and> \<not> (\<exists>o'. map_of (hm_states m) (ht_ID t) = Some o' \<and> agent_running o' k))"
    if t: "t \<in> set ts" for t
  proof -
    obtain s where s: "map_of (hm_states m') (ht_ID t) = Some s" "reconciled active (map_of (hm_states m) (ht_ID t)) t s (f t)" using f(5) [OF t] by blast
    have "DirectLoop (ht_ID t) g \<in> set loops \<longleftrightarrow> DirectLoop (ht_ID t) g \<in> set (f t)"
      "AgentLoop (ht_ID t) k \<in> set loops \<longleftrightarrow> AgentLoop (ht_ID t) k \<in> set (f t)" for g k
      using mine [OF t] by blast+
    note L = this [unfolded reconciled_loops [OF s(2)]]
    show ?thesis using s(1) L reconciled_state(1,3,4,6) [OF s(2)] by (intro exI [of _ s] conjI allI impI) simp_all
  qed
  ultimately show ?thesis using f(1,3) by blast
qed

theorem health_checks_reconciled_witness:
  "\<exists>m' loops. hm_reconcile fresh_monitor (Some [sample_target 1 ''direct'', sample_target 2 ''agent'']) True = (m', loops) \<and>
     monitor_wf m' \<and> gm_keys (hm_states m') = {1, 2} \<and> distinct loops"
proof -
  let ?ts = "[sample_target 1 ''direct'', sample_target 2 ''agent'']"
  obtain m' loops where r: "hm_reconcile fresh_monitor (Some ?ts) True = (m', loops)" by fastforce
  have wf: "monitor_wf fresh_monitor" by (simp add: monitor_wf_def fresh_monitor_def)
  have d: "distinct (map ht_ID ?ts)" by (simp add: sample_target_def)
  have "ht_ID ` set ?ts = {1, 2}" by (simp add: sample_target_def)
  with health_checks_reconciled [OF wf d r] r show ?thesis by auto
qed

section \<open>Checks in flight\<close>

text \<open>The goroutines as a transition system. A direct check takes the configuration of its generation, runs without the lock and comes back with a result;
  everything else may happen in between.\<close>

record 'o health_sys =
  hs_monitor :: "'o publicRouteTargetHealthMonitor"
  hs_inflight :: "(int \<times> nat \<times> 'o publicRouteTargetHealthConfig) list"

abbreviation in_flight :: "'o health_sys \<Rightarrow> int set" where
  "in_flight y \<equiv> fst ` set (hs_inflight y)"

inductive health_step :: "'o health_sys \<Rightarrow> 'o health_sys \<Rightarrow> bool" where
  reconcile: "distinct (map ht_ID ts) \<Longrightarrow> in_flight y \<inter> ht_ID ` set ts \<subseteq> gm_keys (hm_states (hs_monitor y)) \<Longrightarrow>
    health_step y (y\<lparr>hs_monitor := fst (hm_reconcile (hs_monitor y) (Some ts) active)\<rparr>)"
| shut_down: "health_step y (y\<lparr>hs_monitor := fst (hm_reconcile (hs_monitor y) None active)\<rparr>)"
| begin_check: "directCheckForGeneration (hs_monitor y) i g = Some c \<Longrightarrow> health_step y (y\<lparr>hs_inflight := (i, g, c) # hs_inflight y\<rparr>)"
| end_check: "(i, g, c) \<in> set (hs_inflight y) \<Longrightarrow>
    health_step y \<lparr>hs_monitor = recordDirectExplicitCheckForGeneration (hs_monitor y) i g attempt clock, hs_inflight = remove1 (i, g, c) (hs_inflight y)\<rparr>"
| agent_check: "health_step y (y\<lparr>hs_monitor := recordAgentExplicitCheck (hs_monitor y) i k attempt clock\<rparr>)"
| agent_skipped: "health_step y (y\<lparr>hs_monitor := recordAgentActiveCheckSkipped (hs_monitor y) i k kind err now\<rparr>)"
| agent_on: "health_step y (y\<lparr>hs_monitor := recordAgentConnected conn (hs_monitor y) i k public now\<rparr>)"
| agent_off: "health_step y (y\<lparr>hs_monitor := recordAgentDisconnected (hs_monitor y) i k now\<rparr>)"
| agent_on_all: "health_step y (y\<lparr>hs_monitor := recordAgentConnectedForAll conn ord (hs_monitor y) k public now\<rparr>)"
| agent_off_all: "health_step y (y\<lparr>hs_monitor := recordAgentDisconnectedForAll ord (hs_monitor y) k now\<rparr>)"
| passive_failure: "health_step y (y\<lparr>hs_monitor := markPassiveFailure (hs_monitor y) i e clock\<rparr>)"
| agent_passive: "health_step y (y\<lparr>hs_monitor := markAgentPassiveFailure (hs_monitor y) i k e clock\<rparr>)"
| begin_request: "i \<in> in_flight y \<longrightarrow> i \<in> gm_keys (hm_states (hs_monitor y)) \<Longrightarrow> health_step y (y\<lparr>hs_monitor := snd (beginRequest z (hs_monitor y) i)\<rparr>)"
| end_request: "health_step y (y\<lparr>hs_monitor := endRequest (hs_monitor y) c\<rparr>)"

inductive_cases health_stepE: "health_step y y'"

inductive health_reach :: "'o health_sys \<Rightarrow> bool" where
  start: "health_reach \<lparr>hs_monitor = fresh_monitor, hs_inflight = []\<rparr>"
| step: "health_reach y \<Longrightarrow> health_step y y' \<Longrightarrow> health_reach y'"

definition frame_of :: "'o publicRouteTargetHealthState \<Rightarrow> 'o publicRouteTargetHealthConfig \<times> bool \<times> nat" where
  "frame_of s = (st_target s, st_directCheckRunning s, st_directGeneration s)"

definition framed :: "'o publicRouteTargetHealthMonitor \<Rightarrow> 'o publicRouteTargetHealthMonitor \<Rightarrow> bool" where
  \<comment> \<open>same targets, with the same configuration and the same direct checks\<close>
  "framed m m' \<longleftrightarrow> (\<forall>i. map_option frame_of (map_of (hm_states m') i) = map_option frame_of (map_of (hm_states m) i))"

definition token_ok :: "'o publicRouteTargetHealthMonitor \<Rightarrow> int \<times> nat \<times> 'o publicRouteTargetHealthConfig \<Rightarrow> bool" where
  "token_ok m tok \<longleftrightarrow> (case tok of (i, g, c) \<Rightarrow> (case map_option frame_of (map_of (hm_states m) i) of
      None \<Rightarrow> True | Some (t, r, n) \<Rightarrow> g \<le> n \<and> (r \<longrightarrow> n = g \<longrightarrow> t = c)))"

named_theorems health_kept \<open>operations that keep the monitor well formed and its frame\<close>

lemma framed_refl [simp]: "framed m m" by (simp add: framed_def)

lemma framed_trans: "framed a b \<Longrightarrow> framed b c \<Longrightarrow> framed a c" by (simp add: framed_def)

lemma token_ok_framed: "framed m m' \<Longrightarrow> token_ok m' tok = token_ok m tok" by (simp add: framed_def token_ok_def)

lemma put_kept:
  assumes "monitor_wf m" "map_of (hm_states m) i = Some s" "hm_states m' = AList.update i s' (hm_states m)" "frame_of s' = frame_of s" "gm_wf (st_agentStates s')"
  shows "monitor_wf m' \<and> framed m m'"
proof
  have "ht_ID (st_target s') = i" using assms(1,2,4) by (simp add: monitor_wf_def frame_of_def)
  then show "monitor_wf m'" using monitor_wf_put [OF assms(1,3)] assms(5) by simp
  show "framed m m'" using assms(2,3,4) by (simp add: framed_def)
qed

lemma put_agent_facts [simp]:
  "frame_of (put_agent s k a) = frame_of s" "gm_wf (st_agentStates s) \<Longrightarrow> gm_wf (st_agentStates (put_agent s k a))"
  by (simp_all add: put_agent_def frame_of_def)

lemma with_state_kept:
  assumes "monitor_wf m" "\<And>s q. gm_wf (st_agentStates s) \<Longrightarrow> frame_of (fst (f s q)) = frame_of s \<and> gm_wf (st_agentStates (fst (f s q)))"
  shows "monitor_wf (with_state m i f) \<and> framed m (with_state m i f)"
proof (cases "map_of (hm_states m) i")
  case None
  then show ?thesis using assms(1) by (simp add: with_state_def)
next
  case (Some s)
  obtain s' q' where f: "f s (hm_sequence m) = (s', q')" by fastforce
  have "gm_wf (st_agentStates s)" using assms(1) Some by (simp add: monitor_wf_def)
  then have "frame_of s' = frame_of s" "gm_wf (st_agentStates s')" using assms(2) [of s "hm_sequence m"] f by simp_all
  then show ?thesis using Some f by (intro put_kept [OF assms(1) Some]) (simp_all add: with_state_def)
qed

lemma recordAgentConnectedLocked_kept:
  "gm_wf (st_agentStates s) \<Longrightarrow> frame_of (fst (recordAgentConnectedLocked conn s q k public now)) = frame_of s \<and>
     gm_wf (st_agentStates (fst (recordAgentConnectedLocked conn s q k public now)))"
  by (simp add: recordAgentConnectedLocked_def Let_def split: prod.split)

lemma recordAgentDisconnectedLocked_kept:
  "gm_wf (st_agentStates s) \<Longrightarrow> frame_of (fst (recordAgentDisconnectedLocked s q k now)) = frame_of s \<and>
     gm_wf (st_agentStates (fst (recordAgentDisconnectedLocked s q k now)))"
  by (simp add: recordAgentDisconnectedLocked_def Let_def split: prod.split)

lemma recordAgentConnected_kept [health_kept]:
  "monitor_wf m \<Longrightarrow> monitor_wf (recordAgentConnected conn m i k public now) \<and> framed m (recordAgentConnected conn m i k public now)"
  unfolding recordAgentConnected_def by (rule with_state_kept) (simp_all add: recordAgentConnectedLocked_kept)

lemma recordAgentDisconnected_kept [health_kept]:
  "monitor_wf m \<Longrightarrow> monitor_wf (recordAgentDisconnected m i k now) \<and> framed m (recordAgentDisconnected m i k now)"
  unfolding recordAgentDisconnected_def by (rule with_state_kept) (simp_all add: recordAgentDisconnectedLocked_kept)

lemma for_assigned_kept:
  assumes "monitor_wf m" "\<And>s q. gm_wf (st_agentStates s) \<Longrightarrow> frame_of (fst (f s q)) = frame_of s \<and> gm_wf (st_agentStates (fst (f s q)))"
  shows "monitor_wf (for_assigned ord m k f) \<and> framed m (for_assigned ord m k f)"
proof -
  let ?g = "\<lambda>m i. with_state m i (\<lambda>s q. if backendHasAgentAssignment (st_target s) k then f s q else (s, q))"
  have "monitor_wf (foldl ?g m is) \<and> framed m (foldl ?g m is)" for "is"
    using assms(1)
  proof (induction "is" arbitrary: m)
    case (Cons i "is")
    have "monitor_wf (?g m i) \<and> framed m (?g m i)" using assms(2) by (intro with_state_kept [OF Cons.prems]) simp
    then show ?case using Cons.IH [of "?g m i"] framed_trans [of m "?g m i"] by simp
  qed simp
  then show ?thesis by (simp add: for_assigned_def)
qed

lemma recordAgentConnectedForAll_kept [health_kept]:
  "monitor_wf m \<Longrightarrow> monitor_wf (recordAgentConnectedForAll conn ord m k public now) \<and> framed m (recordAgentConnectedForAll conn ord m k public now)"
  by (simp add: recordAgentConnectedForAll_def for_assigned_kept recordAgentConnectedLocked_kept)

lemma recordAgentDisconnectedForAll_kept [health_kept]:
  "monitor_wf m \<Longrightarrow> monitor_wf (recordAgentDisconnectedForAll ord m k now) \<and> framed m (recordAgentDisconnectedForAll ord m k now)"
  by (simp add: recordAgentDisconnectedForAll_def for_assigned_kept recordAgentDisconnectedLocked_kept)

lemma recordAgentExplicitCheck_kept [health_kept]:
  assumes "monitor_wf m"
  shows "monitor_wf (recordAgentExplicitCheck m i k attempt clock) \<and> framed m (recordAgentExplicitCheck m i k attempt clock)"
proof (cases "map_of (hm_states m) i")
  case None
  then show ?thesis using assms by (simp add: recordAgentExplicitCheck_def)
next
  case (Some s)
  have "gm_wf (st_agentStates s)" using assms Some by (simp add: monitor_wf_def)
  then obtain a where a: "hm_states (recordAgentExplicitCheck m i k attempt clock) = AList.update i (put_agent s k a) (hm_states m)"
    using Some by (auto simp: recordAgentExplicitCheck_def Let_def case_prod_beta)
  show ?thesis using \<open>gm_wf (st_agentStates s)\<close> by (intro put_kept [OF assms Some a]) simp_all
qed

lemma recordAgentActiveCheckSkipped_kept [health_kept]:
  assumes "monitor_wf m"
  shows "monitor_wf (recordAgentActiveCheckSkipped m i k kind err now) \<and> framed m (recordAgentActiveCheckSkipped m i k kind err now)"
proof (cases "map_of (hm_states m) i")
  case None
  then show ?thesis using assms by (simp add: recordAgentActiveCheckSkipped_def)
next
  case (Some s)
  have "gm_wf (st_agentStates s)" using assms Some by (simp add: monitor_wf_def)
  then obtain a where a: "hm_states (recordAgentActiveCheckSkipped m i k kind err now) = AList.update i (put_agent s k a) (hm_states m)"
    using Some by (auto simp: recordAgentActiveCheckSkipped_def Let_def case_prod_beta)
  show ?thesis using \<open>gm_wf (st_agentStates s)\<close> by (intro put_kept [OF assms Some a]) simp_all
qed

lemma markPassiveFailure_kept [health_kept]:
  "monitor_wf m \<Longrightarrow> monitor_wf (markPassiveFailure m i e clock) \<and> framed m (markPassiveFailure m i e clock)"
  unfolding markPassiveFailure_def
  by (cases "i \<le> 0") (auto intro!: with_state_kept [THEN conjunct1] with_state_kept [THEN conjunct2] simp: frame_of_def Let_def split: prod.split)

lemma markAgentPassiveFailure_kept [health_kept]:
  "monitor_wf m \<Longrightarrow> monitor_wf (markAgentPassiveFailure m i k e clock) \<and> framed m (markAgentPassiveFailure m i k e clock)"
  unfolding markAgentPassiveFailure_def
  by (cases "i \<le> 0 \<or> k \<le> 0") (auto intro!: with_state_kept [THEN conjunct1] with_state_kept [THEN conjunct2] simp: Let_def split: prod.split option.split)

lemma endRequest_kept [health_kept]: "monitor_wf m \<Longrightarrow> monitor_wf (endRequest m c) \<and> framed m (endRequest m c)"
  by (simp add: endRequest_def monitor_wf_def framed_def split: option.split)

lemma recordDirect_kept [health_kept]:
  assumes "monitor_wf m"
  shows "monitor_wf (recordDirectExplicitCheckForGeneration m i g attempt clock) \<and> framed m (recordDirectExplicitCheckForGeneration m i g attempt clock)"
proof (cases "live_generation m i g")
  case None
  then show ?thesis using assms by (simp add: recordDirectExplicitCheckForGeneration_def)
next
  case (Some s)
  then have s: "map_of (hm_states m) i = Some s" by (auto simp: live_generation_def split: option.splits if_splits)
  obtain s' where s': "hm_states (recordDirectExplicitCheckForGeneration m i g attempt clock) = AList.update i s' (hm_states m)" "frame_of s' = frame_of s"
    "st_agentStates s' = st_agentStates s"
    using Some by (auto simp: recordDirectExplicitCheckForGeneration_def recordDirectExplicitCheckLocked_def frame_of_def Let_def case_prod_beta)
  have "gm_wf (st_agentStates s')" using assms s s'(3) by (simp add: monitor_wf_def)
  then show ?thesis by (rule put_kept [OF assms s s'(1,2)])
qed

lemma reconcile_kept:
  assumes "monitor_wf m" "distinct (map ht_ID ts)"
  shows "monitor_wf (fst (hm_reconcile m (Some ts) active))"
    and "token_ok m (i, g, c) \<Longrightarrow> i \<in> ht_ID ` set ts \<longrightarrow> i \<in> gm_keys (hm_states m) \<Longrightarrow> token_ok (fst (hm_reconcile m (Some ts) active)) (i, g, c)"
proof -
  let ?m = "m\<lparr>hm_states := filter (\<lambda>(i, s). i \<in> set (map ht_ID ts)) (hm_states m)\<rparr>"
  obtain m' loops where r: "reconcile_targets active ?m ts = (m', loops)" by fastforce
  then have m': "fst (hm_reconcile m (Some ts) active) = m'" by (simp add: hm_reconcile_def)
  note K = reconcile_targets_facts [OF r monitor_wf_filter [OF assms(1)] assms(2), unfolded map_of_kept [OF assms(1)]]
  then show "monitor_wf (fst (hm_reconcile m (Some ts) active))" unfolding m' by (elim conjE)
  assume tok: "token_ok m (i, g, c)" and here: "i \<in> ht_ID ` set ts \<longrightarrow> i \<in> gm_keys (hm_states m)"
  show "token_ok (fst (hm_reconcile m (Some ts) active)) (i, g, c)"
  proof (cases "i \<in> ht_ID ` set ts")
    case False
    then have "map_of (hm_states m') i = None" using K by simp
    then show ?thesis by (simp add: m' token_ok_def)
  next
    case True
    then obtain t where t: "t \<in> set ts" "i = ht_ID t" by blast
    obtain f where f: "\<forall>t \<in> set ts. \<exists>s. map_of (hm_states m') (ht_ID t) = Some s \<and>
        reconciled active (if ht_ID t \<in> ht_ID ` set ts then map_of (hm_states m) (ht_ID t) else None) t s (f t)"
      using K by (elim conjE exE) (rule that)
    then obtain s where s: "map_of (hm_states m') i = Some s" "reconciled active (map_of (hm_states m) i) t s (f t)" using t by auto
    obtain o' where o': "map_of (hm_states m) i = Some o'" using here True by (metis map_of_eq_None_iff not_None_eq)
    note R = reconciled_state(1,7,8) [OF s(2)]
    show ?thesis using tok R(1) R(2) [OF o'] R(3) [OF o'] by (auto simp: m' token_ok_def frame_of_def s(1) o')
  qed
qed

lemma beginRequest_kept:
  assumes "monitor_wf m"
  shows "monitor_wf (snd (beginRequest z m i)) \<and> (\<forall>j. j \<noteq> i \<or> i \<in> gm_keys (hm_states m) \<longrightarrow> map_of (hm_states (snd (beginRequest z m i))) j = map_of (hm_states m) j)"
proof (cases "map_of (hm_states m) i")
  case None
  then have "i \<notin> gm_keys (hm_states m)" by (simp add: map_of_eq_None_iff)
  moreover have "monitor_wf (snd (beginRequest z m i))" if pos: "i > 0"
  proof -
    obtain s where s: "hm_states (snd (beginRequest z m i)) = AList.update i s (hm_states m)" "ht_ID (st_target s) = i" "st_agentStates s = []"
      using pos None by (auto simp: beginRequest_def ensureStateLocked_def newPublicRouteTargetHealthState_def Let_def)
    show ?thesis using s(3) by (intro monitor_wf_put [OF assms s(1,2)]) simp
  qed
  ultimately show ?thesis using assms None by (cases "i \<le> 0") (auto simp: beginRequest_def ensureStateLocked_def Let_def)
next
  case (Some s)
  then show ?thesis using assms by (simp add: beginRequest_def ensureStateLocked_def monitor_wf_def Let_def)
qed

lemma live_generation_frame:
  "live_generation m i g = Some s \<longleftrightarrow> map_of (hm_states m) i = Some s \<and> st_directCheckRunning s \<and> st_directGeneration s = g"
  by (auto simp: live_generation_def split: option.split if_splits)

lemma health_reach_tokens:
  "health_reach y \<Longrightarrow> monitor_wf (hs_monitor y) \<and> (\<forall>tok \<in> set (hs_inflight y). token_ok (hs_monitor y) tok)"
proof (induction rule: health_reach.induct)
  case start
  then show ?case by (simp add: monitor_wf_def fresh_monitor_def)
next
  case (step y y')
  then have wf: "monitor_wf (hs_monitor y)" and ok: "\<And>tok. tok \<in> set (hs_inflight y) \<Longrightarrow> token_ok (hs_monitor y) tok" by blast+
  have kept: "monitor_wf m' \<and> (\<forall>tok \<in> set toks. token_ok m' tok)"
    if "monitor_wf m' \<and> framed (hs_monitor y) m'" "set toks \<subseteq> set (hs_inflight y)" for m' toks
    using that ok token_ok_framed [of "hs_monitor y" m'] by blast
  note same = kept [OF _ subset_refl]
  from step.hyps(2) show ?case
  proof (cases rule: health_step.cases)
    case (reconcile ts active)
    have "token_ok (fst (hm_reconcile (hs_monitor y) (Some ts) active)) tok" if "tok \<in> set (hs_inflight y)" for tok
    proof (cases tok)
      case (fields i g c)
      then have "i \<in> in_flight y" using that by force
      then show ?thesis using reconcile_kept(2) [OF wf reconcile(2), of i g c active] ok [OF that] reconcile(3) unfolding fields by blast
    qed
    then show ?thesis using reconcile_kept(1) [OF wf reconcile(2)] by (simp add: reconcile(1))
  next
    case shut_down
    then show ?thesis by (simp add: hm_reconcile_def monitor_wf_def token_ok_def split: prod.split)
  next
    case (begin_check i g c)
    then have "token_ok (hs_monitor y) (i, g, c)"
      by (auto simp: directCheckForGeneration_def live_generation_frame token_ok_def frame_of_def)
    then show ?thesis using wf ok by (simp add: begin_check(1))
  next
    case (end_check i g c attempt clock)
    show ?thesis unfolding end_check(1) health_sys.simps by (rule kept [OF recordDirect_kept [OF wf] set_remove1_subset])
  next
    case (begin_request i z)
    have "token_ok (snd (beginRequest z (hs_monitor y) i)) tok" if "tok \<in> set (hs_inflight y)" for tok
    proof (cases tok)
      case (fields j g c)
      then have "j \<in> in_flight y" using that by force
      then have "map_of (hm_states (snd (beginRequest z (hs_monitor y) i))) j = map_of (hm_states (hs_monitor y)) j"
        using beginRequest_kept [OF wf, of z i] begin_request(2) by (cases "j = i") simp_all
      then show ?thesis using ok [OF that] by (simp add: token_ok_def fields)
    qed
    then show ?thesis using beginRequest_kept [OF wf, of z i] by (simp add: begin_request(1))
  qed (simp, rule same, rule health_kept [OF wf])+
qed


definition sample_stale :: "unit health_sys" where
  \<comment> \<open>a check of target 1 is in flight when the target gets another name\<close>
  "sample_stale =
     \<lparr>hs_monitor = fst (hm_reconcile (fst (hm_reconcile fresh_monitor (Some [sample_target 1 ''direct'']) True)) (Some [(sample_target 1 ''direct'')\<lparr>ht_Name := ''b''\<rparr>]) True),
      hs_inflight = [(1, 1, sample_target 1 ''direct'')]\<rparr>"

lemma sample_stale_reach: "health_reach sample_stale"
proof -
  let ?c = "sample_target 1 ''direct''"
  let ?m = "fst (hm_reconcile fresh_monitor (Some [?c]) True)"
  let ?y0 = "\<lparr>hs_monitor = fresh_monitor, hs_inflight = []\<rparr>"
  have "health_step ?y0 (?y0\<lparr>hs_monitor := ?m\<rparr>)" using health_step.reconcile [of "[?c]" ?y0 True] by simp
  then have r1: "health_reach \<lparr>hs_monitor = ?m, hs_inflight = []\<rparr>" using health_reach.step [OF health_reach.start] by simp
  have "directCheckForGeneration ?m 1 1 = Some ?c" by code_simp
  then have "health_step \<lparr>hs_monitor = ?m, hs_inflight = []\<rparr> \<lparr>hs_monitor = ?m, hs_inflight = [(1, 1, ?c)]\<rparr>"
    using health_step.begin_check [of "\<lparr>hs_monitor = ?m, hs_inflight = []\<rparr>" 1 1 ?c] by simp
  then have r2: "health_reach \<lparr>hs_monitor = ?m, hs_inflight = [(1, 1, ?c)]\<rparr>" by (rule health_reach.step [OF r1])
  have "gm_keys (hm_states ?m) = {1}" by code_simp
  then have "health_step \<lparr>hs_monitor = ?m, hs_inflight = [(1, 1, ?c)]\<rparr> sample_stale"
    using health_step.reconcile [of "[?c\<lparr>ht_Name := ''b''\<rparr>]" "\<lparr>hs_monitor = ?m, hs_inflight = [(1, 1, ?c)]\<rparr>" True] by (simp add: sample_stale_def)
  then show ?thesis by (rule health_reach.step [OF r2])
qed


text \<open>The generation restarts when a target is removed and configured again. A check of the old configuration \<^term>\<open>c\<close> that is still in flight then has the number
  of the running checks of the new configuration \<^term>\<open>d\<close>, and its failure is counted against \<^term>\<open>d\<close>.\<close>

lemma readded_target_takes_stale_result:
  assumes "ht_ID d = ht_ID c" "should_run_direct True c" "should_run_direct True d"
    "m1 = fst (hm_reconcile fresh_monitor (Some [c]) True)" "m2 = fst (hm_reconcile m1 (Some []) True)" "m3 = fst (hm_reconcile m2 (Some [d]) True)"
  shows "directCheckForGeneration m1 (ht_ID c) 1 = Some c \<and> directCheckForGeneration m2 (ht_ID c) 1 = None \<and>
    (\<exists>s. map_of (hm_states (recordDirectExplicitCheckForGeneration m3 (ht_ID c) 1 (plain_attempt ''unexpected_status'' (Some e)) clock)) (ht_ID c) = Some s \<and>
       st_target s = d \<and> unhealthyStreak (st_direct s) = 1)"
proof -
  obtain t1 t2 t3 where clock: "clock = (t1, t2, t3)" by (cases clock)
  have hc: "hc_Enabled (ht_HealthCheck c)" "hc_Enabled (ht_HealthCheck d)" "\<not> should_run_agents True c" "\<not> should_run_agents True d"
    using assms(2,3) by (simp_all add: should_run_direct_def should_run_agents_def)
  have m1: "directCheckForGeneration m1 (ht_ID c) 1 = Some c"
    using assms(2) hc by (simp add: assms(4) hm_reconcile_def reconcile_target_def fresh_monitor_def reconcile_direct_def reconcile_agents_def
      newPublicRouteTargetHealthState_def directCheckForGeneration_def live_generation_def Let_def)
  have m2: "hm_states m2 = []" by (simp add: assms(5) hm_reconcile_def filter_False)
  have "\<exists>s. map_of (hm_states m3) (ht_ID c) = Some s \<and> st_target s = d \<and> st_directCheckRunning s \<and> st_directGeneration s = 1 \<and>
      st_direct s = unknownPublicRouteTargetCheckState"
    using assms(1,3) hc m2 by (simp add: assms(6) hm_reconcile_def reconcile_target_def reconcile_direct_def reconcile_agents_def
      newPublicRouteTargetHealthState_def Let_def)
  then obtain s where s: "map_of (hm_states m3) (ht_ID c) = Some s" "st_target s = d" "st_directCheckRunning s" "st_directGeneration s = 1"
    "st_direct s = unknownPublicRouteTargetCheckState" by blast
  then have "live_generation m3 (ht_ID c) 1 = Some s" by (simp add: live_generation_frame)
  then show ?thesis using m1 m2 s
    by (simp add: directCheckForGeneration_def live_generation_def recordDirectExplicitCheckForGeneration_def recordDirectExplicitCheckLocked_def traced_check_def
      clock plain_attempt_def recordPublicRouteTargetCheckResult_def unknownPublicRouteTargetCheckState_def Let_def split: prod.split)
qed

lemma readded_target_takes_stale_result_example:
  "\<exists>m s. map_of (hm_states (recordDirectExplicitCheckForGeneration m 1 1 (plain_attempt ''unexpected_status'' (Some ''500'')) (0, 0, 0))) 1 = Some s \<and>
     st_target s = (sample_target 1 ''direct'')\<lparr>ht_Name := ''b''\<rparr> \<and> unhealthyStreak (st_direct s) = 1"
proof -
  let ?c = "sample_target 1 ''direct''"
  have i: "ht_ID (?c\<lparr>ht_Name := ''b''\<rparr>) = ht_ID ?c" "ht_ID ?c = 1" by (simp_all add: sample_target_def)
  have "should_run_direct True ?c" "should_run_direct True (?c\<lparr>ht_Name := ''b''\<rparr>)" by code_simp+
  from readded_target_takes_stale_result [OF i(1) this refl refl refl, of "''500''" "(0, 0, 0)"] show ?thesis unfolding i(2) by blast
qed

section \<open>Traces are bounded and ordered\<close>

definition traces_ok :: "nat \<Rightarrow> health_trace list \<Rightarrow> bool" where
  "traces_ok n ts \<longleftrightarrow> length ts \<le> publicRouteTargetHealthTraceLimitPerTarget \<and> sorted_wrt (<) (map tr_Sequence ts) \<and> (\<forall>t \<in> set ts. tr_Sequence t \<le> n)"

definition state_traces_ok :: "nat \<Rightarrow> 'o publicRouteTargetHealthState \<Rightarrow> bool" where
  "state_traces_ok n s \<longleftrightarrow> traces_ok n (st_directTraces s) \<and> (\<forall>k a. map_of (st_agentStates s) k = Some a \<longrightarrow> traces_ok n (ag_traces a))"

definition monitor_traces_ok :: "'o publicRouteTargetHealthMonitor \<Rightarrow> bool" where
  "monitor_traces_ok m \<longleftrightarrow> (\<forall>i s. map_of (hm_states m) i = Some s \<longrightarrow> state_traces_ok (hm_sequence m) s)"

named_theorems health_traced \<open>operations that keep the traces bounded and ordered\<close>

lemma traces_ok_Nil [simp]: "traces_ok n []" by (simp add: traces_ok_def)

lemma traces_ok_mono: "traces_ok n ts \<Longrightarrow> n \<le> n' \<Longrightarrow> traces_ok n' ts" by (auto simp: traces_ok_def)

lemma state_traces_ok_mono: "state_traces_ok n s \<Longrightarrow> n \<le> n' \<Longrightarrow> state_traces_ok n' s" unfolding state_traces_ok_def using traces_ok_mono by blast

lemma traces_ok_append:
  assumes "traces_ok n ts" "tr_Sequence t = Suc n"
  shows "traces_ok (Suc n) (appendHealthTraceLocked ts t)"
proof -
  have s: "sorted_wrt (<) (map tr_Sequence (ts @ [t]))" "\<forall>x \<in> set (ts @ [t]). tr_Sequence x \<le> Suc n"
    using assms by (auto simp: traces_ok_def sorted_wrt_append less_Suc_eq_le)
  let ?d = "length (ts @ [t]) - publicRouteTargetHealthTraceLimitPerTarget"
  have "sorted_wrt (<) (drop ?d (map tr_Sequence (ts @ [t])))" by (rule sorted_wrt_drop [OF s(1)])
  moreover have "set (drop ?d (ts @ [t])) \<subseteq> set (ts @ [t])" by (rule set_drop_subset)
  moreover have "length (drop ?d (ts @ [t])) \<le> publicRouteTargetHealthTraceLimitPerTarget" by simp
  ultimately have "traces_ok (Suc n) (drop ?d (ts @ [t]))" unfolding traces_ok_def drop_map using s(2) by blast
  moreover have "appendHealthTraceLocked ts t = drop ?d (ts @ [t])" by (simp add: appendHealthTraceLocked_def Let_def del: append_Cons drop_append)
  ultimately show ?thesis by simp
qed

lemma newHealthTraceLocked_sequence [simp]:
  "tr_Sequence (fst (newHealthTraceLocked n t source attempt a b)) = Suc n" "snd (newHealthTraceLocked n t source attempt a b) = Suc n"
  by (simp_all add: newHealthTraceLocked_def Let_def)

lemma ensureAgent_traces_ok: "state_traces_ok n s \<Longrightarrow> traces_ok n (ag_traces (ensureAgentStateLocked s k))"
  by (simp add: ensureAgentStateLocked_def new_agent_state_def state_traces_ok_def split: option.split)

lemma put_agent_traces_ok: "state_traces_ok n s \<Longrightarrow> n \<le> n' \<Longrightarrow> traces_ok n' (ag_traces a) \<Longrightarrow> state_traces_ok n' (put_agent s k a)"
  using state_traces_ok_mono [of n s n'] by (simp add: state_traces_ok_def put_agent_def)

lemma put_traced:
  assumes "monitor_traces_ok m" "hm_states m' = AList.update i s (hm_states m)" "hm_sequence m \<le> hm_sequence m'" "state_traces_ok (hm_sequence m') s"
  shows "monitor_traces_ok m'"
proof -
  have "state_traces_ok (hm_sequence m') t" if "map_of (hm_states m) j = Some t" for j t
    using assms(1) that state_traces_ok_mono [OF _ assms(3), of t] by (simp add: monitor_traces_ok_def)
  then show ?thesis using assms(2,4) by (simp add: monitor_traces_ok_def)
qed

definition keeps_traces :: "('o publicRouteTargetHealthState \<Rightarrow> nat \<Rightarrow> 'o publicRouteTargetHealthState \<times> nat) \<Rightarrow> bool" where
  "keeps_traces f \<longleftrightarrow> (\<forall>s q. state_traces_ok q s \<longrightarrow> q \<le> snd (f s q) \<and> state_traces_ok (snd (f s q)) (fst (f s q)))"

lemma with_state_traced:
  assumes "monitor_traces_ok m" "keeps_traces f"
  shows "monitor_traces_ok (with_state m i f)"
proof (cases "map_of (hm_states m) i")
  case None
  then show ?thesis using assms(1) by (simp add: with_state_def)
next
  case (Some s)
  have "state_traces_ok (hm_sequence m) s" using assms(1) Some by (simp add: monitor_traces_ok_def)
  then have "hm_sequence m \<le> snd (f s (hm_sequence m))" "state_traces_ok (snd (f s (hm_sequence m))) (fst (f s (hm_sequence m)))"
    using assms(2) by (simp_all add: keeps_traces_def)
  then show ?thesis using Some by (intro put_traced [OF assms(1), where i = i]) (simp_all add: with_state_def case_prod_beta)
qed

lemma connected_keeps_traces: "keeps_traces (\<lambda>s q. recordAgentConnectedLocked conn s q k public now)"
  unfolding keeps_traces_def
  by (auto simp: recordAgentConnectedLocked_def Let_def case_prod_beta intro!: put_agent_traces_ok traces_ok_append ensureAgent_traces_ok)

lemma disconnected_keeps_traces: "keeps_traces (\<lambda>s q. recordAgentDisconnectedLocked s q k now)"
  unfolding keeps_traces_def
  by (auto simp: recordAgentDisconnectedLocked_def Let_def case_prod_beta intro!: put_agent_traces_ok traces_ok_append ensureAgent_traces_ok)

lemma for_assigned_traced:
  assumes "monitor_traces_ok m" "keeps_traces f"
  shows "monitor_traces_ok (for_assigned ord m k f)"
proof -
  let ?g = "\<lambda>s q. if backendHasAgentAssignment (st_target s) k then f s q else (s, q)"
  have g: "keeps_traces ?g" using assms(2) by (simp add: keeps_traces_def)
  have "monitor_traces_ok (foldl (\<lambda>m i. with_state m i ?g) m is)" for "is"
    using assms(1) by (induction "is" arbitrary: m) (simp_all add: with_state_traced [OF _ g])
  then show ?thesis by (simp add: for_assigned_def)
qed

lemma connectivity_traced [health_traced]:
  assumes "monitor_traces_ok m"
  shows "monitor_traces_ok (recordAgentConnected conn m i k public now)" "monitor_traces_ok (recordAgentDisconnected m i k now)"
    "monitor_traces_ok (recordAgentConnectedForAll conn ord m k public now)" "monitor_traces_ok (recordAgentDisconnectedForAll ord m k now)"
  using assms by (simp_all add: recordAgentConnected_def recordAgentDisconnected_def recordAgentConnectedForAll_def recordAgentDisconnectedForAll_def
    with_state_traced connected_keeps_traces disconnected_keeps_traces for_assigned_traced)

lemma state_traces_ok_direct [simp]: "state_traces_ok q (s\<lparr>st_direct := c\<rparr>) = state_traces_ok q s"
  by (simp add: state_traces_ok_def)

lemma direct_traces_ok:
  "state_traces_ok q s \<Longrightarrow> tr_Sequence t = Suc q \<Longrightarrow>
     state_traces_ok (Suc q) (s\<lparr>st_direct := c, st_directTraces := appendHealthTraceLocked (st_directTraces s) t\<rparr>)"
  using state_traces_ok_mono [of q s "Suc q"] traces_ok_append [of q "st_directTraces s" t] by (simp add: state_traces_ok_def)

lemma passive_check_sequence [simp]:
  "tr_Sequence (snd (fst (passive_check q s c k pid err clock))) = Suc q" "snd (passive_check q s c k pid err clock) = Suc q"
  by (simp_all add: passive_check_def Let_def case_prod_beta)

lemma passive_traced [health_traced]:
  assumes "monitor_traces_ok m"
  shows "monitor_traces_ok (markPassiveFailure m i e clock)" "monitor_traces_ok (markAgentPassiveFailure m i k e clock)"
proof -
  have "keeps_traces (\<lambda>s q. if \<not> health_on s then (s\<lparr>st_direct := unknownPublicRouteTargetCheckState\<rparr>, q)
        else let ((check, trace), q') = passive_check q s (st_direct s) 0 '''' e clock
             in (s\<lparr>st_direct := check, st_directTraces := appendHealthTraceLocked (st_directTraces s) trace\<rparr>, q'))"
    unfolding keeps_traces_def by (simp add: Let_def case_prod_beta direct_traces_ok)
  from with_state_traced [OF assms this, of i] show "monitor_traces_ok (markPassiveFailure m i e clock)" unfolding markPassiveFailure_def using assms by simp
  have "keeps_traces (\<lambda>s q. if \<not> health_on s then (case map_of (st_agentStates s) k of None \<Rightarrow> (s, q)
           | Some a \<Rightarrow> (put_agent s k (a\<lparr>ag_state := unknownPublicRouteTargetCheckState\<rparr>), q))
        else let a = ensureAgentStateLocked s k; ((check, trace), q') = passive_check q s (ag_state a) k (ag_agentPublicID a) e clock
             in (put_agent s k (a\<lparr>ag_state := check, ag_traces := appendHealthTraceLocked (ag_traces a) trace\<rparr>), q'))"
    unfolding keeps_traces_def
    by (auto simp: Let_def case_prod_beta state_traces_ok_def [THEN iffD1] intro!: put_agent_traces_ok traces_ok_append ensureAgent_traces_ok split: option.split)
  from with_state_traced [OF assms this, of i] show "monitor_traces_ok (markAgentPassiveFailure m i k e clock)" unfolding markAgentPassiveFailure_def using assms by simp
qed

lemma traced_check_sequence:
  assumes "traces_ok q ts" "traced_check q s c ts attempt clock = ((c', ts'), q')"
  shows "q' = Suc q" "\<exists>t. ts' = appendHealthTraceLocked ts t \<and> tr_Sequence t = Suc q"
  using assms by (auto simp: traced_check_def Let_def case_prod_beta)

lemma explicit_check_traced [health_traced]:
  assumes "monitor_traces_ok m"
  shows "monitor_traces_ok (recordDirectExplicitCheckForGeneration m i g attempt clock)" "monitor_traces_ok (recordAgentExplicitCheck m i k attempt clock)"
    "monitor_traces_ok (recordAgentActiveCheckSkipped m i k kind err now)"
proof -
  have ok: "state_traces_ok (hm_sequence m) s" if "map_of (hm_states m) i = Some s" for s using assms that by (simp add: monitor_traces_ok_def)
  show "monitor_traces_ok (recordDirectExplicitCheckForGeneration m i g attempt clock)"
  proof (cases "live_generation m i g")
    case None
    then show ?thesis using assms by (simp add: recordDirectExplicitCheckForGeneration_def)
  next
    case (Some s)
    then have s: "state_traces_ok (hm_sequence m) s" using ok by (simp add: live_generation_frame)
    obtain c ts q where c: "traced_check (hm_sequence m) s (st_direct s) (st_directTraces s) attempt clock = ((c, ts), q)" by (metis prod.exhaust)
    have t: "traces_ok (hm_sequence m) (st_directTraces s)" using s by (simp add: state_traces_ok_def)
    note S = traced_check_sequence [OF t c]
    have "state_traces_ok (Suc (hm_sequence m)) (s\<lparr>st_direct := c, st_directTraces := ts\<rparr>)" using S(2) direct_traces_ok [OF s] by blast
    then show ?thesis using Some c S(1)
      by (intro put_traced [OF assms, of _ i "s\<lparr>st_direct := c, st_directTraces := ts\<rparr>"])
        (simp_all add: recordDirectExplicitCheckForGeneration_def recordDirectExplicitCheckLocked_def)
  qed
  show "monitor_traces_ok (recordAgentExplicitCheck m i k attempt clock)"
  proof (cases "map_of (hm_states m) i")
    case None
    then show ?thesis using assms by (simp add: recordAgentExplicitCheck_def)
  next
    case (Some s)
    let ?a = "ensureAgentStateLocked s k"
    let ?at = "attempt\<lparr>at_AgentID := (if at_AgentID attempt = 0 then k else at_AgentID attempt),
                at_AgentPublicID := (if at_AgentPublicID attempt = '''' then ag_agentPublicID ?a else at_AgentPublicID attempt)\<rparr>"
    obtain c ts q where c: "traced_check (hm_sequence m) s (ag_state ?a) (ag_traces ?a) ?at clock = ((c, ts), q)" by (metis prod.exhaust)
    note t = ensureAgent_traces_ok [OF ok [OF Some], of k]
    note S = traced_check_sequence [OF t c]
    have "traces_ok (Suc (hm_sequence m)) ts" using S(2) traces_ok_append [OF t] by blast
    then have "state_traces_ok (Suc (hm_sequence m)) (put_agent s k (?a\<lparr>ag_state := c, ag_traces := ts\<rparr>))" by (intro put_agent_traces_ok [OF ok [OF Some]]) simp_all
    then show ?thesis using Some c S(1)
      by (intro put_traced [OF assms, of _ i "put_agent s k (?a\<lparr>ag_state := c, ag_traces := ts\<rparr>)"]) (simp_all add: recordAgentExplicitCheck_def Let_def)
  qed
  show "monitor_traces_ok (recordAgentActiveCheckSkipped m i k kind err now)"
  proof (cases "map_of (hm_states m) i")
    case None
    then show ?thesis using assms by (simp add: recordAgentActiveCheckSkipped_def)
  next
    case (Some s)
    have "monitor_traces_ok (m\<lparr>hm_sequence := Suc (hm_sequence m), hm_states := AList.update i (put_agent s k a) (hm_states m)\<rparr>)"
      if "traces_ok (Suc (hm_sequence m)) (ag_traces a)" for a
      using that by (intro put_traced [OF assms, of _ i "put_agent s k a"]) (simp_all add: put_agent_traces_ok [OF ok [OF Some]])
    then show ?thesis using Some by (simp add: recordAgentActiveCheckSkipped_def Let_def case_prod_beta traces_ok_append ensureAgent_traces_ok [OF ok [OF Some]])
  qed
qed

lemma requests_traced [health_traced]:
  "monitor_traces_ok m \<Longrightarrow> monitor_traces_ok (endRequest m c)"
  by (simp add: endRequest_def monitor_traces_ok_def split: option.split)

lemma beginRequest_traced: "monitor_traces_ok m \<Longrightarrow> monitor_traces_ok (snd (beginRequest z m i))"
  by (auto simp: beginRequest_def ensureStateLocked_def newPublicRouteTargetHealthState_def monitor_traces_ok_def state_traces_ok_def Let_def split: option.split)

lemma start_agents_traces:
  "start_agents i xs agents = (agents', loops) \<Longrightarrow> (\<And>k a. map_of agents k = Some a \<Longrightarrow> traces_ok n (ag_traces a)) \<Longrightarrow>
     map_of agents' k = Some a \<Longrightarrow> traces_ok n (ag_traces a)"
proof (induction xs arbitrary: agents agents' loops)
  case (Cons x xs)
  show ?case
  proof (cases "aa_Enabled x")
    case False
    then show ?thesis using Cons by simp
  next
    case True
    let ?a = "case map_of agents (aa_AgentID x) of Some a \<Rightarrow> a | None \<Rightarrow> new_agent_state"
    have new: "traces_ok n (ag_traces ?a)" using Cons.prems(2) by (simp add: new_agent_state_def split: option.split)
    obtain m' l' where r: "start_agents i xs (AList.update (aa_AgentID x) (?a\<lparr>ag_checkRunning := True\<rparr>) agents) = (m', l')" by fastforce
    then have "agents' = m'" using Cons.prems(1) True by (auto simp: Let_def)
    show ?thesis
    proof (rule Cons.IH [OF r])
      fix j b
      assume "map_of (AList.update (aa_AgentID x) (?a\<lparr>ag_checkRunning := True\<rparr>) agents) j = Some b"
      then show "traces_ok n (ag_traces b)" using Cons.prems(2) [of j b] new by (auto split: if_splits)
    qed (use Cons.prems(3) \<open>agents' = m'\<close> in simp)
  qed
qed simp

lemma reconcile_target_traced:
  assumes "reconcile_target active m t = (m', loops)" "monitor_wf m" "monitor_traces_ok m"
  shows "monitor_traces_ok m' \<and> hm_sequence m' = hm_sequence m"
proof -
  let ?old = "map_of (hm_states m) (ht_ID t)"
  let ?n = "hm_sequence m"
  define s0 where "s0 = (case ?old of Some s \<Rightarrow> s | None \<Rightarrow> newPublicRouteTargetHealthState (length (hm_counters m)) t)"
  obtain s1 l1 where d: "reconcile_direct active s0 t = (s1, l1)" by (cases "reconcile_direct active s0 t")
  obtain agents l where r: "(if should_run_agents active t then start_agents (ht_ID t) (ht_AgentAssignments t) (st_agentStates s1) else (st_agentStates s1, [])) = (agents, l)"
    by fastforce
  define s2 where "s2 = s1\<lparr>st_agentStates := filter (\<lambda>(k, a). k \<in> set (desired_agents active t)) agents\<rparr>"
  have t1: "st_target s1 = t" by (rule reconcile_direct_facts(1) [OF d])
  then have a: "reconcile_agents active s1 = (s2, l)" using r by (simp add: reconcile_agents_def s2_def)
  define s3 where "s3 = (if hc_Enabled (ht_HealthCheck t) then s2 else clearHealthStateLocked s2)"
  have eq: "hm_states m' = AList.update (ht_ID t) s3 (hm_states m)" "hm_sequence m' = ?n"
    using assms(1) d a by (auto simp: reconcile_target_def s0_def s3_def Let_def split: option.splits)
  have ok0: "state_traces_ok ?n s0" and wf0: "gm_wf (st_agentStates s0)"
    using assms(2,3) by (auto simp: s0_def monitor_wf_def monitor_traces_ok_def state_traces_ok_def newPublicRouteTargetHealthState_def split: option.splits)
  have s1: "st_agentStates s1 = st_agentStates s0" "st_directTraces s1 = st_directTraces s0"
    using d by (auto simp: reconcile_direct_def stopDirectLocked_def Let_def split: if_splits)
  have ag: "traces_ok ?n (ag_traces x)" if "map_of agents k = Some x" for k x
  proof (cases "should_run_agents active t")
    case True
    then have st: "start_agents (ht_ID t) (ht_AgentAssignments t) (st_agentStates s1) = (agents, l)" using r by simp
    show ?thesis by (rule start_agents_traces [OF st _ that]) (use ok0 s1 in \<open>simp add: state_traces_ok_def\<close>)
  next
    case False
    then show ?thesis using r that ok0 s1 by (simp add: state_traces_ok_def)
  qed
  have wf: "gm_wf agents"
  proof (cases "should_run_agents active t")
    case True
    then show ?thesis using r start_agents_facts(1) [of "ht_ID t" "ht_AgentAssignments t" "st_agentStates s1" agents l] wf0 s1 by simp
  next
    case False
    then show ?thesis using r wf0 s1 by simp
  qed
  have "state_traces_ok ?n s2" using ok0 s1 ag by (auto simp: state_traces_ok_def s2_def map_of_filter [OF wf] split: option.splits if_splits)
  then have "state_traces_ok ?n s3" by (auto simp: s3_def state_traces_ok_def clearHealthStateLocked_def map_of_map comp_def case_prod_beta)
  then show ?thesis using put_traced [OF assms(3) eq(1)] eq(2) by simp
qed

lemma reconcile_traced:
  assumes "monitor_wf m" "monitor_traces_ok m" "distinct (map ht_ID ts)"
  shows "monitor_traces_ok (fst (hm_reconcile m (Some ts) active))"
proof -
  have loop: "monitor_traces_ok (fst (reconcile_targets active m ts))" if "monitor_wf m" "monitor_traces_ok m" for m
    using that
  proof (induction ts arbitrary: m)
    case (Cons t ts)
    obtain m1 l1 where h: "reconcile_target active m t = (m1, l1)" by (cases "reconcile_target active m t")
    obtain s where s: "hm_states m1 = AList.update (ht_ID t) s (hm_states m)" "reconciled active (map_of (hm_states m) (ht_ID t)) t s l1"
      using reconcile_target_facts [OF h Cons.prems(1)] by (elim exE conjE)
    have "monitor_wf m1" using monitor_wf_put [OF Cons.prems(1) s(1)] reconciled_state(1,2) [OF s(2)] by simp
    then show ?case using Cons.IH reconcile_target_traced [OF h Cons.prems] h by (simp add: case_prod_beta)
  qed simp
  have "monitor_traces_ok (m\<lparr>hm_states := filter (\<lambda>(i, s). i \<in> set (map ht_ID ts)) (hm_states m)\<rparr>)"
    unfolding monitor_traces_ok_def map_of_kept [OF assms(1)] using assms(2) by (simp add: monitor_traces_ok_def)
  then show ?thesis using loop [OF monitor_wf_filter [OF assms(1)]] by (simp add: hm_reconcile_def)
qed

lemma health_reach_traced: "health_reach y \<Longrightarrow> monitor_traces_ok (hs_monitor y)"
proof (induction rule: health_reach.induct)
  case start
  then show ?case by (simp add: monitor_traces_ok_def fresh_monitor_def)
next
  case (step y y')
  have wf: "monitor_wf (hs_monitor y)" using health_reach_tokens [OF step.hyps(1)] by blast
  from step.hyps(2) show ?case
  proof (cases rule: health_step.cases)
    case (reconcile ts active)
    then show ?thesis using reconcile_traced [OF wf step.IH] by simp
  next
    case shut_down
    then show ?thesis by (simp add: hm_reconcile_def monitor_traces_ok_def)
  next
    case (begin_request i z)
    then show ?thesis using beginRequest_traced [OF step.IH] by simp
  qed (use step.IH in \<open>simp_all add: health_traced\<close>)
qed

text \<open>C24: the monitor stays well formed. In every reachable state each target and each agent of a target has one entry, stored under its own id; every target and every
  agent keeps at most 100 traces, in the order in which they were numbered, with numbers no larger than the last one given out. Type.\<close>
theorem health_monitor_well_formed:
  assumes "health_reach y" "map_of (hm_states (hs_monitor y)) i = Some s"
  shows "gm_wf (hm_states (hs_monitor y)) \<and> ht_ID (st_target s) = i \<and> gm_wf (st_agentStates s) \<and>
    (\<forall>ts \<in> insert (st_directTraces s) (ag_traces ` snd ` set (st_agentStates s)). length ts \<le> 100 \<and> sorted_wrt (<) (map tr_Sequence ts) \<and>
       (\<forall>t \<in> set ts. tr_Sequence t \<le> hm_sequence (hs_monitor y)))"
proof -
  have wf: "gm_wf (hm_states (hs_monitor y))" "ht_ID (st_target s) = i" "gm_wf (st_agentStates s)"
    using health_reach_tokens [OF assms(1)] assms(2) by (simp_all add: monitor_wf_def)
  have ok: "state_traces_ok (hm_sequence (hs_monitor y)) s" using health_reach_traced [OF assms(1)] assms(2) by (simp add: monitor_traces_ok_def)
  have "traces_ok (hm_sequence (hs_monitor y)) ts" if ts: "ts \<in> insert (st_directTraces s) (ag_traces ` snd ` set (st_agentStates s))" for ts
  proof (cases "ts = st_directTraces s")
    case False
    then obtain k a where "(k, a) \<in> set (st_agentStates s)" "ts = ag_traces a" using ts by auto
    then show ?thesis using ok map_of_is_SomeI [of "st_agentStates s" k a] wf(3) by (simp add: state_traces_ok_def gm_wf_def)
  qed (use ok in \<open>simp add: state_traces_ok_def\<close>)
  then show ?thesis using wf by (simp add: traces_ok_def health_consts)
qed

theorem health_monitor_well_formed_witness:
  "\<exists>s. map_of (hm_states (hs_monitor sample_stale)) 1 = Some s \<and> ht_ID (st_target s) = 1 \<and> length (st_directTraces s) \<le> 100"
proof -
  have "map_of (hm_states (hs_monitor sample_stale)) 1 \<noteq> None" by code_simp
  then obtain s where "map_of (hm_states (hs_monitor sample_stale)) 1 = Some s" by blast
  with health_monitor_well_formed [OF sample_stale_reach this] show ?thesis by auto
qed

end
