(* ===== verification/ClientIdentity.thy ===== *)
theory ClientIdentity
  imports RateLimiter DestinationAllowlist "HOL-Library.List_Lexorder" "HOL-Library.Char_ord"
begin

text \<open>
  Who a visitor is (\<open>internal/server/client_identity.go\<close>): the configured trusted proxies, the decision which address a request comes from, the context that carries it,
  and the headers that tell the upstream (\<open>applyTrustedForwardedHeaders\<close> of \<open>public_routing.go\<close>). The text parsers of \<open>net/netip\<close> are arguments.
\<close>

section \<open>Configuration\<close>

definition DefaultTrustedProxyHeaderBytes :: int where "DefaultTrustedProxyHeaderBytes = 8192"
definition DefaultTrustedProxyMaxHops :: int where "DefaultTrustedProxyMaxHops = 32"
definition ClientIdentitySourceDirect :: string where "ClientIdentitySourceDirect = ''direct''"
definition TrustedProxyHeaderSingleIP :: string where "TrustedProxyHeaderSingleIP = ''single_ip''"
definition TrustedProxyHeaderTrustedChain :: string where "TrustedProxyHeaderTrustedChain = ''trusted_chain''"

record TrustedProxySource =
  tp_Name :: string
  tp_Provider :: string
  tp_Enabled :: bool
  tp_Prefixes :: "netip_prefix option list" \<comment> \<open>\<open>None\<close> is an invalid prefix\<close>
  tp_HeaderName :: string
  tp_HeaderMode :: string

record ClientIdentityResolverOptions =
  op_MaxHeaderBytes :: int
  op_MaxHops :: int

datatype ClientIdentityUnknownReason = UnknownInvalidPeer | UnknownMissingHeader | UnknownMalformedHeader | UnknownNoUntrustedHop | UnknownConflictingSource

record ClientIdentity =
  ci_Peer :: "netip_addr option"
  ci_Resolved :: "netip_addr option"
  ci_Unknown :: bool
  ci_Direct :: bool
  ci_Source :: string
  ci_MatchedSources :: "string list"
  ci_UnknownReason :: "ClientIdentityUnknownReason option"

record trustedProxyResolverSource =
  ps_name :: string
  ps_prefixes :: "netip_prefix list"
  ps_headerName :: string
  ps_headerMode :: string
  ps_chainTrusted :: "netip_prefix list"

record ClientIdentityResolver =
  cr_sources :: "trustedProxyResolverSource list"
  cr_headerNames :: "string list"
  cr_maxHeaderBytes :: int
  cr_maxHops :: int

datatype resolver_error =
    HeaderLimit | HopLimit | NoName | DuplicateName string | InvalidHeaderName string | InvalidHeaderMode string | NoPrefixes string | InvalidPrefix string

definition validHTTPFieldName :: "string \<Rightarrow> bool" where
  "validHTTPFieldName value = (value \<noteq> '''' \<and> list_all token_char value)"

definition prefix_masked :: "netip_prefix \<Rightarrow> netip_prefix" where
  "prefix_masked p = p\<lparr>pf_addr := mask_addr (pf_bits p) (pf_addr p)\<rparr>"

fun addr_value :: "netip_addr \<Rightarrow> int" where
  "addr_value (Addr4 w) = uint w"
| "addr_value (Addr6 w z) = uint w"

definition deduplicatePrefixes :: "netip_prefix list \<Rightarrow> netip_prefix list" where
  \<comment> \<open>the first of equal prefixes stays; then sorted by family, address and length\<close>
  "deduplicatePrefixes input =
     sort_key (\<lambda>p. bit_len (pf_addr p)) (sort_key (\<lambda>p. addr_value (pf_addr p)) (sort_key pf_bits (rev (remdups (rev (map prefix_masked input))))))"

definition normalizeTrustedProxyPrefix :: "netip_prefix option \<Rightarrow> netip_prefix option" where
  \<comment> \<open>one turn of the loop\<close>
  "normalizeTrustedProxyPrefix prefix =
     (case prefix of
        None \<Rightarrow> None
      | Some p \<Rightarrow>
          if has_zone (pf_addr p) then None
          else let addr = Unmap (pf_addr p);
                   bits = (if Is4In6 (pf_addr p) then int (pf_bits p) - 96 else int (pf_bits p))
               in if bits < 0 \<or> bits > int (bit_len addr) then None else Masked (PrefixFrom addr bits))"

fun collect_prefixes :: "netip_prefix option list \<Rightarrow> netip_prefix list option" where
  "collect_prefixes [] = Some []"
| "collect_prefixes (p # ps) =
     (case normalizeTrustedProxyPrefix p of
        None \<Rightarrow> None
      | Some q \<Rightarrow> map_option ((#) q) (collect_prefixes ps))"

definition normalizeTrustedProxyPrefixes :: "netip_prefix option list \<Rightarrow> netip_prefix list option" where
  "normalizeTrustedProxyPrefixes input = map_option deduplicatePrefixes (collect_prefixes input)"

definition prefixesContain :: "netip_prefix list \<Rightarrow> netip_addr \<Rightarrow> bool" where
  "prefixesContain prefixes addr = list_ex (\<lambda>p. prefix_Contains (Some p) (Unmap addr)) prefixes"

record resolver_build =
  rb_seen :: "string list"
  rb_headerNames :: "string list"
  rb_sources :: "trustedProxyResolverSource list"

definition add_source :: "TrustedProxySource \<Rightarrow> resolver_build \<Rightarrow> resolver_error + resolver_build" where
  "add_source source b0 =
     (let headerName = trim_space (tp_HeaderName source);
          b = (if validHTTPFieldName headerName then b0\<lparr>rb_headerNames := canonical_header headerName # rb_headerNames b0\<rparr> else b0);
          name = trim_space (tp_Name source)
      in if \<not> tp_Enabled source then Inr b
         else if name = '''' then Inl NoName
         else if name \<in> set (rb_seen b) then Inl (DuplicateName name)
         else if \<not> validHTTPFieldName headerName then Inl (InvalidHeaderName name)
         else if tp_HeaderMode source \<noteq> TrustedProxyHeaderSingleIP \<and> tp_HeaderMode source \<noteq> TrustedProxyHeaderTrustedChain then Inl (InvalidHeaderMode name)
         else if tp_Prefixes source = [] then Inl (NoPrefixes name)
         else (case normalizeTrustedProxyPrefixes (tp_Prefixes source) of
             None \<Rightarrow> Inl (InvalidPrefix name)
           | Some prefixes \<Rightarrow>
               Inr (b\<lparr>rb_seen := name # rb_seen b,
                      rb_sources := rb_sources b @ [\<lparr>ps_name = name, ps_prefixes = prefixes, ps_headerName = canonical_header headerName,
                        ps_headerMode = tp_HeaderMode source, ps_chainTrusted = []\<rparr>]\<rparr>)))"

fun add_sources :: "TrustedProxySource list \<Rightarrow> resolver_build \<Rightarrow> resolver_error + resolver_build" where
  "add_sources [] b = Inr b"
| "add_sources (s # ss) b = (case add_source s b of Inl e \<Rightarrow> Inl e | Inr b' \<Rightarrow> add_sources ss b')"

definition chain_domain :: "trustedProxyResolverSource list \<Rightarrow> string \<Rightarrow> netip_prefix list" where
  \<comment> \<open>\<open>chainTrustDomains[headerName]\<close>\<close>
  "chain_domain sources headerName =
     concat (map ps_prefixes (filter (\<lambda>s. ps_headerMode s = TrustedProxyHeaderTrustedChain \<and> ps_headerName s = headerName) sources))"

definition NewClientIdentityResolver :: "TrustedProxySource list \<Rightarrow> ClientIdentityResolverOptions \<Rightarrow> resolver_error + ClientIdentityResolver" where
  "NewClientIdentityResolver sources options =
     (let maxHeaderBytes = (if op_MaxHeaderBytes options = 0 then DefaultTrustedProxyHeaderBytes else op_MaxHeaderBytes options);
          maxHops = (if op_MaxHops options = 0 then DefaultTrustedProxyMaxHops else op_MaxHops options)
      in if maxHeaderBytes < 1 then Inl HeaderLimit
         else if maxHops < 1 then Inl HopLimit
         else (case add_sources sources \<lparr>rb_seen = [], rb_headerNames = [], rb_sources = []\<rparr> of
             Inl e \<Rightarrow> Inl e
           | Inr b \<Rightarrow> Inr \<lparr>cr_sources = map (\<lambda>s. if ps_headerMode s = TrustedProxyHeaderTrustedChain
                    then s\<lparr>ps_chainTrusted := deduplicatePrefixes (chain_domain (rb_sources b) (ps_headerName s))\<rparr> else s) (rb_sources b),
                 cr_headerNames = sort (remdups (rb_headerNames b)), cr_maxHeaderBytes = maxHeaderBytes, cr_maxHops = maxHops\<rparr>))"

section \<open>Resolving\<close>

record addr_text =
  parse_addr :: "string \<Rightarrow> netip_addr option" \<comment> \<open>\<open>netip.ParseAddr\<close>\<close>
  parse_addr_port :: "string \<Rightarrow> netip_addr option" \<comment> \<open>\<open>netip.ParseAddrPort\<close>, the address\<close>
  addr_string :: "netip_addr \<Rightarrow> string" \<comment> \<open>\<open>Addr.String\<close>\<close>

datatype ctx_layer = IdentityValue ClientIdentity | HeaderNamesValue "string list" | ResolvedIdentityContext ClientIdentity "string list"
  \<comment> \<open>the values of a context that concern the identity, newest first; other layers delegate\<close>

record identity_request =
  ir_RemoteAddr :: string
  ir_Header :: http_header
  ir_Host :: string
  ir_Context :: "ctx_layer list"

definition peerAddrFromRequest :: "addr_text \<Rightarrow> identity_request option \<Rightarrow> netip_addr option" where
  "peerAddrFromRequest N req =
     (case req of
        None \<Rightarrow> None
      | Some q \<Rightarrow>
          let value = trim_space (ir_RemoteAddr q)
          in if value = '''' then None
             else (case parse_addr_port N value of
                 Some addr \<Rightarrow> if has_zone addr then None else Some (Unmap addr)
               | None \<Rightarrow> (case parse_addr N value of
                   None \<Rightarrow> None
                 | Some addr \<Rightarrow> if has_zone addr then None else Some (Unmap addr))))"

definition parseBareIP :: "addr_text \<Rightarrow> string \<Rightarrow> netip_addr option" where
  "parseBareIP N value0 =
     (let value = trim_chars [CHR '' '', CHR 0x09] value0
      in if value = '''' \<or> contains_any value ''[]'' then None
         else (case parse_addr N value of
             None \<Rightarrow> None
           | Some addr \<Rightarrow> if has_zone addr then None else Some (Unmap addr)))"

definition header_values :: "http_header \<Rightarrow> string \<Rightarrow> string list" where
  "header_values h name = (case map_of h (canonical_header name) of None \<Rightarrow> [] | Some vs \<Rightarrow> vs)"

fun parse_hops :: "addr_text \<Rightarrow> int \<Rightarrow> netip_addr list \<Rightarrow> string list \<Rightarrow> netip_addr list option" where
  "parse_hops N maxHops hops [] = Some hops"
| "parse_hops N maxHops hops (raw # raws) =
     (if int (length hops) = maxHops then None
      else (case parseBareIP N raw of None \<Rightarrow> None | Some hop \<Rightarrow> parse_hops N maxHops (hops @ [hop]) raws))"

definition raw_hops :: "string list \<Rightarrow> string list" where
  "raw_hops values = concat (map (split_char CHR '','') values)"

definition resolveSource ::
  "addr_text \<Rightarrow> ClientIdentityResolver \<Rightarrow> http_header \<Rightarrow> trustedProxyResolverSource \<Rightarrow> ClientIdentityUnknownReason + netip_addr" where
  "resolveSource N r header source =
     (let values = header_values header (ps_headerName source)
      in if values = [] then Inl UnknownMissingHeader
         else if int (sum_list (map length values)) + (int (length values) - 1) > cr_maxHeaderBytes r then Inl UnknownMalformedHeader
         else if ps_headerMode source = TrustedProxyHeaderSingleIP then
           (if length values \<noteq> 1 \<or> CHR '','' \<in> set (values ! 0) then Inl UnknownMalformedHeader
            else (case parseBareIP N (values ! 0) of None \<Rightarrow> Inl UnknownMalformedHeader | Some addr \<Rightarrow> Inr addr))
         else if ps_headerMode source = TrustedProxyHeaderTrustedChain then
           (case parse_hops N (cr_maxHops r) [] (raw_hops values) of
              None \<Rightarrow> Inl UnknownMalformedHeader
            | Some hops \<Rightarrow>
                (case List.find (\<lambda>hop. \<not> prefixesContain (ps_chainTrusted source) hop) (rev hops) of
                   Some hop \<Rightarrow> Inr hop
                 | None \<Rightarrow> Inl UnknownNoUntrustedHop))
         else Inl UnknownMalformedHeader)"

definition directClientIdentity :: "netip_addr \<Rightarrow> ClientIdentity" where
  "directClientIdentity peer =
     \<lparr>ci_Peer = Some peer, ci_Resolved = Some peer, ci_Unknown = False, ci_Direct = True, ci_Source = ClientIdentitySourceDirect, ci_MatchedSources = [],
      ci_UnknownReason = None\<rparr>"

fun join_plus :: "string list \<Rightarrow> string" where
  "join_plus [] = ''''"
| "join_plus [x] = x"
| "join_plus (x # y # ys) = x @ ''+'' @ join_plus (y # ys)"

definition unresolvedTrustedIdentity :: "netip_addr \<Rightarrow> string list \<Rightarrow> ClientIdentityUnknownReason \<Rightarrow> ClientIdentity" where
  "unresolvedTrustedIdentity peer names reason =
     \<lparr>ci_Peer = Some peer, ci_Resolved = None, ci_Unknown = True, ci_Direct = False, ci_Source = join_plus (sort names), ci_MatchedSources = sort names,
      ci_UnknownReason = Some reason\<rparr>"

fun agree :: "addr_text \<Rightarrow> ClientIdentityResolver \<Rightarrow> http_header \<Rightarrow> netip_addr option \<Rightarrow> trustedProxyResolverSource list
    \<Rightarrow> ClientIdentityUnknownReason + netip_addr option" where
  \<comment> \<open>the loop over the matching sources\<close>
  "agree N r header resolved [] = Inr resolved"
| "agree N r header resolved (s # ss) =
     (case resolveSource N r header s of
        Inl reason \<Rightarrow> Inl reason
      | Inr candidate \<Rightarrow>
          if resolved \<noteq> None \<and> resolved \<noteq> Some candidate then Inl UnknownConflictingSource
          else agree N r header (Some candidate) ss)"

definition matching_sources :: "ClientIdentityResolver \<Rightarrow> netip_addr \<Rightarrow> trustedProxyResolverSource list" where
  "matching_sources r peer = filter (\<lambda>s. prefixesContain (ps_prefixes s) peer) (cr_sources r)"

definition Resolve :: "addr_text \<Rightarrow> ClientIdentityResolver option \<Rightarrow> identity_request option \<Rightarrow> ClientIdentity" where
  "Resolve N r0 req =
     (case peerAddrFromRequest N req of
        None \<Rightarrow> \<lparr>ci_Peer = None, ci_Resolved = None, ci_Unknown = True, ci_Direct = False, ci_Source = '''', ci_MatchedSources = [],
                 ci_UnknownReason = Some UnknownInvalidPeer\<rparr>
      | Some peer \<Rightarrow>
          (case r0 of
             None \<Rightarrow> directClientIdentity peer
           | Some r \<Rightarrow>
               if cr_sources r = [] then directClientIdentity peer
               else let matching = matching_sources r peer
                    in if matching = [] then directClientIdentity peer
                       else let names = sort (map ps_name matching)
                            in (case agree N r (case req of Some q \<Rightarrow> ir_Header q | None \<Rightarrow> []) None matching of
                                  Inl reason \<Rightarrow> unresolvedTrustedIdentity peer names reason
                                | Inr resolved \<Rightarrow>
                                    \<lparr>ci_Peer = Some peer, ci_Resolved = resolved, ci_Unknown = False, ci_Direct = False, ci_Source = join_plus names,
                                     ci_MatchedSources = names, ci_UnknownReason = None\<rparr>)))"

definition ConfiguredHeaderNames :: "ClientIdentityResolver option \<Rightarrow> string list" where
  "ConfiguredHeaderNames r = (case r of None \<Rightarrow> [] | Some q \<Rightarrow> cr_headerNames q)"

definition ResolveRequest :: "addr_text \<Rightarrow> ClientIdentityResolver option \<Rightarrow> identity_request option \<Rightarrow> identity_request option" where
  "ResolveRequest N r req =
     (case req of
        None \<Rightarrow> None
      | Some q \<Rightarrow> Some (q\<lparr>ir_Context := ResolvedIdentityContext (Resolve N r req) (case r of None \<Rightarrow> [] | Some v \<Rightarrow> cr_headerNames v) # ir_Context q\<rparr>))"

section \<open>The context\<close>

definition WithClientIdentity :: "ctx_layer list option \<Rightarrow> ClientIdentity \<Rightarrow> ctx_layer list" where
  "WithClientIdentity ctx identity = IdentityValue identity # (case ctx of None \<Rightarrow> [] | Some c \<Rightarrow> c)"

definition withClientIdentityHeaderNames :: "ctx_layer list option \<Rightarrow> string list \<Rightarrow> ctx_layer list" where
  "withClientIdentityHeaderNames ctx names = HeaderNamesValue names # (case ctx of None \<Rightarrow> [] | Some c \<Rightarrow> c)"

fun identity_value :: "ctx_layer list \<Rightarrow> ClientIdentity option" where
  "identity_value [] = None"
| "identity_value (IdentityValue i # c) = Some i"
| "identity_value (ResolvedIdentityContext i _ # c) = Some i"
| "identity_value (HeaderNamesValue _ # c) = identity_value c"

fun header_names_value :: "ctx_layer list \<Rightarrow> string list" where
  "header_names_value [] = []"
| "header_names_value (HeaderNamesValue names # c) = names"
| "header_names_value (ResolvedIdentityContext _ names # c) = names"
| "header_names_value (IdentityValue _ # c) = header_names_value c"

definition ClientIdentityFromContext :: "ctx_layer list option \<Rightarrow> ClientIdentity option" where
  "ClientIdentityFromContext ctx = (case ctx of None \<Rightarrow> None | Some c \<Rightarrow> identity_value c)"

definition ClientIdentityPeer :: "ctx_layer list option \<Rightarrow> netip_addr option" where
  "ClientIdentityPeer ctx = (case ClientIdentityFromContext ctx of None \<Rightarrow> None | Some i \<Rightarrow> ci_Peer i)"

definition ClientIdentityResolved :: "ctx_layer list option \<Rightarrow> netip_addr option" where
  "ClientIdentityResolved ctx = (case ClientIdentityFromContext ctx of None \<Rightarrow> None | Some i \<Rightarrow> if ci_Unknown i then None else ci_Resolved i)"

definition ClientIdentityIsUnknown :: "ctx_layer list option \<Rightarrow> bool" where
  "ClientIdentityIsUnknown ctx = (case ClientIdentityFromContext ctx of None \<Rightarrow> True | Some i \<Rightarrow> ci_Unknown i)"

definition ClientIdentitySource :: "ctx_layer list option \<Rightarrow> string" where
  "ClientIdentitySource ctx = (case ClientIdentityFromContext ctx of None \<Rightarrow> '''' | Some i \<Rightarrow> ci_Source i)"

definition ClientIdentityHeaderNames :: "ctx_layer list option \<Rightarrow> string list" where
  "ClientIdentityHeaderNames ctx = (case ctx of None \<Rightarrow> [] | Some c \<Rightarrow> header_names_value c)"

section \<open>Users of the identity\<close>

definition remoteAddrIP :: "string \<Rightarrow> string" where
  "remoteAddrIP remoteAddr = (case split_host_port remoteAddr of Some (host, _) \<Rightarrow> host | None \<Rightarrow> trim_space remoteAddr)"

definition publicAccessRequestClientIP :: "addr_text \<Rightarrow> identity_request option \<Rightarrow> string" where
  "publicAccessRequestClientIP N r =
     (case r of
        None \<Rightarrow> ''''
      | Some q \<Rightarrow>
          (case ClientIdentityFromContext (Some (ir_Context q)) of
             Some _ \<Rightarrow> (case ClientIdentityResolved (Some (ir_Context q)) of Some addr \<Rightarrow> addr_string N addr | None \<Rightarrow> '''')
           | None \<Rightarrow> remoteAddrIP (ir_RemoteAddr q)))"

definition publicPolicyMatchRemoteIP :: "string \<Rightarrow> string" where
  "publicPolicyMatchRemoteIP remoteAddr =
     (case split_host_port (trim_space remoteAddr) of Some (host, _) \<Rightarrow> host | None \<Rightarrow> trim_chars ''[]'' (trim_space remoteAddr))"

definition publicPolicyMatchRequestRemoteIP :: "addr_text \<Rightarrow> identity_request option \<Rightarrow> string" where
  "publicPolicyMatchRequestRemoteIP N r =
     (case r of
        None \<Rightarrow> ''''
      | Some q \<Rightarrow>
          (case ClientIdentityFromContext (Some (ir_Context q)) of
             Some _ \<Rightarrow> (case ClientIdentityResolved (Some (ir_Context q)) of Some addr \<Rightarrow> addr_string N addr | None \<Rightarrow> '''')
           | None \<Rightarrow> publicPolicyMatchRemoteIP (ir_RemoteAddr q)))"

definition publicRequestResolvedAddr :: "addr_text \<Rightarrow> identity_request option \<Rightarrow> netip_addr option" where
  "publicRequestResolvedAddr N r =
     (case r of
        None \<Rightarrow> None
      | Some q \<Rightarrow>
          (case ClientIdentityFromContext (Some (ir_Context q)) of
             Some _ \<Rightarrow> ClientIdentityResolved (Some (ir_Context q))
           | None \<Rightarrow> peerAddrFromRequest N r))"

definition publicForwardedIdentityHeaderNames :: "string list" where
  "publicForwardedIdentityHeaderNames =
     [''Cf-Connecting-Ip'', ''Cf-Connecting-Ipv6'', ''Cloudfront-Viewer-Address'', ''Fastly-Client-Ip'', ''Fly-Client-Ip'', ''Forwarded'', ''True-Client-Ip'',
      ''X-Appengine-User-Ip'', ''X-Azure-Clientip'', ''X-Client-Ip'', ''X-Cluster-Client-Ip'', ''X-Envoy-External-Address'', ''X-Forwarded-Client-Ip'',
      ''X-Forwarded-For'', ''X-Forwarded-Host'', ''X-Forwarded-Proto'', ''X-Forwarded-Port'', ''X-Original-Forwarded-For'', ''X-Real-Ip'']"

definition forwardedProtoForPublicListener :: "string \<Rightarrow> string" where
  "forwardedProtoForPublicListener protocol = (if protocol = ''https'' then ''https'' else ''http'')"

definition forwardedPortForProto :: "string \<Rightarrow> string" where
  "forwardedPortForProto proto = (if proto = ''https'' then ''443'' else ''80'')"

definition forwardedPortForPublicListener :: "int \<Rightarrow> string \<Rightarrow> string" where
  "forwardedPortForPublicListener port proto = (if port > 0 then format_int port else forwardedPortForProto proto)"

definition applyTrustedForwardedHeaders :: "addr_text \<Rightarrow> http_header \<Rightarrow> identity_request option \<Rightarrow> string \<times> int \<Rightarrow> http_header" where
  \<comment> \<open>on the header of the outgoing request; the listener is given by its protocol and port\<close>
  "applyTrustedForwardedHeaders N out inReq listener =
     (let h1 = foldl (\<lambda>h name. AList.delete name h) out publicForwardedIdentityHeaderNames
      in (case inReq of
            None \<Rightarrow> h1
          | Some q \<Rightarrow>
              let ctx = Some (ir_Context q);
                  h2 = foldl (\<lambda>h name. header_del name h) h1 (ClientIdentityHeaderNames ctx);
                  clientIP = (case ClientIdentityFromContext ctx of
                      Some _ \<Rightarrow> (case ClientIdentityResolved ctx of Some addr \<Rightarrow> addr_string N addr | None \<Rightarrow> '''')
                    | None \<Rightarrow> remoteAddrIP (ir_RemoteAddr q));
                  h3 = (if clientIP \<noteq> '''' then header_set ''X-Real-IP'' clientIP (header_set ''X-Forwarded-For'' clientIP h2) else h2);
                  host = normalizeRequestHost (ir_Host q);
                  h4 = (if host \<noteq> '''' then header_set ''X-Forwarded-Host'' host h3 else h3);
                  proto = forwardedProtoForPublicListener (fst listener)
              in header_set ''X-Forwarded-Port'' (forwardedPortForPublicListener (snd listener) proto) (header_set ''X-Forwarded-Proto'' proto h4)))"

section \<open>Prefixes\<close>

lemma mask_contains: "prefix_Contains (Some (prefix_masked p)) a = prefix_Contains (Some p) a"
  by (cases "pf_addr p"; cases a) (simp_all add: prefix_Contains_def prefix_masked_def drop_xor_zero mask_div del: drop_bit_xor)

lemma prefixesContain_deduplicate [simp]: "prefixesContain (deduplicatePrefixes ps) a = prefixesContain ps a"
proof -
  have "set (deduplicatePrefixes ps) = prefix_masked ` set ps" by (simp add: deduplicatePrefixes_def)
  then show ?thesis by (simp add: prefixesContain_def list_ex_iff mask_contains)
qed

lemma collect_prefixes_set:
  "collect_prefixes ps = Some qs \<Longrightarrow> (\<forall>p \<in> set ps. normalizeTrustedProxyPrefix p \<noteq> None) \<and> set qs = {q. \<exists>p \<in> set ps. normalizeTrustedProxyPrefix p = Some q}"
  by (induction ps arbitrary: qs) (auto split: option.splits)

lemma Unmap_idem [simp]: "Unmap (Unmap a) = Unmap a"
  by (cases a) auto

lemma Unmap_no_zone: "\<not> has_zone a \<Longrightarrow> normalizeAgentDestinationAddr a = Unmap a"
  by (cases a) (auto simp: normalizeAgentDestinationAddr_def)

lemma normalizeTrusted_eq:
  assumes "normalizeTrustedProxyPrefix (Some p) = Some q" "prefix_valid p"
  shows "normalizeAgentDestinationPrefix p = Some q \<and> \<not> has_zone (pf_addr p)"
proof -
  have z: "\<not> has_zone (pf_addr p)" using assms(1) by (auto simp: normalizeTrustedProxyPrefix_def split: if_splits)
  have i: "Is4In6 (pf_addr p) \<Longrightarrow> Is4 (Unmap (pf_addr p))" by (cases "pf_addr p") auto
  let ?bits = "if Is4In6 (pf_addr p) then int (pf_bits p) - 96 else int (pf_bits p)"
  have r: "0 \<le> ?bits" "?bits \<le> int (bit_len (Unmap (pf_addr p)))" "q = the (Masked (PrefixFrom (Unmap (pf_addr p)) ?bits))"
    using assms(1) z by (auto simp: normalizeTrustedProxyPrefix_def Let_def split: if_splits)
  then have "Masked (PrefixFrom (Unmap (pf_addr p)) ?bits) = Some q" by (simp add: Masked_def PrefixFrom_def)
  moreover have "\<not> (Is4 (Unmap (pf_addr p)) \<and> ?bits > 32)" using r(2) by (simp add: bit_len_def split: if_splits)
  ultimately show ?thesis using z r(1) i by (auto simp: normalizeAgentDestinationPrefix_def Unmap_no_zone Let_def)
qed

definition names_block :: "TrustedProxySource \<Rightarrow> netip_addr \<Rightarrow> bool" where
  \<comment> \<open>the address lies in a block that the source lists, of its own family\<close>
  "names_block src a \<longleftrightarrow> (\<exists>p. Some p \<in> set (tp_Prefixes src) \<and> Is4 (Unmap (pf_addr p)) = Is4 (Unmap a) \<and> in_block p a)"

definition prefixes_valid :: "TrustedProxySource list \<Rightarrow> bool" where
  "prefixes_valid sources \<longleftrightarrow> (\<forall>src \<in> set sources. \<forall>p. Some p \<in> set (tp_Prefixes src) \<longrightarrow> prefix_valid p)"

lemma normalized_names_block:
  assumes "normalizeTrustedProxyPrefixes (tp_Prefixes src) = Some qs" "\<And>p. Some p \<in> set (tp_Prefixes src) \<Longrightarrow> prefix_valid p" "\<not> has_zone a"
  shows "prefixesContain qs a \<longleftrightarrow> names_block src a"
proof -
  obtain rs where rs: "collect_prefixes (tp_Prefixes src) = Some rs" "qs = deduplicatePrefixes rs" using assms(1) by (auto simp: normalizeTrustedProxyPrefixes_def)
  note C = collect_prefixes_set [OF rs(1)]
  have one: "prefix_Contains (Some q) (Unmap a) \<longleftrightarrow> Is4 (Unmap (pf_addr p)) = Is4 (Unmap a) \<and> in_block p a"
    if "Some p \<in> set (tp_Prefixes src)" "normalizeTrustedProxyPrefix (Some p) = Some q" for p q
  proof -
    have v: "prefix_valid p" by (rule assms(2) [OF that(1)])
    note e = normalizeTrusted_eq [OF that(2) v]
    show ?thesis using normalize_prefix_contains [OF v, of a] e assms(3) by (simp add: Unmap_no_zone)
  qed
  have "prefixesContain qs a \<longleftrightarrow> (\<exists>q \<in> set rs. prefix_Contains (Some q) (Unmap a))" by (simp add: rs(2) prefixesContain_def [of rs] list_ex_iff)
  also have "\<dots> \<longleftrightarrow> (\<exists>p q. Some p \<in> set (tp_Prefixes src) \<and> normalizeTrustedProxyPrefix (Some p) = Some q \<and> prefix_Contains (Some q) (Unmap a))"
  proof -
    have "normalizeTrustedProxyPrefix None = None" by (simp add: normalizeTrustedProxyPrefix_def)
    then have "(\<exists>x \<in> X. normalizeTrustedProxyPrefix x = Some q) \<longleftrightarrow> (\<exists>p. Some p \<in> X \<and> normalizeTrustedProxyPrefix (Some p) = Some q)" for X q
      by (metis option.distinct(1) option.exhaust)
    then show ?thesis unfolding C [THEN conjunct2] by auto
  qed
  also have "\<dots> \<longleftrightarrow> names_block src a"
  proof -
    have "\<exists>q. normalizeTrustedProxyPrefix (Some p) = Some q" if "Some p \<in> set (tp_Prefixes src)" for p using C that by blast
    then show ?thesis unfolding names_block_def using one by blast
  qed
  finally show ?thesis .
qed

section \<open>The resolver is what was configured\<close>

definition chain_mode :: "TrustedProxySource \<Rightarrow> bool" where
  "chain_mode src \<longleftrightarrow> tp_HeaderMode src = TrustedProxyHeaderTrustedChain"

definition header_of :: "TrustedProxySource \<Rightarrow> string" where
  "header_of src = canonical_header (trim_space (tp_HeaderName src))"

definition in_domain :: "TrustedProxySource list \<Rightarrow> string \<Rightarrow> netip_addr \<Rightarrow> bool" where
  \<comment> \<open>an enabled chain source with this header names the address\<close>
  "in_domain sources name a \<longleftrightarrow> (\<exists>src \<in> set sources. tp_Enabled src \<and> chain_mode src \<and> header_of src = name \<and> names_block src a)"

definition built :: "TrustedProxySource \<Rightarrow> trustedProxyResolverSource \<Rightarrow> bool" where
  "built src s \<longleftrightarrow> tp_Enabled src \<and> normalizeTrustedProxyPrefixes (tp_Prefixes src) = Some (ps_prefixes s) \<and> ps_headerName s = header_of src \<and>
     ps_headerMode s = tp_HeaderMode src \<and> tp_HeaderMode src \<in> {TrustedProxyHeaderSingleIP, TrustedProxyHeaderTrustedChain}"

lemma add_source_built:
  assumes "add_source src b = Inr b'"
  shows "(\<not> tp_Enabled src \<and> rb_sources b' = rb_sources b) \<or> (\<exists>s. built src s \<and> rb_sources b' = rb_sources b @ [s])"
  using assms by (auto simp: add_source_def built_def header_of_def Let_def split: if_splits option.splits)

lemma add_sources_built:
  "add_sources ss b = Inr b' \<Longrightarrow>
     set (rb_sources b) \<subseteq> set (rb_sources b') \<and> (\<forall>s \<in> set (rb_sources b'). s \<in> set (rb_sources b) \<or> (\<exists>src \<in> set ss. built src s)) \<and>
     (\<forall>src \<in> set ss. tp_Enabled src \<longrightarrow> (\<exists>s \<in> set (rb_sources b'). built src s))"
proof (induction ss arbitrary: b)
  case (Cons src ss)
  then obtain b1 where b1: "add_source src b = Inr b1" "add_sources ss b1 = Inr b'" by (auto split: sum.splits)
  note IH = Cons.IH [OF b1(2)]
  from add_source_built [OF b1(1)] consider "\<not> tp_Enabled src" "rb_sources b1 = rb_sources b" | s where "built src s" "rb_sources b1 = rb_sources b @ [s]" by blast
  then show ?case
  proof cases
    case 1
    then show ?thesis using IH by auto
  next
    case 2
    then have "s \<in> set (rb_sources b')" using IH by auto
    then show ?thesis using IH 2 by auto
  qed
qed simp

lemma resolver_sources:
  assumes "NewClientIdentityResolver sources options = Inr r" "prefixes_valid sources"
  shows "s \<in> set (cr_sources r) \<Longrightarrow> \<exists>src \<in> set sources. built src s \<and>
      (chain_mode src \<longrightarrow> (\<forall>a. \<not> has_zone a \<longrightarrow> prefixesContain (ps_chainTrusted s) a = in_domain sources (header_of src) a))"
    and "src \<in> set sources \<Longrightarrow> tp_Enabled src \<Longrightarrow> \<exists>s \<in> set (cr_sources r). built src s \<and>
      (chain_mode src \<longrightarrow> (\<forall>a. \<not> has_zone a \<longrightarrow> prefixesContain (ps_chainTrusted s) a = in_domain sources (header_of src) a))"
proof -
  obtain b where b: "add_sources sources \<lparr>rb_seen = [], rb_headerNames = [], rb_sources = []\<rparr> = Inr b"
    and r: "cr_sources r = map (\<lambda>s. if ps_headerMode s = TrustedProxyHeaderTrustedChain
                    then s\<lparr>ps_chainTrusted := deduplicatePrefixes (chain_domain (rb_sources b) (ps_headerName s))\<rparr> else s) (rb_sources b)"
    using assms(1) by (auto simp: NewClientIdentityResolver_def Let_def split: if_splits sum.splits)
  let ?g = "\<lambda>s. if ps_headerMode s = TrustedProxyHeaderTrustedChain
                    then s\<lparr>ps_chainTrusted := deduplicatePrefixes (chain_domain (rb_sources b) (ps_headerName s))\<rparr> else s"
  note B = add_sources_built [OF b, simplified]
  have pc: "prefixesContain (ps_prefixes s) a \<longleftrightarrow> names_block src a" if "built src s" "src \<in> set sources" "\<not> has_zone a" for src s a
    using normalized_names_block [of src "ps_prefixes s" a] that assms(2) by (simp add: built_def prefixes_valid_def)
  have dom: "prefixesContain (chain_domain (rb_sources b) name) a = in_domain sources name a" if z: "\<not> has_zone a" for name a
  proof -
    have "prefixesContain (chain_domain (rb_sources b) name) a \<longleftrightarrow>
      (\<exists>s \<in> set (rb_sources b). ps_headerMode s = TrustedProxyHeaderTrustedChain \<and> ps_headerName s = name \<and> prefixesContain (ps_prefixes s) a)"
      by (auto simp: prefixesContain_def chain_domain_def list_ex_iff)
    also have "\<dots> \<longleftrightarrow> in_domain sources name a"
    proof
      assume "\<exists>s \<in> set (rb_sources b). ps_headerMode s = TrustedProxyHeaderTrustedChain \<and> ps_headerName s = name \<and> prefixesContain (ps_prefixes s) a"
      then obtain s src where "src \<in> set sources" "built src s" "ps_headerMode s = TrustedProxyHeaderTrustedChain" "ps_headerName s = name" "prefixesContain (ps_prefixes s) a"
        using B by blast
      then show "in_domain sources name a" using pc [of src s a] z by (auto simp: in_domain_def built_def chain_mode_def)
    next
      assume "in_domain sources name a"
      then obtain src where src: "src \<in> set sources" "tp_Enabled src" "chain_mode src" "header_of src = name" "names_block src a" by (auto simp: in_domain_def)
      then obtain s where "s \<in> set (rb_sources b)" "built src s" using B by blast
      then show "\<exists>s \<in> set (rb_sources b). ps_headerMode s = TrustedProxyHeaderTrustedChain \<and> ps_headerName s = name \<and> prefixesContain (ps_prefixes s) a"
        using pc [of src s a] src z by (auto simp: built_def chain_mode_def)
    qed
    finally show ?thesis .
  qed
  have g: "built src (?g s) \<and> (chain_mode src \<longrightarrow> (\<forall>a. \<not> has_zone a \<longrightarrow> prefixesContain (ps_chainTrusted (?g s)) a = in_domain sources (header_of src) a))"
    if "built src s" for src s
    using that by (auto simp: built_def chain_mode_def dom)
  show "s \<in> set (cr_sources r) \<Longrightarrow> \<exists>src \<in> set sources. built src s \<and>
      (chain_mode src \<longrightarrow> (\<forall>a. \<not> has_zone a \<longrightarrow> prefixesContain (ps_chainTrusted s) a = in_domain sources (header_of src) a))"
  proof -
    assume "s \<in> set (cr_sources r)"
    then obtain s0 where s0: "s0 \<in> set (rb_sources b)" "s = ?g s0" unfolding r by auto
    then obtain src where "src \<in> set sources" "built src s0" using B by blast
    then show ?thesis using g [of src s0] unfolding s0(2) by blast
  qed
  show "src \<in> set sources \<Longrightarrow> tp_Enabled src \<Longrightarrow> \<exists>s \<in> set (cr_sources r). built src s \<and>
      (chain_mode src \<longrightarrow> (\<forall>a. \<not> has_zone a \<longrightarrow> prefixesContain (ps_chainTrusted s) a = in_domain sources (header_of src) a))"
  proof -
    assume "src \<in> set sources" "tp_Enabled src"
    then obtain s0 where s0: "s0 \<in> set (rb_sources b)" "built src s0" using B by blast
    then show ?thesis unfolding r set_map using g [OF s0(2)] by blast
  qed
qed

section \<open>The resolved address cannot be forged\<close>

lemma parseBareIP_no_zone: "parseBareIP N v = Some a \<Longrightarrow> \<not> has_zone a \<and> Unmap a = a"
proof -
  assume "parseBareIP N v = Some a"
  then obtain b where "a = Unmap b" "\<not> has_zone b" by (auto simp: parseBareIP_def Let_def split: if_splits option.splits)
  then show ?thesis by (cases b) auto
qed

lemma peer_no_zone: "peerAddrFromRequest N req = Some peer \<Longrightarrow> \<not> has_zone peer \<and> Unmap peer = peer"
proof -
  assume "peerAddrFromRequest N req = Some peer"
  then obtain b where "peer = Unmap b" "\<not> has_zone b" by (auto simp: peerAddrFromRequest_def Let_def split: if_splits option.splits)
  then show ?thesis by (cases b) auto
qed

lemma parse_hops_map: "parse_hops N n hops raws = Some hs \<Longrightarrow> \<exists>ps. hs = hops @ ps \<and> map (parseBareIP N) raws = map Some ps"
proof (induction raws arbitrary: hops)
  case (Cons raw raws)
  then obtain hop where hop: "parseBareIP N raw = Some hop" "parse_hops N n (hops @ [hop]) raws = Some hs" by (auto split: if_splits option.splits)
  from Cons.IH [OF hop(2)] obtain ps where "hs = (hops @ [hop]) @ ps" "map (parseBareIP N) raws = map Some ps" by blast
  then show ?case using hop(1) by (intro exI [of _ "hop # ps"]) simp
qed simp

lemma find_skip: "(\<And>x. x \<in> set xs \<Longrightarrow> \<not> P x) \<Longrightarrow> List.find P (xs @ ys) = List.find P ys"
  by (induction xs) auto

lemma resolveSource_chain:
  assumes "resolveSource N r header s = Inr out" "ps_headerMode s = TrustedProxyHeaderTrustedChain"
    "raw_hops (header_values header (ps_headerName s)) = junk @ c # ts" "parseBareIP N c = Some a" "\<not> prefixesContain (ps_chainTrusted s) a"
    "\<And>t. t \<in> set ts \<Longrightarrow> \<exists>h. parseBareIP N t = Some h \<and> prefixesContain (ps_chainTrusted s) h"
  shows "out = a"
proof -
  let ?P = "\<lambda>hop. \<not> prefixesContain (ps_chainTrusted s) hop"
  have mode: "TrustedProxyHeaderTrustedChain \<noteq> TrustedProxyHeaderSingleIP" by (simp add: TrustedProxyHeaderTrustedChain_def TrustedProxyHeaderSingleIP_def)
  obtain hs where hs: "parse_hops N (cr_maxHops r) [] (raw_hops (header_values header (ps_headerName s))) = Some hs" "List.find ?P (rev hs) = Some out"
    using assms(1,2) mode by (auto simp: resolveSource_def Let_def split: if_splits option.splits)
  have m: "map (parseBareIP N) (junk @ c # ts) = map Some hs" using parse_hops_map [OF hs(1)] assms(3) by simp
  then obtain js us where split: "hs = js @ a # us" "map (parseBareIP N) ts = map Some us"
    using assms(4) by (auto simp: map_eq_append_conv append_eq_map_conv Cons_eq_map_conv)
  have "prefixesContain (ps_chainTrusted s) u" if "u \<in> set us" for u
  proof -
    have "Some u \<in> parseBareIP N ` set ts" using that split(2) by (metis image_eqI list.set_map)
    then show ?thesis using assms(6) by fastforce
  qed
  then have "List.find ?P (rev hs) = Some a" using assms(5) find_skip [of "rev us" ?P "a # rev js"] by (simp add: split(1))
  then show ?thesis using hs(2) by simp
qed

lemma resolveSource_single:
  assumes "resolveSource N r header s = Inr out" "ps_headerMode s = TrustedProxyHeaderSingleIP"
  shows "\<exists>v. header_values header (ps_headerName s) = [v] \<and> parseBareIP N v = Some out"
proof -
  let ?vs = "header_values header (ps_headerName s)"
  have "length ?vs = 1" "parseBareIP N (?vs ! 0) = Some out"
    using assms by (auto simp: resolveSource_def Let_def split: if_splits option.splits)
  then show ?thesis by (cases ?vs) auto
qed

lemma agree_all:
  "agree N r header resolved ms = Inr out \<Longrightarrow> (\<forall>s \<in> set ms. \<exists>c. resolveSource N r header s = Inr c \<and> out = Some c) \<and> (resolved = None \<or> out = resolved)"
proof (induction ms arbitrary: resolved)
  case (Cons s ms)
  then obtain c where c: "resolveSource N r header s = Inr c" "resolved = None \<or> resolved = Some c" "agree N r header (Some c) ms = Inr out"
    by (auto split: sum.splits if_splits)
  from Cons.IH [OF c(3)] c(1,2) show ?case by auto
qed simp

lemma Resolve_trusted:
  assumes "peerAddrFromRequest N (Some q) = Some peer" "s \<in> set (cr_sources r)" "prefixesContain (ps_prefixes s) peer"
    "\<not> ci_Unknown (Resolve N (Some r) (Some q))"
  shows "\<exists>c. resolveSource N r (ir_Header q) s = Inr c \<and> ci_Resolved (Resolve N (Some r) (Some q)) = Some c"
proof -
  have m: "s \<in> set (matching_sources r peer)" using assms(2,3) by (simp add: matching_sources_def)
  then have ne: "cr_sources r \<noteq> []" "matching_sources r peer \<noteq> []" using assms(2) by auto
  obtain out where "agree N r (ir_Header q) None (matching_sources r peer) = Inr out" "ci_Resolved (Resolve N (Some r) (Some q)) = out"
    using assms(1,4) ne by (auto simp: Resolve_def unresolvedTrustedIdentity_def Let_def split: sum.splits)
  with agree_all [of N r "ir_Header q" None "matching_sources r peer" out] m show ?thesis by blast
qed

text \<open>C12: nobody can choose the address he is seen with. A request from an address outside every block of the enabled proxies is seen with that address, whatever its
  headers say. A request that a proxy forwards is, unless it is unknown, seen with the right-most address of the header that is not itself a proxy of the chain,
  whatever a client wrote in front of it; or, for a proxy with a single address, with the only address in its header. An unknown visitor has no address. Safety.\<close>
theorem client_identity_unspoofable:
  assumes "NewClientIdentityResolver sources options = Inr r" "prefixes_valid sources" "peerAddrFromRequest N (Some q) = Some peer"
    "i = Resolve N (Some r) (Some q)"
  shows "(\<not> (\<exists>src \<in> set sources. tp_Enabled src \<and> names_block src peer) \<longrightarrow> i = directClientIdentity peer) \<and>
    (\<forall>src \<in> set sources. tp_Enabled src \<longrightarrow> names_block src peer \<longrightarrow> \<not> ci_Unknown i \<longrightarrow> chain_mode src \<longrightarrow>
      (\<forall>junk c ts a. raw_hops (header_values (ir_Header q) (header_of src)) = junk @ c # ts \<longrightarrow> parseBareIP N c = Some a \<longrightarrow>
         \<not> in_domain sources (header_of src) a \<longrightarrow> (\<forall>t \<in> set ts. \<exists>h. parseBareIP N t = Some h \<and> in_domain sources (header_of src) h) \<longrightarrow> ci_Resolved i = Some a)) \<and>
    (\<forall>src \<in> set sources. tp_Enabled src \<longrightarrow> names_block src peer \<longrightarrow> \<not> ci_Unknown i \<longrightarrow> \<not> chain_mode src \<longrightarrow>
      (\<exists>v a. header_values (ir_Header q) (header_of src) = [v] \<and> parseBareIP N v = Some a \<and> ci_Resolved i = Some a)) \<and>
    (ci_Unknown i \<longrightarrow> ci_Resolved i = None)"
proof (intro conjI ballI allI impI)
  have z: "\<not> has_zone peer" using peer_no_zone [OF assms(3)] by simp
  have names: "prefixesContain (ps_prefixes s) peer \<longleftrightarrow> names_block src peer" if "built src s" "src \<in> set sources" for src s
    using normalized_names_block [of src "ps_prefixes s" peer] that z assms(2) by (simp add: built_def prefixes_valid_def)
  note S1 = resolver_sources(1) [OF assms(1,2)] and S2 = resolver_sources(2) [OF assms(1,2)]
  {
    assume "\<not> (\<exists>src \<in> set sources. tp_Enabled src \<and> names_block src peer)"
    then have "matching_sources r peer = []" using S1 names by (fastforce simp: matching_sources_def filter_empty_conv built_def)
    then show "i = directClientIdentity peer" using assms(3,4) by (simp add: Resolve_def)
  next
    fix src junk c ts a
    assume src: "src \<in> set sources" "tp_Enabled src" "names_block src peer" "\<not> ci_Unknown i" "chain_mode src"
      and h: "raw_hops (header_values (ir_Header q) (header_of src)) = junk @ c # ts" "parseBareIP N c = Some a" "\<not> in_domain sources (header_of src) a"
        "\<forall>t \<in> set ts. \<exists>h. parseBareIP N t = Some h \<and> in_domain sources (header_of src) h"
    obtain s where s: "s \<in> set (cr_sources r)" "built src s" "\<And>a. \<not> has_zone a \<Longrightarrow> prefixesContain (ps_chainTrusted s) a = in_domain sources (header_of src) a"
      using S2 [OF src(1,2)] src(5) by blast
    have b: "ps_headerName s = header_of src" "ps_headerMode s = TrustedProxyHeaderTrustedChain" using s(2) src(5) by (simp_all add: built_def chain_mode_def)
    obtain out where out: "resolveSource N r (ir_Header q) s = Inr out" "ci_Resolved i = Some out"
      using Resolve_trusted [OF assms(3) s(1)] names [OF s(2) src(1)] src(3,4) unfolding assms(4) by blast
    have "out = a"
    proof (rule resolveSource_chain [OF out(1) b(2) h(1) [folded b(1)] h(2)])
      show "\<not> prefixesContain (ps_chainTrusted s) a" using h(3) s(3) parseBareIP_no_zone [OF h(2)] by simp
      show "\<exists>h. parseBareIP N t = Some h \<and> prefixesContain (ps_chainTrusted s) h" if "t \<in> set ts" for t
        using h(4) that s(3) parseBareIP_no_zone [of N t] by blast
    qed
    then show "ci_Resolved i = Some a" using out(2) by simp
  next
    fix src
    assume src: "src \<in> set sources" "tp_Enabled src" "names_block src peer" "\<not> ci_Unknown i" "\<not> chain_mode src"
    obtain s where s: "s \<in> set (cr_sources r)" "built src s" using S2 [OF src(1,2)] by blast
    have b: "ps_headerName s = header_of src" "ps_headerMode s = TrustedProxyHeaderSingleIP" using s(2) src(5) by (auto simp: built_def chain_mode_def)
    obtain out where out: "resolveSource N r (ir_Header q) s = Inr out" "ci_Resolved i = Some out"
      using Resolve_trusted [OF assms(3) s(1)] names [OF s(2) src(1)] src(3,4) unfolding assms(4) by blast
    then show "\<exists>v a. header_values (ir_Header q) (header_of src) = [v] \<and> parseBareIP N v = Some a \<and> ci_Resolved i = Some a"
      using resolveSource_single [OF out(1) b(2)] b(1) by auto
  next
    assume "ci_Unknown i"
    then show "ci_Resolved i = None" using assms(3) unfolding assms(4)
      by (auto simp: Resolve_def directClientIdentity_def unresolvedTrustedIdentity_def Let_def split: sum.splits if_splits)
  }
qed

definition sample_text :: addr_text where
  \<comment> \<open>text forms of two addresses: a proxy and a visitor\<close>
  "sample_text = \<lparr>parse_addr = (\<lambda>s. if s = ''10.0.0.1'' then Some (Addr4 0x0A000001) else if s = ''9.9.9.9'' then Some (Addr4 0x09090909) else if s = ''8.8.8.8'' then Some (Addr4 0x08080808) else None),
     parse_addr_port = (\<lambda>s. if s = ''10.0.0.1:5'' then Some (Addr4 0x0A000001) else None), addr_string = (\<lambda>a. ''9.9.9.9'')\<rparr>"

definition sample_proxy :: TrustedProxySource where
  "sample_proxy = \<lparr>tp_Name = ''lb'', tp_Provider = ''custom'', tp_Enabled = True, tp_Prefixes = [Some \<lparr>pf_addr = Addr4 0x0A000000, pf_bits = 8\<rparr>], tp_HeaderName = ''X-Forwarded-For'',
     tp_HeaderMode = ''trusted_chain''\<rparr>"

definition sample_forged :: identity_request where
  \<comment> \<open>the visitor 9.9.9.9 pretends to be 8.8.8.8; the proxy appends what it saw\<close>
  "sample_forged = \<lparr>ir_RemoteAddr = ''10.0.0.1:5'', ir_Header = [(''X-Forwarded-For'', [''8.8.8.8, 9.9.9.9, 10.0.0.1''])], ir_Host = ''h'', ir_Context = []\<rparr>"

theorem client_identity_unspoofable_witness:
  "\<exists>r. NewClientIdentityResolver [sample_proxy] \<lparr>op_MaxHeaderBytes = 0, op_MaxHops = 0\<rparr> = Inr r \<and>
     \<not> ci_Unknown (Resolve sample_text (Some r) (Some sample_forged)) \<and> ci_Resolved (Resolve sample_text (Some r) (Some sample_forged)) = Some (Addr4 0x09090909)"
proof -
  let ?o = "\<lparr>op_MaxHeaderBytes = 0, op_MaxHops = 0\<rparr>"
  have "\<not> isl (NewClientIdentityResolver [sample_proxy] ?o)" by code_simp
  then obtain r where r: "NewClientIdentityResolver [sample_proxy] ?o = Inr r" by (cases "NewClientIdentityResolver [sample_proxy] ?o") auto
  have known: "\<not> ci_Unknown (Resolve sample_text (Some (projr (NewClientIdentityResolver [sample_proxy] ?o))) (Some sample_forged))" by code_simp
  have v: "prefixes_valid [sample_proxy]" by (simp add: prefixes_valid_def sample_proxy_def prefix_valid_def bit_len_def)
  have p: "peerAddrFromRequest sample_text (Some sample_forged) = Some (Addr4 0x0A000001)" by code_simp
  have hops: "raw_hops (header_values (ir_Header sample_forged) (header_of sample_proxy)) = [''8.8.8.8''] @ '' 9.9.9.9'' # ['' 10.0.0.1'']"
    "parseBareIP sample_text '' 9.9.9.9'' = Some (Addr4 0x09090909)" "parseBareIP sample_text '' 10.0.0.1'' = Some (Addr4 0x0A000001)" by code_simp+
  have blocks: "names_block sample_proxy (Addr4 0x0A000001)" "\<not> names_block sample_proxy (Addr4 0x09090909)" "tp_Enabled sample_proxy" "chain_mode sample_proxy"
    by (simp_all add: names_block_def sample_proxy_def in_block_def block_bits_def chain_mode_def TrustedProxyHeaderTrustedChain_def)
  have dom: "in_domain [sample_proxy] (header_of sample_proxy) a \<longleftrightarrow> names_block sample_proxy a" for a using blocks(3,4) by (simp add: in_domain_def)
  note T = client_identity_unspoofable [OF r v p refl, THEN conjunct2, THEN conjunct1, rule_format, of sample_proxy "[''8.8.8.8'']" "'' 9.9.9.9''" "['' 10.0.0.1'']"]
  have k: "\<not> ci_Unknown (Resolve sample_text (Some r) (Some sample_forged))" using known unfolding r by simp
  have "ci_Resolved (Resolve sample_text (Some r) (Some sample_forged)) = Some (Addr4 0x09090909)"
    by (rule T) (use blocks k hops dom in simp_all)
  with r k show ?thesis by blast
qed

section \<open>What the upstream is told\<close>

lemma delete_names: "map_of (foldl (\<lambda>h name. AList.delete name h) h names) k = (if k \<in> set names then None else map_of h k)"
  by (induction names arbitrary: h) (auto simp: delete_conv')

lemma del_names: "map_of (foldl (\<lambda>h name. header_del name h) h names) k = (if k \<in> canonical_header ` set names then None else map_of h k)"
  by (induction names arbitrary: h) (auto simp: header_del_def delete_conv')

lemma map_of_header_set: "map_of (header_set name v h) k = (if k = canonical_header name then Some [v] else map_of h k)"
  by (simp add: header_set_def)

lemma canonical_forwarded:
  "canonical_header ''X-Real-IP'' = ''X-Real-Ip''" "canonical_header ''X-Forwarded-For'' = ''X-Forwarded-For''" "canonical_header ''X-Forwarded-Host'' = ''X-Forwarded-Host''"
  "canonical_header ''X-Forwarded-Proto'' = ''X-Forwarded-Proto''" "canonical_header ''X-Forwarded-Port'' = ''X-Forwarded-Port''"
  by code_simp+

definition proxy_headers :: "string list" where
  "proxy_headers = [''X-Forwarded-For'', ''X-Real-Ip'', ''X-Forwarded-Host'', ''X-Forwarded-Proto'', ''X-Forwarded-Port'']"

lemma proxy_headers_fixed: "set proxy_headers \<subseteq> set publicForwardedIdentityHeaderNames"
  by (simp add: proxy_headers_def publicForwardedIdentityHeaderNames_def)

definition identity_ip :: "addr_text \<Rightarrow> ClientIdentity \<Rightarrow> string list option" where
  "identity_ip N i = (if ci_Unknown i then None else map_option (\<lambda>a. [addr_string N a]) (ci_Resolved i))"

lemma resolved_context:
  assumes "ResolveRequest N r (Some q) = Some q'"
  shows "ClientIdentityFromContext (Some (ir_Context q')) = Some (Resolve N r (Some q))" "ClientIdentityHeaderNames (Some (ir_Context q')) = ConfiguredHeaderNames r"
    "ClientIdentityResolved (Some (ir_Context q')) = (if ci_Unknown (Resolve N r (Some q)) then None else ci_Resolved (Resolve N r (Some q)))"
  using assms by (auto simp: ResolveRequest_def ClientIdentityFromContext_def ClientIdentityHeaderNames_def ConfiguredHeaderNames_def ClientIdentityResolved_def split: option.splits)

text \<open>C17: the upstream learns the resolved address and nothing a visitor made up. For a request with a resolved identity, the headers that name the visitor are the resolved
  address, or absent when the visitor is unknown; every other well-known client address header and every header that is configured for a proxy, enabled or not, is absent,
  whatever the incoming request carried. Safety.\<close>
theorem upstream_identity_headers:
  assumes "ResolveRequest N r (Some q) = Some q'" "\<And>a. addr_string N a \<noteq> ''''"
  shows "map_of (applyTrustedForwardedHeaders N out (Some q') listener) ''X-Forwarded-For'' = identity_ip N (Resolve N r (Some q)) \<and>
    map_of (applyTrustedForwardedHeaders N out (Some q') listener) ''X-Real-Ip'' = identity_ip N (Resolve N r (Some q)) \<and>
    (\<forall>name \<in> set publicForwardedIdentityHeaderNames \<union> canonical_header ` set (ConfiguredHeaderNames r). name \<notin> set proxy_headers \<longrightarrow>
       map_of (applyTrustedForwardedHeaders N out (Some q') listener) name = None)"
proof -
  let ?i = "Resolve N r (Some q)"
  let ?h = "applyTrustedForwardedHeaders N out (Some q') listener"
  define h2 where "h2 = foldl (\<lambda>h name. header_del name h) (foldl (\<lambda>h name. AList.delete name h) out publicForwardedIdentityHeaderNames) (ConfiguredHeaderNames r)"
  have h2: "map_of h2 k = None" if "k \<in> set publicForwardedIdentityHeaderNames \<union> canonical_header ` set (ConfiguredHeaderNames r)" for k
    using that by (auto simp: h2_def del_names delete_names)
  define ip where "ip = (case if ci_Unknown ?i then None else ci_Resolved ?i of Some addr \<Rightarrow> addr_string N addr | None \<Rightarrow> '''')"
  define host where "host = normalizeRequestHost (ir_Host q')"
  define proto where "proto = forwardedProtoForPublicListener (fst listener)"
  define port where "port = forwardedPortForPublicListener (snd listener) proto"
  define h3 where "h3 = (if ip \<noteq> '''' then header_set ''X-Real-IP'' ip (header_set ''X-Forwarded-For'' ip h2) else h2)"
  have h: "?h = header_set ''X-Forwarded-Port'' port (header_set ''X-Forwarded-Proto'' proto (if host \<noteq> '''' then header_set ''X-Forwarded-Host'' host h3 else h3))"
    unfolding applyTrustedForwardedHeaders_def Let_def option.case resolved_context [OF assms(1)] ip_def host_def proto_def port_def h3_def h2_def ..
  have m: "map_of ?h k = (if k = ''X-Forwarded-Port'' then Some [port] else if k = ''X-Forwarded-Proto'' then Some [proto]
      else if host \<noteq> '''' \<and> k = ''X-Forwarded-Host'' then Some [host] else if ip \<noteq> '''' \<and> (k = ''X-Real-Ip'' \<or> k = ''X-Forwarded-For'') then Some [ip] else map_of h2 k)" for k
    unfolding h map_of_header_set canonical_forwarded h3_def by (cases "host = ''''"; cases "ip = ''''") (simp_all add: map_of_header_set canonical_forwarded)
  have none: "map_of h2 k = None" if "k \<in> set proxy_headers" for k using that h2 proxy_headers_fixed by blast
  have "identity_ip N ?i = (if ip \<noteq> '''' then Some [ip] else None)" using assms(2) by (simp add: identity_ip_def ip_def split: option.split)
  then have "map_of ?h ''X-Forwarded-For'' = identity_ip N ?i" "map_of ?h ''X-Real-Ip'' = identity_ip N ?i" by (simp_all add: m none proxy_headers_def)
  moreover have "map_of ?h k = None" if "k \<in> set publicForwardedIdentityHeaderNames \<union> canonical_header ` set (ConfiguredHeaderNames r)" "k \<notin> set proxy_headers" for k
    using that(2) h2 [OF that(1)] by (simp add: m proxy_headers_def)
  ultimately show ?thesis by (intro conjI ballI impI) assumption+
qed

theorem upstream_identity_headers_witness:
  "\<exists>q'. ResolveRequest sample_text (Some (projr (NewClientIdentityResolver [sample_proxy] \<lparr>op_MaxHeaderBytes = 0, op_MaxHops = 0\<rparr>))) (Some sample_forged) = Some q' \<and>
     map_of (applyTrustedForwardedHeaders sample_text (ir_Header sample_forged) (Some q') (''https'', 443)) ''X-Forwarded-For'' = Some [''9.9.9.9'']"
proof -
  let ?r = "Some (projr (NewClientIdentityResolver [sample_proxy] \<lparr>op_MaxHeaderBytes = 0, op_MaxHops = 0\<rparr>))"
  obtain q' where q': "ResolveRequest sample_text ?r (Some sample_forged) = Some q'" by (simp add: ResolveRequest_def)
  have "addr_string sample_text a \<noteq> ''''" for a by (simp add: sample_text_def)
  note T = upstream_identity_headers [OF q' this, of "ir_Header sample_forged" "(''https'', 443)"]
  have "identity_ip sample_text (Resolve sample_text ?r (Some sample_forged)) = Some [''9.9.9.9'']" by code_simp
  with T q' show ?thesis by auto
qed

text \<open>The other readers of the context see the same address, or the text they use for a missing one.\<close>

lemma identity_readers:
  assumes "ResolveRequest N r (Some q) = Some q'"
  shows "publicRequestResolvedAddr N (Some q') = (if ci_Unknown (Resolve N r (Some q)) then None else ci_Resolved (Resolve N r (Some q)))"
    and "publicAccessRequestClientIP N (Some q') = (case publicRequestResolvedAddr N (Some q') of Some a \<Rightarrow> addr_string N a | None \<Rightarrow> '''')"
    and "publicPolicyMatchRequestRemoteIP N (Some q') = publicAccessRequestClientIP N (Some q')"
  by (simp_all add: publicRequestResolvedAddr_def publicAccessRequestClientIP_def publicPolicyMatchRequestRemoteIP_def resolved_context [OF assms])

lemma unknown_peer_unresolved: "peerAddrFromRequest N req = None \<Longrightarrow> ci_Unknown (Resolve N r req) \<and> ci_Resolved (Resolve N r req) = None"
  by (simp add: Resolve_def)

section \<open>A trusted peer is known exactly when its sources agree\<close>

lemma agree_complete:
  "agree N r header resolved ms = Inr (if ms = [] then resolved else Some c) \<longleftrightarrow>
     (\<forall>s \<in> set ms. resolveSource N r header s = Inr c) \<and> (ms \<noteq> [] \<longrightarrow> resolved = None \<or> resolved = Some c)"
proof
  assume a: "agree N r header resolved ms = Inr (if ms = [] then resolved else Some c)"
  show "(\<forall>s \<in> set ms. resolveSource N r header s = Inr c) \<and> (ms \<noteq> [] \<longrightarrow> resolved = None \<or> resolved = Some c)"
    using agree_all [OF a] by (cases "ms = []") auto
next
  assume "(\<forall>s \<in> set ms. resolveSource N r header s = Inr c) \<and> (ms \<noteq> [] \<longrightarrow> resolved = None \<or> resolved = Some c)"
  then show "agree N r header resolved ms = Inr (if ms = [] then resolved else Some c)"
    by (induction ms arbitrary: resolved) (auto split: if_splits)
qed

text \<open>C32: a forwarded request fails closed. When the peer is a trusted proxy, the visitor is known as an address exactly when every source that trusts this peer reads
  that address from its header; a missing, malformed or too long header, or two sources that disagree, make the visitor unknown. Error.\<close>
theorem forwarded_identity_fails_closed:
  assumes "peerAddrFromRequest N (Some q) = Some peer" "matching_sources r peer \<noteq> []"
  shows "(\<not> ci_Unknown (Resolve N (Some r) (Some q)) \<and> ci_Resolved (Resolve N (Some r) (Some q)) = Some a) \<longleftrightarrow>
    (\<forall>s \<in> set (matching_sources r peer). resolveSource N r (ir_Header q) s = Inr a)"
proof -
  have ne: "cr_sources r \<noteq> []" using assms(2) by (auto simp: matching_sources_def)
  let ?g = "agree N r (ir_Header q) None (matching_sources r peer)"
  have "(\<not> ci_Unknown (Resolve N (Some r) (Some q)) \<and> ci_Resolved (Resolve N (Some r) (Some q)) = Some a) \<longleftrightarrow> ?g = Inr (Some a)"
    using assms ne by (auto simp: Resolve_def unresolvedTrustedIdentity_def Let_def split: sum.splits)
  then show ?thesis using agree_complete [of N r "ir_Header q" None "matching_sources r peer" a] assms(2) by simp
qed

theorem forwarded_identity_fails_closed_witness:
  "\<exists>r. NewClientIdentityResolver [sample_proxy] \<lparr>op_MaxHeaderBytes = 0, op_MaxHops = 0\<rparr> = Inr r \<and> matching_sources r (Addr4 0x0A000001) \<noteq> [] \<and>
     \<not> (\<not> ci_Unknown (Resolve sample_text (Some r) (Some (sample_forged\<lparr>ir_Header := []\<rparr>))) \<and>
        ci_Resolved (Resolve sample_text (Some r) (Some (sample_forged\<lparr>ir_Header := []\<rparr>))) = Some (Addr4 0x09090909))"
proof -
  let ?o = "\<lparr>op_MaxHeaderBytes = 0, op_MaxHops = 0\<rparr>"
  let ?r = "projr (NewClientIdentityResolver [sample_proxy] ?o)"
  let ?q = "sample_forged\<lparr>ir_Header := []\<rparr>"
  have "\<not> isl (NewClientIdentityResolver [sample_proxy] ?o)" by code_simp
  then have r: "NewClientIdentityResolver [sample_proxy] ?o = Inr ?r" by (cases "NewClientIdentityResolver [sample_proxy] ?o") auto
  have p: "peerAddrFromRequest sample_text (Some ?q) = Some (Addr4 0x0A000001)" by code_simp
  have m: "matching_sources ?r (Addr4 0x0A000001) \<noteq> []" by code_simp
  then obtain s where "s \<in> set (matching_sources ?r (Addr4 0x0A000001))" by (cases "matching_sources ?r (Addr4 0x0A000001)") auto
  moreover have "resolveSource sample_text ?r (ir_Header ?q) s = Inl UnknownMissingHeader" by (simp add: resolveSource_def header_values_def)
  ultimately have "\<not> (\<forall>s \<in> set (matching_sources ?r (Addr4 0x0A000001)). resolveSource sample_text ?r (ir_Header ?q) s = Inr (Addr4 0x09090909))" by force
  with forwarded_identity_fails_closed [OF p m, of "Addr4 0x09090909"] r m show ?thesis by blast
qed

end
