(* ===== verification/Spec2Isabelle.thy ===== *)
theory Spec2Isabelle
  imports Prelude LoadBalancer LoginThrottle RateLimiter RateLimitRules LaneOwners TunnelProtocol TunnelResources WaitingRoom
    DestinationAllowlist MemoryPressure AgentCapacity TrafficShaper ShaperRate
    TargetHealth HealthMonitor ClientIdentity
begin

text \<open>
  \<^bold>\<open>p2pstream\<close> is a public reverse proxy with remote agents. A request that reaches a public listener is matched to a
  route and passes the WAF (which may hold it in a waiting room), the rate limiter and the access policies; the load balancer then picks a
  target and, for a target behind an agent, an agent, and the request travels through a multiplexed tunnel that the agent
  keeps open to the server. This library models the parts of the Go code that decide: who is admitted, who is chosen, and what the two
  ends of a tunnel may use. File names below are relative to \<open>src/internal\<close>.

  \<^bold>\<open>How the code is read.\<close>
  \<^item> Every method that runs under one mutex is one function from the state before to the result and the state
  after; a method that releases its lock in between is one function per critical section, and the sections of
  concurrent callers interleave in an inductive reachability relation (\<open>LaneOwners.lane_reach\<close>) or are the steps of a run
  (\<open>Admission.run_steps\<close>).
  \<^item> \<open>time.Now()\<close>, random draws, map iteration orders, cookie and JSON codecs, hashes, and answers of Yamux sessions are
  arguments; a theorem that needs a law of such an argument states it as a hypothesis and has a witness.
  \<^item> \<open>int64\<close> is \<open>int\<close> with
  \<open>i64\<close> where a sum could wrap; \<open>float64\<close> is the rational it denotes with \<open>Float64.fround\<close> after every operation, so
  rounding is part of the theorems; byte-level code uses \<open>8 word\<close> and \<open>32 word\<close>.
  \<^item> A nil dereference, which Go turns into a panic, is a
  value of the model (\<open>None\<close>) and excluded by a theorem.

  \<^bold>\<open>Foundations.\<close> \<open>Prelude\<close>: Go integers, times, maps and results. \<open>GoStrings\<close>: the parts of \<open>strings\<close>, \<open>strconv\<close>, \<open>net\<close>
  and \<open>net/textproto\<close> that are used. \<open>Float64\<close>: IEEE rounding with its monotonicity and error bounds. \<open>BoundedStore\<close>: locale for tables with a size
  limit and protected entries. \<open>Admission\<close>: locales \<open>metered\<close> and \<open>clocked\<close>, which bound the admissions of a
  limiter by its credit and its clock.

  \<^bold>\<open>Components.\<close>
  \<^item> \<open>LoadBalancer\<close> (\<open>server/load_balancer.go\<close>): the selector state and every policy for targets and agents. Smooth weighted round robin is exactly proportional over
    every cycle, round robin visits every candidate, the least-active policies return a minimum, weighted
    random draws are proportional, selections are sound and reconciliation keeps exactly the live keys. The three stateful policies interpret the locale
    \<open>selector\<close>.
  \<^item> \<open>LoginThrottle\<close> (\<open>server/login_throttle.go\<close>): failures, reservations and lockouts per account and per source. Reservations are accounted for
    in every interleaving, at most the budget of wrong guesses gets through per window, a lockout survives table pressure, and the table
    interprets \<open>bounded_store\<close>.
  \<^item> \<open>RateLimiter\<close> and \<open>RateLimitRules\<close> (\<open>server/rate_limiter.go\<close> and helpers): the four algorithms, key construction, the rule loop, pruning and
    eviction, and the validation of rules. The limits and rates are proved from the code (the buckets interpret \<open>clocked\<close> and are bounded in spite of
    floating point), \<open>Retry-After\<close> is exact, keys of different parts never collide given an injective hash, stored rules validate
    again. One theorem records that idle pruning forgets a long window.
  \<^item> \<open>LaneOwners\<close> (\<open>tunnel/lane_owners.go\<close>): which session serves a lane, replacement, idle takeover, growth reservations and the phases of \<open>Close\<close>.
    By rule induction over all interleavings: at most one serving owner, exact and bounded memory ledgers, no nil slot, nothing held
    after removal; and \<open>Close\<close> completes.
  \<^item> \<open>TunnelProtocol\<close> (\<open>tunnel/protocol.go\<close>, \<open>tunnel/frame.go\<close>, \<open>tunnel/lane_retirement.go\<close>): headers, lanes, open requests and frames. Frames round-trip, readers are bounded, the
    flow-control parser accepts exactly one offer, and what the headers admit the lane registry can own.
  \<^item> \<open>TunnelResources\<close> (\<open>tunnel/yamux.go\<close>, \<open>tunnel/receive_window_growth.go\<close>, \<open>tunnel/stream_limiter.go\<close> and the vendored functions they
    call): accounting never overflows for a validated configuration, configurations pass \<open>VerifyConfig\<close>, growth proposals are bounded.
  \<^item> \<open>WaitingRoom\<close> (\<open>server/public_waf_waiting_room.go\<close>): the locale \<open>session_fifo\<close> is the contract, the slice with its head and its two maps is shown to
    refine it; admission is first come first served, bounded, and keeps moving.
  \<^item> \<open>DestinationAllowlist\<close> (\<open>agent/destination_allowlist.go\<close>): the rules an agent's operator gives and the dial decision. Only admitted
    addresses are dialled, a resolved name at the very address that was checked; the stored prefixes denote the right blocks; the
    default admits loopback only.
  \<^item> \<open>MemoryPressure\<close> (\<open>sysmetrics/memory_pressure.go\<close>): samples become a pressure level with hysteresis and an admission limit. What is allowed fits every
    sampled constraint, the hard limit and failed samples reject new work, and the controller interprets the locale \<open>admission_controller\<close>, the contract its
    clients rely on.
  \<^item> \<open>AgentCapacity\<close> (\<open>agent/adaptive_capacity.go\<close>): ordinary streams, prepaid control sessions and receive memory of an agent. All ledgers are exact in
    every interleaving, every admission is covered by the snapshot that admitted it (through the laws of \<open>admission_controller\<close>), failures roll back. The scavenging goroutine is a
    transition system of atomic operations: at most one worker frees memory, but a signal can be consumed without a pass.
  \<^item> \<open>TrafficShaper\<close> and \<open>ShaperRate\<close> (\<open>server/public_traffic_shaper.go\<close>): byte token buckets shared by the connections of a key, kept in a store of cells so that sharing is visible; rule choice, the
    wrappers around bodies, validation. The bucket tables interpret \<open>bounded_store\<close>; budgets are never mixed up, transfers are charged exactly, what is
    taken in any span of time is bounded in spite of floating point, and waits end. A lemma shows why the clock readings have to be ordered.
  \<^item> \<open>TargetHealth\<close> and \<open>HealthMonitor\<close> (\<open>server/public_target_health.go\<close>): the health of targets and of the agents of a target, how a check is judged, and the monitor whose goroutines
    run the checks. Health is a function of the recent outcomes, applying a configuration starts exactly the missing checks, results for an outdated configuration are
    dropped in every interleaving of the transition system \<open>health_step\<close>, what is shown agrees with what is routed, traces are bounded. A lemma shows how a target that is
    removed and configured again can take an old result.
  \<^item> \<open>ClientIdentity\<close> (\<open>server/client_identity.go\<close>, \<open>applyTrustedForwardedHeaders\<close> of \<open>server/public_routing.go\<close>): trusted proxies and the address a visitor is seen with. It cannot be
    forged, stated over the configuration and the blocks it names (with the lemmas of \<open>DestinationAllowlist\<close>); discrepancies make the visitor unknown; the upstream gets the
    resolved address only.

  \<^bold>\<open>Loops and fuel.\<close> No definition uses fuel: every loop is structural or has a termination proof (\<open>Float64.bit_length\<close>,
  \<open>WaitingRoom.prune_head\<close>, \<open>GoStrings.format_uint\<close>). \<open>TrafficShaper.wait_spends\<close>, a loop on floats, is a \<open>partial_function\<close> whose value is proved to exist; the
  loops that run until a clock or a connection lets them end (\<open>waitForSpend\<close>, \<open>shaping_write\<close>) take the sequence of answers, with \<open>None\<close> when it ends before the
  loop does, and three answers are proved to be enough for \<open>waitForSpend\<close>.

  \<^bold>\<open>Not modelled.\<close> Generated code (\<open>db/query.sql.go\<close>, \<open>gen/proto\<close>), the multiplexer under \<open>third_party\<close> beyond the functions named above, socket and file
  I/O, cryptography, certificates, HTML pages and dashboards. Public caching, retries, the server-side
  stream capacity and the update rollout are pure enough to follow in the same style and are
  the next steps.
\<close>

end
